(* ===== verification/Prelude.thy ===== *)
theory Prelude
  imports Main "HOL-Library.Word" "HOL-Library.AList"
begin

text \<open>
  Shared vocabulary of the development: Go strings as byte lists, the functions of
  Go's \<^verbatim>\<open>strings\<close>, \<^verbatim>\<open>unicode/utf8\<close> and \<^verbatim>\<open>strconv\<close> packages the sources call, and
  signed 64-bit arithmetic.

  A Go string is a sequence of bytes; \<^typ>\<open>string\<close> is a list of \<^typ>\<open>char\<close>, and a
  \<^typ>\<open>char\<close> is a byte, so lengths, slices and indexes mean what they mean in Go.
  Case folding is the ASCII part of Go's function: the identifiers, header values, model
  names and keys it is applied to are ASCII, and Go's extra Unicode cases are not modelled.
\<close>

unbundle bit_operations_syntax

named_theorems go_defs \<open>definitions of library functions, to unfold on concrete strings\<close>
named_theorems wf_intros \<open>preservation of well-formedness, one fact per operation\<close>

subsection \<open>Bytes and characters\<close>

type_synonym byte = "8 word"

definition byte_of :: "char \<Rightarrow> nat" where
  "byte_of c = of_char c"

lemma byte_of_less [simp]: "byte_of c < 256"
  by (simp add: byte_of_def)

lemma byte_of_inj [simp]: "byte_of c = byte_of d \<longleftrightarrow> c = d"
  by (simp add: byte_of_def)

lemma char_of_byte_of [simp]: "char_of (byte_of c) = c"
  by (simp add: byte_of_def)

definition is_space :: "char \<Rightarrow> bool" where
  "is_space c \<longleftrightarrow> c \<in> {CHR '' '', CHR 0x09, CHR 0x0A, CHR 0x0B, CHR 0x0C, CHR 0x0D}"

lemma byte_of_char_of: "k < 256 \<Longrightarrow> byte_of (char_of k) = k"
  by (simp add: byte_of_def)

definition lower_char :: "char \<Rightarrow> char" where
  "lower_char c = (if 65 \<le> byte_of c \<and> byte_of c \<le> 90 then char_of (byte_of c + 32) else c)"

lemma lower_char_idem [simp]: "lower_char (lower_char c) = lower_char c"
  by (auto simp: lower_char_def byte_of_def)

lemma byte_of_lower: "byte_of (lower_char c) = (if 65 \<le> byte_of c \<and> byte_of c \<le> 90 then byte_of c + 32 else byte_of c)"
  by (simp add: lower_char_def byte_of_char_of)

subsection \<open>The strings package\<close>

definition to_lower :: "string \<Rightarrow> string" where
  "to_lower s = map lower_char s"

definition equal_fold :: "string \<Rightarrow> string \<Rightarrow> bool" where
  "equal_fold s t \<longleftrightarrow> to_lower s = to_lower t"

definition has_prefix :: "string \<Rightarrow> string \<Rightarrow> bool" where
  "has_prefix s p \<longleftrightarrow> take (length p) s = p"

text \<open>
  \<^verbatim>\<open>strings.TrimSpace\<close>: the white space of \<^verbatim>\<open>unicode.IsSpace\<close>, by its UTF-8 encodings, none of
  which is a prefix or a suffix of another.
\<close>

definition space_runes :: "string list" where
  "space_runes = [[CHR '' ''], [CHR 0x09], [CHR 0x0A], [CHR 0x0B], [CHR 0x0C], [CHR 0x0D],
     [CHR 0xC2, CHR 0x85], [CHR 0xC2, CHR 0xA0], [CHR 0xE1, CHR 0x9A, CHR 0x80],
     [CHR 0xE2, CHR 0x80, CHR 0x80], [CHR 0xE2, CHR 0x80, CHR 0x81], [CHR 0xE2, CHR 0x80, CHR 0x82],
     [CHR 0xE2, CHR 0x80, CHR 0x83], [CHR 0xE2, CHR 0x80, CHR 0x84], [CHR 0xE2, CHR 0x80, CHR 0x85],
     [CHR 0xE2, CHR 0x80, CHR 0x86], [CHR 0xE2, CHR 0x80, CHR 0x87], [CHR 0xE2, CHR 0x80, CHR 0x88],
     [CHR 0xE2, CHR 0x80, CHR 0x89], [CHR 0xE2, CHR 0x80, CHR 0x8A], [CHR 0xE2, CHR 0x80, CHR 0xA8],
     [CHR 0xE2, CHR 0x80, CHR 0xA9], [CHR 0xE2, CHR 0x80, CHR 0xAF], [CHR 0xE2, CHR 0x81, CHR 0x9F],
     [CHR 0xE3, CHR 0x80, CHR 0x80]]"

function strip_units :: "string list \<Rightarrow> string \<Rightarrow> string" where
  "strip_units us s =
     (case find (\<lambda>u. u \<noteq> [] \<and> has_prefix s u) us of
        None \<Rightarrow> s | Some u \<Rightarrow> strip_units us (drop (length u) s))"
  by pat_completeness auto
termination
proof (relation "measure (\<lambda>(us, s). length s)", goal_cases)
  case (2 us s u)
  then have "u \<noteq> []" "take (length u) s = u" by (auto simp: find_Some_iff has_prefix_def)
  then have "s \<noteq> []" "u \<noteq> []" by auto
  then show ?case by simp
qed auto

declare strip_units.simps [simp del]

definition trim_left :: "string \<Rightarrow> string" where
  "trim_left s = strip_units space_runes s"

definition trim_right :: "string \<Rightarrow> string" where
  "trim_right s = rev (strip_units (map rev space_runes) (rev s))"

definition trim_space :: "string \<Rightarrow> string" where
  "trim_space s = trim_right (trim_left s)"

definition has_suffix :: "string \<Rightarrow> string \<Rightarrow> bool" where
  "has_suffix s p \<longleftrightarrow> length p \<le> length s \<and> drop (length s - length p) s = p"

definition trim_suffix :: "string \<Rightarrow> string \<Rightarrow> string" where
  "trim_suffix s p = (if has_suffix s p then take (length s - length p) s else s)"

text \<open>\<open>index_from i s p\<close> is \<^verbatim>\<open>strings.Index\<close> shifted by \<open>i\<close>; None is Go's -1.\<close>

fun index_str :: "string \<Rightarrow> string \<Rightarrow> nat option" where
  "index_str [] p = (if p = [] then Some 0 else None)"
| "index_str (c # s) p =
     (if has_prefix (c # s) p then Some 0 else map_option Suc (index_str s p))"

definition contains_str :: "string \<Rightarrow> string \<Rightarrow> bool" where
  "contains_str s p \<longleftrightarrow> index_str s p \<noteq> None"

definition index_byte :: "string \<Rightarrow> char \<Rightarrow> nat option" where
  "index_byte s c = index_str s [c]"

fun last_index_byte :: "string \<Rightarrow> char \<Rightarrow> nat option" where
  "last_index_byte [] c = None"
| "last_index_byte (d # s) c =
     (case last_index_byte s c of Some i \<Rightarrow> Some (Suc i)
      | None \<Rightarrow> if d = c then Some 0 else None)"

fun split_on :: "char \<Rightarrow> string \<Rightarrow> string list" where
  "split_on c [] = [[]]"
| "split_on c (d # s) =
     (if d = c then [] # split_on c s
      else (case split_on c s of [] \<Rightarrow> [[d]] | p # ps \<Rightarrow> (d # p) # ps))"

definition replace_char :: "char \<Rightarrow> char \<Rightarrow> string \<Rightarrow> string" where
  "replace_char a b s = map (\<lambda>c. if c = a then b else c) s"

fun join_str :: "string \<Rightarrow> string list \<Rightarrow> string" where
  "join_str sep [] = []"
| "join_str sep [s] = s"
| "join_str sep (s # t # ts) = s @ sep @ join_str sep (t # ts)"

lemmas go_string_defs [go_defs] =
  to_lower_def equal_fold_def has_prefix_def has_suffix_def
  trim_suffix_def contains_str_def index_byte_def replace_char_def
  is_space_def lower_char_def byte_of_def

subsection \<open>Facts about the string functions\<close>

lemma to_lower_append: "to_lower (s @ t) = to_lower s @ to_lower t"
  by (simp add: to_lower_def)

lemma to_lower_Cons: "to_lower (c # s) = lower_char c # to_lower s"
  by (simp add: to_lower_def)

lemma to_lower_idem [simp]: "to_lower (to_lower s) = to_lower s"
  by (simp add: to_lower_def)

lemma length_to_lower [simp]: "length (to_lower s) = length s"
  by (simp add: to_lower_def)

lemma has_prefix_iff: "has_prefix s p \<longleftrightarrow> (\<exists>r. s = p @ r)"
  unfolding has_prefix_def by (metis append_eq_conv_conj append_take_drop_id)

lemma has_prefix_append [simp]: "has_prefix (p @ r) p"
  by (simp add: has_prefix_def)

lemma has_prefix_Nil [simp]: "has_prefix s []"
  by (simp add: has_prefix_def)

lemma has_suffix_iff: "has_suffix s p \<longleftrightarrow> (\<exists>r. s = r @ p)"
proof
  assume "has_suffix s p"
  then show "\<exists>r. s = r @ p"
    unfolding has_suffix_def by (metis append_take_drop_id)
qed (auto simp: has_suffix_def)

lemma trim_suffix_append [simp]: "trim_suffix (s @ p) p = s"
  by (simp add: trim_suffix_def has_suffix_def)

lemma trim_suffix_shorter:
  "has_suffix s p \<Longrightarrow> p \<noteq> [] \<Longrightarrow> length (trim_suffix s p) < length s"
  by (auto simp: trim_suffix_def has_suffix_iff)

text \<open>
  \<open>index_str\<close> finds an occurrence, and none starts earlier.
\<close>

lemma index_str_Some:
  "index_str s p = Some i \<Longrightarrow> i \<le> length s \<and> has_prefix (drop i s) p"
proof (induction s arbitrary: i)
  case Nil
  then show ?case by (auto split: if_splits)
next
  case (Cons c s)
  then show ?case by (auto split: if_splits)
qed

lemma index_str_least:
  "index_str s p = Some i \<Longrightarrow> j < i \<Longrightarrow> \<not> has_prefix (drop j s) p"
proof (induction s arbitrary: i j)
  case Nil
  then show ?case by (auto split: if_splits)
next
  case (Cons c s)
  then show ?case by (cases j) (auto split: if_splits)
qed

lemma index_str_None:
  "index_str s p = None \<longleftrightarrow> (\<forall>i \<le> length s. \<not> has_prefix (drop i s) p)"
proof (induction s)
  case Nil
  then show ?case by (auto simp: has_prefix_def)
next
  case (Cons c s)
  have "(\<forall>i \<le> length (c # s). \<not> has_prefix (drop i (c # s)) p) \<longleftrightarrow>
        \<not> has_prefix (c # s) p \<and> (\<forall>i \<le> length s. \<not> has_prefix (drop i s) p)"
    by (metis (no_types, lifting) Suc_le_mono bot_nat_0.extremum drop0 drop_Suc_Cons
        length_Cons not0_implies_Suc)
  with Cons show ?case by simp
qed

lemma contains_str_iff: "contains_str s p \<longleftrightarrow> (\<exists>a b. s = a @ p @ b)"
proof
  assume "contains_str s p"
  then obtain i where "index_str s p = Some i" by (auto simp: contains_str_def)
  from index_str_Some [OF this] obtain r where "drop i s = p @ r"
    by (auto simp: has_prefix_iff)
  then show "\<exists>a b. s = a @ p @ b" by (metis append_take_drop_id)
next
  assume "\<exists>a b. s = a @ p @ b"
  then obtain a b where s: "s = a @ p @ b" by blast
  then have "has_prefix (drop (length a) s) p" "length a \<le> length s" by simp_all
  then show "contains_str s p" by (auto simp: contains_str_def index_str_None)
qed

lemma contains_str_append_left: "contains_str s p \<Longrightarrow> contains_str (s @ t) p"
  by (metis append.assoc contains_str_iff)

lemma split_on_nonempty [simp]: "split_on c s \<noteq> []"
  by (induction s) (auto split: list.splits)

lemma find_eq: "x \<in> set xs \<Longrightarrow> find (\<lambda>y. y = x) xs = Some x"
  by (induction xs) auto

lemma strip_units_suffix: "\<exists>a. s = a @ strip_units us s"
proof (induction us s rule: strip_units.induct)
  case (1 us s)
  show ?case
  proof (cases "find (\<lambda>u. u \<noteq> [] \<and> has_prefix s u) us")
    case (Some u)
    with 1 obtain a where "drop (length u) s = a @ strip_units us s"
      by (auto simp: strip_units.simps [of us s])
    then have "s = (take (length u) s @ a) @ strip_units us s"
      by (metis append.assoc append_take_drop_id)
    then show ?thesis by blast
  qed (simp add: strip_units.simps)
qed

lemma strip_units_done:
  "u \<in> set us \<Longrightarrow> u \<noteq> [] \<Longrightarrow> \<not> has_prefix (strip_units us s) u"
proof (induction us s rule: strip_units.induct)
  case (1 us s)
  then show ?case
  proof (cases "find (\<lambda>u. u \<noteq> [] \<and> has_prefix s u) us")
    case None
    then have "strip_units us s = s" by (simp add: strip_units.simps [of us s])
    with None 1 show ?thesis by (auto simp: find_None_iff)
  qed (auto simp: strip_units.simps [of us s])
qed

lemma strip_units_id:
  "\<forall>u \<in> set us. u \<noteq> [] \<longrightarrow> \<not> has_prefix s u \<Longrightarrow> strip_units us s = s"
proof -
  assume "\<forall>u \<in> set us. u \<noteq> [] \<longrightarrow> \<not> has_prefix s u"
  then have "find (\<lambda>u. u \<noteq> [] \<and> has_prefix s u) us = None" by (auto simp: find_None_iff)
  then show "strip_units us s = s" by (simp add: strip_units.simps [of us s])
qed

lemma space_runes_nonempty: "[] \<notin> set space_runes"
  by (simp add: space_runes_def)

lemma trim_left_done: "u \<in> set space_runes \<Longrightarrow> \<not> has_prefix (trim_left s) u"
  unfolding trim_left_def using strip_units_done space_runes_nonempty by metis

lemma trim_right_done: "u \<in> set space_runes \<Longrightarrow> \<not> has_suffix (trim_right s) u"
proof
  assume u: "u \<in> set space_runes" and "has_suffix (trim_right s) u"
  then obtain a where "rev (trim_right s) = rev u @ a"
    by (metis has_suffix_iff rev_append)
  then have "has_prefix (strip_units (map rev space_runes) (rev s)) (rev u)"
    by (simp add: trim_right_def)
  moreover have "rev u \<noteq> []" using u space_runes_nonempty by auto
  ultimately show False using strip_units_done [of "rev u" "map rev space_runes"] u by auto
qed

lemma trim_left_id: "\<forall>u \<in> set space_runes. \<not> has_prefix s u \<Longrightarrow> trim_left s = s"
  unfolding trim_left_def by (rule strip_units_id) auto

lemma trim_right_id: "\<forall>u \<in> set space_runes. \<not> has_suffix s u \<Longrightarrow> trim_right s = s"
proof -
  assume a: "\<forall>u \<in> set space_runes. \<not> has_suffix s u"
  have "strip_units (map rev space_runes) (rev s) = rev s"
  proof (rule strip_units_id, intro ballI impI notI)
    fix v assume "v \<in> set (map rev space_runes)" "has_prefix (rev s) v"
    then obtain u r where "u \<in> set space_runes" "rev s = rev u @ r" by (auto simp: has_prefix_iff)
    then have "s = rev r @ u" by (metis rev_append rev_rev_ident)
    with a \<open>u \<in> set space_runes\<close> show False by (auto simp: has_suffix_iff)
  qed
  then show ?thesis by (simp add: trim_right_def)
qed

lemma trim_space_id:
  "\<forall>u \<in> set space_runes. \<not> has_prefix s u \<and> \<not> has_suffix s u \<Longrightarrow> trim_space s = s"
  by (simp add: trim_space_def trim_left_id trim_right_id)

lemma trim_right_prefix: "\<exists>a. s = trim_right s @ a"
proof -
  obtain a where "rev s = a @ strip_units (map rev space_runes) (rev s)"
    using strip_units_suffix by blast
  then have "s = trim_right s @ rev a"
    unfolding trim_right_def by (metis rev_append rev_rev_ident)
  then show ?thesis by blast
qed

lemma trim_space_done:
  assumes "u \<in> set space_runes"
  shows "\<not> has_prefix (trim_space s) u \<and> \<not> has_suffix (trim_space s) u"
proof -
  obtain a where "trim_left s = trim_space s @ a"
    using trim_right_prefix unfolding trim_space_def by blast
  then have "has_prefix (trim_space s) u \<Longrightarrow> has_prefix (trim_left s) u"
    by (auto simp: has_prefix_iff)
  with trim_left_done [OF assms] trim_right_done [OF assms] show ?thesis
    unfolding trim_space_def by blast
qed

lemma trim_space_idem [simp]: "trim_space (trim_space s) = trim_space s"
  by (rule trim_space_id) (blast dest: trim_space_done)

lemma trim_space_Nil [simp]: "trim_space [] = []"
  by (rule trim_space_id) (auto simp: space_runes_def has_prefix_def has_suffix_def)

lemma space_runes_ascii:
  "u \<in> set space_runes \<Longrightarrow> c \<in> set u \<Longrightarrow> byte_of c < 0x80 \<Longrightarrow> u = [c] \<and> is_space c"
proof -
  have "\<forall>u \<in> set space_runes. (\<forall>c \<in> set u. 0x80 \<le> byte_of c) \<or> (\<exists>c. u = [c] \<and> is_space c)"
    by (simp add: space_runes_def is_space_def byte_of_def)
  then show "u \<in> set space_runes \<Longrightarrow> c \<in> set u \<Longrightarrow> byte_of c < 0x80 \<Longrightarrow> u = [c] \<and> is_space c"
    by fastforce
qed

lemma trim_space_skip:
  assumes "is_space c"
  shows "trim_space (c # s) = trim_space s"
proof -
  have c: "[c] \<in> set space_runes" "byte_of c < 0x80"
    using assms by (auto simp: is_space_def space_runes_def byte_of_def)
  have "has_prefix (c # s) u \<longleftrightarrow> u = [c]" if "u \<in> set space_runes" for u
    using space_runes_ascii [OF that _ c(2)] that space_runes_nonempty
    by (cases u) (auto simp: has_prefix_iff)
  then have "find (\<lambda>u. u \<noteq> [] \<and> has_prefix (c # s) u) space_runes = find (\<lambda>u. u = [c]) space_runes"
    by (intro find_cong) auto
  also have "\<dots> = Some [c]" using c(1) by (rule find_eq)
  finally have "find (\<lambda>u. u \<noteq> [] \<and> has_prefix (c # s) u) space_runes = Some [c]" .
  then show ?thesis by (simp add: trim_space_def trim_left_def strip_units.simps [of _ "c # s"])
qed

lemma strip_units_keep:
  "\<forall>u \<in> set us. c \<notin> set u \<Longrightarrow> \<exists>r'. strip_units us (r @ c # p) = r' @ c # p"
proof (induction "length r" arbitrary: r rule: less_induct)
  case less
  show ?case
  proof (cases "find (\<lambda>u. u \<noteq> [] \<and> has_prefix (r @ c # p) u) us")
    case None
    then show ?thesis by (simp add: strip_units.simps [of us "r @ c # p"])
  next
    case (Some u)
    then have u: "u \<in> set us" "u \<noteq> []" "has_prefix (r @ c # p) u" by (auto simp: find_Some_iff)
    have le: "length u \<le> length r"
    proof (rule ccontr)
      assume "\<not> ?thesis"
      then have "u ! length r = c" "length r < length u"
        using u(3) by (auto simp: has_prefix_iff nth_append dest!: arg_cong [where f = "\<lambda>xs. xs ! length r"])
      with u(1) less.prems show False using nth_mem by metis
    qed
    with u(2) have "r \<noteq> []" by auto
    with less.hyps [of "drop (length u) r"] less.prems u(2) obtain r' where
      "strip_units us (drop (length u) r @ c # p) = r' @ c # p" by auto
    with Some le show ?thesis by (simp add: strip_units.simps [of us "r @ c # p"])
  qed
qed

lemma trim_right_keep:
  assumes "byte_of c < 0x80" "\<not> is_space c"
  shows "\<exists>r'. trim_right (p @ c # r) = p @ c # r'"
proof -
  have "c \<notin> set u" if "u \<in> set space_runes" for u
    using space_runes_ascii [OF that _ assms(1)] assms(2) by blast
  then obtain r' where "strip_units (map rev space_runes) (rev r @ c # rev p) = r' @ c # rev p"
    using strip_units_keep [of "map rev space_runes" c "rev r" "rev p"] by auto
  then show ?thesis by (auto simp: trim_right_def)
qed

text \<open>A prefix that ends in an ASCII character does not help a space rune at the end.\<close>

lemma ascii_then_suffix:
  assumes "u \<in> set space_runes" "has_suffix (a @ c # v) u" "byte_of c < 0x80" "v \<noteq> []"
  shows "has_suffix v u"
proof -
  from assms(2) obtain r where r: "a @ c # v = r @ u" by (auto simp: has_suffix_iff)
  then consider t where "v = t @ u" | t where "u = t @ c # v"
    by (auto simp: append_eq_append_conv2 Cons_eq_append_conv)
  then show ?thesis
  proof cases
    case 2
    then have "u = [c]" using space_runes_ascii [OF assms(1) _ assms(3)] by auto
    with 2 assms(4) show ?thesis by (cases t) auto
  qed (auto simp: has_suffix_iff)
qed

lemma prefix_then_ascii:
  assumes "u \<in> set space_runes" "has_prefix (v @ c # a) u" "byte_of c < 0x80" "v \<noteq> []"
  shows "has_prefix v u"
proof -
  from assms(2) obtain r where r: "v @ c # a = u @ r" by (auto simp: has_prefix_iff)
  then consider t where "v = u @ t" | t where "u = v @ c # t"
    by (auto simp: append_eq_append_conv2 Cons_eq_append_conv)
  then show ?thesis
  proof cases
    case 2
    then have "u = [c]" using space_runes_ascii [OF assms(1) _ assms(3)] by auto
    with 2 assms(4) show ?thesis by (cases v) auto
  qed (auto simp: has_prefix_iff)
qed

lemma ascii_ends_trim_id:
  assumes "s \<noteq> []" "byte_of (hd s) < 0x80" "\<not> is_space (hd s)" "byte_of (last s) < 0x80"
    "\<not> is_space (last s)"
  shows "trim_space s = s"
proof (rule trim_space_id, intro ballI conjI notI)
  fix u assume u: "u \<in> set space_runes"
  then have ne: "u \<noteq> []" using space_runes_nonempty by metis
  show False if "has_prefix s u"
  proof -
    from that ne have "hd s \<in> set u" by (auto simp: has_prefix_iff)
    with space_runes_ascii [OF u _ assms(2)] assms(3) show ?thesis by blast
  qed
  show False if "has_suffix s u"
  proof -
    from that ne have "last s \<in> set u" by (auto simp: has_suffix_iff)
    with space_runes_ascii [OF u _ assms(4)] assms(5) show ?thesis by blast
  qed
qed

lemma ascii_trim_id:
  "\<forall>c \<in> set s. byte_of c < 0x80 \<and> \<not> is_space c \<Longrightarrow> trim_space s = s"
  by (cases "s = []") (auto intro: ascii_ends_trim_id)

lemma index_byte_first: "c \<notin> set a \<Longrightarrow> index_byte (a @ c # b) c = Some (length a)"
  unfolding index_byte_def by (induction a) (auto simp: has_prefix_def)

lemma index_byte_absent: "c \<notin> set a \<Longrightarrow> index_byte a c = None"
  unfolding index_byte_def by (induction a) (auto simp: has_prefix_def)

lemma last_index_byte_absent: "c \<notin> set a \<Longrightarrow> last_index_byte a c = None"
  by (induction a) auto

lemma last_index_byte_last: "c \<notin> set b \<Longrightarrow> last_index_byte (a @ c # b) c = Some (length a)"
  by (induction a) (auto simp: last_index_byte_absent)

text \<open>An ASCII character that is no space splits the work of trimming.\<close>

lemma trim_left_keep:
  assumes "byte_of c < 0x80" "\<not> is_space c"
  obtains a p' where "p = a @ p'" "trim_left (p @ c # r) = p' @ c # r"
proof -
  have "\<forall>u \<in> set space_runes. c \<notin> set u"
    using space_runes_ascii [OF _ _ assms(1)] assms(2) by blast
  then obtain p' where p': "trim_left (p @ c # r) = p' @ c # r"
    unfolding trim_left_def using strip_units_keep by blast
  moreover obtain a where "p @ c # r = a @ trim_left (p @ c # r)"
    unfolding trim_left_def using strip_units_suffix by blast
  ultimately have "p = a @ p'" by simp
  with p' that show thesis by blast
qed

lemma trim_right_trimmed:
  assumes "byte_of c < 0x80" "trim_space m = m" "m \<noteq> []"
  shows "trim_right (p @ c # m) = p @ c # m"
proof (rule trim_right_id, intro ballI notI)
  fix u assume u: "u \<in> set space_runes" "has_suffix (p @ c # m) u"
  then have "has_suffix m u" using ascii_then_suffix [OF u(1) _ assms(1,3)] by blast
  with trim_space_done [OF u(1), of m] assms(2) show False by simp
qed

subsection \<open>UTF-8 decoding\<close>

text \<open>
  The width of the rune at the head of a non-empty string, as
  \<^verbatim>\<open>utf8.DecodeRuneInString\<close> computes it: a valid encoding has its length, any other
  byte is one \<^verbatim>\<open>RuneError\<close> of width 1.
\<close>

definition in_range :: "nat \<Rightarrow> nat \<Rightarrow> char \<Rightarrow> bool" where
  "in_range lo hi c \<longleftrightarrow> lo \<le> byte_of c \<and> byte_of c \<le> hi"

definition second_range :: "nat \<Rightarrow> nat \<times> nat" where
  "second_range b = (if b = 0xE0 then (0xA0, 0xBF) else if b = 0xED then (0x80, 0x9F)
     else if b = 0xF0 then (0x90, 0xBF) else if b = 0xF4 then (0x80, 0x8F) else (0x80, 0xBF))"

definition rune_need :: "nat \<Rightarrow> nat" where
  "rune_need b = (if b < 0x80 then 1 else if b < 0xC2 then 0 else if b < 0xE0 then 2
     else if b < 0xF0 then 3 else if b < 0xF5 then 4 else 0)"

fun rune_width :: "string \<Rightarrow> nat" where
  "rune_width [] = 0"
| "rune_width (c # s) =
     (let b = byte_of c; n = rune_need b; (lo, hi) = second_range b in
      if n \<le> 1 \<or> length s < n - 1 then 1
      else if in_range lo hi (s ! 0) \<and> (\<forall>i \<in> set [1 ..< n - 1]. in_range 0x80 0xBF (s ! i)) then n
      else 1)"

lemma rune_width_pos: "s \<noteq> [] \<Longrightarrow> 0 < rune_width s"
  by (cases s) (auto simp: Let_def split: prod.splits)

lemma rune_width_le: "rune_width s \<le> length s"
  by (cases s) (auto simp: Let_def split: prod.splits)

text \<open>The byte offsets at which \<^verbatim>\<open>range\<close> over the string stops, in order.\<close>

function rune_starts_from :: "nat \<Rightarrow> string \<Rightarrow> nat list" where
  "rune_starts_from i s =
     (if s = [] then [] else i # rune_starts_from (i + rune_width s) (drop (rune_width s) s))"
  by pat_completeness auto
termination
  by (relation "measure (\<lambda>(i, s). length s)") (auto simp: rune_width_pos)

declare rune_starts_from.simps [simp del]

definition rune_starts :: "string \<Rightarrow> nat list" where
  "rune_starts s = rune_starts_from 0 s"

definition rune_count :: "string \<Rightarrow> nat" where
  "rune_count s = length (rune_starts s)"

lemma rune_starts_bounds: "j \<in> set (rune_starts_from i s) \<Longrightarrow> i \<le> j \<and> j < i + length s"
proof (induction i s rule: rune_starts_from.induct)
  case (1 i s)
  show ?case
  proof (cases "s = []")
    case True
    with "1.prems" show ?thesis by (simp add: rune_starts_from.simps)
  next
    case False
    then have w: "0 < rune_width s" "rune_width s \<le> length s"
      by (simp_all add: rune_width_pos rune_width_le)
    from "1.prems" False
    have "j = i \<or> j \<in> set (rune_starts_from (i + rune_width s) (drop (rune_width s) s))"
      by (subst (asm) rune_starts_from.simps) auto
    then show ?thesis using "1.IH" [OF False] False w by auto
  qed
qed

lemma rune_count_Nil [simp]: "rune_count [] = 0"
  by (simp add: rune_count_def rune_starts_def rune_starts_from.simps)

lemma rune_count_pos: "s \<noteq> [] \<Longrightarrow> 0 < rune_count s"
  by (simp add: rune_count_def rune_starts_def rune_starts_from.simps)

subsection \<open>Signed 64-bit integers\<close>

text \<open>Go's \<^verbatim>\<open>int64\<close> (and \<^verbatim>\<open>int\<close> on the 64-bit targets) wraps around; \<open>i64\<close> is that wrap.\<close>

definition i64 :: "int \<Rightarrow> int" where
  "i64 x = (x + 2 ^ 63) mod 2 ^ 64 - 2 ^ 63"

definition in_i64 :: "int \<Rightarrow> bool" where
  "in_i64 x \<longleftrightarrow> - (2 ^ 63) \<le> x \<and> x < 2 ^ 63"

lemma i64_id [simp]: "in_i64 x \<Longrightarrow> i64 x = x"
  by (auto simp: i64_def in_i64_def)

lemma in_i64_i64 [simp]: "in_i64 (i64 x)"
  using pos_mod_bound [of "2 ^ 64" "x + 2 ^ 63"] pos_mod_sign [of "2 ^ 64" "x + 2 ^ 63"]
  by (simp add: i64_def in_i64_def)

text \<open>Go's integer division truncates towards zero.\<close>

definition go_div :: "int \<Rightarrow> int \<Rightarrow> int" where
  "go_div a b = sgn a * sgn b * (\<bar>a\<bar> div \<bar>b\<bar>)"

definition go_mod :: "int \<Rightarrow> int \<Rightarrow> int" where
  "go_mod a b = a - b * go_div a b"

lemma go_div_nonneg: "0 \<le> a \<Longrightarrow> 0 < b \<Longrightarrow> go_div a b = a div b"
  by (cases "a = 0") (auto simp: go_div_def)

lemma go_mod_nonneg: "0 \<le> a \<Longrightarrow> 0 < b \<Longrightarrow> go_mod a b = a mod b"
  by (simp add: go_mod_def go_div_nonneg minus_div_mult_eq_mod [symmetric] mult.commute)

subsection \<open>Association lists\<close>

text \<open>Go maps whose keys are distinct lists of pairs; an insertion of a new key goes to the end.\<close>

lemma update_new_key: "k \<notin> fst ` set al \<Longrightarrow> AList.update k v al = al @ [(k, v)]"
  by (induction al) auto

lemma set_delete: "set (AList.delete k al) = {x \<in> set al. fst x \<noteq> k}"
  by (auto simp: AList.delete_eq)

subsection \<open>First occurrence wins: the seen-map idiom\<close>

text \<open>
  The idiom \<^verbatim>\<open>if _, dup := seen[k]; dup { continue }; seen[k] = struct{}{}; out = append(out, x)\<close>
  with the key of each element given by \<open>key\<close>.
\<close>

fun dedup_by :: "('a \<Rightarrow> 'k) \<Rightarrow> 'k list \<Rightarrow> 'a list \<Rightarrow> 'a list" where
  "dedup_by key seen [] = []"
| "dedup_by key seen (x # xs) =
     (if key x \<in> set seen then dedup_by key seen xs
      else x # dedup_by key (key x # seen) xs)"

lemma dedup_by_fresh: "x \<in> set (dedup_by key seen xs) \<Longrightarrow> key x \<notin> set seen"
  by (induction xs arbitrary: seen) (fastforce split: if_splits)+

lemma dedup_by_subset: "set (dedup_by key seen xs) \<subseteq> set xs"
  by (induction xs arbitrary: seen) auto

lemma dedup_by_distinct: "distinct (map key (dedup_by key seen xs))"
  by (induction xs arbitrary: seen) (auto dest: dedup_by_fresh)

lemma dedup_by_length: "length (dedup_by key seen xs) \<le> length xs"
  by (induction xs arbitrary: seen) (auto intro: le_SucI)

lemma dedup_by_keys: "key ` set (dedup_by key seen xs) = key ` set xs - set seen"
  by (induction xs arbitrary: seen) auto

end
