(* ===== verification/Json.thy ===== *)
theory Json
  imports Prelude
begin

text \<open>
  Go's \<^verbatim>\<open>encoding/json\<close> as the sources use it: \<^verbatim>\<open>json.Valid\<close> and the untyped
  \<^verbatim>\<open>json.Unmarshal\<close> (one parser here), the scalar and object printing of
  \<^verbatim>\<open>json.Marshal\<close>, and the field lookup of a struct target. A number keeps its literal.
  Nesting deeper than Go's limit of 10000 is not refused here.
\<close>

datatype json =
    JNull
  | JBool bool
  | JNum string
  | JStr string
  | JArr "json list"
  | JObj "(string \<times> json) list"

subsection \<open>Characters\<close>

definition is_ws :: "char \<Rightarrow> bool" where
  "is_ws c \<longleftrightarrow> c \<in> {CHR '' '', CHR 0x09, CHR 0x0A, CHR 0x0D}"

definition skip_ws :: "string \<Rightarrow> string" where
  "skip_ws s = dropWhile is_ws s"

definition is_digit :: "char \<Rightarrow> bool" where
  "is_digit c \<longleftrightarrow> 48 \<le> byte_of c \<and> byte_of c \<le> 57"

definition hex_value :: "char \<Rightarrow> nat option" where
  "hex_value c = (let b = byte_of c in
     if 48 \<le> b \<and> b \<le> 57 then Some (b - 48) else if 97 \<le> b \<and> b \<le> 102 then Some (b - 87)
     else if 65 \<le> b \<and> b \<le> 70 then Some (b - 55) else None)"

definition hex_digit :: "nat \<Rightarrow> char" where
  "hex_digit n = (if n < 10 then char_of (48 + n) else char_of (87 + n))"

fun hex4 :: "string \<Rightarrow> (nat \<times> string) option" where
  "hex4 (a # b # c # d # s) =
     (case (hex_value a, hex_value b, hex_value c, hex_value d) of
        (Some p, Some q, Some r, Some t) \<Rightarrow> Some (p * 4096 + q * 256 + r * 16 + t, s)
      | _ \<Rightarrow> None)"
| "hex4 _ = None"

definition utf8_encode :: "nat \<Rightarrow> string" where
  "utf8_encode n =
     (if n < 0x80 then [char_of n]
      else if n < 0x800 then [char_of (0xC0 + n div 64), char_of (0x80 + n mod 64)]
      else if n < 0x10000 then
        [char_of (0xE0 + n div 4096), char_of (0x80 + n div 64 mod 64), char_of (0x80 + n mod 64)]
      else [char_of (0xF0 + n div 262144), char_of (0x80 + n div 4096 mod 64),
            char_of (0x80 + n div 64 mod 64), char_of (0x80 + n mod 64)])"

definition rune_error :: string where
  "rune_error = utf8_encode 0xFFFD"

subsection \<open>Strings\<close>

definition simple_escape :: "char \<Rightarrow> char option" where
  "simple_escape c = map_of [(CHR 0x22, CHR 0x22), (CHR 0x5C, CHR 0x5C), (CHR ''/'', CHR ''/''),
     (CHR ''b'', CHR 0x08), (CHR ''f'', CHR 0x0C), (CHR ''n'', CHR 0x0A), (CHR ''r'', CHR 0x0D),
     (CHR ''t'', CHR 0x09)] c"

text \<open>A \<^verbatim>\<open>\u\<close> escape after its four digits: surrogate pairs combine, lone halves are replaced.\<close>

fun finish_unicode :: "nat \<Rightarrow> string \<Rightarrow> string \<times> string" where
  "finish_unicode n s =
     (if 0xD800 \<le> n \<and> n < 0xDC00 then
        (case s of
           CHR 0x5C # CHR ''u'' # t \<Rightarrow>
             (case hex4 t of
                Some (m, r) \<Rightarrow>
                  if 0xDC00 \<le> m \<and> m < 0xE000
                  then (utf8_encode (0x10000 + (n - 0xD800) * 1024 + (m - 0xDC00)), r)
                  else (rune_error, s)
              | None \<Rightarrow> (rune_error, s))
         | _ \<Rightarrow> (rune_error, s))
      else if 0xDC00 \<le> n \<and> n < 0xE000 then (rune_error, s)
      else (utf8_encode n, s))"

lemma hex4_length: "hex4 s = Some (n, t) \<Longrightarrow> length t < length s"
  by (induction s rule: hex4.induct) (auto split: option.splits)

lemma finish_unicode_length: "finish_unicode n s = (p, t) \<Longrightarrow> length t \<le> length s"
  by (auto split: if_splits list.splits char.splits bool.splits option.splits dest!: hex4_length)

lemma finish_unicode_le: "length (snd (finish_unicode n s)) \<le> length s"
  using finish_unicode_length [of n s "fst (finish_unicode n s)" "snd (finish_unicode n s)"]
  by (simp del: finish_unicode.simps)

declare finish_unicode.simps [simp del]

text \<open>The contents of a string literal after the opening quote, and what follows the closing one.\<close>

function parse_string :: "string \<Rightarrow> (string \<times> string) option" where
  "parse_string [] = None"
| "parse_string (c # s) =
     (if c = CHR 0x22 then Some ([], s)
      else if c = CHR 0x5C then
        (case s of
           [] \<Rightarrow> None
         | e # t \<Rightarrow>
             if e = CHR ''u'' then
               (case hex4 t of
                  None \<Rightarrow> None
                | Some (n, u) \<Rightarrow>
                    map_option (apfst (\<lambda>x. fst (finish_unicode n u) @ x))
                      (parse_string (snd (finish_unicode n u))))
             else (case simple_escape e of
                     None \<Rightarrow> None
                   | Some d \<Rightarrow> map_option (apfst (Cons d)) (parse_string t)))
      else if byte_of c < 0x20 then None
      else if byte_of c < 0x80 then map_option (apfst (Cons c)) (parse_string s)
      else let w = rune_width (c # s) in
        map_option (apfst (\<lambda>x. (if w = 1 then rune_error else take w (c # s)) @ x))
          (parse_string (drop w (c # s))))"
  by pat_completeness auto
termination
proof (relation "measure length", goal_cases)
  case (2 c s e t p n u)
  then have "length u < length t" by (auto dest: hex4_length)
  moreover have "length (snd (finish_unicode n u)) \<le> length u" by (rule finish_unicode_le)
  ultimately show ?case using 2 by simp
next
  case (5 c s w)
  then show ?case using rune_width_pos [of "c # s"] by auto
qed auto

definition escape_char :: "char \<Rightarrow> string" where
  "escape_char c =
     (if c = CHR 0x22 \<or> c = CHR 0x5C then [CHR 0x5C, c]
      else if c = CHR 0x08 then [CHR 0x5C, CHR ''b''] else if c = CHR 0x0C then [CHR 0x5C, CHR ''f'']
      else if c = CHR 0x0A then [CHR 0x5C, CHR ''n''] else if c = CHR 0x0D then [CHR 0x5C, CHR ''r'']
      else if c = CHR 0x09 then [CHR 0x5C, CHR ''t'']
      else if byte_of c < 0x20 \<or> c \<in> {CHR ''<'', CHR ''>'', CHR ''&''}
        then [CHR 0x5C, CHR ''u'', CHR ''0'', CHR ''0'', hex_digit (byte_of c div 16),
              hex_digit (byte_of c mod 16)]
      else [c])"

text \<open>
  The body of a printed string. Bytes above 127 go through in whole valid runes, except
  the line separators U+2028 and U+2029; an invalid byte becomes \<^verbatim>\<open>\ufffd\<close>.
\<close>

function escape_string :: "string \<Rightarrow> string" where
  "escape_string [] = []"
| "escape_string (c # s) =
     (if byte_of c < 0x80 then escape_char c @ escape_string s
      else let w = rune_width (c # s); r = take w (c # s) in
        (if w = 1 then [CHR 0x5C] @ ''ufffd''
         else if r = utf8_encode 0x2028 then [CHR 0x5C] @ ''u2028''
         else if r = utf8_encode 0x2029 then [CHR 0x5C] @ ''u2029'' else r)
        @ escape_string (drop w (c # s)))"
  by pat_completeness auto
termination
proof (relation "measure length", goal_cases)
  case (3 c s w r)
  then show ?case using rune_width_pos [of "c # s"] by auto
qed auto

definition print_string :: "string \<Rightarrow> string" where
  "print_string s = [CHR 0x22] @ escape_string s @ [CHR 0x22]"

subsection \<open>Numbers\<close>

definition take_digits :: "string \<Rightarrow> string \<times> string" where
  "take_digits s = (takeWhile is_digit s, dropWhile is_digit s)"

definition parse_int_part :: "string \<Rightarrow> (string \<times> string) option" where
  "parse_int_part s =
     (case s of
        [] \<Rightarrow> None
      | c # t \<Rightarrow> if c = CHR ''0'' then Some ([c], t)
                else if is_digit c then Some (take_digits s) else None)"

definition parse_frac :: "string \<Rightarrow> (string \<times> string) option" where
  "parse_frac s =
     (case s of
        CHR ''.'' # t \<Rightarrow>
          (case take_digits t of (ds, r) \<Rightarrow> if ds = [] then None else Some (CHR ''.'' # ds, r))
      | _ \<Rightarrow> Some ([], s))"

definition parse_exp :: "string \<Rightarrow> (string \<times> string) option" where
  "parse_exp s =
     (case s of
        [] \<Rightarrow> Some ([], s)
      | e # t \<Rightarrow>
          if e \<in> {CHR ''e'', CHR ''E''} then
            (let (sign, u) = (case t of c # u \<Rightarrow> if c \<in> {CHR ''+'', CHR ''-''} then ([c], u)
                                                else ([], t) | [] \<Rightarrow> ([], t));
                 (ds, r) = take_digits u in
             if ds = [] then None else Some (e # sign @ ds, r))
          else Some ([], s))"

definition parse_number :: "string \<Rightarrow> (string \<times> string) option" where
  "parse_number s =
     (let (sign, s) = (case s of CHR ''-'' # t \<Rightarrow> (''-'', t) | _ \<Rightarrow> ([], s)) in
      (case parse_int_part s of None \<Rightarrow> None | Some (i, s) \<Rightarrow>
        (case parse_frac s of None \<Rightarrow> None | Some (f, s) \<Rightarrow>
          (case parse_exp s of None \<Rightarrow> None | Some (e, s) \<Rightarrow> Some (sign @ i @ f @ e, s)))))"

subsection \<open>Values\<close>

fun parse_value :: "nat \<Rightarrow> string \<Rightarrow> (json \<times> string) option"
and parse_elems :: "nat \<Rightarrow> string \<Rightarrow> (json list \<times> string) option"
and parse_members :: "nat \<Rightarrow> string \<Rightarrow> ((string \<times> json) list \<times> string) option" where
  "parse_value 0 s = None"
| "parse_value (Suc k) s =
     (case skip_ws s of
        [] \<Rightarrow> None
      | c # t \<Rightarrow>
          if c = CHR 0x22 then map_option (apfst JStr) (parse_string t)
          else if c = CHR ''['' then
            (case skip_ws t of
               CHR '']'' # r \<Rightarrow> Some (JArr [], r)
             | _ \<Rightarrow> map_option (apfst JArr) (parse_elems k t))
          else if c = CHR ''{'' then
            (case skip_ws t of
               CHR ''}'' # r \<Rightarrow> Some (JObj [], r)
             | _ \<Rightarrow> map_option (apfst JObj) (parse_members k t))
          else if has_prefix (c # t) ''null'' then Some (JNull, drop 4 (c # t))
          else if has_prefix (c # t) ''true'' then Some (JBool True, drop 4 (c # t))
          else if has_prefix (c # t) ''false'' then Some (JBool False, drop 5 (c # t))
          else map_option (apfst JNum) (parse_number (c # t)))"
| "parse_elems 0 s = None"
| "parse_elems (Suc k) s =
     (case parse_value k s of
        None \<Rightarrow> None
      | Some (v, t) \<Rightarrow>
          (case skip_ws t of
             c # r \<Rightarrow> if c = CHR '','' then map_option (apfst (Cons v)) (parse_elems k r)
                      else if c = CHR '']'' then Some ([v], r) else None
           | [] \<Rightarrow> None))"
| "parse_members 0 s = None"
| "parse_members (Suc k) s =
     (case skip_ws s of
        CHR 0x22 # t \<Rightarrow>
          (case parse_string t of
             None \<Rightarrow> None
           | Some (key, u) \<Rightarrow>
               (case skip_ws u of
                  CHR '':'' # w \<Rightarrow>
                    (case parse_value k w of
                       None \<Rightarrow> None
                     | Some (v, x) \<Rightarrow>
                         (case skip_ws x of
                            c # r \<Rightarrow>
                              if c = CHR '','' then
                                map_option (apfst (Cons (key, v))) (parse_members k r)
                              else if c = CHR ''}'' then Some ([(key, v)], r) else None
                          | [] \<Rightarrow> None))
                | _ \<Rightarrow> None))
      | _ \<Rightarrow> None)"

text \<open>Every call consumes at least one byte between two spends of fuel, or is followed by one.\<close>

definition json_fuel :: "string \<Rightarrow> nat" where
  "json_fuel s = 2 * length s + 2"

definition json_parse :: "string \<Rightarrow> json option" where
  "json_parse s = (case parse_value (json_fuel s) s of
     Some (v, r) \<Rightarrow> if skip_ws r = [] then Some v else None | None \<Rightarrow> None)"

definition json_valid :: "string \<Rightarrow> bool" where
  "json_valid s \<longleftrightarrow> json_parse s \<noteq> None"

subsection \<open>Typed access\<close>

text \<open>
  A map or struct target keeps the last member of a name; a struct field also matches a
  name that differs in case only.
\<close>

definition obj_get :: "(string \<times> json) list \<Rightarrow> string \<Rightarrow> json option" where
  "obj_get ms k = map_of (rev ms) k"

definition field_get :: "(string \<times> json) list \<Rightarrow> string \<Rightarrow> json option" where
  "field_get ms k = map_of (rev (map (apfst to_lower) ms)) (to_lower k)"

text \<open>A string field: absent or null leaves the zero value, another kind is an error.\<close>

definition string_field :: "(string \<times> json) list \<Rightarrow> string \<Rightarrow> string option" where
  "string_field ms k = (case field_get ms k of None \<Rightarrow> Some [] | Some JNull \<Rightarrow> Some []
     | Some (JStr s) \<Rightarrow> Some s | _ \<Rightarrow> None)"

subsection \<open>Printing\<close>

fun print_json :: "json \<Rightarrow> string"
and print_elems :: "json list \<Rightarrow> string"
and print_members :: "(string \<times> json) list \<Rightarrow> string" where
  "print_json JNull = ''null''"
| "print_json (JBool b) = (if b then ''true'' else ''false'')"
| "print_json (JNum n) = n"
| "print_json (JStr s) = print_string s"
| "print_json (JArr vs) = ''['' @ print_elems vs @ '']''"
| "print_json (JObj ms) = ''{'' @ print_members ms @ ''}''"
| "print_elems [] = []"
| "print_elems [v] = print_json v"
| "print_elems (v # w # vs) = print_json v @ '','' @ print_elems (w # vs)"
| "print_members [] = []"
| "print_members [(k, v)] = print_string k @ '':'' @ print_json v"
| "print_members ((k, v) # m # ms) =
     print_string k @ '':'' @ print_json v @ '','' @ print_members (m # ms)"

end
