(* ===== verification/JsonRoundtrip.thy ===== *)
theory JsonRoundtrip
  imports Json
begin

text \<open>
  Printing and reading back JSON: for every value whose numbers are number literals, the parser
  returns the value itself with the invalid bytes of its strings replaced, and what follows the
  printed text is left alone.
\<close>

subsection \<open>Strings\<close>

text \<open>What a printed string stands for: a byte that is not part of a valid rune is replaced.\<close>

function scrub_string :: "string \<Rightarrow> string" where
  "scrub_string [] = []"
| "scrub_string (c # s) =
     (let w = rune_width (c # s) in
      (if byte_of c < 0x80 then [c] else if w = 1 then rune_error else take w (c # s))
      @ scrub_string (drop w (c # s)))"
  by pat_completeness auto
termination
proof (relation "measure length", goal_cases)
  case (2 c s w)
  then show ?case using rune_width_pos [of "c # s"] by auto
qed auto

definition valid_utf8 :: "string \<Rightarrow> bool" where
  "valid_utf8 s \<longleftrightarrow> scrub_string s = s"

lemma hex_value_digit: "n < 16 \<Longrightarrow> hex_value (hex_digit n) = Some n"
  by (simp add: hex_value_def hex_digit_def byte_of_char_of Let_def)

lemma hex_value_zero: "hex_value CHR ''0'' = Some 0"
  by (simp add: hex_value_def byte_of_def)

lemma rune_width_ascii: "byte_of c < 0x80 \<Longrightarrow> rune_width (c # s) = 1"
  by (simp add: rune_need_def second_range_def Let_def split: prod.splits)

lemma finish_plain:
  assumes "n < 0xD800 \<or> 0xE000 \<le> n"
  shows "finish_unicode n s = (utf8_encode n, s)"
proof -
  have "\<not> (0xD800 \<le> n \<and> n < 0xDC00)" "\<not> (0xDC00 \<le> n \<and> n < 0xE000)" using assms by auto
  then show ?thesis by (subst finish_unicode.simps) (simp only: if_False)
qed

lemma parse_unicode_escape:
  assumes "hex4 x = Some (n, t)" and "n < 0xD800 \<or> 0xE000 \<le> n"
  shows "parse_string (CHR 0x5C # CHR ''u'' # x) = map_option (apfst (\<lambda>y. utf8_encode n @ y)) (parse_string t)"
  using assms finish_plain [OF assms(2), of t] by (simp del: hex4.simps)

lemma parse_escape_char:
  assumes "byte_of c < 0x80"
  shows "parse_string (escape_char c @ t) = map_option (apfst (Cons c)) (parse_string t)"
proof -
  have "hex4 (CHR ''0'' # CHR ''0'' # hex_digit (byte_of c div 16) # hex_digit (byte_of c mod 16) # t) = Some (byte_of c, t)"
    using assms hex_value_digit [of "byte_of c div 16"] hex_value_digit [of "byte_of c mod 16"]
      hex_value_zero by simp
  from parse_unicode_escape [OF this] have u: "parse_string (CHR 0x5C # CHR ''u'' # CHR ''0'' # CHR ''0'' #
      hex_digit (byte_of c div 16) # hex_digit (byte_of c mod 16) # t) = map_option (apfst (Cons c)) (parse_string t)"
    using assms by (simp add: utf8_encode_def)
  have simple: "parse_string (CHR 0x5C # e # t) = map_option (apfst (Cons d)) (parse_string t)"
    if "simple_escape e = Some d" "e \<noteq> CHR ''u''" for e d
    using that by simp
  have plain: "parse_string (c # t) = map_option (apfst (Cons c)) (parse_string t)"
    if "c \<noteq> CHR 0x22" "c \<noteq> CHR 0x5C" "\<not> byte_of c < 0x20"
    using that assms by simp
  show ?thesis
  proof (cases "c \<in> {CHR 0x22, CHR 0x5C, CHR 0x08, CHR 0x0C, CHR 0x0A, CHR 0x0D, CHR 0x09}")
    case True
    then show ?thesis
      by (elim insertE emptyE) (simp_all add: escape_char_def simple simple_escape_def del: parse_string.simps)
  next
    case False
    then have e: "escape_char c = (if byte_of c < 0x20 \<or> c \<in> {CHR ''<'', CHR ''>'', CHR ''&''}
        then [CHR 0x5C, CHR ''u'', CHR ''0'', CHR ''0'', hex_digit (byte_of c div 16),
              hex_digit (byte_of c mod 16)] else [c])"
      unfolding escape_char_def by (simp only: insert_iff empty_iff simp_thms if_False de_Morgan_disj)
    show ?thesis
    proof (cases "byte_of c < 0x20 \<or> c \<in> {CHR ''<'', CHR ''>'', CHR ''&''}")
      case True
      show ?thesis unfolding e if_P [OF True] append.simps by (rule u)
    next
      case nt: False
      show ?thesis unfolding e if_not_P [OF nt] append.simps
        by (rule plain) (use False nt in \<open>simp_all only: insert_iff simp_thms de_Morgan_disj\<close>)
    qed
  qed
qed

lemma rune_width_prefix:
  assumes "1 < rune_width (c # s)"
  shows "rune_width (take (rune_width (c # s)) (c # s) @ t) = rune_width (c # s)"
proof -
  obtain lo hi where r: "second_range (byte_of c) = (lo, hi)" by (cases "second_range (byte_of c)")
  let ?n = "rune_need (byte_of c)"
  have w: "rune_width (c # s) = (if ?n \<le> 1 \<or> length s < ?n - 1 then 1
      else if in_range lo hi (s ! 0) \<and> (\<forall>i \<in> set [1 ..< ?n - 1]. in_range 0x80 0xBF (s ! i)) then ?n else 1)" for s
    by (simp only: rune_width.simps Let_def r prod.case)
  have c1: "\<not> (?n \<le> 1 \<or> length s < ?n - 1)"
  proof
    assume "?n \<le> 1 \<or> length s < ?n - 1"
    then have "rune_width (c # s) = 1" unfolding w by (rule if_P)
    with assms show False by (simp only: less_irrefl)
  qed
  then have "1 < ?n" by (simp only: not_le de_Morgan_disj)
  have c2: "in_range lo hi (s ! 0) \<and> (\<forall>i \<in> set [1 ..< ?n - 1]. in_range 0x80 0xBF (s ! i))" (is ?C)
  proof (rule ccontr)
    assume "\<not> ?C"
    then have "rune_width (c # s) = 1" unfolding w if_not_P [OF c1] by (rule if_not_P)
    with assms show False by (simp only: less_irrefl)
  qed
  have w1: "rune_width (c # s) = ?n" unfolding w if_not_P [OF c1] by (rule if_P [OF c2])
  have "?n - 1 \<le> length s" using c1 by (simp only: de_Morgan_disj not_less)
  note n = w1 \<open>1 < ?n\<close> this conjunct1 [OF c2] conjunct2 [OF c2]
  from less_imp_Suc_add [OF n(2)] obtain k where k: "?n = Suc (Suc k)" by auto
  have nth: "(take (Suc k) s @ t) ! i = s ! i" if "i < Suc k" for i
    using that n(3) k by (simp add: nth_append)
  have len: "\<not> length (take (Suc k) s @ t) < Suc k" using n(3) k by simp
  have "rune_width (c # take (Suc k) s @ t) = Suc (Suc k)"
  proof -
    have "\<forall>i \<in> set [1 ..< Suc (Suc k) - 1]. in_range 0x80 0xBF ((take (Suc k) s @ t) ! i)"
    proof
      fix i assume i: "i \<in> set [1 ..< Suc (Suc k) - 1]"
      then have "i < Suc k" by auto
      with nth i n(5) k show "in_range 0x80 0xBF ((take (Suc k) s @ t) ! i)" by (simp only:)
    qed
    moreover have "in_range lo hi ((take (Suc k) s @ t) ! 0)" using n(4) nth [of 0] by simp
    moreover have "\<not> (Suc (Suc k) \<le> 1 \<or> length (take (Suc k) s @ t) < Suc (Suc k) - 1)" using len by simp
    ultimately show ?thesis unfolding w k by presburger
  qed
  then show ?thesis using n(1) k by (simp del: rune_width.simps)
qed

lemma parse_unicode_const:
  "hex4 (''fffd'' @ t) = Some (0xFFFD, t)" "hex4 (''2028'' @ t) = Some (0x2028, t)"
  "hex4 (''2029'' @ t) = Some (0x2029, t)"
  by (simp_all add: hex_value_def byte_of_def)

theorem parse_escaped: "parse_string (escape_string s @ CHR 0x22 # t) = Some (scrub_string s, t)"
proof (induction s rule: escape_string.induct)
  case (2 c s)
  let ?w = "rune_width (c # s)"
  show ?case
  proof (cases "byte_of c < 0x80")
    case True
    with 2 show ?thesis
      using rune_width_ascii [of c s] parse_escape_char by (simp add: Let_def del: rune_width.simps)
  next
    case False
    note IH = "2.IH"(2) [OF False refl refl]
    show ?thesis
    proof (cases "?w = 1")
      case True
      with False IH parse_unicode_escape [OF parse_unicode_const(1)] show ?thesis
        by (simp add: Let_def rune_error_def del: rune_width.simps)
    next
      case w: False
      then have w1: "1 < ?w" using rune_width_pos [of "c # s"] by simp
      let ?r = "take ?w (c # s)"
      consider "?r = utf8_encode 0x2028" | "?r = utf8_encode 0x2029"
        | "?r \<noteq> utf8_encode 0x2028" "?r \<noteq> utf8_encode 0x2029" by blast
      then show ?thesis
      proof cases
        case 1
        with False w IH parse_unicode_escape [OF parse_unicode_const(2)] show ?thesis
          by (simp add: Let_def del: rune_width.simps)
      next
        case 2
        then have "?r \<noteq> utf8_encode 0x2028" by (simp add: utf8_encode_def)
        with 2 False w IH parse_unicode_escape [OF parse_unicode_const(3)] show ?thesis
          by (simp add: Let_def del: rune_width.simps)
      next
        case 3
        let ?x = "?r @ escape_string (drop ?w (c # s)) @ CHR 0x22 # t"
        obtain s' where s': "?x = c # s'" using w1 by (cases ?w) auto
        have wx: "rune_width ?x = ?w" by (rule rune_width_prefix [OF w1])
        have "?w \<le> length (c # s)" by (rule rune_width_le)
        then have tk: "take ?w ?x = ?r" "drop ?w ?x = escape_string (drop ?w (c # s)) @ CHR 0x22 # t" by auto
        have c: "c \<noteq> CHR 0x22" "c \<noteq> CHR 0x5C" "\<not> byte_of c < 0x20" using False by (auto simp: byte_of_def)
        have "parse_string (c # s') = map_option (apfst (\<lambda>x. ?r @ x)) (parse_string (drop ?w ?x))"
          using wx tk(1) w False c unfolding s' by (simp add: Let_def del: rune_width.simps)
        also have "\<dots> = Some (scrub_string (c # s), t)"
          using IH tk(2) False w by (simp add: Let_def del: rune_width.simps)
        finally show ?thesis
          using 3 False w s' by (simp add: Let_def del: rune_width.simps)
      qed
    qed
  qed
qed simp

subsection \<open>Matching a byte\<close>

lemma case_byte:
  "(case xs of CHR ''.'' # r \<Rightarrow> f r | _ \<Rightarrow> d) = (if xs \<noteq> [] \<and> hd xs = CHR ''.'' then f (tl xs) else d)"
  "(case xs of CHR ''-'' # r \<Rightarrow> f r | _ \<Rightarrow> d) = (if xs \<noteq> [] \<and> hd xs = CHR ''-'' then f (tl xs) else d)"
  "(case xs of CHR '']'' # r \<Rightarrow> f r | _ \<Rightarrow> d) = (if xs \<noteq> [] \<and> hd xs = CHR '']'' then f (tl xs) else d)"
  "(case xs of CHR ''}'' # r \<Rightarrow> f r | _ \<Rightarrow> d) = (if xs \<noteq> [] \<and> hd xs = CHR ''}'' then f (tl xs) else d)"
  "(case xs of CHR '':'' # r \<Rightarrow> f r | _ \<Rightarrow> d) = (if xs \<noteq> [] \<and> hd xs = CHR '':'' then f (tl xs) else d)"
  "(case xs of CHR 0x22 # r \<Rightarrow> f r | _ \<Rightarrow> d) = (if xs \<noteq> [] \<and> hd xs = CHR 0x22 then f (tl xs) else d)"
  by (auto split: list.splits char.splits bool.splits)

subsection \<open>Numbers\<close>

text \<open>A number literal, and what may follow a value.\<close>

definition number_literal :: "string \<Rightarrow> bool" where
  "number_literal n \<longleftrightarrow> parse_number n = Some (n, [])"

definition value_end :: "string \<Rightarrow> bool" where
  "value_end r \<longleftrightarrow> r = [] \<or> hd r \<in> {CHR '','', CHR '']'', CHR ''}''}"

lemma value_end_digit: "value_end r \<Longrightarrow> takeWhile is_digit r = [] \<and> dropWhile is_digit r = r"
  by (cases r) (auto simp: value_end_def is_digit_def byte_of_def)

lemma digits_end: "value_end r \<Longrightarrow> take_digits (s @ r) = apsnd (\<lambda>u. u @ r) (take_digits s)"
proof (induction s)
  case Nil
  then show ?case using value_end_digit by (simp add: take_digits_def)
qed (auto simp: take_digits_def)

lemma int_part_end: "value_end r \<Longrightarrow> parse_int_part s = Some (i, u) \<Longrightarrow> parse_int_part (s @ r) = Some (i, u @ r)"
proof (cases s)
  case (Cons c t)
  assume "value_end r" "parse_int_part s = Some (i, u)"
  with Cons show ?thesis
    using digits_end [of r "c # t"] by (auto simp: parse_int_part_def split: if_splits)
qed (simp add: parse_int_part_def)


text \<open>The sign, integer and fraction parts, then the exponent.\<close>

lemma frac_end:
  assumes "value_end r" "parse_frac s = Some (f, u)"
  shows "parse_frac (s @ r) = Some (f, u @ r)"
proof -
  note eq = parse_frac_def case_byte
  show ?thesis
  proof (cases s)
    case Nil
    with assms show ?thesis by (cases r) (auto simp: eq value_end_def)
  next
    case (Cons c t)
    with assms digits_end [of r t] show ?thesis
      by (cases "take_digits t") (auto simp: eq split: if_splits)
  qed
qed

lemma exp_end:
  assumes "value_end r" "parse_exp s = Some (e, u)"
  shows "parse_exp (s @ r) = Some (e, u @ r)"
proof (cases s)
  case Nil
  with assms show ?thesis by (cases r) (auto simp: parse_exp_def value_end_def)
next
  case (Cons c t)
  show ?thesis
  proof (cases t)
    case Nil
    with Cons assms show ?thesis
      by (auto simp: parse_exp_def take_digits_def split: if_splits)
  next
    case (Cons d t')
    with \<open>s = c # t\<close> assms digits_end [of r "d # t'"] digits_end [of r t'] show ?thesis
      by (cases "take_digits t'"; cases "take_digits (d # t')") (auto simp: parse_exp_def Let_def split: if_splits)
  qed
qed

lemma number_end:
  assumes "value_end r" "parse_number s = Some (n, u)"
  shows "parse_number (s @ r) = Some (n, u @ r)"
proof -
  have s: "s \<noteq> []" using assms(2) by (auto simp: parse_number_def case_byte parse_int_part_def)
  have core: "(case parse_int_part (x @ r) of None \<Rightarrow> None | Some (i, s) \<Rightarrow>
      (case parse_frac s of None \<Rightarrow> None | Some (f, s) \<Rightarrow>
        (case parse_exp s of None \<Rightarrow> None | Some (e, s) \<Rightarrow> Some (g @ i @ f @ e, s)))) = Some (n, u @ r)"
    if "(case parse_int_part x of None \<Rightarrow> None | Some (i, s) \<Rightarrow>
      (case parse_frac s of None \<Rightarrow> None | Some (f, s) \<Rightarrow>
        (case parse_exp s of None \<Rightarrow> None | Some (e, s) \<Rightarrow> Some (g @ i @ f @ e, s)))) = Some (n, u)" for x g
    using that int_part_end [OF assms(1), of x] frac_end [OF assms(1)] exp_end [OF assms(1)]
    by (auto split: option.splits)
  show ?thesis
  proof (cases "hd s = CHR ''-''")
    case True
    with s assms(2) core [where x = "tl s" and g = "''-''"] show ?thesis
      by (cases s) (simp_all add: parse_number_def case_byte Let_def)
  next
    case False
    with s assms(2) core [where x = s and g = "[]"] show ?thesis
      by (cases s) (simp_all add: parse_number_def case_byte Let_def)
  qed
qed

lemma number_head:
  assumes "number_literal n"
  shows "n \<noteq> [] \<and> (hd n = CHR ''-'' \<or> is_digit (hd n))"
  using assms unfolding number_literal_def parse_number_def case_byte
  by (cases n) (auto simp: parse_int_part_def Let_def is_digit_def byte_of_def split: option.splits if_splits)


subsection \<open>Values\<close>

fun numbers_ok :: "json \<Rightarrow> bool" where
  "numbers_ok (JNum n) = number_literal n"
| "numbers_ok (JArr vs) = (\<forall>v \<in> set vs. numbers_ok v)"
| "numbers_ok (JObj ms) = (\<forall>m \<in> set ms. numbers_ok (snd m))"
| "numbers_ok JNull = True"
| "numbers_ok (JBool b) = True"
| "numbers_ok (JStr s) = True"

fun scrub :: "json \<Rightarrow> json" where
  "scrub (JStr s) = JStr (scrub_string s)"
| "scrub (JArr vs) = JArr (map scrub vs)"
| "scrub (JObj ms) = JObj (map (\<lambda>m. (scrub_string (fst m), scrub (snd m))) ms)"
| "scrub v = v"

lemma skip_ws_head: "s \<noteq> [] \<Longrightarrow> \<not> is_ws (hd s) \<Longrightarrow> skip_ws s = s"
  by (cases s) (auto simp: skip_ws_def)

lemma skip_ws_Cons: "\<not> is_ws c \<Longrightarrow> skip_ws (c # s) = c # s"
  by (simp add: skip_ws_def)

lemma punctuation_not_ws:
  "\<not> is_ws CHR 0x22" "\<not> is_ws CHR ''['' " "\<not> is_ws CHR ''{''" "\<not> is_ws CHR '',''" "\<not> is_ws CHR '']''"
  "\<not> is_ws CHR ''}''" "\<not> is_ws CHR '':''" "\<not> is_ws CHR ''n''" "\<not> is_ws CHR ''t''" "\<not> is_ws CHR ''f''"
  by (simp_all add: is_ws_def)

text \<open>Every printed value starts with a byte that is no white space and closes nothing.\<close>

lemma print_head:
  assumes "numbers_ok v"
  shows "print_json v \<noteq> [] \<and> \<not> is_ws (hd (print_json v)) \<and> hd (print_json v) \<noteq> CHR '']''"
proof (cases v)
  case (JNum n)
  with assms number_head [of n] show ?thesis by (auto simp: is_digit_def is_ws_def byte_of_def)
qed (auto simp: print_string_def is_ws_def)

lemma parse_value_string:
  "parse_value (Suc k) (print_string s @ r) = Some (JStr (scrub_string s), r)"
  using parse_escaped [of s r] by (simp add: print_string_def skip_ws_Cons punctuation_not_ws)

lemma parse_value_number:
  assumes "number_literal n" "value_end r"
  shows "parse_value (Suc k) (n @ r) = Some (JNum n, r)"
proof -
  have p: "parse_number (n @ r) = Some (n, r)"
    using number_end [OF assms(2), of n n "[]"] assms(1) by (simp add: number_literal_def)
  obtain c t where n: "n = c # t" "c = CHR ''-'' \<or> is_digit c" using number_head [OF assms(1)] by (cases n) auto
  then have "\<not> is_ws c" "c \<noteq> CHR 0x22" "c \<noteq> CHR ''[''" "c \<noteq> CHR ''{''" "c \<noteq> CHR ''n''" "c \<noteq> CHR ''t''" "c \<noteq> CHR ''f''"
    by (auto simp: is_digit_def is_ws_def byte_of_def)
  with p n(1) show ?thesis by (simp add: skip_ws_Cons has_prefix_def)
qed

lemma value_endI: "value_end []" "value_end (CHR '','' # r)" "value_end (CHR '']'' # r)" "value_end (CHR ''}'' # r)"
  by (simp_all add: value_end_def)

lemma parse_elems_printed:
  assumes "\<And>v k r. v \<in> set vs \<Longrightarrow> length (print_json v) \<le> k \<Longrightarrow> value_end r \<Longrightarrow>
      parse_value k (print_json v @ r) = Some (scrub v, r)"
    and "vs \<noteq> []" "length (print_elems vs) < k"
  shows "parse_elems k (print_elems vs @ CHR '']'' # r) = Some (map scrub vs, r)"
  using assms
proof (induction vs arbitrary: k rule: induct_list012)
  case (2 v)
  then obtain k' where k: "k = Suc k'" by (cases k) auto
  with 2 have "parse_value k' (print_json v @ CHR '']'' # r) = Some (scrub v, CHR '']'' # r)"
    by (intro 2(1)) (auto simp: value_endI)
  then show ?case by (simp add: k skip_ws_Cons punctuation_not_ws)
next
  case (3 v w vs)
  then obtain k' where k: "k = Suc k'" by (cases k) auto
  have "parse_value k' (print_json v @ CHR '','' # print_elems (w # vs) @ CHR '']'' # r) =
      Some (scrub v, CHR '','' # print_elems (w # vs) @ CHR '']'' # r)"
    using 3(5) k by (intro 3(3)) (auto simp: value_endI)
  moreover have "parse_elems k' (print_elems (w # vs) @ CHR '']'' # r) = Some (map scrub (w # vs), r)"
    using 3(5) k by (intro 3(2)) (auto simp: 3(3))
  ultimately show ?case by (simp add: k skip_ws_Cons punctuation_not_ws)
qed simp

lemma print_members_head: "ms \<noteq> [] \<Longrightarrow> print_members ms \<noteq> [] \<and> hd (print_members ms) = CHR 0x22"
  by (cases ms rule: print_members.cases) (auto simp: print_string_def)

lemma print_elems_head:
  assumes "\<forall>v \<in> set vs. numbers_ok v" "vs \<noteq> []"
  shows "print_elems vs \<noteq> [] \<and> \<not> is_ws (hd (print_elems vs)) \<and> hd (print_elems vs) \<noteq> CHR '']''"
proof -
  have "print_json (hd vs) \<noteq> [] \<and> \<not> is_ws (hd (print_json (hd vs))) \<and> hd (print_json (hd vs)) \<noteq> CHR '']''"
    using assms print_head [of "hd vs"] by (cases vs) auto
  then show ?thesis using assms(2) by (cases vs rule: print_elems.cases) auto
qed

text \<open>One member: the name, the colon, the value.\<close>

lemma parse_member:
  "parse_members (Suc k) (print_string key @ CHR '':'' # x) =
     (case parse_value k x of None \<Rightarrow> None
      | Some (v, y) \<Rightarrow>
          (case skip_ws y of
             c # r \<Rightarrow> if c = CHR '','' then map_option (apfst (Cons (scrub_string key, v))) (parse_members k r)
                      else if c = CHR ''}'' then Some ([(scrub_string key, v)], r) else None
           | [] \<Rightarrow> None))"
  using parse_escaped [of key "CHR '':'' # x"]
  by (simp add: print_string_def skip_ws_Cons punctuation_not_ws)

lemma parse_members_printed:
  assumes "\<And>m k r. m \<in> set ms \<Longrightarrow> length (print_json (snd m)) \<le> k \<Longrightarrow> value_end r \<Longrightarrow>
      parse_value k (print_json (snd m) @ r) = Some (scrub (snd m), r)"
    and "ms \<noteq> []" "length (print_members ms) < k"
  shows "parse_members k (print_members ms @ CHR ''}'' # r) =
    Some (map (\<lambda>m. (scrub_string (fst m), scrub (snd m))) ms, r)"
  using assms
proof (induction ms arbitrary: k rule: induct_list012)
  case (2 m)
  then obtain k' where k: "k = Suc k'" by (cases k) auto
  have "parse_value k' (print_json (snd m) @ CHR ''}'' # r) = Some (scrub (snd m), CHR ''}'' # r)"
    using 2(3) k by (intro 2(1)) (cases m; auto simp: value_endI)+
  then show ?case by (cases m) (simp add: k parse_member skip_ws_Cons punctuation_not_ws del: parse_members.simps)
next
  case (3 m n ms)
  then obtain k' where k: "k = Suc k'" by (cases k) auto
  have "parse_value k' (print_json (snd m) @ CHR '','' # print_members (n # ms) @ CHR ''}'' # r) =
      Some (scrub (snd m), CHR '','' # print_members (n # ms) @ CHR ''}'' # r)"
    using 3(5) k by (intro 3(3)) (cases m; auto simp: value_endI)+
  moreover have "parse_members k' (print_members (n # ms) @ CHR ''}'' # r) =
      Some (map (\<lambda>m. (scrub_string (fst m), scrub (snd m))) (n # ms), r)"
    using 3(5) k by (intro 3(2)) (cases m; auto simp: 3(3))+
  ultimately show ?case
    by (cases m) (simp add: k parse_member skip_ws_Cons punctuation_not_ws del: parse_members.simps)
qed simp

lemma parse_printed:
  "numbers_ok v \<Longrightarrow> length (print_json v) \<le> k \<Longrightarrow> value_end r \<Longrightarrow>
     parse_value k (print_json v @ r) = Some (scrub v, r)"
proof (induction v arbitrary: k r rule: numbers_ok.induct)
  case (1 n)
  with number_head [of n] show ?case by (cases k) (auto simp: parse_value_number simp del: parse_value.simps)
next
  case (2 vs)
  then obtain k' where k: "k = Suc k'" by (cases k) auto
  show ?case
  proof (cases "vs = []")
    case True
    with k show ?thesis by (simp add: skip_ws_Cons punctuation_not_ws)
  next
    case False
    have "parse_elems k' (print_elems vs @ CHR '']'' # r) = Some (map scrub vs, r)"
      using 2 False k by (intro parse_elems_printed) auto
    moreover have "skip_ws (print_elems vs @ CHR '']'' # r) = print_elems vs @ CHR '']'' # r"
        "hd (print_elems vs @ CHR '']'' # r) \<noteq> CHR '']''"
      using print_elems_head [of vs] 2(2) False by (auto intro!: skip_ws_head)
    ultimately show ?thesis
      by (simp add: k skip_ws_Cons punctuation_not_ws case_byte)
  qed
next
  case (3 ms)
  then obtain k' where k: "k = Suc k'" by (cases k) auto
  show ?case
  proof (cases "ms = []")
    case True
    with k show ?thesis by (simp add: skip_ws_Cons punctuation_not_ws)
  next
    case False
    have "parse_members k' (print_members ms @ CHR ''}'' # r) =
        Some (map (\<lambda>m. (scrub_string (fst m), scrub (snd m))) ms, r)"
      using 3 False k by (intro parse_members_printed) auto
    moreover have "skip_ws (print_members ms @ CHR ''}'' # r) = print_members ms @ CHR ''}'' # r"
        "hd (print_members ms @ CHR ''}'' # r) \<noteq> CHR ''}''"
      using print_members_head [OF False] by (auto intro!: skip_ws_head simp: punctuation_not_ws)
    ultimately show ?thesis
      by (simp add: k skip_ws_Cons punctuation_not_ws case_byte)
  qed
next
  case 4
  then show ?case by (cases k) (auto simp: skip_ws_Cons punctuation_not_ws has_prefix_def)
next
  case (5 b)
  then show ?case by (cases b; cases k) (auto simp: skip_ws_Cons punctuation_not_ws has_prefix_def)
next
  case (6 s)
  then obtain k' where "k = Suc k'" by (cases k) (auto simp: print_string_def)
  then show ?case by (simp add: parse_value_string del: parse_value.simps)
qed

theorem json_parse_print: "numbers_ok v \<Longrightarrow> json_parse (print_json v) = Some (scrub v)"
  using parse_printed [of v "json_fuel (print_json v)" "[]"]
  by (simp add: json_parse_def json_fuel_def value_endI skip_ws_def)

end
