(* ===== verification/OutputLimiter.thy ===== *)
theory OutputLimiter
  imports Prelude
begin

text \<open>
  Model of \<^verbatim>\<open>translator/output_limit.go\<close>: the token estimator, the stop-sequence
  search, the hold-back window and the \<^verbatim>\<open>OutputLimiter\<close> with its \<^verbatim>\<open>Feed\<close>, \<^verbatim>\<open>Flush\<close>,
  \<^verbatim>\<open>admit\<close>, \<^verbatim>\<open>Truncate\<close> and \<^verbatim>\<open>StopReason\<close> methods. The record is the Go struct; a
  method returns its result and the updated struct. Every method gives a nil receiver
  the result it gives the zero struct, so nil needs no case of its own.
\<close>

subsection \<open>Token estimate\<close>

text \<open>
  \<open>\<lceil>n / 3.6\<rceil>\<close> is \<open>\<lceil>5 n / 18\<rceil>\<close>. The double nearest to 3.6 has relative error below
  \<open>2\<^sup>-\<^sup>5\<^sup>4\<close> and the fraction \<open>5 n / 18\<close> is an integer or at least \<open>1/18\<close> away from one, so
  Go's double division gives the same ceiling for every rune count below \<open>2\<^sup>4\<^sup>0\<close>.
\<close>

definition estimate_tokens :: "string \<Rightarrow> int" where
  "estimate_tokens s =
     (if s = [] then 0
      else let estimate = (5 * int (rune_count s) + 17) div 18 in
           if estimate < 1 then 1 else estimate)"

lemma estimate_tokens_Nil [simp]: "estimate_tokens [] = 0"
  by (simp add: estimate_tokens_def)

lemma estimate_tokens_pos: "s \<noteq> [] \<Longrightarrow> 1 \<le> estimate_tokens s"
  by (simp add: estimate_tokens_def Let_def)

lemma estimate_tokens_nonneg [simp]: "0 \<le> estimate_tokens s"
  by (cases "s = []") (use estimate_tokens_pos [of s] in auto)

subsection \<open>Stop-sequence search\<close>

fun first_stop_from :: "(nat \<times> string) option \<Rightarrow> string \<Rightarrow> string list \<Rightarrow> (nat \<times> string) option" where
  "first_stop_from best text [] = best"
| "first_stop_from best text (s # ss) =
     (if s = [] then first_stop_from best text ss
      else case index_str text s of
          None \<Rightarrow> first_stop_from best text ss
        | Some i \<Rightarrow>
            (case best of
               None \<Rightarrow> first_stop_from (Some (i, s)) text ss
             | Some (b, m) \<Rightarrow> if i < b then first_stop_from (Some (i, s)) text ss
                              else first_stop_from best text ss))"

definition first_stop_sequence :: "string \<Rightarrow> string list \<Rightarrow> (nat \<times> string) option" where
  "first_stop_sequence text seqs = first_stop_from None text seqs"

text \<open>The inner loop: sizes from the limit down to \<open>longest + 1\<close>, stopping at the first match.\<close>

fun scan_sizes :: "string \<Rightarrow> string \<Rightarrow> nat \<Rightarrow> nat \<Rightarrow> nat" where
  "scan_sizes text s longest 0 = longest"
| "scan_sizes text s longest (Suc k) =
     (if Suc k \<le> longest then longest
      else if has_prefix s (drop (length text - Suc k) text) then Suc k
      else scan_sizes text s longest k)"

fun partial_suffix_from :: "nat \<Rightarrow> string \<Rightarrow> string list \<Rightarrow> nat" where
  "partial_suffix_from longest text [] = longest"
| "partial_suffix_from longest text (s # ss) =
     (if s = [] then partial_suffix_from longest text ss
      else partial_suffix_from
             (scan_sizes text s longest (min (length s - 1) (length text))) text ss)"

definition partial_stop_suffix :: "string \<Rightarrow> string list \<Rightarrow> nat" where
  "partial_stop_suffix text seqs = partial_suffix_from 0 text seqs"

text \<open>\<open>clip_loop\<close> walks the rune boundaries of the addition and keeps the last accepted one.\<close>

fun clip_loop :: "string \<Rightarrow> string \<Rightarrow> int \<Rightarrow> nat \<Rightarrow> nat list \<Rightarrow> nat" where
  "clip_loop existing addition maxt accepted [] = accepted"
| "clip_loop existing addition maxt accepted (i # is) =
     (if i = 0 then clip_loop existing addition maxt accepted is
      else if estimate_tokens (existing @ take i addition) > maxt then accepted
      else clip_loop existing addition maxt i is)"

definition clip_to_token_budget :: "string \<Rightarrow> string \<Rightarrow> int \<Rightarrow> string" where
  "clip_to_token_budget existing addition maxt =
     (let accepted = clip_loop existing addition maxt 0 (rune_starts addition) in
      if accepted = 0 \<and> estimate_tokens (existing @ addition) \<le> maxt then addition
      else take accepted addition)"

subsection \<open>The limiter\<close>

record limiter =
  l_max_tokens :: int
  l_stop_sequences :: "string list"
  l_emitted :: string
  l_pending :: string
  l_stopped :: bool
  l_stop_reason :: string
  l_stop_sequence :: string

definition new_limiter :: "int \<Rightarrow> string list \<Rightarrow> limiter" where
  "new_limiter m seqs = \<lparr>l_max_tokens = m, l_stop_sequences = seqs, l_emitted = [], l_pending = [],
     l_stopped = False, l_stop_reason = [], l_stop_sequence = []\<rparr>"

definition active :: "limiter \<Rightarrow> bool" where
  "active l \<longleftrightarrow> l_max_tokens l > 0 \<or> l_stop_sequences l \<noteq> []"

definition admit :: "limiter \<Rightarrow> string \<Rightarrow> string \<times> limiter" where
  "admit l text =
     (if text = [] then ([], l)
      else if l_max_tokens l \<le> 0 then (text, l\<lparr>l_emitted := l_emitted l @ text\<rparr>)
      else let remaining = l_max_tokens l - estimate_tokens (l_emitted l) in
        if remaining \<le> 0 then ([], l\<lparr>l_stopped := True, l_stop_reason := ''max_tokens''\<rparr>)
        else if estimate_tokens (l_emitted l @ text) \<le> l_max_tokens l
          then (text, l\<lparr>l_emitted := l_emitted l @ text\<rparr>)
        else let clipped = clip_to_token_budget (l_emitted l) text (l_max_tokens l) in
          (clipped, l\<lparr>l_stopped := True, l_stop_reason := ''max_tokens'',
                      l_emitted := l_emitted l @ clipped\<rparr>))"

definition feed :: "limiter \<Rightarrow> string \<Rightarrow> (string \<times> bool) \<times> limiter" where
  "feed l delta =
     (if \<not> active l then ((delta, False), l)
      else if l_stopped l then (([], True), l)
      else let buffered = l_pending l @ delta; l = l\<lparr>l_pending := []\<rparr> in
        (case first_stop_sequence buffered (l_stop_sequences l) of
           Some (i, s) \<Rightarrow>
             let (out, l) = admit (l\<lparr>l_stopped := True, l_stop_reason := ''stop_sequence'',
                                     l_stop_sequence := s\<rparr>) (take i buffered)
             in ((out, True), l)
         | None \<Rightarrow>
             let hold = partial_stop_suffix buffered (l_stop_sequences l);
                 l = (if hold > 0
                      then l\<lparr>l_pending := drop (length buffered - hold) buffered\<rparr> else l);
                 (out, l) = admit l (take (length buffered - hold) buffered)
             in ((out, l_stopped l), l)))"

definition flush :: "limiter \<Rightarrow> string \<times> limiter" where
  "flush l = (if \<not> active l \<or> l_stopped l then ([], l)
     else admit (l\<lparr>l_pending := []\<rparr>) (l_pending l))"

definition truncate_text :: "limiter \<Rightarrow> string \<Rightarrow> string \<times> limiter" where
  "truncate_text l text =
     (if \<not> active l then (text, l)
      else let ((out, d), l) = feed l text; (rest, l) = flush l in (out @ rest, l))"

definition stop_reason_of :: "limiter \<Rightarrow> (string \<times> string) option" where
  "stop_reason_of l = (if \<not> l_stopped l \<or> l_stop_reason l = [] then None
     else Some (l_stop_reason l, l_stop_sequence l))"

definition emitted_tokens :: "limiter \<Rightarrow> int" where
  "emitted_tokens l = estimate_tokens (l_emitted l)"

text \<open>A streamed turn: the deltas in order, the emitted pieces concatenated.\<close>

fun feed_all :: "limiter \<Rightarrow> string list \<Rightarrow> string \<times> limiter" where
  "feed_all l [] = ([], l)"
| "feed_all l (d # ds) =
     (let ((out, dn), l) = feed l d; (rest, l) = feed_all l ds in (out @ rest, l))"

subsection \<open>The search functions\<close>

definition no_stop :: "string list \<Rightarrow> string \<Rightarrow> bool" where
  "no_stop seqs text \<longleftrightarrow> (\<forall>s \<in> set seqs. s \<noteq> [] \<longrightarrow> \<not> contains_str text s)"

text \<open>\<open>occurs_at\<close>: some non-empty sequence occurs in the text at that offset.\<close>

definition occurs_at :: "string list \<Rightarrow> string \<Rightarrow> nat \<Rightarrow> bool" where
  "occurs_at seqs text i \<longleftrightarrow>
     (\<exists>s \<in> set seqs. s \<noteq> [] \<and> i + length s \<le> length text \<and> has_prefix (drop i text) s)"

lemma has_prefix_length: "has_prefix s p \<Longrightarrow> length p \<le> length s"
  by (auto simp: has_prefix_iff)

lemma no_stop_occurs_at: "no_stop seqs text \<longleftrightarrow> (\<forall>i. \<not> occurs_at seqs text i)"
proof -
  have "contains_str text s \<longleftrightarrow> (\<exists>i. i + length s \<le> length text \<and> has_prefix (drop i text) s)" for s
  proof
    assume "contains_str text s"
    then obtain a b where "text = a @ s @ b" by (auto simp: contains_str_iff)
    then show "\<exists>i. i + length s \<le> length text \<and> has_prefix (drop i text) s"
      by (intro exI [of _ "length a"]) simp
  next
    assume "\<exists>i. i + length s \<le> length text \<and> has_prefix (drop i text) s"
    then show "contains_str text s"
      unfolding contains_str_def index_str_None by (meson add_leD1)
  qed
  then show ?thesis by (auto simp: no_stop_def occurs_at_def)
qed

lemma first_stop_from_Some:
  assumes "first_stop_from best text seqs = Some (i, s)"
  shows "best = Some (i, s) \<or> (s \<in> set seqs \<and> s \<noteq> [] \<and> index_str text s = Some i)"
  using assms
proof (induction seqs arbitrary: best)
  case Nil
  then show ?case by simp
next
  case (Cons t ts)
  show ?case
  proof (cases "t = [] \<or> index_str text t = None")
    case True
    with Cons.prems have "first_stop_from best text ts = Some (i, s)"
      by (auto split: if_splits)
    from Cons.IH [OF this] show ?thesis by auto
  next
    case False
    then obtain k where k: "index_str text t = Some k" "t \<noteq> []" by auto
    with Cons.prems have "first_stop_from best text ts = Some (i, s) \<or>
        first_stop_from (Some (k, t)) text ts = Some (i, s)"
      by (auto split: option.splits if_splits)
    with Cons.IH [of best] Cons.IH [of "Some (k, t)"] k show ?thesis by auto
  qed
qed

lemma first_stop_from_min:
  "first_stop_from best text seqs = r \<Longrightarrow>
     (\<forall>b m. best = Some (b, m) \<longrightarrow> (\<exists>i s. r = Some (i, s) \<and> i \<le> b)) \<and>
     (\<forall>t j. t \<in> set seqs \<longrightarrow> t \<noteq> [] \<longrightarrow> index_str text t = Some j \<longrightarrow>
        (\<exists>i s. r = Some (i, s) \<and> i \<le> j))"
proof (induction seqs arbitrary: best)
  case Nil
  then show ?case by auto
next
  case (Cons u us)
  show ?case
  proof (cases "u = [] \<or> index_str text u = None")
    case True
    then have "first_stop_from best text us = r" using Cons.prems by auto
    from Cons.IH [OF this] True show ?thesis by auto
  next
    case False
    then obtain k where k: "index_str text u = Some k" "u \<noteq> []" by auto
    define b' where "b' = (case best of None \<Rightarrow> Some (k, u)
      | Some (b, m) \<Rightarrow> if k < b then Some (k, u) else best)"
    have r: "first_stop_from b' text us = r"
      using Cons.prems k by (auto simp: b'_def split: option.splits if_splits)
    have "\<exists>c n. b' = Some (c, n) \<and> c \<le> k \<and> (\<forall>b m. best = Some (b, m) \<longrightarrow> c \<le> b)"
      unfolding b'_def by (cases best) auto
    then obtain c n where b': "b' = Some (c, n)" "c \<le> k" "\<forall>b m. best = Some (b, m) \<longrightarrow> c \<le> b"
      by blast
    note ih = Cons.IH [OF r]
    from ih b' obtain i s where found: "r = Some (i, s)" "i \<le> c" by blast
    show ?thesis
    proof (intro conjI allI impI)
      fix b m assume "best = Some (b, m)"
      with b' found show "\<exists>i s. r = Some (i, s) \<and> i \<le> b" by fastforce
    next
      fix t j assume t: "t \<in> set (u # us)" "t \<noteq> []" "index_str text t = Some j"
      show "\<exists>i s. r = Some (i, s) \<and> i \<le> j"
      proof (cases "t = u")
        case True
        with t k b' found show ?thesis by fastforce
      next
        case False
        with t ih show ?thesis by auto
      qed
    qed
  qed
qed

lemma first_stop_sequence_Some:
  assumes "first_stop_sequence text seqs = Some (i, s)"
  shows "s \<in> set seqs" "s \<noteq> []" "index_str text s = Some i"
    "i + length s \<le> length text" "has_prefix (drop i text) s"
proof -
  show a: "s \<in> set seqs" "s \<noteq> []" "index_str text s = Some i"
    using first_stop_from_Some [OF assms [unfolded first_stop_sequence_def]] by auto
  from index_str_Some [OF a(3)] show "has_prefix (drop i text) s" by simp
  from has_prefix_length [OF this] have "length s \<le> length text - i" by simp
  with index_str_Some [OF a(3)] show "i + length s \<le> length text" by linarith
qed

lemma first_stop_sequence_least:
  assumes "first_stop_sequence text seqs = Some (i, s)" and "occurs_at seqs text j"
  shows "i \<le> j"
proof -
  from assms(2) obtain t where t: "t \<in> set seqs" "t \<noteq> []" "j + length t \<le> length text"
      "has_prefix (drop j text) t"
    by (auto simp: occurs_at_def)
  then obtain k where k: "index_str text t = Some k"
    using index_str_None [of "text" t] by fastforce
  with t have "k \<le> j" using index_str_least [OF k, of j] by force
  moreover have "i \<le> k"
    using first_stop_from_min [OF assms(1) [unfolded first_stop_sequence_def]] t k by auto
  ultimately show ?thesis by simp
qed

lemma first_stop_sequence_None:
  assumes "first_stop_sequence text seqs = None"
  shows "no_stop seqs text"
proof -
  have "index_str text t = None" if "t \<in> set seqs" "t \<noteq> []" for t
    using first_stop_from_min [OF assms [unfolded first_stop_sequence_def]] that
    by (cases "index_str text t") auto
  then show ?thesis by (auto simp: no_stop_def contains_str_def)
qed

lemma first_stop_sequence_no_stop:
  "no_stop seqs text \<Longrightarrow> first_stop_sequence text seqs = None"
  using first_stop_sequence_Some(1-3) [of "text" seqs]
  by (cases "first_stop_sequence text seqs") (fastforce simp: no_stop_def contains_str_def)+

lemma first_stop_sequence_unique_at:
  assumes "first_stop_sequence text [s] = Some (i, t)"
  shows "t = s"
  using first_stop_sequence_Some(1) [OF assms] by simp

subsection \<open>The hold-back window\<close>

lemma scan_sizes_bounds: "longest \<le> scan_sizes text s longest k" 
  "scan_sizes text s longest k \<le> max longest k"
  by (induction k) auto

lemma scan_sizes_complete:
  "j \<le> k \<Longrightarrow> has_prefix s (drop (length text - j) text) \<Longrightarrow> j \<le> scan_sizes text s longest k"
  by (induction k) (auto simp: le_Suc_eq)

lemma partial_suffix_from_ge: "longest \<le> partial_suffix_from longest text seqs"
  by (induction seqs arbitrary: longest) (auto intro: order_trans [OF scan_sizes_bounds(1)])

lemma partial_suffix_from_le:
  "longest \<le> length text \<Longrightarrow> partial_suffix_from longest text seqs \<le> length text"
proof (induction seqs arbitrary: longest)
  case (Cons s ss)
  have "scan_sizes text s longest (min (length s - 1) (length text)) \<le> length text"
    using scan_sizes_bounds(2) [of "text" s longest "min (length s - 1) (length text)"] Cons.prems
    by simp
  with Cons show ?case by simp
qed simp

lemma partial_suffix_from_complete:
  assumes "s \<in> set seqs" "0 < j" "j < length s" "j \<le> length text"
    "has_prefix s (drop (length text - j) text)"
  shows "j \<le> partial_suffix_from longest text seqs"
  using assms
proof (induction seqs arbitrary: longest)
  case (Cons u us)
  show ?case
  proof (cases "s = u")
    case True
    with Cons.prems have "j \<le> scan_sizes text u longest (min (length u - 1) (length text))"
      by (intro scan_sizes_complete) auto
    also have "\<dots> \<le> partial_suffix_from longest text (u # us)"
      using True Cons.prems partial_suffix_from_ge by auto
    finally show ?thesis .
  next
    case False
    with Cons show ?thesis by auto
  qed
qed simp

lemma partial_stop_suffix_le: "partial_stop_suffix text seqs \<le> length text"
  by (simp add: partial_stop_suffix_def partial_suffix_from_le)

text \<open>\<open>cut_at\<close>: the tail of the text from \<open>i\<close> is a proper, non-empty beginning of a sequence.\<close>

definition cut_at :: "string list \<Rightarrow> string \<Rightarrow> nat \<Rightarrow> bool" where
  "cut_at seqs text i \<longleftrightarrow>
     (\<exists>s \<in> set seqs. i < length text \<and> length text - i < length s \<and> has_prefix s (drop i text))"

lemma partial_stop_suffix_complete:
  assumes "cut_at seqs text i"
  shows "length text - partial_stop_suffix text seqs \<le> i"
proof -
  from assms obtain s where s: "s \<in> set seqs" "i < length text" "length text - i < length s"
      "has_prefix s (drop i text)" by (auto simp: cut_at_def)
  then have "length text - i \<le> partial_stop_suffix text seqs"
    unfolding partial_stop_suffix_def by (intro partial_suffix_from_complete [OF s(1)]) auto
  then show ?thesis by simp
qed

text \<open>
  An occurrence in a longer text is an occurrence in the shorter one or is cut by its
  end; a cut position of the longer text is one of the shorter or lies in the extension.
\<close>

lemma occurs_at_extend:
  assumes "occurs_at seqs (x @ d) i" and "i < length x"
  shows "occurs_at seqs x i \<or> cut_at seqs x i"
proof -
  from assms(1) obtain s where s: "s \<in> set seqs" "s \<noteq> []" "i + length s \<le> length (x @ d)"
      "has_prefix (drop i (x @ d)) s" by (auto simp: occurs_at_def)
  have d: "drop i (x @ d) = drop i x @ d" using assms(2) by simp
  show ?thesis
  proof (cases "i + length s \<le> length x")
    case True
    then have "has_prefix (drop i x) s" using s(4) d by (simp add: has_prefix_def)
    with s True show ?thesis by (auto simp: occurs_at_def)
  next
    case False
    obtain r where "drop i x @ d = s @ r" using s(4) d by (auto simp: has_prefix_iff)
    moreover have "length (drop i x) \<le> length s" using False by simp
    ultimately have "has_prefix s (drop i x)"
      unfolding has_prefix_def by (metis append_eq_append_conv_if)
    with False s False assms(2) show ?thesis by (auto simp: cut_at_def)
  qed
qed

lemma occurs_at_less: "occurs_at seqs x i \<Longrightarrow> i < length x"
  by (auto simp: occurs_at_def neq_Nil_conv)

lemma occurs_at_append:
  assumes "occurs_at seqs x i"
  shows "occurs_at seqs (x @ y) i"
proof -
  from assms obtain s r where s: "s \<in> set seqs" "s \<noteq> []" "i + length s \<le> length x"
      "drop i x = s @ r" by (auto simp: occurs_at_def has_prefix_iff)
  then have "drop i (x @ y) = s @ (r @ y)" by simp
  then have "has_prefix (drop i (x @ y)) s" unfolding has_prefix_iff by blast
  with s(1-3) show ?thesis unfolding occurs_at_def by (intro bexI [of _ s]) auto
qed

lemma cut_at_extend:
  assumes "cut_at seqs (x @ d) i" and "i < length x"
  shows "cut_at seqs x i"
proof -
  from assms obtain s where s: "s \<in> set seqs" "length (x @ d) - i < length s"
      "has_prefix s (drop i x @ d)" by (auto simp: cut_at_def)
  from s(3) have "has_prefix s (drop i x)" by (auto simp: has_prefix_iff)
  moreover have "length x - i < length s" using s(2) by simp
  ultimately show ?thesis using s(1) assms(2) unfolding cut_at_def by blast
qed

lemma occurs_at_drop:
  "occurs_at seqs (x @ y) (length x + i) \<longleftrightarrow> occurs_at seqs y i"
  by (simp add: occurs_at_def)

lemma cut_at_drop: "cut_at seqs (x @ y) (length x + i) \<longleftrightarrow> cut_at seqs y i"
  by (simp add: cut_at_def)

lemma no_stop_prefix: "no_stop seqs (x @ y) \<Longrightarrow> no_stop seqs x"
  by (auto simp: no_stop_def dest: contains_str_append_left)

subsection \<open>What admit keeps\<close>

lemma clip_loop_budget:
  "estimate_tokens (e @ take acc a) \<le> m \<Longrightarrow>
     estimate_tokens (e @ take (clip_loop e a m acc ps) a) \<le> m"
  by (induction ps arbitrary: acc) auto

lemma clip_budget:
  assumes "estimate_tokens e \<le> m"
  shows "estimate_tokens (e @ clip_to_token_budget e a m) \<le> m"
  using clip_loop_budget [of e 0 a m "rune_starts a"] assms
  by (auto simp: clip_to_token_budget_def Let_def)

lemma clip_prefix: "\<exists>r. a = clip_to_token_budget e a m @ r"
proof -
  have "\<exists>r. a = take k a @ r" for k by (rule exI [of _ "drop k a"]) simp
  then show ?thesis by (simp add: clip_to_token_budget_def Let_def)
qed

lemma admit_frame:
  assumes "admit l t = (out, l')"
  shows "l_max_tokens l' = l_max_tokens l" "l_stop_sequences l' = l_stop_sequences l"
    "l_pending l' = l_pending l" "l_stop_sequence l' = l_stop_sequence l"
    "l_emitted l' = l_emitted l @ out"
  using assms by (auto simp: admit_def Let_def split: if_splits)

lemma admit_prefix: "admit l t = (out, l') \<Longrightarrow> \<exists>r. t = out @ r"
  using clip_prefix by (auto simp: admit_def Let_def split: if_splits)

lemma admit_outcome:
  assumes "admit l t = (out, l')"
  shows "out = t \<and> l_stopped l' = l_stopped l \<and> l_stop_reason l' = l_stop_reason l \<or>
    l_stopped l' \<and> l_stop_reason l' = ''max_tokens'' \<and> l_max_tokens l > 0"
  using assms by (auto simp: admit_def Let_def split: if_splits)

lemma admit_unlimited:
  "l_max_tokens l \<le> 0 \<Longrightarrow> admit l t = (t, l\<lparr>l_emitted := l_emitted l @ t\<rparr>)"
  by (simp add: admit_def)

lemma admit_budget:
  assumes "admit l t = (out, l')" and "l_max_tokens l > 0"
    and "estimate_tokens (l_emitted l) \<le> l_max_tokens l"
  shows "estimate_tokens (l_emitted l') \<le> l_max_tokens l"
  using assms clip_budget [of "l_emitted l" "l_max_tokens l"]
  by (auto simp: admit_def Let_def split: if_splits)

subsection \<open>The streaming invariant\<close>

text \<open>
  \<open>stream_inv l seen\<close> relates the limiter to the text received so far. While the turn
  runs, nothing received is lost (\<open>emitted @ pending\<close>), no stop sequence has been
  completed, and every position from which one could still be completed lies in the held
  back tail. Once stopped on a sequence, the text sent is what stands before the first
  stop sequence of some received prefix.
\<close>

definition stream_open :: "limiter \<Rightarrow> string \<Rightarrow> bool" where
  "stream_open l seen \<longleftrightarrow> seen = l_emitted l @ l_pending l \<and> no_stop (l_stop_sequences l) seen \<and>
     (\<forall>i. cut_at (l_stop_sequences l) seen i \<longrightarrow> length (l_emitted l) \<le> i)"

definition stream_closed :: "limiter \<Rightarrow> string \<Rightarrow> bool" where
  "stream_closed l seen \<longleftrightarrow> (\<exists>r. seen = l_emitted l @ r) \<and>
     no_stop (l_stop_sequences l) (l_emitted l) \<and>
     l_stop_reason l \<in> {''max_tokens'', ''stop_sequence''} \<and>
     (l_stop_reason l = ''max_tokens'' \<longrightarrow> l_max_tokens l > 0) \<and>
     (l_stop_reason l = ''stop_sequence'' \<longrightarrow>
        (\<exists>j r. seen = j @ r \<and> l_emitted l = take (length (l_emitted l)) j \<and>
           first_stop_sequence j (l_stop_sequences l) =
             Some (length (l_emitted l), l_stop_sequence l)))"

definition stream_inv :: "limiter \<Rightarrow> string \<Rightarrow> bool" where
  "stream_inv l seen \<longleftrightarrow> (if l_stopped l then stream_closed l seen else stream_open l seen)"

lemma stream_inv_new: "stream_inv (new_limiter m seqs) []"
  by (auto simp: stream_inv_def stream_open_def new_limiter_def no_stop_def contains_str_def
      cut_at_def)

text \<open>No sequence starts in the part already sent, whatever arrives next.\<close>

lemma stream_open_no_early:
  assumes "stream_open l seen" and "occurs_at (l_stop_sequences l) (seen @ d) i"
  shows "length (l_emitted l) \<le> i"
proof (rule ccontr)
  assume early: "\<not> length (l_emitted l) \<le> i"
  with assms(1) have "i < length seen" by (auto simp: stream_open_def)
  from occurs_at_extend [OF assms(2) this] assms(1) early show False
    by (auto simp: stream_open_def no_stop_occurs_at)
qed

lemma stream_open_no_early_cut:
  assumes "stream_open l seen" and "cut_at (l_stop_sequences l) (seen @ d) i"
  shows "length (l_emitted l) \<le> i"
proof (rule ccontr)
  assume early: "\<not> length (l_emitted l) \<le> i"
  with assms(1) have "i < length seen" by (auto simp: stream_open_def)
  from cut_at_extend [OF assms(2) this] assms(1) early show False
    by (auto simp: stream_open_def)
qed

text \<open>
  Where no sequence starts before \<open>b\<close>, searching \<open>e @ b\<close> is searching \<open>b\<close>, shifted.
\<close>

lemma index_str_shift:
  assumes "\<And>i. i < length e \<Longrightarrow> \<not> has_prefix (drop i (e @ b)) t"
  shows "index_str (e @ b) t = map_option ((+) (length e)) (index_str b t)"
  using assms
proof (induction e)
  case Nil
  then show ?case by (cases "index_str b t") auto
next
  case (Cons c e)
  have "\<not> has_prefix (drop i (e @ b)) t" if "i < length e" for i
    using Cons.prems [of "Suc i"] that by simp
  with Cons.IH have "index_str (e @ b) t = map_option ((+) (length e)) (index_str b t)" by blast
  with Cons.prems [of 0] show ?case by (cases "index_str b t") auto
qed

lemma first_stop_from_shift:
  assumes "\<And>t. t \<in> set seqs \<Longrightarrow> t \<noteq> [] \<Longrightarrow>
      index_str text' t = map_option ((+) n) (index_str text t)"
  shows "first_stop_from (map_option (apfst ((+) n)) best) text' seqs =
    map_option (apfst ((+) n)) (first_stop_from best text seqs)"
  using assms
proof (induction seqs arbitrary: best)
  case (Cons t ts)
  have ih: "first_stop_from (map_option (apfst ((+) n)) best) text' ts =
      map_option (apfst ((+) n)) (first_stop_from best text ts)" for best
    using Cons by simp
  show ?case
  proof (cases "t = [] \<or> index_str text t = None")
    case True
    then show ?thesis using ih [of best] Cons.prems [of t] by (cases "t = []") auto
  next
    case False
    then obtain k where k: "index_str text t = Some k" "t \<noteq> []" by auto
    then have k': "index_str text' t = Some (n + k)" using Cons.prems [of t] by simp
    show ?thesis
    proof (cases best)
      case None
      then show ?thesis using ih [of "Some (k, t)"] k k' by simp
    next
      case (Some bm)
      obtain b m where "bm = (b, m)" by (cases bm)
      then show ?thesis using ih [of best] ih [of "Some (k, t)"] k k' Some by simp
    qed
  qed
qed simp

text \<open>The search of the buffered tail is the search of the whole text received.\<close>

lemma stream_first_stop:
  assumes "stream_open l seen"
    and "first_stop_sequence (l_pending l @ d) (l_stop_sequences l) = Some (i, s)"
  shows "i \<le> length (l_pending l @ d)"
    and "no_stop (l_stop_sequences l) (l_emitted l @ take i (l_pending l @ d))"
    and "first_stop_sequence (seen @ d) (l_stop_sequences l) = Some (length (l_emitted l) + i, s)"
proof -
  let ?seqs = "l_stop_sequences l" and ?b = "l_pending l @ d" and ?e = "l_emitted l"
  have sd: "seen @ d = ?e @ ?b" using assms(1) by (simp add: stream_open_def)
  note first = first_stop_sequence_Some [OF assms(2)]
  then show i: "i \<le> length ?b" by linarith
  show "no_stop ?seqs (?e @ take i ?b)"
    unfolding no_stop_occurs_at
  proof (intro allI notI)
    fix k assume occ: "occurs_at ?seqs (?e @ take i ?b) k"
    have split: "?e @ ?b = (?e @ take i ?b) @ drop i ?b"
      by (simp only: append_assoc append_take_drop_id)
    from occ have "occurs_at ?seqs (?e @ ?b) k"
      unfolding split by (rule occurs_at_append)
    with stream_open_no_early [OF assms(1), of d k] have k: "length ?e \<le> k"
      by (simp only: sd)
    then obtain j where j: "k = length ?e + j" using le_Suc_ex by blast
    with \<open>occurs_at ?seqs (?e @ ?b) k\<close> have "occurs_at ?seqs ?b j" by (simp add: occurs_at_drop)
    from first_stop_sequence_least [OF assms(2) this] have "i \<le> j" .
    moreover from occurs_at_less [OF occ] j i have "j < i" by simp
    ultimately show False by simp
  qed
  have "\<not> has_prefix (drop k (?e @ ?b)) t" if "t \<in> set ?seqs" "t \<noteq> []" "k < length ?e" for t k
  proof
    assume pre: "has_prefix (drop k (?e @ ?b)) t"
    from has_prefix_length [OF this] have "length t \<le> length (?e @ ?b) - k" by simp
    with that have "k + length t \<le> length (?e @ ?b)" by simp
    with pre that have "occurs_at ?seqs (seen @ d) k" by (auto simp: occurs_at_def sd)
    with stream_open_no_early [OF assms(1)] that(3) show False by fastforce
  qed
  then have "first_stop_from (map_option (apfst ((+) (length ?e))) None) (?e @ ?b) ?seqs =
      map_option (apfst ((+) (length ?e))) (first_stop_from None ?b ?seqs)"
    by (intro first_stop_from_shift index_str_shift) auto
  with assms(2) show "first_stop_sequence (seen @ d) ?seqs = Some (length ?e + i, s)"
    by (simp add: first_stop_sequence_def sd)
qed

lemma stream_no_stop:
  assumes "stream_open l seen"
    and "first_stop_sequence (l_pending l @ d) (l_stop_sequences l) = None"
    and "h = partial_stop_suffix (l_pending l @ d) (l_stop_sequences l)"
  shows "no_stop (l_stop_sequences l) (seen @ d)"
    and "cut_at (l_stop_sequences l) (seen @ d) i \<Longrightarrow>
      length (l_emitted l) + (length (l_pending l @ d) - h) \<le> i"
proof -
  let ?seqs = "l_stop_sequences l" and ?b = "l_pending l @ d" and ?e = "l_emitted l"
  have sd: "seen @ d = ?e @ ?b" using assms(1) by (simp add: stream_open_def)
  show "no_stop ?seqs (seen @ d)"
    unfolding no_stop_occurs_at
  proof (intro allI notI)
    fix k assume occ: "occurs_at ?seqs (seen @ d) k"
    with stream_open_no_early [OF assms(1)] obtain j where "k = length ?e + j"
      using le_Suc_ex by blast
    with occ have "occurs_at ?seqs ?b j" by (simp add: sd occurs_at_drop)
    with first_stop_sequence_None [OF assms(2)] show False by (auto simp: no_stop_occurs_at)
  qed
  assume cut: "cut_at ?seqs (seen @ d) i"
  with stream_open_no_early_cut [OF assms(1)] obtain j where j: "i = length ?e + j"
    using le_Suc_ex by blast
  with cut have "cut_at ?seqs ?b j" by (simp add: sd cut_at_drop)
  from partial_stop_suffix_complete [OF this] j show "length ?e + (length ?b - h) \<le> i"
    by (simp add: assms(3))
qed

lemma stream_closed_extend: "stream_closed l seen \<Longrightarrow> stream_closed l (seen @ d)"
  unfolding stream_closed_def by (metis append_assoc)

lemma feed_inv:
  assumes inv: "stream_inv l seen" and act: "active l" and f: "feed l d = ((out, dn), l')"
  shows "stream_inv l' (seen @ d) \<and> l_emitted l' = l_emitted l @ out \<and> dn = l_stopped l' \<and>
    l_stop_sequences l' = l_stop_sequences l \<and> l_max_tokens l' = l_max_tokens l"
proof (cases "l_stopped l")
  case True
  then have eqs: "l' = l" "out = []" "dn" using f act by (auto simp: feed_def)
  from inv True have "stream_closed l seen" by (simp add: stream_inv_def)
  then have "stream_closed l (seen @ d)" by (rule stream_closed_extend)
  with True eqs show ?thesis by (simp add: stream_inv_def)
next
  case False
  then have opn: "stream_open l seen" using inv by (simp add: stream_inv_def)
  let ?seqs = "l_stop_sequences l" and ?b = "l_pending l @ d" and ?e = "l_emitted l"
  have sd: "seen @ d = ?e @ ?b" using opn by (simp add: stream_open_def)
  show ?thesis
  proof (cases "first_stop_sequence ?b ?seqs")
    case (Some m)
    obtain i s where m: "m = (i, s)" by (cases m)
    note fs = stream_first_stop [OF opn Some [unfolded m]]
    let ?l0 = "l\<lparr>l_pending := [], l_stopped := True, l_stop_reason := ''stop_sequence'',
                 l_stop_sequence := s\<rparr>"
    have adm: "admit ?l0 (take i ?b) = (out, l')" and dn: "dn"
      using f act False Some m by (auto simp: feed_def Let_def split: prod.splits)
    note fr = admit_frame [OF adm]
    obtain r where r: "take i ?b = out @ r" using admit_prefix [OF adm] by blast
    have emit: "l_emitted l' = ?e @ out" using fr by simp
    have st: "l_stopped l'" using admit_outcome [OF adm] by auto
    have ns: "no_stop ?seqs (l_emitted l')"
      unfolding emit by (rule no_stop_prefix [of _ _ r]) (use fs(2) r in simp)
    have pre: "seen @ d = l_emitted l' @ r @ drop i ?b"
      unfolding sd emit using r append_take_drop_id [of i ?b] by (metis append_assoc)
    have "stream_closed l' (seen @ d)"
    proof (cases "l_stop_reason l' = ''max_tokens''")
      case True
      then show ?thesis using ns pre admit_outcome [OF adm] fr
        by (auto simp: stream_closed_def)
    next
      case False
      then have o: "out = take i ?b" "l_stop_reason l' = ''stop_sequence''"
        using admit_outcome [OF adm] by auto
      then have len: "length (l_emitted l') = length ?e + i" using fs(1) emit by simp
      have tk: "l_emitted l' = take (length (l_emitted l')) (seen @ d)"
        unfolding pre by simp
      have "first_stop_sequence (seen @ d) (l_stop_sequences l') =
          Some (length (l_emitted l'), l_stop_sequence l')"
        using fs(3) fr len by simp
      with tk have "\<exists>j r. seen @ d = j @ r \<and> l_emitted l' = take (length (l_emitted l')) j \<and>
           first_stop_sequence j (l_stop_sequences l') =
             Some (length (l_emitted l'), l_stop_sequence l')"
        by (metis append_Nil2)
      with ns pre o(2) fr(2) show ?thesis unfolding stream_closed_def by auto
    qed
    with st dn fr show ?thesis by (simp add: stream_inv_def)
  next
    case None
    let ?h = "partial_stop_suffix ?b ?seqs"
    let ?l0 = "l\<lparr>l_pending := drop (length ?b - ?h) ?b\<rparr>"
    have "(if ?h > 0 then l\<lparr>l_pending := []\<rparr>\<lparr>l_pending := drop (length ?b - ?h) ?b\<rparr>
           else l\<lparr>l_pending := []\<rparr>) = ?l0" by simp
    then have adm: "admit ?l0 (take (length ?b - ?h) ?b) = (out, l')" and dn: "dn = l_stopped l'"
      using f act False None by (auto simp: feed_def Let_def split: prod.splits if_splits)
    note fr = admit_frame [OF adm]
    note ns = stream_no_stop [OF opn None refl]
    obtain r where r: "take (length ?b - ?h) ?b = out @ r" using admit_prefix [OF adm] by blast
    have pre: "seen @ d = l_emitted l' @ r @ drop (length ?b - ?h) ?b"
      using fr(5) r append_take_drop_id [of "length ?b - ?h" ?b] sd by simp
    have "stream_inv l' (seen @ d)"
    proof (cases "l_stopped l'")
      case True
      then have "l_stop_reason l' = ''max_tokens''" "l_max_tokens l > 0"
        using admit_outcome [OF adm] False by auto
      moreover have "no_stop ?seqs (l_emitted l')"
        using ns(1) pre no_stop_prefix by metis
      ultimately have "stream_closed l' (seen @ d)"
        using fr pre by (auto simp: stream_closed_def)
      with True show ?thesis by (simp add: stream_inv_def)
    next
      case nst: False
      then have o: "out = take (length ?b - ?h) ?b" using admit_outcome [OF adm] by auto
      have e: "l_emitted l' = ?e @ out" and pe: "l_pending l' = drop (length ?b - ?h) ?b"
        using fr(3,5) by simp_all
      have "seen @ d = l_emitted l' @ l_pending l'"
        unfolding sd e pe o append_assoc append_take_drop_id ..
      moreover have "length (l_emitted l') = length ?e + (length ?b - ?h)"
        using fr o partial_stop_suffix_le [of ?b ?seqs] by simp
      ultimately have "stream_open l' (seen @ d)"
        using ns fr by (auto simp: stream_open_def)
      with nst show ?thesis by (simp add: stream_inv_def)
    qed
    with dn fr show ?thesis by simp
  qed
qed

subsection \<open>Whole turns\<close>

lemma feed_all_inv:
  assumes "stream_inv l seen" and "active l" and "feed_all l ds = (out, l')"
  shows "stream_inv l' (seen @ concat ds) \<and> l_emitted l' = l_emitted l @ out \<and>
    l_stop_sequences l' = l_stop_sequences l \<and> l_max_tokens l' = l_max_tokens l"
  using assms
proof (induction ds arbitrary: l seen out)
  case Nil
  then show ?case by simp
next
  case (Cons d ds)
  obtain o1 dn l1 where f: "feed l d = ((o1, dn), l1)" by (metis prod.exhaust)
  obtain o2 where fa: "feed_all l1 ds = (o2, l')" "out = o1 @ o2"
    using Cons.prems(3) f by (auto simp: Let_def split: prod.splits)
  note i1 = feed_inv [OF Cons.prems(1,2) f]
  then have "active l1" using Cons.prems(2) by (simp add: active_def)
  from Cons.IH [OF _ this fa(1), of "seen @ d"] i1 fa(2) show ?case by simp
qed

lemma feed_budget:
  assumes "feed l d = ((out, dn), l')" and "l_max_tokens l > 0"
    and "estimate_tokens (l_emitted l) \<le> l_max_tokens l"
  shows "estimate_tokens (l_emitted l') \<le> l_max_tokens l \<and> l_max_tokens l' = l_max_tokens l"
proof (cases "\<not> active l \<or> l_stopped l")
  case True
  then have "l' = l" using assms(1) by (auto simp: feed_def split: if_splits)
  with assms show ?thesis by simp
next
  case False
  let ?b = "l_pending l @ d" and ?seqs = "l_stop_sequences l"
  obtain l0 t where adm: "admit l0 t = (out, l')"
    and l0: "l_max_tokens l0 = l_max_tokens l" "l_emitted l0 = l_emitted l"
  proof (cases "first_stop_sequence ?b ?seqs")
    case None
    show ?thesis
      by (rule that [of "l\<lparr>l_pending := drop (length ?b - partial_stop_suffix ?b ?seqs) ?b\<rparr>"
          "take (length ?b - partial_stop_suffix ?b ?seqs) ?b"])
        (use assms(1) False None in
          \<open>auto simp: feed_def Let_def split: prod.splits if_splits\<close>)
  next
    case (Some m)
    show ?thesis
      by (rule that [of "l\<lparr>l_pending := [], l_stopped := True, l_stop_reason := ''stop_sequence'',
                 l_stop_sequence := snd m\<rparr>" "take (fst m) ?b"])
        (use assms(1) False Some in \<open>auto simp: feed_def Let_def split: prod.splits\<close>)
  qed
  from admit_budget [OF adm] admit_frame(1) [OF adm] l0 assms(2,3) show ?thesis by simp
qed

lemma feed_all_budget:
  assumes "feed_all l ds = (out, l')" and "l_max_tokens l > 0"
    and "estimate_tokens (l_emitted l) \<le> l_max_tokens l"
  shows "estimate_tokens (l_emitted l') \<le> l_max_tokens l \<and> l_max_tokens l' = l_max_tokens l"
  using assms
proof (induction ds arbitrary: l out)
  case (Cons d ds)
  obtain o1 dn l1 where f: "feed l d = ((o1, dn), l1)" by (metis prod.exhaust)
  obtain o2 where "feed_all l1 ds = (o2, l')"
    using Cons.prems(1) f by (auto simp: Let_def split: prod.splits)
  with Cons.IH feed_budget [OF f] Cons.prems show ?case by metis
qed simp

lemma new_limiter_simps [simp]:
  "l_emitted (new_limiter m seqs) = []" "l_max_tokens (new_limiter m seqs) = m"
  "l_stop_sequences (new_limiter m seqs) = seqs" "l_stopped (new_limiter m seqs) = False"
  by (simp_all add: new_limiter_def)

text \<open>C22: Streaming contract. Whatever the chunking of the assistant text into deltas, the text
  the client has received is a prefix of the upstream text and holds no complete stop
  sequence. If no limit was hit, everything is either sent or still held back and the
  upstream text itself holds no stop sequence. If the turn stopped on a stop sequence,
  the text sent ends exactly where that sequence starts.\<close>

theorem limiter_stream_spec:
  assumes "active (new_limiter m seqs)"
    and "feed_all (new_limiter m seqs) ds = (out, l')"
  shows "(\<exists>r. concat ds = out @ r) \<and> no_stop seqs out \<and>
    (\<not> l_stopped l' \<longrightarrow> concat ds = out @ l_pending l' \<and> no_stop seqs (concat ds)) \<and>
    (l_stopped l' \<and> l_stop_reason l' = ''stop_sequence'' \<longrightarrow>
       l_stop_sequence l' \<in> set seqs \<and> (\<exists>r. concat ds = out @ l_stop_sequence l' @ r))"
proof -
  have inv: "stream_inv l' (concat ds)" "l_emitted l' = out" "l_stop_sequences l' = seqs"
    using feed_all_inv [OF stream_inv_new assms] by simp_all
  show ?thesis
  proof (cases "l_stopped l'")
    case False
    with inv show ?thesis
      by (auto simp: stream_inv_def stream_open_def dest: no_stop_prefix)
  next
    case True
    with inv have cl: "stream_closed l' (concat ds)" by (simp add: stream_inv_def)
    have "l_stop_sequence l' \<in> set seqs \<and> (\<exists>r. concat ds = out @ l_stop_sequence l' @ r)"
      if "l_stop_reason l' = ''stop_sequence''"
    proof -
      from cl that inv obtain j r where j: "concat ds = j @ r" "out = take (length out) j"
        "first_stop_sequence j seqs = Some (length out, l_stop_sequence l')"
        by (auto simp: stream_closed_def)
      note fs = first_stop_sequence_Some [OF j(3)]
      then obtain q where "drop (length out) j = l_stop_sequence l' @ q"
        by (auto simp: has_prefix_iff)
      then have "j = out @ l_stop_sequence l' @ q"
        using j(2) by (metis append_take_drop_id)
      with j(1) fs(1) show ?thesis by auto
    qed
    with True cl inv show ?thesis by (auto simp: stream_closed_def)
  qed
qed

theorem limiter_stream_spec_witness:
  "active (new_limiter 0 [''END'']) \<and>
   feed_all (new_limiter 0 [''END'']) [''abE'', ''ND!''] =
     (''ab'', (new_limiter 0 [''END''])\<lparr>l_emitted := ''ab'', l_stopped := True,
        l_stop_reason := ''stop_sequence'', l_stop_sequence := ''END''\<rparr>) \<and>
   no_stop [''END''] ''ab''"
proof -
  have a: "active (new_limiter 0 [''END''])" by (simp add: active_def)
  have b: "feed_all (new_limiter 0 [''END'']) [''abE'', ''ND!''] =
     (''ab'', (new_limiter 0 [''END''])\<lparr>l_emitted := ''ab'', l_stopped := True,
        l_stop_reason := ''stop_sequence'', l_stop_sequence := ''END''\<rparr>)"
    by code_simp
  from limiter_stream_spec [OF a b] a b show ?thesis by blast
qed



text \<open>Chunking independence. With one stop sequence and no token ceiling, feeding any
  deltas and flushing sends exactly what truncating the whole text sends, and reports the
  same stop reason: the streamed and the non-streamed answer agree.\<close>

theorem limiter_chunking_independent:
  assumes "s \<noteq> []" and "m \<le> 0"
    and "feed_all (new_limiter m [s]) ds = (out, l1)" and "flush l1 = (rest, l2)"
    and "truncate_text (new_limiter m [s]) (concat ds) = (whole, l3)"
  shows "out @ rest = whole \<and> stop_reason_of l2 = stop_reason_of l3"
proof -
  have act: "active (new_limiter m [s])" by (simp add: active_def)
  have stop: "if contains_str x s
      then o' @ r' = take (the (index_str x s)) x \<and> stop_reason_of lb = Some (''stop_sequence'', s)
      else o' @ r' = x \<and> stop_reason_of lb = None"
    if fa: "feed_all (new_limiter m [s]) es = (o', la)" "flush la = (r', lb)" "x = concat es"
    for es o' la r' lb x
  proof -
    note fi = feed_all_inv [OF stream_inv_new act fa(1)]
    then have la: "stream_inv la x" "l_emitted la = o'" "l_stop_sequences la = [s]"
      "l_max_tokens la = m" using fa(3) by simp_all
    then have act': "active la" by (simp add: active_def)
    show ?thesis
    proof (cases "l_stopped la")
      case False
      then have "stream_open la x" using la(1) by (simp add: stream_inv_def)
      then have opn: "x = o' @ l_pending la" "no_stop [s] x"
        unfolding stream_open_def la by blast+
      have "r' = l_pending la" "stop_reason_of lb = None"
        using fa(2) act' False la(4) assms(2) by (auto simp: flush_def admit_unlimited
            stop_reason_of_def)
      with opn assms(1) show ?thesis by (simp add: no_stop_def)
    next
      case True
      then have cl: "stream_closed la x" using la by (simp add: stream_inv_def)
      then have reason: "l_stop_reason la = ''stop_sequence''"
        using la(4) assms(2) by (auto simp: stream_closed_def)
      with cl la obtain j r where j: "x = j @ r" "o' = take (length o') j"
        "first_stop_sequence j [s] = Some (length o', l_stop_sequence la)"
        by (auto simp: stream_closed_def)
      note fs = first_stop_sequence_Some [OF j(3)]
      have sq: "l_stop_sequence la = s" using fs(1) by simp
      obtain k where k: "index_str x s = Some k"
        using fs(3) sq j(1) contains_str_append_left [of j s r] by (auto simp: contains_str_def)
      have "has_prefix (drop (length o') x) s"
        using fs(4,5) sq j(1) by (auto simp: has_prefix_iff)
      then have "k \<le> length o'" using index_str_least [OF k, of "length o'"] by force
      moreover have "length o' \<le> k"
      proof (rule ccontr)
        assume lt: "\<not> length o' \<le> k"
        have "has_prefix (drop k x) s" using index_str_Some [OF k] by simp
        moreover have "k + length s \<le> length j" using lt fs(4) sq by simp
        ultimately have "has_prefix (drop k j) s" using j(1) by (simp add: has_prefix_def)
        with lt index_str_least [OF fs(3), of k] sq show False by simp
      qed
      ultimately have "o' = take k x" using j(1,2) fs(4) by simp
      moreover have "r' = []" "lb = la" using fa(2) True by (auto simp: flush_def)
      ultimately show ?thesis
        using k True reason sq by (simp add: contains_str_def stop_reason_of_def)
    qed
  qed
  obtain o3 d3 l4 where f: "feed (new_limiter m [s]) (concat ds) = ((o3, d3), l4)"
    by (metis prod.exhaust)
  obtain r3 where fl: "flush l4 = (r3, l3)" "whole = o3 @ r3"
    using assms(5) act f by (auto simp: truncate_text_def Let_def split: prod.splits)
  have one: "feed_all (new_limiter m [s]) [concat ds] = (o3, l4)" using f by simp
  from stop [OF assms(3,4) refl] stop [OF one fl(1)] fl(2) show ?thesis
    by (auto split: if_splits)
qed

theorem limiter_chunking_independent_witness:
  "fst (feed_all (new_limiter 0 [''aab'']) [''xaa'', ''ab'', ''y'']) = ''xa'' \<and>
   fst (truncate_text (new_limiter 0 [''aab'']) ''xaaaby'') = ''xa''"
proof -
  obtain out l1 where a: "feed_all (new_limiter 0 [''aab'']) [''xaa'', ''ab'', ''y''] = (out, l1)"
    by (metis prod.exhaust)
  obtain r l2 where b: "flush l1 = (r, l2)" by (metis prod.exhaust)
  obtain w l3 where c: "truncate_text (new_limiter 0 [''aab'']) (concat [''xaa'', ''ab'', ''y'']) = (w, l3)"
    by (metis prod.exhaust)
  have "fst (feed_all (new_limiter 0 [''aab'']) [''xaa'', ''ab'', ''y'']) = ''xa''"
    and st: "l_stopped (snd (feed_all (new_limiter 0 [''aab'']) [''xaa'', ''ab'', ''y'']))"
    by code_simp+
  moreover have "out @ r = w"
    using limiter_chunking_independent [OF _ _ a b c] by simp
  moreover have "r = []" using b st a by (auto simp: flush_def)
  ultimately show ?thesis using a c by simp
qed

text \<open>Divergence of the two entry points. With two stop sequences of which one contains
  the other, the streamed answer and the truncated answer differ: fed byte by byte, the
  inner sequence completes first and the turn stops on it, while the whole-text search
  prefers the sequence that starts first.\<close>

theorem limiter_overlap_divergence:
  "fst (feed_all (new_limiter 0 [''abcd'', ''bc'']) [''a'', ''b'', ''c'', ''d'']) = ''a'' \<and>
   stop_reason_of (snd (feed_all (new_limiter 0 [''abcd'', ''bc'']) [''a'', ''b'', ''c'', ''d''])) =
     Some (''stop_sequence'', ''bc'') \<and>
   fst (truncate_text (new_limiter 0 [''abcd'', ''bc'']) ''abcd'') = [] \<and>
   stop_reason_of (snd (truncate_text (new_limiter 0 [''abcd'', ''bc'']) ''abcd'')) =
     Some (''stop_sequence'', ''abcd'')"
  by code_simp

text \<open>Stale stop sequence. When a stop sequence is found and the text before it overruns
  the token ceiling, the reported reason is max_tokens but the stop sequence that was
  found is still reported with it.\<close>

theorem limiter_stale_stop_sequence:
  "stop_reason_of (snd (feed (new_limiter 1 [''END'']) ''abcdefEND'')) =
     Some (''max_tokens'', ''END'')"
  by code_simp

end
