(* ===== verification/SimCache.thy ===== *)
theory SimCache
  imports Prelude
begin

text \<open>
  Model of \<^verbatim>\<open>executor/simcache/store.go\<close>: the bounded TTL/LRU store of prompt-prefix
  hashes. The Go store shares each entry between a map and a doubly linked list, through
  pointers, and updates it in place; the model keeps that aliasing: list elements are
  addresses into a heap, the map sends a hash to an address, the list is the sequence of
  addresses from front (most recently used) to the tail. Times are nanoseconds; SHA-256 is the
  parameter \<open>sha\<close>, of which nothing is assumed. The mutex makes each call atomic, so a
  call is one state transition.
\<close>

record 'h cache_entry =
  e_hash :: 'h
  e_token_count :: int
  e_first_seen :: int
  e_last_accessed :: int
  e_hit_count :: int

record 'h store =
  st_ttl :: int
  st_max :: int
  st_items :: "('h \<times> nat) list"
  st_lru :: "nat list"
  st_heap :: "nat \<Rightarrow> 'h cache_entry"
  st_next :: nat

subsection \<open>The token estimate\<close>

text \<open>
  \<^verbatim>\<open>int(float64(n)/1.5)\<close> is \<open>2 n div 3\<close>: 1.5 is a double, and \<open>2 n / 3\<close> is an integer or
  a third away from one, so rounding the quotient does not move its integer part.
\<close>

definition est_tokens :: "string \<Rightarrow> int" where
  "est_tokens s =
     (let starts = rune_starts s;
          ascii = length (filter (\<lambda>i. byte_of (s ! i) < 0x80) starts);
          non_ascii = length (filter (\<lambda>i. \<not> byte_of (s ! i) < 0x80) starts) in
      int (ascii div 4) + int (2 * non_ascii div 3))"

subsection \<open>Operations\<close>

definition new_store :: "int \<Rightarrow> int \<Rightarrow> 'h cache_entry \<Rightarrow> 'h store" where
  "new_store ttl mx zero =
     (let ttl = (if ttl \<le> 0 then 10 * 60 * 10 ^ 9 else ttl); mx = (if mx \<le> 0 then 1000 else mx) in
      \<lparr>st_ttl = ttl, st_max = mx, st_items = [], st_lru = [], st_heap = (\<lambda>_. zero), st_next = 0\<rparr>)"

definition lru_remove :: "nat \<Rightarrow> 'h \<Rightarrow> 'h store \<Rightarrow> 'h store" where
  "lru_remove el h s = s\<lparr>st_lru := removeAll el (st_lru s), st_items := AList.delete h (st_items s)\<rparr>"

text \<open>The tail element is the last of the list; each round removes it.\<close>

fun sweep_expired :: "int \<Rightarrow> nat list \<Rightarrow> 'h store \<Rightarrow> 'h store" where
  "sweep_expired now [] s = s"
| "sweep_expired now (bk # rest) s =
     (let ent = st_heap s bk in
      if now - e_last_accessed ent \<le> st_ttl s then s
      else sweep_expired now rest (lru_remove bk (e_hash ent) s))"

fun evict_tail :: "nat list \<Rightarrow> 'h store \<Rightarrow> 'h store" where
  "evict_tail [] s = s"
| "evict_tail (bk # rest) s =
     (if int (length (st_items s)) \<ge> st_max s
      then evict_tail rest (lru_remove bk (e_hash (st_heap s bk)) s) else s)"

definition evict_locked :: "int \<Rightarrow> 'h store \<Rightarrow> 'h store" where
  "evict_locked now s =
     (let s = sweep_expired now (rev (st_lru s)) s in evict_tail (rev (st_lru s)) s)"

definition record_entry :: "int \<Rightarrow> 'h \<Rightarrow> string \<Rightarrow> 'h store \<Rightarrow> 'h cache_entry \<times> 'h store" where
  "record_entry now h prefix s =
     (let ent = \<lparr>e_hash = h, e_token_count = est_tokens prefix, e_first_seen = now,
                 e_last_accessed = now, e_hit_count = 0\<rparr>; el = st_next s in
      (ent, s\<lparr>st_heap := (st_heap s)(el := ent), st_next := el + 1,
              st_lru := el # st_lru s, st_items := AList.update h el (st_items s)\<rparr>))"

definition touch_entry :: "int \<Rightarrow> nat \<Rightarrow> 'h store \<Rightarrow> 'h cache_entry \<times> 'h store" where
  "touch_entry now el s =
     (let ent = (st_heap s el)\<lparr>e_last_accessed := now, e_hit_count := e_hit_count (st_heap s el) + 1\<rparr>
      in (ent, s\<lparr>st_heap := (st_heap s)(el := ent), st_lru := el # removeAll el (st_lru s)\<rparr>))"

definition lookup_or_record ::
  "(string \<Rightarrow> 'h) \<Rightarrow> int \<Rightarrow> string \<Rightarrow> 'h store \<Rightarrow> (bool \<times> int \<times> 'h cache_entry) \<times> 'h store" where
  "lookup_or_record sha now prefix s =
     (let h = sha prefix;
          miss = (\<lambda>s. let (ent, s) = record_entry now h prefix (evict_locked now s)
                      in ((False, 0, ent), s)) in
      (case map_of (st_items s) h of
         None \<Rightarrow> miss s
       | Some el \<Rightarrow>
           if now - e_last_accessed (st_heap s el) > st_ttl s then miss (lru_remove el h s)
           else let (ent, s) = touch_entry now el s in ((True, e_token_count ent, ent), s)))"

definition store_len :: "'h store \<Rightarrow> nat" where
  "store_len s = length (st_items s)"

subsection \<open>Well-formedness: the map and the list agree\<close>

definition store_ok :: "'h store \<Rightarrow> bool" where
  "store_ok s \<longleftrightarrow> st_ttl s > 0 \<and> st_max s > 0 \<and>
     distinct (st_lru s) \<and> distinct (map fst (st_items s)) \<and>
     (\<forall>i \<in> set (st_lru s). i < st_next s) \<and>
     set (st_items s) = (\<lambda>i. (e_hash (st_heap s i), i)) ` set (st_lru s)"

text \<open>The abstract content: the live entries, most recently used first.\<close>

definition entries :: "'h store \<Rightarrow> 'h cache_entry list" where
  "entries s = map (st_heap s) (st_lru s)"

lemma store_ok_new: "store_ok (new_store ttl mx zero)"
  by (simp add: store_ok_def new_store_def Let_def)

lemma items_length:
  assumes "store_ok s"
  shows "length (st_items s) = length (st_lru s)"
proof -
  have "length (st_items s) = card (set (st_items s))"
    using assms by (metis distinct_card distinct_map store_ok_def)
  also have "\<dots> = card (set (st_lru s))"
    using assms by (auto simp: store_ok_def intro!: card_image inj_onI)
  finally show ?thesis using assms by (simp add: distinct_card store_ok_def)
qed

lemma items_mem:
  "store_ok s \<Longrightarrow> (h, i) \<in> set (st_items s) \<longleftrightarrow> i \<in> set (st_lru s) \<and> e_hash (st_heap s i) = h"
  unfolding store_ok_def by (auto simp del: set_map)

lemma items_lookup:
  assumes "store_ok s"
  shows "map_of (st_items s) h = Some i \<longleftrightarrow> i \<in> set (st_lru s) \<and> e_hash (st_heap s i) = h"
  using assms items_mem [OF assms, of h i] by (simp add: store_ok_def)

lemma items_lookup_None:
  assumes "store_ok s"
  shows "map_of (st_items s) h = None \<longleftrightarrow> (\<forall>e \<in> set (entries s). e_hash e \<noteq> h)"
  using items_lookup [OF assms, of h] by (auto simp: entries_def simp flip: not_Some_eq)

lemma hash_inj:
  assumes "store_ok s" "i \<in> set (st_lru s)" "j \<in> set (st_lru s)"
    "e_hash (st_heap s i) = e_hash (st_heap s j)"
  shows "i = j"
  using items_lookup [OF assms(1)] assms(2-4) by (metis option.inject)

lemma lru_remove_ok [wf_intros]:
  assumes "store_ok s" "i \<in> set (st_lru s)" "h = e_hash (st_heap s i)"
  shows "store_ok (lru_remove i h s)"
proof -
  have "set (AList.delete h (st_items s)) = {p \<in> set (st_items s). fst p \<noteq> h}"
    by (auto simp: AList.delete_eq)
  also have "\<dots> = (\<lambda>i. (e_hash (st_heap s i), i)) ` (set (st_lru s) - {i})"
    using assms hash_inj [OF assms(1)] unfolding store_ok_def by auto
  finally show ?thesis
    using assms by (auto simp: store_ok_def lru_remove_def distinct_removeAll
        intro: distinct_delete)
qed

lemma lru_remove_entries:
  assumes "store_ok s" "i \<in> set (st_lru s)" "h = e_hash (st_heap s i)"
  shows "entries (lru_remove i h s) = filter (\<lambda>e. e_hash e \<noteq> h) (entries s)"
proof -
  have "filter (\<lambda>j. e_hash (st_heap s j) \<noteq> h) (st_lru s) = removeAll i (st_lru s)"
    unfolding removeAll_filter_not_eq
    by (rule filter_cong) (use assms hash_inj [OF assms(1)] in auto)
  then show ?thesis by (simp add: entries_def lru_remove_def filter_map comp_def)
qed

lemma lru_remove_frame [simp]:
  "st_ttl (lru_remove i h s) = st_ttl s" "st_max (lru_remove i h s) = st_max s"
  "st_heap (lru_remove i h s) = st_heap s" "st_next (lru_remove i h s) = st_next s"
  "st_lru (lru_remove i h s) = removeAll i (st_lru s)"
  by (simp_all add: lru_remove_def)

lemma remove_back:
  assumes "store_ok s" "rev (st_lru s) = bk # rest"
  shows "store_ok (lru_remove bk (e_hash (st_heap s bk)) s)"
    "rev (st_lru (lru_remove bk (e_hash (st_heap s bk)) s)) = rest"
proof -
  have l: "st_lru s = rev rest @ [bk]" using assms(2) by (metis rev.simps(2) rev_swap)
  then show "store_ok (lru_remove bk (e_hash (st_heap s bk)) s)"
    using assms(1) by (intro lru_remove_ok) auto
  have "distinct (st_lru s)" using assms(1) by (simp add: store_ok_def)
  then show "rev (st_lru (lru_remove bk (e_hash (st_heap s bk)) s)) = rest"
    using l by (simp add: removeAll_id)
qed

definition fresh_at :: "int \<Rightarrow> int \<Rightarrow> 'h cache_entry \<Rightarrow> bool" where
  "fresh_at ttl now e \<longleftrightarrow> now - e_last_accessed e \<le> ttl"

lemma sweep_expired_spec:
  assumes "store_ok s" "rev (st_lru s) = bs"
  shows "store_ok (sweep_expired now bs s) \<and>
    entries (sweep_expired now bs s) =
      rev (dropWhile (\<lambda>e. \<not> fresh_at (st_ttl s) now e) (rev (entries s))) \<and>
    st_ttl (sweep_expired now bs s) = st_ttl s \<and> st_max (sweep_expired now bs s) = st_max s \<and>
    st_next (sweep_expired now bs s) = st_next s"
  using assms
proof (induction now bs s rule: sweep_expired.induct)
  case (1 now s)
  then show ?case by (simp add: entries_def)
next
  case (2 now bk rest s)
  have re: "rev (entries s) = st_heap s bk # map (st_heap s) rest"
    using "2.prems"(2) by (simp add: entries_def rev_map)
  show ?case
  proof (cases "now - e_last_accessed (st_heap s bk) \<le> st_ttl s")
    case True
    then have "dropWhile (\<lambda>e. \<not> fresh_at (st_ttl s) now e) (rev (entries s)) = rev (entries s)"
      unfolding re by (simp add: fresh_at_def)
    with True "2.prems"(1) show ?thesis by (simp add: Let_def)
  next
    case False
    let ?t = "lru_remove bk (e_hash (st_heap s bk)) s"
    note rb = remove_back [OF "2.prems"]
    have rt: "rev (entries ?t) = map (st_heap s) rest"
      unfolding entries_def rev_map rb(2) by simp
    have "dropWhile (\<lambda>e. \<not> fresh_at (st_ttl s) now e) (rev (entries s)) =
        dropWhile (\<lambda>e. \<not> fresh_at (st_ttl s) now e) (rev (entries ?t))"
      unfolding re rt using False by (simp add: fresh_at_def)
    with "2.IH" [OF refl False rb] False show ?thesis by (simp add: Let_def)
  qed
qed

lemma evict_tail_spec:
  assumes "store_ok s" "rev (st_lru s) = bs"
  shows "store_ok (evict_tail bs s) \<and>
    entries (evict_tail bs s) = take (nat (st_max s - 1)) (entries s) \<and>
    st_ttl (evict_tail bs s) = st_ttl s \<and> st_max (evict_tail bs s) = st_max s \<and>
    st_next (evict_tail bs s) = st_next s"
  using assms
proof (induction bs s rule: evict_tail.induct)
  case (1 s)
  then show ?case by (simp add: entries_def)
next
  case (2 bk rest s)
  have len: "length (st_items s) = Suc (length rest)"
    using items_length [OF "2.prems"(1)] arg_cong [OF "2.prems"(2), of length] by simp
  show ?case
  proof (cases "int (length (st_items s)) \<ge> st_max s")
    case False
    then have "length (entries s) \<le> nat (st_max s - 1)"
      using items_length [OF "2.prems"(1)] by (simp add: entries_def)
    with False "2.prems"(1) show ?thesis by simp
  next
    case True
    let ?t = "lru_remove bk (e_hash (st_heap s bk)) s"
    note rb = remove_back [OF "2.prems"]
    have "entries s = entries ?t @ [st_heap s bk]"
      using rb(2) "2.prems"(2) by (simp add: entries_def) (metis map_append rev.simps(2) rev_swap
          list.simps(8,9))
    moreover have "length (entries ?t) = length rest"
      using arg_cong [OF rb(2), of length] by (simp add: entries_def)
    ultimately have "take (nat (st_max s - 1)) (entries s) = take (nat (st_max s - 1)) (entries ?t)"
      using True len by simp
    with "2.IH" [OF True rb] True show ?thesis by simp
  qed
qed

lemma evict_locked_spec:
  assumes "store_ok s"
  shows "store_ok (evict_locked now s) \<and>
    entries (evict_locked now s) = take (nat (st_max s - 1))
      (rev (dropWhile (\<lambda>e. \<not> fresh_at (st_ttl s) now e) (rev (entries s)))) \<and>
    st_ttl (evict_locked now s) = st_ttl s \<and> st_max (evict_locked now s) = st_max s"
  using sweep_expired_spec [OF assms refl, of now]
    evict_tail_spec [of "sweep_expired now (rev (st_lru s)) s", OF _ refl]
  by (simp add: evict_locked_def Let_def)

lemma record_entry_ok:
  assumes "store_ok s" and "\<forall>e \<in> set (entries s). e_hash e \<noteq> h"
    and "record_entry now h p s = (ent, t)"
  shows "store_ok t \<and> entries t = ent # entries s \<and> st_ttl t = st_ttl s \<and> st_max t = st_max s \<and>
    ent = \<lparr>e_hash = h, e_token_count = est_tokens p, e_first_seen = now,
           e_last_accessed = now, e_hit_count = 0\<rparr>"
proof -
  have fr: "st_next s \<notin> set (st_lru s)" using assms(1) by (auto simp: store_ok_def)
  have nk: "h \<notin> fst ` set (st_items s)"
    using items_lookup_None [OF assms(1), of h] assms(2) by (simp add: map_of_eq_None_iff)
  define ent' where "ent' = \<lparr>e_hash = h, e_token_count = est_tokens p, e_first_seen = now,
           e_last_accessed = now, e_hit_count = 0\<rparr>"
  have ent: "ent = ent'"
    and t: "t = s\<lparr>st_heap := (st_heap s)(st_next s := ent'), st_next := Suc (st_next s),
             st_lru := st_next s # st_lru s, st_items := st_items s @ [(h, st_next s)]\<rparr>"
    using assms(3) update_new_key [OF nk] by (auto simp: record_entry_def Let_def ent'_def)
  have img: "(\<lambda>i. (e_hash (((st_heap s)(st_next s := ent')) i), i)) ` set (st_lru s) =
      (\<lambda>i. (e_hash (st_heap s i), i)) ` set (st_lru s)"
    using fr by (intro image_cong) auto
  have map: "map ((st_heap s)(st_next s := ent')) (st_lru s) = map (st_heap s) (st_lru s)"
    using fr by (intro map_cong) auto
  have "store_ok t"
    using assms(1) fr nk img unfolding t store_ok_def
    by (simp add: less_SucI ent'_def del: fun_upd_apply) (simp add: fun_upd_def)
  then show ?thesis
    using map by (simp add: t ent entries_def ent'_def [symmetric])
qed

lemma touch_entry_ok:
  assumes "store_ok s" and "i \<in> set (st_lru s)" and "touch_entry now i s = (ent, t)"
  shows "store_ok t \<and> entries t = ent # filter (\<lambda>e. e_hash e \<noteq> e_hash ent) (entries s) \<and>
    st_ttl t = st_ttl s \<and> st_max t = st_max s \<and>
    ent = (st_heap s i)\<lparr>e_last_accessed := now, e_hit_count := e_hit_count (st_heap s i) + 1\<rparr>"
proof -
  have ent: "ent = (st_heap s i)\<lparr>e_last_accessed := now, e_hit_count := e_hit_count (st_heap s i) + 1\<rparr>"
    and t: "t = s\<lparr>st_heap := (st_heap s)(i := ent), st_lru := i # removeAll i (st_lru s)\<rparr>"
    using assms(3) by (auto simp: touch_entry_def Let_def)
  have h: "e_hash (((st_heap s)(i := ent)) j) = e_hash (st_heap s j)" for j
    by (simp add: ent)
  have set: "set (i # removeAll i (st_lru s)) = set (st_lru s)" using assms(2) by auto
  have img: "(\<lambda>j. (e_hash (((st_heap s)(i := ent)) j), j)) ` A =
      (\<lambda>j. (e_hash (st_heap s j), j)) ` A" for A
    by (simp only: h)
  have "distinct (i # removeAll i (st_lru s))"
    using assms(1) by (simp add: store_ok_def distinct_removeAll)
  then have ok: "store_ok t"
    using assms(1) set img [of "set (st_lru s)"] unfolding t store_ok_def
    by (simp del: fun_upd_apply set_removeAll)
  have "filter (\<lambda>j. e_hash (st_heap s j) \<noteq> e_hash ent) (st_lru s) = removeAll i (st_lru s)"
    unfolding removeAll_filter_not_eq
    by (rule filter_cong) (use assms(2) hash_inj [OF assms(1)] ent in auto)
  then have "entries t = ent # filter (\<lambda>e. e_hash e \<noteq> e_hash ent) (entries s)"
    by (simp add: t entries_def filter_map comp_def)
  with ok ent t show ?thesis by simp
qed

subsection \<open>The abstract cache, and the refinement\<close>

text \<open>
  What the store promises, on the list of live entries alone, most recent first: a fresh
  entry is moved to the front and counted; otherwise the prefix is recorded at the front
  after the stale entry of the same hash, the expired tail and everything beyond the bound
  have been dropped.
\<close>

definition spec_lookup ::
  "(string \<Rightarrow> 'h) \<Rightarrow> int \<Rightarrow> int \<Rightarrow> int \<Rightarrow> string \<Rightarrow> 'h cache_entry list \<Rightarrow>
     (bool \<times> int \<times> 'h cache_entry) \<times> 'h cache_entry list" where
  "spec_lookup sha ttl mx now p es =
     (let h = sha p; others = filter (\<lambda>e. e_hash e \<noteq> h) es in
      case find (\<lambda>e. e_hash e = h \<and> fresh_at ttl now e) es of
        Some e \<Rightarrow>
          let e = e\<lparr>e_last_accessed := now, e_hit_count := e_hit_count e + 1\<rparr> in
          ((True, e_token_count e, e), e # others)
      | None \<Rightarrow>
          let e = \<lparr>e_hash = h, e_token_count = est_tokens p, e_first_seen = now,
                   e_last_accessed = now, e_hit_count = 0\<rparr>;
              kept = take (nat (mx - 1)) (rev (dropWhile (\<lambda>e. \<not> fresh_at ttl now e) (rev others)))
          in ((False, 0, e), e # kept))"

lemma find_hash:
  assumes "store_ok s" "i \<in> set (st_lru s)" "P (st_heap s i)"
  shows "find (\<lambda>e. e_hash e = e_hash (st_heap s i) \<and> P e) (entries s) = Some (st_heap s i)"
proof -
  have "find (\<lambda>j. e_hash (st_heap s j) = e_hash (st_heap s i) \<and> P (st_heap s j)) (st_lru s) = Some j
      \<Longrightarrow> j = i" for j
    using hash_inj [OF assms(1) _ assms(2)] by (auto simp: find_Some_iff)
  moreover have "find (\<lambda>j. e_hash (st_heap s j) = e_hash (st_heap s i) \<and> P (st_heap s j)) (st_lru s)
      \<noteq> None"
    using assms by (auto simp: find_None_iff)
  ultimately have "find (\<lambda>j. e_hash (st_heap s j) = e_hash (st_heap s i) \<and> P (st_heap s j)) (st_lru s)
      = Some i" by blast
  moreover have "find Q (map f xs) = map_option f (find (Q \<circ> f) xs)" for Q and f :: "nat \<Rightarrow> 'a cache_entry" and xs
    by (induction xs) auto
  ultimately show ?thesis by (simp add: entries_def comp_def)
qed

lemma miss_refines:
  assumes "store_ok s" and "\<forall>e \<in> set (entries s). e_hash e \<noteq> sha p"
    and "record_entry now (sha p) p (evict_locked now s) = (ent, t)"
  shows "store_ok t \<and> st_ttl t = st_ttl s \<and> st_max t = st_max s \<and>
    ent = \<lparr>e_hash = sha p, e_token_count = est_tokens p, e_first_seen = now,
           e_last_accessed = now, e_hit_count = 0\<rparr> \<and>
    entries t = ent # take (nat (st_max s - 1))
      (rev (dropWhile (\<lambda>e. \<not> fresh_at (st_ttl s) now e) (rev (entries s))))"
proof -
  note ev = evict_locked_spec [OF assms(1), of now]
  have "set (entries (evict_locked now s)) \<subseteq> set (entries s)"
    using ev by (metis set_dropWhileD set_rev set_take_subset subset_code(1))
  with assms(2) have "\<forall>e \<in> set (entries (evict_locked now s)). e_hash e \<noteq> sha p" by auto
  from record_entry_ok [OF _ this assms(3)] ev show ?thesis by simp
qed

lemma lookup_refines:
  assumes "store_ok s" and "lookup_or_record sha now p s = (r, t)"
  shows "store_ok t \<and> st_ttl t = st_ttl s \<and> st_max t = st_max s \<and>
    (r, entries t) = spec_lookup sha (st_ttl s) (st_max s) now p (entries s)"
proof (cases "map_of (st_items s) (sha p)")
  case None
  then have no: "\<forall>e \<in> set (entries s). e_hash e \<noteq> sha p"
    using items_lookup_None [OF assms(1)] by blast
  obtain ent where rec: "record_entry now (sha p) p (evict_locked now s) = (ent, t)"
    and r: "r = (False, 0, ent)"
    using assms(2) None by (auto simp: lookup_or_record_def Let_def split: prod.splits)
  have "find (\<lambda>e. e_hash e = sha p \<and> fresh_at (st_ttl s) now e) (entries s) = None"
    using no by (auto simp: find_None_iff)
  moreover have "filter (\<lambda>e. e_hash e \<noteq> sha p) (entries s) = entries s"
    using no by simp
  ultimately show ?thesis
    using miss_refines [where sha = sha and p = p, OF assms(1) no rec] r by (simp add: spec_lookup_def Let_def)
next
  case (Some i)
  then have i: "i \<in> set (st_lru s)" "e_hash (st_heap s i) = sha p"
    using items_lookup [OF assms(1)] by blast+
  show ?thesis
  proof (cases "fresh_at (st_ttl s) now (st_heap s i)")
    case True
    obtain ent where tc: "touch_entry now i s = (ent, t)" and r: "r = (True, e_token_count ent, ent)"
      using assms(2) Some True
      by (auto simp: lookup_or_record_def Let_def fresh_at_def split: prod.splits)
    note to = touch_entry_ok [OF assms(1) i(1) tc]
    have "find (\<lambda>e. e_hash e = sha p \<and> fresh_at (st_ttl s) now e) (entries s) = Some (st_heap s i)"
      using find_hash [OF assms(1) i(1), of "fresh_at (st_ttl s) now"] True i(2) by simp
    with to r i(2) show ?thesis by (simp add: spec_lookup_def Let_def)
  next
    case False
    let ?u = "lru_remove i (sha p) s"
    obtain ent where rec: "record_entry now (sha p) p (evict_locked now ?u) = (ent, t)"
      and r: "r = (False, 0, ent)"
      using assms(2) Some False
      by (auto simp: lookup_or_record_def Let_def fresh_at_def split: prod.splits)
    have u: "store_ok ?u" "entries ?u = filter (\<lambda>e. e_hash e \<noteq> sha p) (entries s)"
      using lru_remove_ok [OF assms(1) i(1)] lru_remove_entries [OF assms(1) i(1)] i(2) by auto
    then have "\<forall>e \<in> set (entries ?u). e_hash e \<noteq> sha p" by simp
    note ms = miss_refines [where sha = sha and p = p, OF u(1) this rec]
    have "find (\<lambda>e. e_hash e = sha p \<and> fresh_at (st_ttl s) now e) (entries s) = None"
      unfolding find_None_iff
    proof
      assume "\<exists>e. e \<in> set (entries s) \<and> e_hash e = sha p \<and> fresh_at (st_ttl s) now e"
      then obtain j where j: "j \<in> set (st_lru s)" "e_hash (st_heap s j) = sha p"
        "fresh_at (st_ttl s) now (st_heap s j)" by (auto simp: entries_def)
      with hash_inj [OF assms(1) j(1) i(1)] i(2) False show False by simp
    qed
    with ms u(2) r show ?thesis by (simp add: spec_lookup_def Let_def)
  qed
qed

subsection \<open>The cache as an LRU stack of the request history\<close>

text \<open>
  The recency list of a request history: each hash once, with the time of its last request,
  latest first. The position of a hash is the number of other hashes requested since.
\<close>

definition touch_recency :: "'h \<Rightarrow> int \<Rightarrow> ('h \<times> int) list \<Rightarrow> ('h \<times> int) list" where
  "touch_recency h now rl = (h, now) # filter (\<lambda>(k, _). k \<noteq> h) rl"

definition recency :: "(string \<Rightarrow> 'h) \<Rightarrow> (int \<times> string) list \<Rightarrow> ('h \<times> int) list" where
  "recency sha reqs = foldl (\<lambda>rl (t, p). touch_recency (sha p) t rl) [] reqs"

definition entry_key :: "'h cache_entry \<Rightarrow> 'h \<times> int" where
  "entry_key e = (e_hash e, e_last_accessed e)"

definition stale :: "int \<Rightarrow> int \<Rightarrow> 'h \<times> int \<Rightarrow> bool" where
  "stale ttl now k \<longleftrightarrow> now - snd k > ttl"

text \<open>The live entries are a prefix of the recency list; what is cut off is stale unless the store is full.\<close>

definition lru_inv :: "int \<Rightarrow> int \<Rightarrow> int \<Rightarrow> ('h \<times> int) list \<Rightarrow> 'h cache_entry list \<Rightarrow> bool" where
  "lru_inv ttl mx now rl es \<longleftrightarrow>
     (\<exists>cut. rl = map entry_key es @ cut \<and>
        (int (length es) < mx \<longrightarrow> (\<forall>k \<in> set cut. stale ttl now k))) \<and>
     int (length es) \<le> mx \<and> distinct (map fst rl) \<and>
     sorted (rev (map snd rl)) \<and> (\<forall>k \<in> set rl. snd k \<le> now)"

lemma lru_invI:
  fixes cut :: "('h \<times> int) list"
  assumes "rl = map entry_key es @ cut" "int (length es) < mx \<Longrightarrow> \<forall>k \<in> set cut. stale ttl now k"
    "int (length es) \<le> mx"
    "distinct (map fst rl) \<and> sorted (rev (map snd rl)) \<and> (\<forall>k \<in> set rl. snd k \<le> now)"
  shows "lru_inv ttl mx now rl es"
  unfolding lru_inv_def using assms by blast

lemma stale_mono: "stale ttl now k \<Longrightarrow> now \<le> now' \<Longrightarrow> stale ttl now' k"
  by (simp add: stale_def)

lemma older_stale:
  assumes "sorted (rev (map snd (xs @ ys)))" and "k \<in> set xs" and "stale ttl now k" and "l \<in> set ys"
  shows "stale ttl now l"
proof -
  have "snd l \<le> snd k" using assms(1,2,4) by (auto simp: sorted_append)
  with assms(3) show ?thesis by (simp add: stale_def)
qed

lemma touch_recency_wf:
  assumes "distinct (map fst rl)" "sorted (rev (map snd rl))" "\<forall>k \<in> set rl. snd k \<le> now" "now \<le> now'"
  shows "distinct (map fst (touch_recency h now' rl)) \<and>
    sorted (rev (map snd (touch_recency h now' rl))) \<and>
    (\<forall>k \<in> set (touch_recency h now' rl). snd k \<le> now')"
proof -
  let ?f = "filter (\<lambda>(k, _). k \<noteq> h) rl"
  have "sorted (rev (map snd ?f))"
    using assms(2) by (simp add: rev_map rev_filter sorted_filter)
  moreover have "distinct (map fst ?f)" using assms(1) by (rule distinct_map_filter)
  moreover have "h \<notin> fst ` set ?f" by auto
  ultimately show ?thesis
    using assms(3,4) by (fastforce simp: touch_recency_def sorted_append)
qed

lemma filter_keys:
  "map entry_key (filter (\<lambda>e. e_hash e \<noteq> h) es) = filter (\<lambda>(k, _). k \<noteq> h) (map entry_key es)"
  by (simp add: filter_map comp_def entry_key_def)

lemma keys_fresh: "\<not> fresh_at ttl now e \<longleftrightarrow> stale ttl now (entry_key e)"
  by (auto simp: fresh_at_def stale_def entry_key_def)

lemma spec_lookup_hit:
  "spec_lookup sha ttl mx now p es = ((hit, n, e), es') \<Longrightarrow>
     hit \<longleftrightarrow> (\<exists>x \<in> set es. e_hash x = sha p \<and> fresh_at ttl now x)"
  by (auto simp: spec_lookup_def Let_def find_Some_iff find_None_iff split: option.splits)

lemma lru_inv_hit:
  assumes inv: "lru_inv ttl mx now rl es" and "now \<le> now'" and "0 < mx"
    and x: "x \<in> set es" "e_hash x = sha p"
    and es': "es' = e # filter (\<lambda>e. e_hash e \<noteq> sha p) es" and e: "entry_key e = (sha p, now')"
  shows "lru_inv ttl mx now' (touch_recency (sha p) now' rl) es'"
proof -
  from inv obtain cut where rl: "rl = map entry_key es @ cut"
    and cut: "int (length es) < mx \<longrightarrow> (\<forall>k \<in> set cut. stale ttl now k)"
    and le: "int (length es) \<le> mx" and d: "distinct (map fst rl)"
    and wf: "sorted (rev (map snd rl))" "\<forall>k \<in> set rl. snd k \<le> now" by (auto simp: lru_inv_def)
  have "sha p \<in> set (map fst (map entry_key es))" using x by (force simp: entry_key_def)
  moreover have "set (map fst (map entry_key es)) \<inter> set (map fst cut) = {}"
    using d unfolding rl map_append distinct_append by blast
  ultimately have "sha p \<notin> fst ` set cut" by auto
  then have nc: "filter (\<lambda>(k, _). k \<noteq> sha p) cut = cut" by (force intro!: filter_True)
  have dh: "distinct (map e_hash es)" using d rl by (simp add: entry_key_def comp_def)
  have len: "length es' = length es"
  proof -
    obtain us vs where uv: "es = us @ x # vs" using x(1) split_list by fast
    with dh x(2) have "\<forall>y \<in> set us \<union> set vs. e_hash y \<noteq> sha p" by force
    then show ?thesis using uv x(2) es' by simp
  qed
  have r': "touch_recency (sha p) now' rl = map entry_key es' @ cut"
    using nc e by (simp add: touch_recency_def rl es' filter_keys)
  show ?thesis
    using lru_invI [OF r' _ _ touch_recency_wf [OF d wf assms(2)]] len le cut
      stale_mono [OF _ assms(2)] by metis
qed

lemma kept_split:
  fixes a :: "('h \<times> int) list" and ttl now :: int
  defines "x \<equiv> rev (dropWhile (stale ttl now) (rev a))"
  shows "\<exists>y. a = x @ y \<and> (\<forall>k \<in> set y. stale ttl now k)"
proof -
  have "a = x @ rev (takeWhile (stale ttl now) (rev a))"
    unfolding x_def by (metis rev_append rev_rev_ident takeWhile_dropWhile_id)
  then show ?thesis by (metis set_rev set_takeWhileD)
qed

lemma lru_inv_miss:
  assumes inv: "lru_inv ttl mx now rl es" and "now \<le> now'" and "0 < mx"
    and no: "\<forall>x \<in> set es. e_hash x = sha p \<longrightarrow> \<not> fresh_at ttl now' x"
    and es': "es' = e # take (nat (mx - 1)) (rev (dropWhile (\<lambda>e. \<not> fresh_at ttl now' e)
                (rev (filter (\<lambda>e. e_hash e \<noteq> sha p) es))))"
    and e: "entry_key e = (sha p, now')"
  shows "lru_inv ttl mx now' (touch_recency (sha p) now' rl) es'"
proof -
  from inv obtain cut where rl: "rl = map entry_key es @ cut"
    and cut: "int (length es) < mx \<longrightarrow> (\<forall>k \<in> set cut. stale ttl now k)"
    and le: "int (length es) \<le> mx" and d: "distinct (map fst rl)"
    and wf: "sorted (rev (map snd rl))" "\<forall>k \<in> set rl. snd k \<le> now" by (auto simp: lru_inv_def)
  let ?ne = "\<lambda>(k, _ :: int). k \<noteq> sha p"
  let ?a = "map entry_key es" and ?fa = "filter ?ne (map entry_key es)" and ?fb = "filter ?ne cut"
  let ?x = "rev (dropWhile (stale ttl now') (rev ?fa))"
  obtain y where y: "?fa = ?x @ y" "\<forall>k \<in> set y. stale ttl now' k" using kept_split by blast
  have kept: "map entry_key es' = (sha p, now') # take (nat (mx - 1)) ?x"
    unfolding es' keys_fresh filter_keys [symmetric] using e
    by (simp add: take_map rev_map dropWhile_map comp_def)
  let ?cut' = "drop (nat (mx - 1)) ?x @ y @ ?fb"
  have r': "touch_recency (sha p) now' rl = map entry_key es' @ ?cut'"
    unfolding touch_recency_def rl filter_append kept
    using y(1) by (metis append.assoc append_Cons append_take_drop_id)
  have any_stale: "\<forall>l \<in> set cut. stale ttl now' l" if "k \<in> set ?a" "stale ttl now' k" for k
    using older_stale [OF wf(1) [unfolded rl] that] by blast
  have full: "\<forall>k \<in> set ?cut'. stale ttl now' k" if lt: "int (length es') < mx"
  proof -
    have lx: "length ?x < nat (mx - 1)"
      using arg_cong [OF kept, of length] lt assms(3) by simp
    have "\<forall>l \<in> set cut. stale ttl now' l"
    proof (cases "int (length es) < mx")
      case True
      then show ?thesis using cut stale_mono [OF _ assms(2)] by blast
    next
      case False
      then have full: "int (length es) = mx" using le by simp
      have "\<exists>k \<in> set ?a. stale ttl now' k"
      proof (cases "\<exists>z \<in> set es. e_hash z = sha p")
        case True
        with no show ?thesis by (auto simp: keys_fresh)
      next
        case False
        then have "?fa = ?a" by (auto intro!: filter_True simp: entry_key_def)
        with y(1) have "length es = length ?x + length y"
          by (metis length_append length_map)
        with lx full assms(3) have "y \<noteq> []" by (cases y) auto
        then obtain k where "k \<in> set y" by (cases y) auto
        moreover have "set y \<subseteq> set ?a" using y(1) \<open>?fa = ?a\<close> by (metis Un_upper2 set_append)
        ultimately show ?thesis using y(2) by blast
      qed
      with any_stale show ?thesis by blast
    qed
    with y(2) lx show ?thesis by auto
  qed
  have "int (length es') \<le> mx"
    using arg_cong [OF kept, of length] assms(3) by simp
  with r' full touch_recency_wf [OF d wf assms(2)] show ?thesis
    unfolding lru_inv_def by metis
qed

lemma lru_inv_later: "lru_inv ttl mx now rl es \<Longrightarrow> now \<le> now' \<Longrightarrow> lru_inv ttl mx now' rl es"
  by (smt (verit, ccfv_threshold) lru_inv_def lru_invI stale_mono)

lemma lru_inv_step:
  assumes inv: "lru_inv ttl mx now rl es" and le: "now \<le> now'" and mx: "0 < mx"
    and sp: "spec_lookup sha ttl mx now' p es = (r, es')"
  shows "lru_inv ttl mx now' (touch_recency (sha p) now' rl) es'"
proof (cases "find (\<lambda>e. e_hash e = sha p \<and> fresh_at ttl now' e) es")
  case None
  with sp show ?thesis
    by (intro lru_inv_miss [where sha = sha and p = p, OF inv le mx])
      (auto simp: spec_lookup_def Let_def find_None_iff entry_key_def)
next
  case (Some x)
  then have x: "x \<in> set es" "e_hash x = sha p" by (auto simp: find_Some_iff)
  from sp Some x(2) show ?thesis
    by (intro lru_inv_hit [where sha = sha and p = p, OF inv le mx x]) (auto simp: spec_lookup_def Let_def entry_key_def)
qed

definition run_requests :: "(string \<Rightarrow> 'h) \<Rightarrow> (int \<times> string) list \<Rightarrow> 'h store \<Rightarrow> 'h store" where
  "run_requests sha reqs s = foldl (\<lambda>s (t, p). snd (lookup_or_record sha t p s)) s reqs"

lemma run_requests_frame:
  "store_ok s \<Longrightarrow> store_ok (run_requests sha reqs s) \<and>
     st_ttl (run_requests sha reqs s) = st_ttl s \<and> st_max (run_requests sha reqs s) = st_max s"
proof (induction reqs rule: rev_induct)
  case (snoc tp reqs)
  obtain t p where tp: "tp = (t, p)" by (cases tp)
  obtain r s' where l: "lookup_or_record sha t p (run_requests sha reqs s) = (r, s')"
    by (cases "lookup_or_record sha t p (run_requests sha reqs s)")
  from snoc lookup_refines [OF _ l] l tp show ?case by (simp add: run_requests_def)
qed (simp add: run_requests_def)

lemma run_requests_lru:
  assumes "store_ok s" "entries s = []"
  shows "sorted (map fst reqs) \<Longrightarrow> \<forall>(t, p) \<in> set reqs. t \<le> now \<Longrightarrow>
    lru_inv (st_ttl s) (st_max s) now (recency sha reqs) (entries (run_requests sha reqs s))"
proof (induction reqs arbitrary: now rule: rev_induct)
  case Nil
  with assms show ?case by (simp add: lru_inv_def recency_def run_requests_def store_ok_def)
next
  case (snoc tp reqs)
  obtain t p where tp: "tp = (t, p)" by (cases tp)
  let ?s = "run_requests sha reqs s"
  have "sorted (map fst reqs)" "\<forall>(u, q) \<in> set reqs. u \<le> t" "t \<le> now"
    using snoc.prems tp by (auto simp: sorted_append)
  with snoc.IH have inv: "lru_inv (st_ttl s) (st_max s) t (recency sha reqs) (entries ?s)" by simp
  obtain r s' where l: "lookup_or_record sha t p ?s = (r, s')"
    by (cases "lookup_or_record sha t p ?s")
  note fr = run_requests_frame [OF assms(1), of sha reqs]
  have "spec_lookup sha (st_ttl s) (st_max s) t p (entries ?s) = (r, entries s')"
    using lookup_refines [OF _ l] fr by simp
  moreover have "0 < st_max s" using assms(1) by (simp add: store_ok_def)
  ultimately have "lru_inv (st_ttl s) (st_max s) t (touch_recency (sha p) t (recency sha reqs)) (entries s')"
    using lru_inv_step [OF inv] by blast
  then show ?case
    using lru_inv_later [OF _ \<open>t \<le> now\<close>] l tp by (simp add: recency_def run_requests_def)
qed

lemma lru_inv_lookup:
  assumes inv: "lru_inv ttl mx now rl es" and mx: "0 < mx"
    and sp: "spec_lookup sha ttl mx now p es = ((hit, n, e), es')"
  shows "hit \<longleftrightarrow> (\<exists>t. (sha p, t) \<in> set (take (nat mx) rl) \<and> now - t \<le> ttl)"
proof
  from inv obtain cut where rl: "rl = map entry_key es @ cut"
    and cut: "int (length es) < mx \<longrightarrow> (\<forall>k \<in> set cut. stale ttl now k)"
    and le: "int (length es) \<le> mx" by (auto simp: lru_inv_def)
  have tk: "take (nat mx) rl = map entry_key es @ take (nat mx - length es) cut"
    using rl le by simp
  show "\<exists>t. (sha p, t) \<in> set (take (nat mx) rl) \<and> now - t \<le> ttl" if "hit"
  proof -
    from that spec_lookup_hit [OF sp] obtain x where "x \<in> set es" "e_hash x = sha p" "fresh_at ttl now x"
      by blast
    then have "(sha p, e_last_accessed x) \<in> set (take (nat mx) rl) \<and> now - e_last_accessed x \<le> ttl"
      unfolding tk by (force simp: entry_key_def fresh_at_def)
    then show ?thesis by blast
  qed
  assume "\<exists>t. (sha p, t) \<in> set (take (nat mx) rl) \<and> now - t \<le> ttl"
  then obtain t where t: "(sha p, t) \<in> set (take (nat mx) rl)" "now - t \<le> ttl" by blast
  have "(sha p, t) \<notin> set (take (nat mx - length es) cut)"
  proof
    assume "(sha p, t) \<in> set (take (nat mx - length es) cut)"
    then have "(sha p, t) \<in> set cut" "int (length es) < mx"
      by (auto dest: in_set_takeD) (use mx in \<open>cases "nat mx - length es"; auto\<close>)
    with cut t(2) show False by (auto simp: stale_def)
  qed
  with t(1) have "(sha p, t) \<in> entry_key ` set es" unfolding tk by simp
  with t(2) show hit
    unfolding spec_lookup_hit [OF sp] by (auto simp: entry_key_def fresh_at_def)
qed

subsection \<open>Properties\<close>

text \<open>
  C25: Over any history of requests in time order, on a new store with bound \<open>mx\<close> and time to live
  \<open>ttl\<close>, a lookup hits exactly when the hash of its prefix is among the \<open>mx\<close> hashes
  requested last and was requested no more than \<open>ttl\<close> ago; and the store never holds more
  than \<open>mx\<close> entries.
\<close>

theorem simcache_hit_characterisation:
  assumes "0 < ttl" "0 < mx" and "sorted (map fst reqs)" and "\<forall>(t, q) \<in> set reqs. t \<le> now"
    and l: "lookup_or_record sha now p (run_requests sha reqs (new_store ttl mx zero)) = ((hit, n, e), s')"
  shows "(hit \<longleftrightarrow> (\<exists>t. (sha p, t) \<in> set (take (nat mx) (recency sha reqs)) \<and> now - t \<le> ttl)) \<and>
    int (store_len s') \<le> mx"
proof -
  let ?new = "new_store ttl mx zero" let ?s = "run_requests sha reqs ?new"
  have s0: "st_ttl ?new = ttl" "st_max ?new = mx" "entries ?new = []"
    using assms(1,2) by (simp_all add: new_store_def Let_def entries_def)
  note ok = store_ok_new [of ttl mx zero]
  have inv: "lru_inv ttl mx now (recency sha reqs) (entries ?s)"
    using run_requests_lru [OF ok s0(3) assms(3,4)] s0 by simp
  have sp: "spec_lookup sha ttl mx now p (entries ?s) = ((hit, n, e), entries s')" and "store_ok s'"
    using lookup_refines [OF _ l] run_requests_frame [OF ok, of sha reqs] s0 by simp_all
  then have "int (store_len s') \<le> mx"
    using lru_inv_step [OF inv order_refl assms(2) sp] items_length [of s']
    unfolding lru_inv_def store_len_def entries_def by simp
  with lru_inv_lookup [OF inv assms(2) sp] show ?thesis by blast
qed

lemma simcache_hit_characterisation_witness:
  "fst (fst (lookup_or_record id 9 ''b'' (run_requests id [(1, ''a''), (2, ''b''), (4, ''c'')]
     (new_store 7 2 \<lparr>e_hash = [], e_token_count = 0, e_first_seen = 0, e_last_accessed = 0, e_hit_count = 0\<rparr>))))"
  (is "fst (fst ?l)")
proof -
  obtain hit n e s' where l: "?l = ((hit, n, e), s')" by (metis prod_cases3 surj_pair)
  have "(''b'', 2) \<in> set (take (nat 2) (recency id [(1, ''a''), (2, ''b''), (4, ''c'')]))"
    by (simp add: recency_def touch_recency_def)
  with simcache_hit_characterisation [OF _ _ _ _ l] have hit by force
  with l show ?thesis by simp
qed

text \<open>
  C38: On a well-formed store every call is one step of the abstract cache on the list of live
  entries (\<open>spec_lookup\<close>), so the pointer structure of map and list stays consistent.
\<close>

theorem simcache_refines_abstract:
  assumes "store_ok s" and "lookup_or_record sha now p s = (r, t)"
  shows "store_ok t \<and> (r, entries t) = spec_lookup sha (st_ttl s) (st_max s) now p (entries s)"
  using lookup_refines [OF assms] by blast

lemma simcache_refines_abstract_witness:
  "store_ok (snd (lookup_or_record length 5 ''ab'' (new_store 7 2
     \<lparr>e_hash = 0, e_token_count = 0, e_first_seen = 0, e_last_accessed = 0, e_hit_count = 0\<rparr>)))"
  using simcache_refines_abstract [OF store_ok_new prod.collapse [symmetric]] by blast

end
