(* ===== verification/Base64.thy ===== *)
theory Base64
  imports Prelude
begin

text \<open>
  Go's \<^verbatim>\<open>encoding/base64\<close> as the sources use it: \<^verbatim>\<open>StdEncoding\<close> and \<^verbatim>\<open>URLEncoding\<close>,
  with padding and without (\<^verbatim>\<open>RawStdEncoding\<close>, \<^verbatim>\<open>RawURLEncoding\<close>). The decoder skips CR
  and LF anywhere, as Go's does, and does not check the unused trailing bits.
\<close>

type_synonym sextet = nat

definition b64_char :: "bool \<Rightarrow> nat \<Rightarrow> char" where
  "b64_char url n = (if n < 26 then char_of (65 + n) else if n < 52 then char_of (71 + n)
     else if n < 62 then char_of (n - 4) else if n = 62 then (if url then CHR ''-'' else CHR ''+'')
     else (if url then CHR ''_'' else CHR ''/''))"

definition b64_value :: "bool \<Rightarrow> char \<Rightarrow> nat option" where
  "b64_value url c = (let b = byte_of c in
     if 65 \<le> b \<and> b \<le> 90 then Some (b - 65) else if 97 \<le> b \<and> b \<le> 122 then Some (b - 71)
     else if 48 \<le> b \<and> b \<le> 57 then Some (b + 4)
     else if c = (if url then CHR ''-'' else CHR ''+'') then Some 62
     else if c = (if url then CHR ''_'' else CHR ''/'') then Some 63 else None)"

text \<open>Bytes are numbers below 256 here; the callers convert.\<close>

fun b64_encode :: "bool \<Rightarrow> bool \<Rightarrow> nat list \<Rightarrow> string" where
  "b64_encode url pad [] = []"
| "b64_encode url pad [a] =
     [b64_char url (a div 4), b64_char url (a mod 4 * 16)] @ (if pad then ''=='' else [])"
| "b64_encode url pad [a, b] =
     [b64_char url (a div 4), b64_char url (a mod 4 * 16 + b div 16), b64_char url (b mod 16 * 4)]
     @ (if pad then ''='' else [])"
| "b64_encode url pad (a # b # c # bs) =
     [b64_char url (a div 4), b64_char url (a mod 4 * 16 + b div 16),
      b64_char url (b mod 16 * 4 + c div 64), b64_char url (c mod 64)] @ b64_encode url pad bs"

definition dec2 :: "nat \<Rightarrow> nat \<Rightarrow> nat list" where
  "dec2 p q = [p * 4 + q div 16]"

definition dec3 :: "nat \<Rightarrow> nat \<Rightarrow> nat \<Rightarrow> nat list" where
  "dec3 p q r = [p * 4 + q div 16, q mod 16 * 16 + r div 4]"

definition dec4 :: "nat \<Rightarrow> nat \<Rightarrow> nat \<Rightarrow> nat \<Rightarrow> nat list" where
  "dec4 p q r s = [p * 4 + q div 16, q mod 16 * 16 + r div 4, r mod 4 * 64 + s]"

fun b64_quanta :: "bool \<Rightarrow> bool \<Rightarrow> string \<Rightarrow> nat list option" where
  "b64_quanta url pad [] = Some []"
| "b64_quanta url pad [a] = None"
| "b64_quanta url pad [a, b] =
     (case (b64_value url a, b64_value url b) of
        (Some p, Some q) \<Rightarrow> if pad then None else Some (dec2 p q)
      | _ \<Rightarrow> None)"
| "b64_quanta url pad [a, b, c] =
     (case (b64_value url a, b64_value url b, b64_value url c) of
        (Some p, Some q, Some r) \<Rightarrow> if pad then None else Some (dec3 p q r)
      | _ \<Rightarrow> None)"
| "b64_quanta url pad (a # b # c # d # rest) =
     (case (b64_value url a, b64_value url b) of
        (Some p, Some q) \<Rightarrow>
          (case (b64_value url c, b64_value url d) of
             (Some r, Some s) \<Rightarrow> map_option (\<lambda>bs. dec4 p q r s @ bs) (b64_quanta url pad rest)
           | (Some r, None) \<Rightarrow>
               if pad \<and> d = CHR ''='' \<and> rest = [] then Some (dec3 p q r) else None
           | (None, _) \<Rightarrow>
               if pad \<and> c = CHR ''='' \<and> d = CHR ''='' \<and> rest = [] then Some (dec2 p q) else None)
      | _ \<Rightarrow> None)"

definition b64_decode :: "bool \<Rightarrow> bool \<Rightarrow> string \<Rightarrow> nat list option" where
  "b64_decode url pad s = b64_quanta url pad (filter (\<lambda>c. c \<noteq> CHR 0x0A \<and> c \<noteq> CHR 0x0D) s)"

subsection \<open>Round trip\<close>

lemma byte_of_lits: "byte_of CHR ''='' = 61" "byte_of CHR 0x0A = 10" "byte_of CHR 0x0D = 13"
  "byte_of CHR ''-'' = 45" "byte_of CHR ''+'' = 43" "byte_of CHR ''_'' = 95" "byte_of CHR ''/'' = 47"
  by (simp_all add: byte_of_def)

lemma b64_char_facts:
  assumes "n < 64"
  shows "b64_value url (b64_char url n) = Some n" "b64_char url n \<noteq> CHR ''=''"
    "b64_char url n \<noteq> CHR 0x0A" "b64_char url n \<noteq> CHR 0x0D"
proof -
  have "n < 26 \<or> 26 \<le> n \<and> n < 52 \<or> 52 \<le> n \<and> n < 62 \<or> n = 62 \<or> n = 63"
    using assms by linarith
  then have "b64_value url (b64_char url n) = Some n \<and> byte_of (b64_char url n) \<notin> {61, 10, 13}"
    by (elim disjE)
      (auto simp: b64_char_def b64_value_def byte_of_char_of Let_def byte_of_lits
        dest!: arg_cong [of "char_of _" _ byte_of])
  then show "b64_value url (b64_char url n) = Some n" "b64_char url n \<noteq> CHR ''=''"
    "b64_char url n \<noteq> CHR 0x0A" "b64_char url n \<noteq> CHR 0x0D"
    by (auto simp: byte_of_lits)
qed

lemma b64_pad_value [simp]: "b64_value url CHR ''='' = None"
  by (simp add: b64_value_def byte_of_def Let_def)

lemma dec4_enc:
  assumes "a < 256" "b < 256" "c < 256"
  shows "dec4 (a div 4) (a mod 4 * 16 + b div 16) (b mod 16 * 4 + c div 64) (c mod 64) = [a, b, c]"
proof -
  have "a div 4 * 4 + (a mod 4 * 16 + b div 16) div 16 = a" using assms by simp
  moreover have "(a mod 4 * 16 + b div 16) mod 16 * 16 + (b mod 16 * 4 + c div 64) div 4 = b"
    using assms by simp
  moreover have "(b mod 16 * 4 + c div 64) mod 4 * 64 + c mod 64 = c"
    using assms by simp
  ultimately show ?thesis by (simp add: dec4_def)
qed

lemma sextet_bounds:
  "a < 256 \<Longrightarrow> a div 4 < (64::nat)" "a mod 4 * 16 < (64::nat)" "c mod 64 < (64::nat)"
  "b < 256 \<Longrightarrow> a mod 4 * 16 + b div 16 < (64::nat)" "b mod 16 * 4 < (64::nat)"
  "c < 256 \<Longrightarrow> b mod 16 * 4 + c div 64 < (64::nat)"
  by simp_all

lemma b64_quanta_encode:
  "\<forall>x \<in> set bs. x < 256 \<Longrightarrow> b64_quanta url pad (b64_encode url pad bs) = Some bs"
proof (induction url pad bs rule: b64_encode.induct)
  case (2 url pad a)
  then show ?case
    by (auto simp: b64_char_facts sextet_bounds dec2_def)
next
  case (3 url pad a b)
  then have "a < 256" "b < 256" by auto
  then show ?case
    by (auto simp: b64_char_facts sextet_bounds dec3_def)
next
  case (4 url pad a b c bs)
  then have "a < 256" "b < 256" "c < 256" by auto
  with 4 show ?case
    by (simp add: b64_char_facts sextet_bounds dec4_enc)
qed simp

lemma b64_encode_no_newline:
  "\<forall>x \<in> set bs. x < 256 \<Longrightarrow>
     filter (\<lambda>c. c \<noteq> CHR 0x0A \<and> c \<noteq> CHR 0x0D) (b64_encode url pad bs) = b64_encode url pad bs"
  by (induction url pad bs rule: b64_encode.induct) (auto simp: b64_char_facts sextet_bounds)

lemma b64_decode_encode:
  "\<forall>x \<in> set bs. x < 256 \<Longrightarrow> b64_decode url pad (b64_encode url pad bs) = Some bs"
  by (simp add: b64_decode_def b64_encode_no_newline b64_quanta_encode)

end
