(* ===== verification/Trailer.thy ===== *)
theory Trailer
  imports Base64 Json
begin

text \<open>
  Model of \<^verbatim>\<open>executor/trailer.go\<close>: the gRPC-web trailer and the Connect end-of-stream
  frame that terminate an upstream stream, the protobuf scan that finds Cursor's error
  details inside \<^verbatim>\<open>grpc-status-details-bin\<close>, and the error they are reported as.
  \<^verbatim>\<open>proto.Unmarshal\<close> of the details message is a parameter, \<open>unmarshal\<close>.
\<close>

subsection \<open>Varints\<close>

text \<open>\<^verbatim>\<open>(0, 0)\<close> is the error result; the count is the number of bytes consumed.\<close>

fun read_varint_from :: "64 word \<Rightarrow> nat \<Rightarrow> nat \<Rightarrow> byte list \<Rightarrow> 64 word \<times> nat" where
  "read_varint_from v shift i [] = (0, 0)"
| "read_varint_from v shift i (b # bs) =
     (let v = v OR push_bit shift (ucast (b AND 0x7F)) in
      if b < 0x80 then (v, i + 1)
      else let shift = shift + 7 in
        if shift \<ge> 64 then (0, 0) else read_varint_from v shift (i + 1) bs)"

definition read_varint :: "byte list \<Rightarrow> 64 word \<times> nat" where
  "read_varint buf = read_varint_from 0 0 0 buf"

lemma read_varint_from_count:
  "read_varint_from v shift i bs = (w, n) \<Longrightarrow> n = 0 \<or> i < n \<and> n \<le> i + length bs"
  by (induction v shift i bs rule: read_varint_from.induct)
    (fastforce simp: Let_def split: if_splits)+

lemma read_varint_count:
  "read_varint buf = (w, n) \<Longrightarrow> n \<noteq> 0 \<Longrightarrow> 0 < n \<and> n \<le> length buf"
  using read_varint_from_count [of 0 0 0 buf w n] by (simp add: read_varint_def)

subsection \<open>Scanning a google.rpc.Status message\<close>

definition string_of_bytes :: "byte list \<Rightarrow> string" where
  "string_of_bytes bs = map (\<lambda>b. char_of (unat b)) bs"

definition error_details_name :: string where
  "error_details_name = ''aiserver.v1.ErrorDetails''"

text \<open>The empty list is Go's nil result; the callers test the length only.\<close>

function unpack_any_from :: "string \<Rightarrow> byte list \<Rightarrow> byte list \<Rightarrow> byte list" where
  "unpack_any_from url val buf =
     (if buf = [] then (if contains_str url error_details_name then val else [])
      else case read_varint buf of (tag, n) \<Rightarrow>
        if n = 0 then []
        else let buf1 = drop n buf; field = drop_bit 3 tag; wire = tag AND 7 in
          if wire \<noteq> 2 then []
          else case read_varint buf1 of (l, m) \<Rightarrow>
            if m = 0 \<or> length buf1 - m < unat l then []
            else let buf2 = drop m buf1; body = take (unat l) buf2; buf3 = drop (unat l) buf2 in
              if field = 1 then unpack_any_from (string_of_bytes body) val buf3
              else if field = 2 then unpack_any_from url body buf3
              else unpack_any_from url val buf3)"
  by pat_completeness auto
termination
  by (relation "measure (\<lambda>(url, val, buf). length buf)")
    (auto dest!: read_varint_count [OF sym] intro: diff_less)

declare unpack_any_from.simps [simp del]

definition unpack_any :: "byte list \<Rightarrow> byte list" where
  "unpack_any buf = unpack_any_from [] [] buf"

function scan_for_cursor_error_details :: "byte list \<Rightarrow> byte list" where
  "scan_for_cursor_error_details buf =
     (if buf = [] then []
      else case read_varint buf of (tag, n) \<Rightarrow>
        if n = 0 then []
        else let buf1 = drop n buf; field = drop_bit 3 tag; wire = tag AND 7 in
          if wire = 0 then
            (case read_varint buf1 of (x, m) \<Rightarrow>
               if m = 0 then [] else scan_for_cursor_error_details (drop m buf1))
          else if wire = 2 then
            (case read_varint buf1 of (l, m) \<Rightarrow>
               if m = 0 then []
               else let buf2 = drop m buf1 in
                 if length buf2 < unat l then []
                 else let body = take (unat l) buf2; buf3 = drop (unat l) buf2 in
                   if field = 3 \<and> unpack_any body \<noteq> [] then unpack_any body
                   else scan_for_cursor_error_details buf3)
          else [])"
  by pat_completeness auto
termination
  by (relation "measure length") (auto dest!: read_varint_count [OF sym] intro: diff_less)

declare scan_for_cursor_error_details.simps [simp del]

subsection \<open>Error details and the trailer status\<close>

text \<open>
  \<^verbatim>\<open>aiserver.v1.ErrorDetails\<close>: the name of its error enum value and, when present, the
  title and detail of the inner message.
\<close>

record error_details =
  ed_error :: string
  ed_details :: "(string \<times> string) option"

record trailer_status =
  ts_code :: int
  ts_message :: string
  ts_details_b64 :: string
  ts_detail :: "error_details option"

definition empty_status :: trailer_status where
  "empty_status = \<lparr>ts_code = 0, ts_message = [], ts_details_b64 = [], ts_detail = None\<rparr>"

definition decode_status_details ::
  "(byte list \<Rightarrow> error_details option) \<Rightarrow> string \<Rightarrow> error_details option" where
  "decode_status_details unmarshal b64 =
     (if b64 = [] then None
      else case (case b64_decode False True b64 of Some raw \<Rightarrow> Some raw
                 | None \<Rightarrow> b64_decode False False b64) of
          None \<Rightarrow> None
        | Some raw \<Rightarrow>
            let details = scan_for_cursor_error_details (map word_of_nat raw) in
            if details = [] then None else unmarshal details)"

text \<open>\<^verbatim>\<open>strconv.Atoi\<close>: an optional sign and decimal digits within the 64-bit range.\<close>

definition digits_value :: "string \<Rightarrow> int" where
  "digits_value ds = foldl (\<lambda>n c. 10 * n + (int (byte_of c) - 48)) 0 ds"

definition atoi :: "string \<Rightarrow> int option" where
  "atoi s =
     (let (neg, ds) = (case s of c # t \<Rightarrow> if c = CHR ''-'' then (True, t)
                         else if c = CHR ''+'' then (False, t) else (False, s) | [] \<Rightarrow> (False, s));
          n = (if neg then - digits_value ds else digits_value ds) in
      if ds \<noteq> [] \<and> list_all is_digit ds \<and> in_i64 n then Some n else None)"

fun crlf_to_lf :: "string \<Rightarrow> string" where
  "crlf_to_lf (c # d # s) =
     (if c = CHR 0x0D \<and> d = CHR 0x0A then d # crlf_to_lf s else c # crlf_to_lf (d # s))"
| "crlf_to_lf s = s"

definition parse_trailer_line ::
  "(byte list \<Rightarrow> error_details option) \<Rightarrow> string \<Rightarrow> trailer_status \<Rightarrow> trailer_status" where
  "parse_trailer_line unmarshal line t =
     (let line = trim_space line in
      if line = [] then t
      else case index_byte line CHR '':'' of
          None \<Rightarrow> t
        | Some i \<Rightarrow>
            let key = to_lower (trim_space (take i line)); val = trim_space (drop (i + 1) line) in
            if key = ''grpc-status'' then
              (case atoi val of Some n \<Rightarrow> t\<lparr>ts_code := n\<rparr> | None \<Rightarrow> t)
            else if key = ''grpc-message'' then t\<lparr>ts_message := val\<rparr>
            else if key = ''grpc-status-details-bin'' then
              t\<lparr>ts_details_b64 := val, ts_detail := decode_status_details unmarshal val\<rparr>
            else t)"

definition connect_code_number :: "string \<Rightarrow> int" where
  "connect_code_number code =
     (let c = to_lower code in
      if c = ''ok'' \<or> c = [] then 0
      else if c = ''resource_exhausted'' then 8
      else if c = ''unauthenticated'' then 16
      else if c = ''permission_denied'' then 7
      else if c = ''unavailable'' then 14
      else if c = ''deadline_exceeded'' then 4
      else if c = ''invalid_argument'' then 3
      else 13)"

text \<open>
  The typed decode of the frame: an error object with a code, a message and the list of
  its details' debug errors. A kind mismatch anywhere is a decode error.
\<close>

record connect_error =
  ce_code :: string
  ce_message :: string
  ce_debug :: "string list"

fun sequence_opt :: "'a option list \<Rightarrow> 'a list option" where
  "sequence_opt [] = Some []"
| "sequence_opt (None # xs) = None"
| "sequence_opt (Some x # xs) = map_option (Cons x) (sequence_opt xs)"

definition decode_debug :: "json \<Rightarrow> string option" where
  "decode_debug j = (case j of JNull \<Rightarrow> Some []
     | JObj ms \<Rightarrow>
         (case field_get ms ''debug'' of None \<Rightarrow> Some [] | Some JNull \<Rightarrow> Some []
          | Some (JObj ds) \<Rightarrow> string_field ds ''error'' | _ \<Rightarrow> None)
     | _ \<Rightarrow> None)"

definition decode_connect_error :: "(string \<times> json) list \<Rightarrow> connect_error option" where
  "decode_connect_error ms =
     (case (string_field ms ''code'', string_field ms ''message'',
            (case field_get ms ''details'' of None \<Rightarrow> Some [] | Some JNull \<Rightarrow> Some []
             | Some (JArr ds) \<Rightarrow> sequence_opt (map decode_debug ds) | _ \<Rightarrow> None)) of
        (Some c, Some m, Some ds) \<Rightarrow> Some \<lparr>ce_code = c, ce_message = m, ce_debug = ds\<rparr>
      | _ \<Rightarrow> None)"

definition decode_connect_envelope :: "string \<Rightarrow> connect_error option option" where
  "decode_connect_envelope raw =
     (case json_parse raw of
        None \<Rightarrow> None
      | Some JNull \<Rightarrow> Some None
      | Some (JObj ms) \<Rightarrow>
          (case field_get ms ''error'' of None \<Rightarrow> Some None | Some JNull \<Rightarrow> Some None
           | Some (JObj es) \<Rightarrow> map_option Some (decode_connect_error es) | _ \<Rightarrow> None)
      | _ \<Rightarrow> None)"

definition parse_connect_end_stream :: "string \<Rightarrow> trailer_status" where
  "parse_connect_end_stream raw =
     (case decode_connect_envelope raw of
        None \<Rightarrow> empty_status\<lparr>ts_code := 13, ts_message := raw\<rparr>
      | Some None \<Rightarrow> empty_status
      | Some (Some e) \<Rightarrow>
          let status = empty_status\<lparr>ts_code := connect_code_number (ce_code e),
                                    ts_message := ce_message e\<rparr> in
          (case ce_debug e of
             d # ds \<Rightarrow> if d \<noteq> [] \<and> (ts_message status = [] \<or> equal_fold (ts_message status) ''error'')
                       then status\<lparr>ts_message := d\<rparr> else status
           | [] \<Rightarrow> status))"

definition parse_trailer ::
  "(byte list \<Rightarrow> error_details option) \<Rightarrow> string \<Rightarrow> trailer_status option" where
  "parse_trailer unmarshal raw =
     (case raw of
        [] \<Rightarrow> None
      | c # s \<Rightarrow>
          if c = CHR ''{'' then Some (parse_connect_end_stream raw)
          else Some (foldl (\<lambda>t line. parse_trailer_line unmarshal line t) empty_status
                 (split_on CHR 0x0A (crlf_to_lf raw))))"

text \<open>A nil trailer is None throughout.\<close>

definition trailer_ok :: "trailer_status option \<Rightarrow> bool" where
  "trailer_ok t = (case t of None \<Rightarrow> True | Some s \<Rightarrow> ts_code s = 0)"

definition describe_error_detail :: "error_details option \<Rightarrow> string" where
  "describe_error_detail d =
     (case d of None \<Rightarrow> []
      | Some e \<Rightarrow>
          (case ed_details e of
             None \<Rightarrow> []
           | Some (title, detail) \<Rightarrow>
               if title \<noteq> [] \<and> detail \<noteq> [] then title @ '': '' @ detail
               else if detail \<noteq> [] then detail
               else if title \<noteq> [] then title else []))"

text \<open>\<^verbatim>\<open>%d\<close> of an integer.\<close>

fun nat_digits :: "nat \<Rightarrow> string" where
  "nat_digits n = (if n < 10 then [char_of (48 + n)]
     else nat_digits (n div 10) @ [char_of (48 + n mod 10)])"

declare nat_digits.simps [simp del]

definition fmt_int :: "int \<Rightarrow> string" where
  "fmt_int i = (if i < 0 then CHR ''-'' # nat_digits (nat (- i)) else nat_digits (nat i))"

definition trailer_err :: "trailer_status option \<Rightarrow> string option" where
  "trailer_err t =
     (if trailer_ok t then None
      else case t of None \<Rightarrow> None
        | Some s \<Rightarrow>
            let msg = describe_error_detail (ts_detail s);
                msg = (if msg = [] then ts_message s else msg);
                msg = (if msg = [] then ''upstream error'' else msg);
                code = (case ts_detail s of Some d \<Rightarrow> ed_error d | None \<Rightarrow> []) in
            if code \<noteq> []
            then Some (''cursor upstream: '' @ msg @ '' (grpc-status='' @ fmt_int (ts_code s)
                       @ '', '' @ code @ '')'')
            else Some (''cursor upstream: '' @ msg @ '' (grpc-status='' @ fmt_int (ts_code s) @ '')''))"

subsection \<open>The wire encoding, and what the scan reads back\<close>

text \<open>The protobuf encoders the parser is measured against.\<close>

fun enc_varint :: "nat \<Rightarrow> byte list" where
  "enc_varint n = (if n < 128 then [word_of_nat n]
     else word_of_nat (128 + n mod 128) # enc_varint (n div 128))"

declare enc_varint.simps [simp del]

definition enc_bytes_field :: "nat \<Rightarrow> byte list \<Rightarrow> byte list" where
  "enc_bytes_field f body = enc_varint (8 * f + 2) @ enc_varint (length body) @ body"

definition enc_any :: "byte list \<Rightarrow> byte list \<Rightarrow> byte list" where
  "enc_any url val = enc_bytes_field 1 url @ enc_bytes_field 2 val"

definition enc_status :: "nat \<Rightarrow> byte list \<Rightarrow> (byte list \<times> byte list) list \<Rightarrow> byte list" where
  "enc_status code msg details = enc_varint 8 @ enc_varint code @ enc_bytes_field 2 msg @
     concat (map (\<lambda>(u, v). enc_bytes_field 3 (enc_any u v)) details)"

lemma enc_varint_nonempty [simp]: "enc_varint n \<noteq> []"
  by (subst enc_varint.simps) simp

lemma or_push_bit_add:
  fixes v x :: "64 word"
  assumes "unat v < 2 ^ s"
  shows "v OR push_bit s x = v + push_bit s x"
proof -
  have "unat (take_bit s v) = unat v"
    using assms by (simp add: unsigned_take_bit_eq take_bit_nat_eq_self)
  then have v: "take_bit s v = v" by (rule unsigned_word_eqI)
  have "take_bit s v AND push_bit s x = 0"
    by (intro bit_eqI) (auto simp: bit_simps)
  then show ?thesis by (simp add: disjunctive_add_eq_or v)
qed

lemma unat_and_7f: "unat ((w :: byte) AND 0x7F) = unat w mod 128"
proof -
  have "w AND 0x7F = take_bit 7 w"
    by (simp add: take_bit_eq_mask mask_numeral del: take_bit_word_def)
  then have "unat (w AND 0x7F) = take_bit 7 (unat w)" by (simp only: unsigned_take_bit_eq)
  then show ?thesis by (simp only: take_bit_eq_mod) simp
qed

lemma unat_byte: "k < 256 \<Longrightarrow> unat (word_of_nat k :: byte) = k"
  by (simp add: unat_of_nat)

lemma shifted_payload:
  fixes b :: byte
  shows "push_bit s (ucast (b AND 0x7F)) = (word_of_nat (unat b mod 128 * 2 ^ s) :: 64 word)"
proof -
  have "(ucast (b AND 0x7F) :: 64 word) = word_of_nat (unat (b AND 0x7F))" by simp
  then show ?thesis by (simp only: unat_and_7f push_bit_eq_mult of_nat_mult of_nat_power of_nat_numeral)
qed

lemma or_payload:
  assumes "a < 2 ^ s" and "s < 64"
  shows "(word_of_nat a :: 64 word) OR push_bit s (ucast (b AND (0x7F :: byte))) =
    word_of_nat (a + unat b mod 128 * 2 ^ s)"
proof -
  have "(2::nat) ^ s \<le> 2 ^ 64" using assms(2) by (intro power_increasing) auto
  with assms have "unat (word_of_nat a :: 64 word) = a" by (simp add: unat_of_nat)
  with assms have "unat (word_of_nat a :: 64 word) < 2 ^ s" by simp
  from or_push_bit_add [OF this, of "ucast (b AND 0x7F)"] show ?thesis
    by (simp only: shifted_payload of_nat_add)
qed

lemma read_varint_from_enc:
  assumes "a < 2 ^ s" and "s < 64" and "n * 2 ^ s < 2 ^ 64"
  shows "read_varint_from (word_of_nat a) s i (enc_varint n @ rest) =
    (word_of_nat (a + n * 2 ^ s), i + length (enc_varint n))"
  using assms
proof (induction n arbitrary: a s i rule: enc_varint.induct)
  case (1 n)
  show ?case
  proof (cases "n < 128")
    case True
    then have "unat (word_of_nat n :: byte) = n" by (simp add: unat_byte)
    then show ?thesis using True "1.prems"
      by (subst (1 2) enc_varint.simps) (simp add: or_payload word_less_nat_alt Let_def)
  next
    case False
    let ?b = "word_of_nat (128 + n mod 128) :: byte"
    have b: "unat ?b = 128 + n mod 128" by (rule unat_byte) simp
    have s7: "s + 7 < 64"
    proof (rule ccontr)
      assume "\<not> s + 7 < 64"
      then have "(2::nat) ^ 64 \<le> 2 ^ (s + 7)" by (intro power_increasing) auto
      also have "\<dots> \<le> n * 2 ^ s" using False by (simp add: power_add)
      finally show False using "1.prems"(3) by simp
    qed
    let ?a = "a + n mod 128 * 2 ^ s"
    have "?a < 2 ^ s + n mod 128 * 2 ^ s" using "1.prems"(1) by simp
    also have "\<dots> = (n mod 128 + 1) * 2 ^ s" by (simp add: algebra_simps)
    also have "\<dots> \<le> 128 * 2 ^ s" by (rule mult_le_mono1) (simp add: Suc_le_eq)
    finally have a: "?a < 2 ^ (s + 7)" by (simp add: power_add mult.commute)
    have split: "n mod 128 * 2 ^ s + n div 128 * 2 ^ (s + 7) = n * 2 ^ s"
    proof -
      have "n * 2 ^ s = (n div 128 * 128 + n mod 128) * 2 ^ s" by simp
      then show ?thesis by (simp only: power_add distrib_right) simp
    qed
    then have n: "n div 128 * 2 ^ (s + 7) < 2 ^ 64" using "1.prems"(3) by linarith
    have or: "word_of_nat a OR push_bit s (ucast (?b AND 0x7F)) = (word_of_nat ?a :: 64 word)"
      using or_payload [OF "1.prems"(1,2), of ?b] by (simp only: b) simp
    have "read_varint_from (word_of_nat a) s i (enc_varint n @ rest) =
        read_varint_from (word_of_nat ?a) (s + 7) (i + 1) (enc_varint (n div 128) @ rest)"
      using False s7 or b
      by (subst enc_varint.simps) (simp add: Let_def word_less_nat_alt del: of_nat_add)
    also have "\<dots> = (word_of_nat (?a + n div 128 * 2 ^ (s + 7)), i + 1 + length (enc_varint (n div 128)))"
      by (rule "1.IH" [OF False a s7 n])
    also have "?a + n div 128 * 2 ^ (s + 7) = a + n * 2 ^ s" using split by simp
    also have "i + 1 + length (enc_varint (n div 128)) = i + length (enc_varint n)"
      using False by (subst (2) enc_varint.simps) simp
    finally show ?thesis .
  qed
qed

lemma read_varint_enc:
  "n < 2 ^ 64 \<Longrightarrow> read_varint (enc_varint n @ rest) = (word_of_nat n, length (enc_varint n))"
  using read_varint_from_enc [of 0 0 n 0 rest] by (simp add: read_varint_def)

text \<open>Varint round trip. Every 64-bit value, encoded as a protobuf varint and followed by
  any bytes, is read back exactly, and the reader consumes the encoding and nothing else
  (at most ten bytes).\<close>

theorem read_varint_roundtrip:
  "read_varint (enc_varint (unat v) @ rest) = (v, length (enc_varint (unat v)))"
  using read_varint_enc [of "unat v" rest] unsigned_less [of v, where ?'a = nat] by simp

text \<open>One length-delimited field at a time.\<close>

lemma length_enc_varint_pos [simp]: "0 < length (enc_varint n)"
  by simp

lemma unat_of_length: "n < 2 ^ 64 \<Longrightarrow> unat (word_of_nat n :: 64 word) = n"
  by (simp add: unat_of_nat)

lemma unpack_any_field:
  assumes "length body < 2 ^ 64" and "f = 1 \<or> f = 2"
  shows "unpack_any_from url val (enc_bytes_field f body @ rest) =
    (if f = 1 then unpack_any_from (string_of_bytes body) val rest
     else unpack_any_from url body rest)"
proof -
  obtain k where k: "k = 8 * f + 2" by simp
  then have tag: "k < 2 ^ 64" using assms(2) by auto
  let ?t = "word_of_nat k :: 64 word"
  have t: "?t AND 7 = 2" "drop_bit 3 ?t = word_of_nat f" using assms(2) k by auto
  have fs: "word_of_nat f = (1 :: 64 word) \<longleftrightarrow> f = 1" "word_of_nat f = (2 :: 64 word) \<longleftrightarrow> f = 2"
    using assms(2) by auto
  show ?thesis
    unfolding enc_bytes_field_def append_assoc k [symmetric]
    by (subst unpack_any_from.simps)
      (use assms in \<open>auto simp add: read_varint_enc [OF tag] read_varint_enc [OF assms(1)] t fs
        unat_of_length Let_def\<close>)
qed

lemma unpack_any_enc:
  assumes "length url < 2 ^ 64" and "length val < 2 ^ 64"
  shows "unpack_any (enc_any url val) =
    (if contains_str (string_of_bytes url) error_details_name then val else [])"
proof -
  have "unpack_any_from [] [] (enc_bytes_field 1 url @ enc_bytes_field 2 val @ []) =
      unpack_any_from (string_of_bytes url) val []"
    by (simp add: unpack_any_field [OF assms(1)] unpack_any_field [OF assms(2)]
        del: append_Nil2 append.right_neutral)
  then show ?thesis
    by (simp add: unpack_any_def enc_any_def unpack_any_from.simps [of _ _ "[]"])
qed

lemma scan_field:
  assumes "length body < 2 ^ 64" and "f = 2 \<or> f = 3"
  shows "scan_for_cursor_error_details (enc_bytes_field f body @ rest) =
    (if f = 3 \<and> unpack_any body \<noteq> [] then unpack_any body
     else scan_for_cursor_error_details rest)"
proof -
  obtain k where k: "k = 8 * f + 2" by simp
  then have tag: "k < 2 ^ 64" using assms(2) by auto
  let ?t = "word_of_nat k :: 64 word"
  have t: "?t AND 7 = 2" "drop_bit 3 ?t = word_of_nat f" using assms(2) k by auto
  have fs: "word_of_nat f = (3 :: 64 word) \<longleftrightarrow> f = 3" using assms(2) by auto
  show ?thesis
    unfolding enc_bytes_field_def append_assoc k [symmetric]
    by (subst scan_for_cursor_error_details.simps)
      (use assms in \<open>simp add: read_varint_enc [OF tag] read_varint_enc [OF assms(1)] t fs
        unat_of_length Let_def\<close>)
qed

lemma scan_varint_field:
  assumes "n < 2 ^ 64"
  shows "scan_for_cursor_error_details (enc_varint 8 @ enc_varint n @ rest) =
    scan_for_cursor_error_details rest"
proof -
  have tag: "(8::nat) < 2 ^ 64" by simp
  have t: "(word_of_nat 8 :: 64 word) AND 7 = 0" by simp
  show ?thesis
    by (subst scan_for_cursor_error_details.simps)
      (simp add: read_varint_enc [OF tag] read_varint_enc [OF assms] t Let_def)
qed

lemma length_enc_bytes_field: "length body < length (enc_bytes_field f body)"
  by (simp add: enc_bytes_field_def)

lemma scan_details:
  assumes "\<forall>(u, v) \<in> set details. length (enc_any u v) < 2 ^ 64"
  shows "scan_for_cursor_error_details
      (concat (map (\<lambda>(u, v). enc_bytes_field 3 (enc_any u v)) details)) =
    (case filter (\<lambda>(u, v). contains_str (string_of_bytes u) error_details_name \<and> v \<noteq> []) details of
       [] \<Rightarrow> [] | (u, v) # _ \<Rightarrow> v)"
  using assms
proof (induction details)
  case Nil
  then show ?case by (simp add: scan_for_cursor_error_details.simps)
next
  case (Cons d ds)
  obtain u v where d: "d = (u, v)" by (cases d)
  have any: "length (enc_any u v) < 2 ^ 64" using Cons.prems d by simp
  have "length u < length (enc_any u v)" "length v < length (enc_any u v)"
    using length_enc_bytes_field [of u 1] length_enc_bytes_field [of v 2]
    by (auto simp: enc_any_def)
  with any have uv: "unpack_any (enc_any u v) =
      (if contains_str (string_of_bytes u) error_details_name then v else [])"
    by (intro unpack_any_enc) linarith+
  show ?case
    using Cons scan_field [OF any, of 3] by (auto simp: d uv)
qed

text \<open>The error scan is correct and complete on google.rpc.Status messages. For every status
  message with any code, message and list of packed details, the scan returns the value of
  the first detail whose type URL names aiserver.v1.ErrorDetails and is not empty, and
  nothing when there is none.\<close>

theorem scan_status_correct:
  assumes "code < 2 ^ 64" and "length (enc_status code msg details) < 2 ^ 63"
  shows "scan_for_cursor_error_details (enc_status code msg details) =
    (case filter (\<lambda>(u, v). contains_str (string_of_bytes u) error_details_name \<and> v \<noteq> []) details of
       [] \<Rightarrow> [] | (u, v) # _ \<Rightarrow> v)"
proof -
  have "length msg < 2 ^ 64"
    using assms(2) length_enc_bytes_field [of msg 2] by (simp add: enc_status_def)
  moreover have "length (enc_any u v) < 2 ^ 64" if "(u, v) \<in> set details" for u v
  proof -
    have "length (enc_bytes_field 3 (enc_any u v)) \<le>
        length (concat (map (\<lambda>(u, v). enc_bytes_field 3 (enc_any u v)) details))"
      using split_list [OF that] by auto
    then show ?thesis
      using assms(2) length_enc_bytes_field [of "enc_any u v" 3] by (simp add: enc_status_def)
  qed
  ultimately show ?thesis
    unfolding enc_status_def scan_varint_field [OF assms(1)]
    by (subst scan_field) (auto intro!: scan_details)
qed

theorem scan_status_correct_witness:
  "scan_for_cursor_error_details (enc_status 8 [104, 105]
     [([120], [1]), (map (word_of_nat \<circ> byte_of) ''t/aiserver.v1.ErrorDetails'', [7, 9])]) = [7, 9]"
proof -
  let ?ds = "[([120], [1]), (map (word_of_nat \<circ> byte_of) ''t/aiserver.v1.ErrorDetails'', [7, 9])]
    :: (byte list \<times> byte list) list"
  have len: "length (enc_status 8 [104, 105] ?ds) < 2 ^ 63"
    by (simp add: enc_status_def enc_any_def enc_bytes_field_def enc_varint.simps)
  have "filter (\<lambda>(u, v). contains_str (string_of_bytes u) error_details_name \<and> v \<noteq> []) ?ds =
      [(map (word_of_nat \<circ> byte_of) ''t/aiserver.v1.ErrorDetails'', [7, 9])]"
    by code_simp
  with scan_status_correct [OF _ len] show ?thesis by simp
qed

end
