(* ===== verification/Upstream.thy ===== *)
theory Upstream
  imports Trailer
begin

text \<open>
  Token usage of a turn (the \<^verbatim>\<open>Usage\<close> struct and \<^verbatim>\<open>NormalizedOutputTokens\<close> of
  \<^verbatim>\<open>translator/events.go\<close>) and the HTTP rendering of upstream failures
  (\<^verbatim>\<open>cmd/cursor-proxy/upstream_error.go\<close>). A response is its status code and JSON body;
  log lines are left out.
\<close>

subsection \<open>Usage\<close>

record usage =
  u_input :: int
  u_output :: int
  u_cache_read :: int
  u_cache_write :: int
  u_reasoning :: int
  u_observed :: int
  u_truncated :: int

definition abs_int64 :: "int \<Rightarrow> int" where
  "abs_int64 v = (if v < 0 then i64 (- v) else v)"

definition normalized_output_tokens :: "usage option \<Rightarrow> int" where
  "normalized_output_tokens u =
     (case u of None \<Rightarrow> 0
      | Some u \<Rightarrow>
          if u_output u \<le> 0 then (if u_observed u > 0 then u_observed u else 0)
          else let raw = u_output u; observed = u_observed u;
                   cache = i64 (u_cache_read u + u_cache_write u) in
            if observed \<le> 0 \<or> cache \<le> 0 \<or> raw \<le> cache then raw
            else if cache < go_div (i64 (raw + 2)) 3 then raw
            else let candidate = i64 (raw - cache) in
              if candidate < go_div (i64 (observed + 1)) 2 \<or> candidate > i64 (observed * 2) then raw
              else if raw < go_div (i64 (i64 (observed * 3) + 1)) 2 then raw
              else let raw_err = abs_int64 (i64 (raw - observed));
                       candidate_err = abs_int64 (i64 (candidate - observed)) in
                if i64 (candidate_err * 2) > raw_err then raw else candidate)"

definition is_empty_upstream_response :: "bool \<Rightarrow> usage option \<Rightarrow> bool" where
  "is_empty_upstream_response has_output u =
     (if has_output then False
      else case u of None \<Rightarrow> True
        | Some u \<Rightarrow> u_input u = 0 \<and> u_output u = 0 \<and> u_cache_read u = 0 \<and>
            u_cache_write u = 0 \<and> u_reasoning u = 0)"

text \<open>Counters of a size no account reaches: far from the 64-bit wrap.\<close>

definition small_usage :: "usage \<Rightarrow> bool" where
  "small_usage u \<longleftrightarrow> (\<forall>x \<in> {u_output u, u_cache_read u, u_cache_write u, u_observed u}.
     0 \<le> x \<and> x < 2 ^ 60)"

lemma i64_small: "- (3 * 2 ^ 61) \<le> x \<Longrightarrow> x \<le> 3 * 2 ^ 61 \<Longrightarrow> i64 x = x"
  by (simp add: in_i64_def)

lemma early_returns:
  "x = (if p then y else if a then r else if b then r else if c then r else if d then r
        else if e then r else z) \<Longrightarrow> \<not> (x = r \<or> p) \<Longrightarrow>
     \<not> a \<and> \<not> b \<and> \<not> c \<and> \<not> d \<and> \<not> e \<and> x = z"
  by (simp split: if_splits)

lemma go_div_2_3: "0 \<le> a \<Longrightarrow> go_div a 2 = a div 2" "0 \<le> a \<Longrightarrow> go_div a 3 = a div 3"
  by (simp_all add: go_div_nonneg)

lemma abs_int64_small: "\<bar>x\<bar> \<le> 2 ^ 62 \<Longrightarrow> abs_int64 x = \<bar>x\<bar>"
  by (auto simp: abs_int64_def i64_small abs_if)

text \<open>Output-token normalisation. For counters within range the reported count is the raw
  count, the locally observed one (when upstream reported none), or the raw count less the
  cache counters. The subtraction happens only when the cache share is at least a third of
  the raw count and the remainder lies within a factor of two of what was observed, and is at
  least twice as close to it as the raw count. The result is never negative and never above
  the raw count when upstream reported one.\<close>

theorem normalized_output_tokens_spec:
  assumes "small_usage u"
  defines "n \<equiv> normalized_output_tokens (Some u)"
    and "cache \<equiv> u_cache_read u + u_cache_write u"
  shows "(u_output u = 0 \<longrightarrow> n = u_observed u) \<and>
    (0 < u_output u \<longrightarrow> 0 < n \<and> n \<le> u_output u \<and>
       (n = u_output u \<or>
        n = u_output u - cache \<and> u_output u \<le> 3 * cache \<and>
        u_observed u \<le> 2 * n \<and> n \<le> 2 * u_observed u \<and>
        2 * \<bar>n - u_observed u\<bar> \<le> \<bar>u_output u - u_observed u\<bar>))"
proof -
  have b: "0 \<le> u_output u" "u_output u < 2 ^ 60" "0 \<le> u_cache_read u" "u_cache_read u < 2 ^ 60"
    "0 \<le> u_cache_write u" "u_cache_write u < 2 ^ 60" "0 \<le> u_observed u" "u_observed u < 2 ^ 60"
    using assms(1) by (auto simp: small_usage_def)
  let ?raw = "u_output u" and ?obs = "u_observed u"
  have e: "i64 cache = cache" "i64 (?raw + 2) = ?raw + 2" "i64 (?raw - cache) = ?raw - cache"
    "i64 (?obs + 1) = ?obs + 1" "i64 (?obs * 2) = ?obs * 2" "i64 (?obs * 3) = ?obs * 3"
    "i64 (?obs * 3 + 1) = ?obs * 3 + 1" "i64 (?raw - ?obs) = ?raw - ?obs"
    "i64 (?raw - cache - ?obs) = ?raw - cache - ?obs"
    unfolding cache_def using b by (auto intro!: i64_small)
  have a: "abs_int64 (?raw - ?obs) = \<bar>?raw - ?obs\<bar>"
    "abs_int64 (?raw - cache - ?obs) = \<bar>?raw - cache - ?obs\<bar>"
    unfolding cache_def using b by (auto intro!: abs_int64_small)
  have e2: "i64 (\<bar>?raw - cache - ?obs\<bar> * 2) = \<bar>?raw - cache - ?obs\<bar> * 2"
    unfolding cache_def using b by (intro i64_small) (auto simp: abs_if)
  have n: "n = (if ?raw \<le> 0 then (if ?obs > 0 then ?obs else 0)
      else if ?obs \<le> 0 \<or> cache \<le> 0 \<or> ?raw \<le> cache then ?raw
      else if cache < (?raw + 2) div 3 then ?raw
      else if ?raw - cache < (?obs + 1) div 2 \<or> ?raw - cache > ?obs * 2 then ?raw
      else if ?raw < (?obs * 3 + 1) div 2 then ?raw
      else if \<bar>?raw - cache - ?obs\<bar> * 2 > \<bar>?raw - ?obs\<bar> then ?raw else ?raw - cache)"
    unfolding n_def normalized_output_tokens_def Let_def option.case
      cache_def [symmetric] e a e2
    using b by (simp add: go_div_2_3)
  show ?thesis
  proof (cases "n = ?raw \<or> ?raw \<le> 0")
    case True
    show ?thesis
    proof (cases "?raw \<le> 0")
      case True
      with n have "n = (if ?obs > 0 then ?obs else 0)" by (simp only: if_True)
      with True b(1,7) show ?thesis by simp
    next
      case False
      with True have "n = ?raw" by blast
      with False show ?thesis by simp
    qed
  next
    case False
    note er = early_returns [OF n False]
    then have "\<not> (?obs \<le> 0 \<or> cache \<le> 0 \<or> ?raw \<le> cache)" by (elim conjE)
    then have c0: "cache < ?raw" "0 < cache" by linarith+
    from er have c: "?raw > cache" "\<not> cache < (?raw + 2) div 3"
      "\<not> ?raw - cache < (?obs + 1) div 2" "\<not> ?raw - cache > ?obs * 2"
      "\<not> \<bar>?raw - cache - ?obs\<bar> * 2 > \<bar>?raw - ?obs\<bar>" "n = ?raw - cache" "0 < cache"
      using c0 by blast+
    from c(2) have "?raw \<le> 3 * cache" by linarith
    moreover from c(3,6) have "?obs \<le> 2 * n" by linarith
    moreover have "n \<le> 2 * ?obs" "2 * \<bar>n - ?obs\<bar> \<le> \<bar>?raw - ?obs\<bar>" "0 < n" "n \<le> ?raw"
      using c by simp_all
    ultimately show ?thesis using False c(6) by simp
  qed
qed

theorem normalized_output_tokens_spec_witness:
  "normalized_output_tokens (Some \<lparr>u_input = 5, u_output = 1000, u_cache_read = 300,
     u_cache_write = 500, u_reasoning = 0, u_observed = 190, u_truncated = 0\<rparr>) = 200 \<and>
   (2::int) * \<bar>200 - 190\<bar> \<le> \<bar>1000 - 190\<bar>"
proof -
  let ?u = "\<lparr>u_input = 5, u_output = 1000, u_cache_read = 300,
     u_cache_write = 500, u_reasoning = 0, u_observed = 190, u_truncated = 0\<rparr>"
  have "small_usage ?u" by (simp add: small_usage_def)
  from normalized_output_tokens_spec [OF this]
  have "0 < normalized_output_tokens (Some ?u)" by simp
  moreover have "normalized_output_tokens (Some ?u) = 200"
    by (simp add: normalized_output_tokens_def Let_def i64_def go_div_def abs_int64_def)
  ultimately show ?thesis by simp
qed

subsection \<open>HTTP rendering\<close>

record http_response =
  hr_status :: int
  hr_body :: json

definition upstream_http_status :: "trailer_status option \<Rightarrow> int" where
  "upstream_http_status status =
     (case status of None \<Rightarrow> 502
      | Some s \<Rightarrow>
          if ts_code s = 3 then 400 else if ts_code s = 5 then 404 else if ts_code s = 7 then 403
          else if ts_code s = 8 then 403 else if ts_code s = 12 then 501
          else if ts_code s = 16 then 401 else 502)"

definition upstream_error_type :: "trailer_status option \<Rightarrow> string" where
  "upstream_error_type status =
     (case status of None \<Rightarrow> ''upstream_error''
      | Some s \<Rightarrow>
          if ts_code s = 8 \<or> ts_code s = 7 then ''permission_error''
          else if ts_code s = 16 then ''authentication_error''
          else if ts_code s = 3 then ''invalid_request_error'' else ''api_error'')"

definition err_message :: "trailer_status option \<Rightarrow> string" where
  "err_message status =
     (case status of None \<Rightarrow> ''upstream error''
      | Some s \<Rightarrow> (case trailer_err status of Some e \<Rightarrow> e | None \<Rightarrow> ''upstream error''))"

definition upstream_code_string :: "trailer_status option \<Rightarrow> string" where
  "upstream_code_string status =
     (case status of None \<Rightarrow> ''UNKNOWN''
      | Some s \<Rightarrow>
          let fallback = (if ts_code s = 3 then ''INVALID_ARGUMENT''
            else if ts_code s = 5 then ''NOT_FOUND'' else if ts_code s = 7 then ''PERMISSION_DENIED''
            else if ts_code s = 8 then ''RESOURCE_EXHAUSTED''
            else if ts_code s = 16 then ''UNAUTHENTICATED'' else ''UNAVAILABLE'') in
          (case ts_detail s of Some d \<Rightarrow> if ed_error d \<noteq> [] then ed_error d else fallback
           | None \<Rightarrow> fallback))"

definition write_upstream_openai_error :: "trailer_status option \<Rightarrow> http_response" where
  "write_upstream_openai_error status = \<lparr>hr_status = upstream_http_status status,
     hr_body = JObj [(''error'', JObj [(''code'', JStr (upstream_code_string status)),
       (''message'', JStr (err_message status)), (''type'', JStr (upstream_error_type status))])]\<rparr>"

definition empty_upstream_message :: string where
  "empty_upstream_message = ''empty response from upstream (no content, tool calls, or token usage)''"

definition write_empty_upstream_openai_error :: http_response where
  "write_empty_upstream_openai_error = \<lparr>hr_status = 502,
     hr_body = JObj [(''error'', JObj [(''code'', JStr ''EMPTY_UPSTREAM_RESPONSE''),
       (''message'', JStr empty_upstream_message), (''type'', JStr ''upstream_error'')])]\<rparr>"

definition write_upstream_anthropic_error :: "trailer_status option \<Rightarrow> http_response" where
  "write_upstream_anthropic_error status = \<lparr>hr_status = upstream_http_status status,
     hr_body = JObj [(''error'', JObj [(''message'', JStr (err_message status)),
       (''type'', JStr (upstream_error_type status))]), (''type'', JStr ''error'')]\<rparr>"

definition write_empty_upstream_anthropic_error :: http_response where
  "write_empty_upstream_anthropic_error = \<lparr>hr_status = 502,
     hr_body = JObj [(''error'', JObj [(''message'', JStr empty_upstream_message),
       (''type'', JStr ''upstream_error'')]), (''type'', JStr ''error'')]\<rparr>"

definition write_upstream_gemini_error :: "trailer_status option \<Rightarrow> http_response" where
  "write_upstream_gemini_error status = \<lparr>hr_status = upstream_http_status status,
     hr_body = JObj [(''error'', JObj [(''code'', JNum (fmt_int (upstream_http_status status))),
       (''message'', JStr (err_message status)), (''status'', JStr (upstream_code_string status))])]\<rparr>"

definition write_empty_upstream_gemini_error :: http_response where
  "write_empty_upstream_gemini_error = \<lparr>hr_status = 502,
     hr_body = JObj [(''error'', JObj [(''code'', JNum (fmt_int 502)),
       (''message'', JStr empty_upstream_message), (''status'', JStr ''EMPTY_UPSTREAM_RESPONSE'')])]\<rparr>"

lemma upstream_http_status_range:
  "upstream_http_status s \<in> {400, 401, 403, 404, 501, 502}"
  by (auto simp: upstream_http_status_def split: option.splits)

text \<open>The status line and the error type agree. For every upstream outcome, the error type
  the OpenAI and Anthropic bodies carry and the HTTP status name the same class of failure,
  and the status is always an error status.\<close>

theorem upstream_status_type_agree:
  "(upstream_error_type s = ''permission_error'' \<longleftrightarrow> upstream_http_status s = 403) \<and>
   (upstream_error_type s = ''authentication_error'' \<longleftrightarrow> upstream_http_status s = 401) \<and>
   (upstream_error_type s = ''invalid_request_error'' \<longleftrightarrow> upstream_http_status s = 400) \<and>
   400 \<le> upstream_http_status s \<and>
   hr_status (write_upstream_openai_error s) = hr_status (write_upstream_anthropic_error s) \<and>
   hr_status (write_upstream_gemini_error s) = hr_status (write_upstream_anthropic_error s)"
  by (auto simp: upstream_error_type_def upstream_http_status_def write_upstream_openai_error_def
      write_upstream_anthropic_error_def write_upstream_gemini_error_def split: option.splits)

subsection \<open>From the last frame to the HTTP status\<close>

lemma connect_code_cases:
  "connect_code_number c \<in> {0, 3, 4, 7, 8, 13, 14, 16}"
  by (simp add: connect_code_number_def Let_def)

lemma parse_connect_code:
  "ts_code (parse_connect_end_stream raw) =
     (case decode_connect_envelope raw of None \<Rightarrow> 13 | Some None \<Rightarrow> 0
      | Some (Some e) \<Rightarrow> connect_code_number (ce_code e))"
  by (simp add: parse_connect_end_stream_def empty_status_def Let_def split: option.splits list.splits)

text \<open>Connect end-of-stream frames. A frame that decodes to an object without an error is a
  success and yields no error; a frame that is not JSON of the expected shape is an internal
  error that carries the raw text; and an error frame reaches the client with an HTTP status
  among 400, 401, 403 and 502 only: the 404 and 501 branches of the status mapping cannot be
  reached from a Connect frame, whose not_found and unimplemented codes become 502.\<close>

theorem connect_frame_outcomes:
  "(decode_connect_envelope raw = Some None \<longrightarrow>
      trailer_err (Some (parse_connect_end_stream raw)) = None) \<and>
   (decode_connect_envelope raw = None \<longrightarrow>
      ts_code (parse_connect_end_stream raw) = 13 \<and>
      ts_message (parse_connect_end_stream raw) = raw) \<and>
   upstream_http_status (Some (parse_connect_end_stream raw)) \<in> {400, 401, 403, 502} \<and>
   connect_code_number ''not_found'' = 13 \<and> connect_code_number ''unimplemented'' = 13"
proof -
  let ?c = "ts_code (parse_connect_end_stream raw)"
  have "?c \<in> {0, 3, 4, 7, 8, 13, 14, 16}"
    unfolding parse_connect_code using connect_code_cases by (auto split: option.splits)
  then have "upstream_http_status (Some (parse_connect_end_stream raw)) \<in> {400, 401, 403, 502}"
    by (auto simp: upstream_http_status_def)
  then show ?thesis
    by (simp add: parse_connect_code trailer_err_def trailer_ok_def)
      (simp add: parse_connect_end_stream_def connect_code_number_def to_lower_def lower_char_def
        byte_of_def empty_status_def)
qed

theorem connect_frame_outcomes_witness:
  "decode_connect_envelope ''{}'' = Some None \<and>
   trailer_err (Some (parse_connect_end_stream ''{}'')) = None"
proof -
  have "decode_connect_envelope ''{}'' = Some None" by code_simp
  with connect_frame_outcomes [of "''{}''"] show ?thesis by blast
qed

subsection \<open>gRPC-web trailers\<close>

lemma digits_value_append:
  "digits_value (xs @ [c]) = 10 * digits_value xs + (int (byte_of c) - 48)"
  by (simp add: digits_value_def)

lemma is_digit_low: "(k::nat) < 10 \<Longrightarrow> is_digit (char_of (48 + k))"
  by (simp add: is_digit_def byte_of_char_of)

lemma nat_digits_value: "digits_value (nat_digits n) = int n \<and> list_all is_digit (nat_digits n)"
proof (induction n rule: nat_digits.induct)
  case (1 n)
  show ?case
  proof (cases "n < 10")
    case True
    then show ?thesis
      by (subst (1 2) nat_digits.simps)
        (simp add: digits_value_def is_digit_def byte_of_char_of)
  next
    case False
    with 1 show ?thesis
      by (subst (1 2) nat_digits.simps) (simp add: digits_value_append byte_of_char_of is_digit_low
          zdiv_int zmod_int)
  qed
qed

lemma nat_digits_nonempty [simp]: "nat_digits n \<noteq> []"
  by (subst nat_digits.simps) simp

lemma digit_facts:
  "is_digit c \<Longrightarrow> byte_of c < 0x80 \<and> \<not> is_space c \<and> c \<notin> {CHR '':'', CHR 0x0A, CHR 0x0D, CHR ''-'', CHR ''+''}"
  by (auto simp: is_digit_def is_space_def byte_of_def)

lemma atoi_nat_digits: "int n < 2 ^ 63 \<Longrightarrow> atoi (nat_digits n) = Some (int n)"
proof -
  assume n: "int n < 2 ^ 63"
  obtain c cs where d: "nat_digits n = c # cs" by (cases "nat_digits n") auto
  have "is_digit c" using nat_digits_value [of n] d by simp
  from digit_facts [OF this] have "c \<noteq> CHR ''-''" "c \<noteq> CHR ''+''" by auto
  then show ?thesis
    using nat_digits_value [of n] n d by (simp add: atoi_def in_i64_def)
qed

lemma crlf_to_lf_line:
  "CHR 0x0D \<notin> set a \<Longrightarrow> crlf_to_lf (a @ CHR 0x0D # CHR 0x0A # b) = a @ CHR 0x0A # crlf_to_lf b"
proof (induction a)
  case (Cons x a)
  then show ?case by (cases a) auto
qed (cases b; simp)

lemma split_on_line: "c \<notin> set a \<Longrightarrow> split_on c (a @ c # b) = a # split_on c b"
  by (induction a) auto

text \<open>A header line \<^verbatim>\<open>key: value\<close>.\<close>

lemma parse_header_line:
  assumes "k \<noteq> []" "v \<noteq> []" "CHR '':'' \<notin> set k" "to_lower k = k"
    "trim_space k = k" "trim_space v = v"
  shows "parse_trailer_line u (k @ '': '' @ v) t =
     (if k = ''grpc-status'' then (case atoi v of Some n \<Rightarrow> t\<lparr>ts_code := n\<rparr> | None \<Rightarrow> t)
      else if k = ''grpc-message'' then t\<lparr>ts_message := v\<rparr>
      else if k = ''grpc-status-details-bin'' then
        t\<lparr>ts_details_b64 := v, ts_detail := decode_status_details u v\<rparr>
      else t)"
proof -
  have l: "trim_space (k @ '': '' @ v) = k @ '': '' @ v"
  proof (rule trim_space_id, intro ballI conjI notI)
    fix w assume w: "w \<in> set space_runes"
    show False if "has_prefix (k @ '': '' @ v) w"
      using that trim_space_done [OF w, of k] prefix_then_ascii [OF w, of k "CHR '':''" "'' '' @ v"]
        assms(1,5) by (simp add: byte_of_def)
    show False if "has_suffix (k @ '': '' @ v) w"
      using that trim_space_done [OF w, of v] ascii_then_suffix [OF w, of "k @ '':''" "CHR '' ''" v]
        assms(2,6) by (simp add: byte_of_def)
  qed
  have i: "index_byte (k @ '': '' @ v) CHR '':'' = Some (length k)"
    using index_byte_first [OF assms(3), of "'' '' @ v"] by simp
  have "trim_space (CHR '' '' # v) = v" using assms(6) by (simp add: trim_space_skip is_space_def)
  then show ?thesis
    unfolding parse_trailer_line_def Let_def l i using assms(1,4-6) by (auto split: option.splits)
qed

definition trailer_text :: "nat \<Rightarrow> string \<Rightarrow> string" where
  "trailer_text n m = ''grpc-status: '' @ nat_digits n @ [CHR 0x0D, CHR 0x0A] @
     ''grpc-message: '' @ m @ [CHR 0x0D, CHR 0x0A]"

text \<open>gRPC-web trailer round trip. For every status code and every one-line message, the
  trailer text a server sends is parsed to exactly that code and message; the client gets no
  error if the code is 0, and otherwise an error that shows the message and the code.\<close>

theorem trailer_roundtrip:
  assumes "int n < 2 ^ 63" and "m \<noteq> []" and "trim_space m = m"
    and "CHR 0x0D \<notin> set m" and "CHR 0x0A \<notin> set m"
  shows "parse_trailer u (trailer_text n m) =
      Some (empty_status\<lparr>ts_code := int n, ts_message := m\<rparr>) \<and>
    trailer_err (parse_trailer u (trailer_text n m)) =
      (if n = 0 then None
       else Some (''cursor upstream: '' @ m @ '' (grpc-status='' @ nat_digits n @ '')''))"
proof -
  let ?d = "nat_digits n"
  have dig: "\<forall>c \<in> set ?d. is_digit c" using nat_digits_value [of n] by (simp add: list_all_iff)
  then have "\<forall>c \<in> set ?d. byte_of c < 0x80 \<and> \<not> is_space c" and
    dn: "CHR 0x0D \<notin> set ?d" "CHR 0x0A \<notin> set ?d"
    using digit_facts by (blast, blast, blast)
  note dd = ascii_trim_id [OF this(1)] dn
  let ?l1 = "''grpc-status'' @ '': '' @ ?d" and ?l2 = "''grpc-message'' @ '': '' @ m"
  have whole: "trailer_text n m = ?l1 @ CHR 0x0D # CHR 0x0A # (?l2 @ CHR 0x0D # CHR 0x0A # [])"
    by (simp add: trailer_text_def)
  have cr: "CHR 0x0D \<notin> set ?l1" "CHR 0x0D \<notin> set ?l2" "CHR 0x0A \<notin> set ?l1" "CHR 0x0A \<notin> set ?l2"
    using dd assms(4,5) by auto
  have lines: "split_on CHR 0x0A (crlf_to_lf (trailer_text n m)) = [?l1, ?l2, []]"
    unfolding whole crlf_to_lf_line [OF cr(1)] crlf_to_lf_line [OF cr(2)]
      split_on_line [OF cr(3)] split_on_line [OF cr(4)] by simp
  have k: "trim_space ''grpc-status'' = ''grpc-status''" "trim_space ''grpc-message'' = ''grpc-message''"
    "to_lower ''grpc-status'' = ''grpc-status''" "to_lower ''grpc-message'' = ''grpc-message''"
    by (simp_all add: ascii_ends_trim_id go_defs)
  have p1: "parse_trailer_line u ?l1 t = t\<lparr>ts_code := int n\<rparr>" for t
    using parse_header_line [OF _ nat_digits_nonempty _ k(3,1) dd(1), of u t]
      atoi_nat_digits [OF assms(1)] by simp
  have p2: "parse_trailer_line u ?l2 t = t\<lparr>ts_message := m\<rparr>" for t
    using parse_header_line [OF _ assms(2) _ k(4,2) assms(3), of u t] by simp
  have p3: "parse_trailer_line u [] t = t" for t by (simp add: parse_trailer_line_def)
  have "\<exists>s. trailer_text n m = CHR ''g'' # s" by (simp add: trailer_text_def)
  then obtain s where g: "trailer_text n m = CHR ''g'' # s" ..
  have "parse_trailer u (trailer_text n m) =
      Some (foldl (\<lambda>t line. parse_trailer_line u line t) empty_status [?l1, ?l2, []])"
    unfolding lines [symmetric] by (simp add: parse_trailer_def g)
  then have parse: "parse_trailer u (trailer_text n m) =
      Some (empty_status\<lparr>ts_code := int n, ts_message := m\<rparr>)"
    by (simp only: foldl_Cons foldl_Nil p1 p2 p3)
  then show ?thesis
    using assms(2)
    by (simp add: trailer_err_def trailer_ok_def Let_def empty_status_def describe_error_detail_def
        fmt_int_def)
qed

theorem trailer_roundtrip_witness:
  "trailer_err (parse_trailer (\<lambda>_. None) (trailer_text 7 ''region blocked'')) =
     Some (''cursor upstream: region blocked (grpc-status=7)'')"
proof -
  have m: "''region blocked'' \<noteq> []" "trim_space ''region blocked'' = ''region blocked''"
    "CHR 0x0D \<notin> set ''region blocked''"
    "CHR 0x0A \<notin> set ''region blocked''"
    by (simp_all add: ascii_ends_trim_id go_defs)
  have d: "nat_digits 7 = ''7''" by code_simp
  have "int 7 < 2 ^ 63" by simp
  note t = conjunct2 [OF trailer_roundtrip [OF this m, of "\<lambda>_. None"]]
  show ?thesis using t d by simp
qed

end
