(* ===== verification/SimCacheWiring.thy ===== *)
theory SimCacheWiring
  imports SimCache Upstream
begin

text \<open>
  Model of \<^verbatim>\<open>cmd/cursor-proxy/simcache_wiring.go\<close>, the client of the prefix cache in the
  request path: the prefix string of a request, the decision taken before the run and its effect
  on the usage report. What the handlers rely on of the store is the locale \<open>prefix_cache\<close>; the
  model of \<^verbatim>\<open>store.go\<close> is shown to provide it.
\<close>

record sim_cache_decision =
  d_active :: bool
  d_hit :: bool
  d_tokens :: int

definition header_before_stream :: "sim_cache_decision \<Rightarrow> string" where
  "header_before_stream d =
     (if \<not> d_active d then ''real'' else if d_hit d then ''simulated'' else ''real'')"

definition header_after :: "sim_cache_decision \<Rightarrow> int \<Rightarrow> string" where
  "header_after d real_cache_read =
     (if \<not> d_active d then ''real'' else if \<not> d_hit d then ''real''
      else if real_cache_read > 0 then ''mixed'' else ''simulated'')"

definition apply_to_usage :: "sim_cache_decision \<Rightarrow> usage option \<Rightarrow> bool \<Rightarrow> usage option" where
  "apply_to_usage d u mark_creation =
     (case u of None \<Rightarrow> None
      | Some u \<Rightarrow>
          if \<not> d_active d then Some u
          else if d_hit d then
            (if d_tokens d > u_cache_read u then Some (u\<lparr>u_cache_read := d_tokens d\<rparr>) else Some u)
          else if mark_creation \<and> u_cache_write u = 0 then Some (u\<lparr>u_cache_write := d_tokens d\<rparr>)
          else Some u)"

text \<open>
  A history turn is its role and content. The tool list enters only through its JSON text, which
  is None where \<^verbatim>\<open>json.Marshal\<close> fails.
\<close>

definition prefix_for_sim_cache ::
  "string \<Rightarrow> string \<Rightarrow> string \<Rightarrow> string option \<Rightarrow> string \<Rightarrow> (string \<times> string) list \<Rightarrow> string" where
  "prefix_for_sim_cache email protocol model tools system history =
     ''account: '' @ email @ ''\<newline>protocol: '' @ protocol @ ''\<newline>model: '' @ model @ ''\<newline>tools: '' @
     (case tools of Some raw \<Rightarrow> raw | None \<Rightarrow> []) @ ''\<newline>'' @
     (let s = trim_space system in if s \<noteq> [] then ''system: '' @ s @ ''\<newline>'' else []) @
     concat (map (\<lambda>(role, content). role @ '': '' @ content @ ''\<newline>'') history)"

definition decide_sim_cache ::
  "('s \<Rightarrow> (bool \<times> int \<times> 'e) \<times> 's) \<Rightarrow> ('e \<Rightarrow> int) \<Rightarrow> 's option \<Rightarrow> sim_cache_decision \<times> 's option" where
  "decide_sim_cache lookup tokens st =
     (case st of None \<Rightarrow> (\<lparr>d_active = False, d_hit = False, d_tokens = 0\<rparr>, None)
      | Some s \<Rightarrow>
          let ((hit, cached, ent), s') = lookup s;
              simulated = (if \<not> hit then tokens ent else cached)
          in (\<lparr>d_active = True, d_hit = hit, d_tokens = simulated\<rparr>, Some s'))"

subsection \<open>What the handlers rely on\<close>

text \<open>
  \<open>same\<close> relates prefixes the cache cannot tell apart; \<open>est\<close> is the token estimate. An entry
  returned on a miss carries the estimate of the requested prefix, one returned on a hit the
  estimate of a prefix that the cache identifies with it.
\<close>

locale prefix_cache =
  fixes lookup :: "int \<Rightarrow> string \<Rightarrow> 's \<Rightarrow> (bool \<times> int \<times> 'e) \<times> 's"
    and tokens :: "'e \<Rightarrow> int" and est :: "string \<Rightarrow> int"
    and same :: "string \<Rightarrow> string \<Rightarrow> bool" and inv :: "'s \<Rightarrow> bool"
  assumes same_refl: "same p p"
    and lookup_inv: "inv s \<Longrightarrow> lookup now p s = (r, s') \<Longrightarrow> inv s'"
    and lookup_miss: "inv s \<Longrightarrow> lookup now p s = ((False, n, e), s') \<Longrightarrow> tokens e = est p"
    and lookup_hit: "inv s \<Longrightarrow> lookup now p s = ((True, n, e), s') \<Longrightarrow> \<exists>q. same q p \<and> n = est q"
begin

text \<open>A sequence of requests, and the decisions it produces.\<close>

primrec decisions :: "(int \<times> string) list \<Rightarrow> 's option \<Rightarrow> sim_cache_decision list" where
  "decisions [] st = []"
| "decisions (tp # reqs) st =
     (let (d, st') = decide_sim_cache (lookup (fst tp) (snd tp)) tokens st
      in d # decisions reqs st')"

lemma decide_step:
  assumes "inv s" "decide_sim_cache (lookup now p) tokens (Some s) = (d, st')"
  shows "\<exists>s' q. st' = Some s' \<and> inv s' \<and> d_active d \<and> same q p \<and> d_tokens d = est q"
proof -
  obtain hit n e s' where l: "lookup now p s = ((hit, n, e), s')" by (metis prod_cases3 surj_pair)
  with assms(2) have d: "d = \<lparr>d_active = True, d_hit = hit, d_tokens = if \<not> hit then tokens e else n\<rparr>"
    "st' = Some s'" by (auto simp: decide_sim_cache_def)
  show ?thesis
  proof (cases hit)
    case True
    with lookup_hit [OF assms(1), of now p] l obtain q where "same q p" "n = est q" by metis
    with d True lookup_inv [OF assms(1) l] show ?thesis by auto
  next
    case False
    with lookup_miss [OF assms(1), of now p] l have "tokens e = est p" by metis
    with d False lookup_inv [OF assms(1) l] same_refl show ?thesis by auto
  qed
qed

lemma decisions_estimates:
  "inv s \<Longrightarrow> list_all2 (\<lambda>tp d. d_active d \<and> (\<exists>q. same q (snd tp) \<and> d_tokens d = est q))
     reqs (decisions reqs (Some s))"
proof (induction reqs arbitrary: s)
  case (Cons tp reqs)
  obtain d st' where d: "decide_sim_cache (lookup (fst tp) (snd tp)) tokens (Some s) = (d, st')"
    by (cases "decide_sim_cache (lookup (fst tp) (snd tp)) tokens (Some s)")
  from decide_step [OF Cons.prems d] obtain s' q where
    "st' = Some s'" "inv s'" "d_active d" "same q (snd tp)" "d_tokens d = est q" by blast
  with d Cons.IH show ?case by auto
qed simp

end

text \<open>Every live entry carries the estimate of a prefix with its hash.\<close>

definition tokens_ok :: "(string \<Rightarrow> 'h) \<Rightarrow> 'h cache_entry list \<Rightarrow> bool" where
  "tokens_ok sha es \<longleftrightarrow> (\<forall>e \<in> set es. \<exists>q. sha q = e_hash e \<and> e_token_count e = est_tokens q)"

definition cache_ok :: "(string \<Rightarrow> 'h) \<Rightarrow> 'h store \<Rightarrow> bool" where
  "cache_ok sha s \<longleftrightarrow> store_ok s \<and> tokens_ok sha (entries s)"

lemma spec_lookup_tokens:
  assumes sp: "spec_lookup sha ttl mx now p es = ((hit, n, e), es')" and ok: "tokens_ok sha es"
  shows "tokens_ok sha es' \<and> (if hit then \<exists>q. sha q = sha p \<and> n = est_tokens q
    else e_token_count e = est_tokens p)"
proof (cases "find (\<lambda>e. e_hash e = sha p \<and> fresh_at ttl now e) es")
  case None
  let ?kept = "take (nat (mx - 1)) (rev (dropWhile (\<lambda>e. \<not> fresh_at ttl now e)
                 (rev (filter (\<lambda>e. e_hash e \<noteq> sha p) es))))"
  have "set ?kept \<subseteq> set es"
  proof
    fix x assume "x \<in> set ?kept"
    from in_set_takeD [OF this] have "x \<in> set (rev (filter (\<lambda>e. e_hash e \<noteq> sha p) es))"
      by (metis set_dropWhileD set_rev)
    then show "x \<in> set es" by simp
  qed
  with ok have "tokens_ok sha ?kept" unfolding tokens_ok_def by blast
  with None sp show ?thesis by (auto simp: spec_lookup_def Let_def tokens_ok_def) blast
next
  case (Some x)
  then have x: "x \<in> set es" "e_hash x = sha p" by (auto simp: find_Some_iff)
  with ok obtain q where "sha q = sha p" "e_token_count x = est_tokens q"
    by (auto simp: tokens_ok_def)
  then have "\<exists>q. sha q = sha p \<and> e_token_count x = est_tokens q" by blast
  note q = this
  let ?e = "x\<lparr>e_last_accessed := now, e_hit_count := e_hit_count x + 1\<rparr>"
  from Some x sp have r: "hit" "n = e_token_count x" "es' = ?e # filter (\<lambda>e. e_hash e \<noteq> sha p) es"
    by (auto simp: spec_lookup_def Let_def)
  have "tokens_ok sha (filter (\<lambda>e. e_hash e \<noteq> sha p) es)" using ok by (simp add: tokens_ok_def)
  with q x(2) r show ?thesis by (simp add: tokens_ok_def)
qed

lemma lookup_tokens:
  assumes "cache_ok sha s" "lookup_or_record sha now p s = ((hit, n, e), s')"
  shows "cache_ok sha s' \<and> (if hit then \<exists>q. sha q = sha p \<and> n = est_tokens q
    else e_token_count e = est_tokens p)"
  using lookup_refines [OF _ assms(2)] spec_lookup_tokens assms(1) unfolding cache_ok_def by metis

interpretation sc: prefix_cache "lookup_or_record sha" e_token_count est_tokens
  "\<lambda>q p. sha q = sha p" "cache_ok sha" for sha :: "string \<Rightarrow> 'h"
proof
  show "cache_ok sha s \<Longrightarrow> lookup_or_record sha now p s = (r, s') \<Longrightarrow> cache_ok sha s'"
    for s now p r s' by (metis lookup_tokens prod_cases3)
qed (auto dest: lookup_tokens)

lemma cache_ok_new: "cache_ok sha (new_store ttl mx zero)"
  by (simp add: cache_ok_def store_ok_new) (simp add: tokens_ok_def entries_def new_store_def Let_def)

subsection \<open>Properties\<close>

text \<open>
  On a new store, whatever sequence of requests is served, every decision is active and its
  token number is the estimate of a prefix with the same hash as the requested one; applied to a
  usage report it never lowers the cache-read number Cursor reported, and without a hit leaves it
  alone.
\<close>

theorem sim_cache_decisions_sound:
  "list_all2 (\<lambda>tp d. d_active d \<and> (\<exists>q. sha q = sha (snd tp) \<and> d_tokens d = est_tokens q) \<and>
      apply_to_usage d (Some u) mark =
        Some (if d_hit d then u\<lparr>u_cache_read := max (d_tokens d) (u_cache_read u)\<rparr>
              else if mark \<and> u_cache_write u = 0 then u\<lparr>u_cache_write := d_tokens d\<rparr> else u))
     reqs (sc.decisions sha reqs (Some (new_store ttl mx zero)))"
  by (rule list_all2_mono [OF sc.decisions_estimates [OF cache_ok_new]])
    (auto simp: apply_to_usage_def max_def)

lemma line_inject:
  "a @ CHR 10 # x = b @ CHR 10 # y \<Longrightarrow> CHR 10 \<notin> set a \<Longrightarrow> CHR 10 \<notin> set b \<Longrightarrow> a = b \<and> x = y"
proof (induction a arbitrary: b)
  case Nil
  then show ?case by (cases b) auto
next
  case (Cons c a)
  then show ?case by (cases b) auto
qed

definition tools_text :: "string option \<Rightarrow> string" where
  "tools_text t = (case t of Some raw \<Rightarrow> raw | None \<Rightarrow> [])"

lemma prefix_lines:
  "\<exists>r. prefix_for_sim_cache e p m t s h = ''account: '' @ e @ CHR 10 # ''protocol: '' @ p @
     CHR 10 # ''model: '' @ m @ CHR 10 # ''tools: '' @ tools_text t @ CHR 10 # r"
  by (auto simp: prefix_for_sim_cache_def tools_text_def)

text \<open>
  Two requests with the same cache prefix agree on account, protocol, model and tool schema,
  as long as none of these fields contains a line feed: the cache namespace separates identities.
\<close>

theorem sim_cache_namespace_separates:
  assumes "prefix_for_sim_cache e p m t s h = prefix_for_sim_cache e' p' m' t' s' h'"
    and "CHR 10 \<notin> set e \<union> set p \<union> set m \<union> set e' \<union> set p' \<union> set m'"
    and "\<forall>raw \<in> set_option t \<union> set_option t'. CHR 10 \<notin> set raw \<and> raw \<noteq> []"
  shows "e = e' \<and> p = p' \<and> m = m' \<and> t = t'"
proof -
  obtain r where r: "prefix_for_sim_cache e p m t s h = ''account: '' @ e @ CHR 10 # ''protocol: '' @ p @
     CHR 10 # ''model: '' @ m @ CHR 10 # ''tools: '' @ tools_text t @ CHR 10 # r"
    using prefix_lines by blast
  obtain r' where r': "prefix_for_sim_cache e' p' m' t' s' h' = ''account: '' @ e' @ CHR 10 # ''protocol: '' @ p' @
     CHR 10 # ''model: '' @ m' @ CHR 10 # ''tools: '' @ tools_text t' @ CHR 10 # r'"
    using prefix_lines by blast
  note eq = assms(1) [unfolded r r' same_append_eq]
  have nl: "CHR 10 \<notin> set e" "CHR 10 \<notin> set e'" "CHR 10 \<notin> set p" "CHR 10 \<notin> set p'"
    "CHR 10 \<notin> set m" "CHR 10 \<notin> set m'" "CHR 10 \<notin> set (tools_text t)" "CHR 10 \<notin> set (tools_text t')"
    using assms(2,3) by (auto simp: tools_text_def split: option.splits)
  note 1 = line_inject [OF eq nl(1,2)]
  note 2 = line_inject [OF 1 [THEN conjunct2, unfolded same_append_eq] nl(3,4)]
  note 3 = line_inject [OF 2 [THEN conjunct2, unfolded same_append_eq] nl(5,6)]
  note 4 = line_inject [OF 3 [THEN conjunct2, unfolded same_append_eq] nl(7,8)]
  have "t = t'"
    using 4 assms(3) by (auto simp: tools_text_def split: option.splits)
  with 1 2 3 show ?thesis by blast
qed

lemma sim_cache_namespace_separates_witness:
  "prefix_for_sim_cache ''a@x'' ''openai'' ''m1'' (Some ''[]'') ''s'' [] \<noteq>
   prefix_for_sim_cache ''a@x'' ''openai'' ''m2'' (Some ''[]'') ''s'' []"
proof
  assume "prefix_for_sim_cache ''a@x'' ''openai'' ''m1'' (Some ''[]'') ''s'' [] =
    prefix_for_sim_cache ''a@x'' ''openai'' ''m2'' (Some ''[]'') ''s'' []"
  from sim_cache_namespace_separates [OF this] show False by simp
qed

text \<open>
  The prefix does not separate conversations: one user turn whose text contains the line
  \<^verbatim>\<open>assistant: b\<close> has the prefix of a user turn followed by an assistant turn, so the simulated
  hit of one conversation can be reported for the other.
\<close>

theorem sim_cache_prefix_collision:
  "prefix_for_sim_cache e p m t s [(''user'', a @ ''\<newline>assistant: '' @ b)] =
   prefix_for_sim_cache e p m t s [(''user'', a), (''assistant'', b)]"
  by (simp add: prefix_for_sim_cache_def)

end
