(* ===== verification/QuotaRoute.thy ===== *)
theory QuotaRoute
  imports Complex_Main Prelude
begin

text \<open>
  Model of the quota gate of the plugin, \<^verbatim>\<open>plugin/cursor/kernel/quota_route.go\<close>: which of
  Cursor's three usage bars a model bills to, when a bar is exhausted, which models are advertised
  for an account, which lane a request takes, and the 45 second cache in front of the usage call.

  Times are nanoseconds. Percentages are rationals: the code's \<^verbatim>\<open>float64\<close> values without NaN and
  infinities, compared and divided without rounding. The usage call itself is a network request:
  its result is an argument. Log lines are left out. \<open>quote\<close> is \<^verbatim>\<open>strconv.Quote\<close>, which depends on
  the Unicode tables of the library. The functions that read the stored auth file
  (\<^verbatim>\<open>decideQuotaLane\<close>, \<^verbatim>\<open>quotaSkipFromStorage\<close>, \<^verbatim>\<open>applyQuotaLane\<close>, \<^verbatim>\<open>applyBotLane\<close>) are not modelled.
\<close>

datatype bucket = Cursor_Bucket | Other_Bucket | Bot_Bucket

fun bucket_name :: "bucket \<Rightarrow> string" where
  "bucket_name Cursor_Bucket = ''cursor''"
| "bucket_name Other_Bucket = ''other''"
| "bucket_name Bot_Bucket = ''bot''"

record account_quota =
  q_auto :: rat
  q_in_slow_pool :: bool
  q_no_usage_based :: bool
  q_bot_fetched :: bool
  q_bot_unlocked :: bool
  q_bot_available :: bool
  q_bot_percent :: rat
  q_bot_plan :: string
  q_other :: rat
  q_other_fetched :: bool

definition zero_quota :: account_quota where
  "zero_quota = \<lparr>q_auto = 0, q_in_slow_pool = False, q_no_usage_based = False, q_bot_fetched = False,
     q_bot_unlocked = False, q_bot_available = False, q_bot_percent = 0, q_bot_plan = [],
     q_other = 0, q_other_fetched = False\<rparr>"

record account =
  ac_email :: string
  ac_auth_id :: string
  ac_access_token :: string

text \<open>The fields of a usage snapshot that the gate reads, with its \<^verbatim>\<open>Fetched\<close> flags.\<close>

record snapshot =
  sn_fetched_period :: bool
  sn_fetched_slow_pool :: bool
  sn_fetched_hard_limit :: bool
  sn_fetched_sand :: bool
  sn_auto_percent :: rat
  sn_api_percent :: rat
  sn_in_slow_pool :: bool
  sn_no_usage_based :: bool
  sn_bot_unlocked :: bool
  sn_bot_available :: bool
  sn_bot_percent :: rat
  sn_bot_plan :: string

subsection \<open>Reading the quota\<close>

text \<open>\<open>call\<close> is the usage client: None where it fails or returns no snapshot.\<close>

definition fetch_account_quota ::
  "(account \<Rightarrow> snapshot option) \<Rightarrow> account option \<Rightarrow> account_quota \<times> bool" where
  "fetch_account_quota call acc =
     (case acc of None \<Rightarrow> (zero_quota, False)
      | Some a \<Rightarrow>
          if trim_space (ac_access_token a) = [] then (zero_quota, False)
          else case call a of None \<Rightarrow> (zero_quota, False)
          | Some s \<Rightarrow>
              if \<not> sn_fetched_period s then (zero_quota, False)
              else if \<not> sn_fetched_slow_pool s \<or> \<not> sn_fetched_hard_limit s then (zero_quota, False)
              else (\<lparr>q_auto = sn_auto_percent s, q_in_slow_pool = sn_in_slow_pool s,
                     q_no_usage_based = sn_no_usage_based s, q_bot_fetched = sn_fetched_sand s,
                     q_bot_unlocked = sn_bot_unlocked s, q_bot_available = sn_bot_available s,
                     q_bot_percent = sn_bot_percent s, q_bot_plan = sn_bot_plan s,
                     q_other = sn_api_percent s, q_other_fetched = sn_fetched_period s\<rparr>, True))"

definition quota_cache_key :: "string \<Rightarrow> account option \<Rightarrow> string" where
  "quota_cache_key auth_id acc =
     (case acc of None \<Rightarrow> trim_space auth_id
      | Some a \<Rightarrow>
          let email = to_lower (trim_space (ac_email a)); i = trim_space (ac_auth_id a) in
          if email \<noteq> [] then email else if i \<noteq> [] then i else trim_space auth_id)"

definition quota_cache_ttl :: int where
  "quota_cache_ttl = 45 * 10 ^ 9"

type_synonym quota_cache = "(string \<times> (account_quota \<times> bool) \<times> int) list"

text \<open>
  A lookup at time \<open>now\<close>, with the result the fetch would give and the time it would end at. The
  second component of the result says whether the fetch was made.
\<close>

definition cached_quota :: "string \<Rightarrow> int \<Rightarrow> quota_cache \<Rightarrow> (account_quota \<times> bool) option" where
  "cached_quota key now cache =
     (if key = [] then None
      else case map_of cache key of
        None \<Rightarrow> None
      | Some (r, stamp) \<Rightarrow> if now - stamp < quota_cache_ttl then Some r else None)"

definition load_account_quota ::
  "string \<Rightarrow> account option \<Rightarrow> int \<Rightarrow> account_quota \<times> bool \<Rightarrow> int \<Rightarrow> quota_cache \<Rightarrow>
     (account_quota \<times> bool) \<times> quota_cache" where
  "load_account_quota auth_id acc now fetched stamp cache =
     (let key = quota_cache_key auth_id acc in
      case cached_quota key now cache of
        Some r \<Rightarrow> (r, cache)
      | None \<Rightarrow> (fetched, if key \<noteq> [] then AList.update key (fetched, stamp) cache else cache))"

definition reset_quota_cache :: "quota_cache \<Rightarrow> quota_cache" where
  "reset_quota_cache cache = fold (\<lambda>(key, _). AList.delete key) cache cache"

subsection \<open>Exhausted bars\<close>

definition normalize_auto_percent :: "rat \<Rightarrow> rat" where
  "normalize_auto_percent p = (if p > 2 then p / 100 else p)"

definition quota_exhausted_auto :: "rat \<Rightarrow> bool" where
  "quota_exhausted_auto p \<longleftrightarrow> normalize_auto_percent p \<ge> 1"

definition quota_exhausted_other :: "account_quota \<Rightarrow> bool" where
  "quota_exhausted_other q \<longleftrightarrow> q_in_slow_pool q \<and> q_no_usage_based q"

definition quota_exhausted_bot :: "account_quota \<Rightarrow> bool" where
  "quota_exhausted_bot q \<longleftrightarrow>
     (if \<not> q_bot_fetched q then False else if \<not> q_bot_unlocked q then True else \<not> q_bot_available q)"

definition bot_can_overflow :: "account_quota \<Rightarrow> bool" where
  "bot_can_overflow q \<longleftrightarrow> q_bot_fetched q \<and> q_bot_unlocked q \<and> q_bot_available q"

definition should_overflow_other_to_bot :: "account_quota \<Rightarrow> bool" where
  "should_overflow_other_to_bot q \<longleftrightarrow>
     (if \<not> bot_can_overflow q then False
      else if quota_exhausted_other q then True
      else q_other_fetched q \<and> normalize_auto_percent (q_other q) \<ge> 1)"

definition is_cursor_other_models_limit_error :: "string option \<Rightarrow> bool" where
  "is_cursor_other_models_limit_error err =
     (case err of None \<Rightarrow> False
      | Some e \<Rightarrow> let msg = to_lower e in
          contains_str msg ''error_rate_limited_changeable'' \<or> contains_str msg ''other models usage limit'')"

definition native_bucket_exhausted :: "account_quota \<Rightarrow> bucket \<Rightarrow> bool" where
  "native_bucket_exhausted q b =
     (case b of Cursor_Bucket \<Rightarrow> quota_exhausted_auto (q_auto q)
      | Bot_Bucket \<Rightarrow> quota_exhausted_bot q
      | Other_Bucket \<Rightarrow> quota_exhausted_other q)"

subsection \<open>Models and buckets\<close>

definition normalize_model_id :: "string \<Rightarrow> string" where
  "normalize_model_id model =
     (let m = to_lower (trim_space model);
          m = (case index_byte m CHR ''['' of Some i \<Rightarrow> trim_space (take i m) | None \<Rightarrow> m)
      in case last_index_byte m CHR ''/'' of Some i \<Rightarrow> trim_space (drop (i + 1) m) | None \<Rightarrow> m)"

definition model_quota_bucket :: "string \<Rightarrow> bucket" where
  "model_quota_bucket model =
     (let m = normalize_model_id model in
      if m = [] \<or> m = ''auto'' \<or> m = ''auto-smart'' \<or> m = ''default'' then Cursor_Bucket
      else if contains_str m ''grok'' then Bot_Bucket
      else if has_prefix m ''composer-'' \<or> has_prefix m ''cursor-'' then Cursor_Bucket
      else Other_Bucket)"

definition filter_models_for_quota :: "account_quota \<times> bool \<Rightarrow> string list \<Rightarrow> string list" where
  "filter_models_for_quota loaded names =
     (if names = [] then names
      else let (q, ok) = loaded in
        if \<not> ok then names
        else let drop_cursor = quota_exhausted_auto (q_auto q); drop_other = quota_exhausted_other q;
                 drop_bot = quota_exhausted_bot q; overflow = bot_can_overflow q in
          if \<not> drop_cursor \<and> \<not> drop_other \<and> \<not> drop_bot then names
          else filter (\<lambda>name. case model_quota_bucket name of
                   Cursor_Bucket \<Rightarrow> \<not> (drop_cursor \<and> \<not> overflow)
                 | Bot_Bucket \<Rightarrow> \<not> drop_bot
                 | Other_Bucket \<Rightarrow> \<not> (drop_other \<and> \<not> overflow)) names)"

subsection \<open>The lane of a request\<close>

datatype lane = No_Lane | Native_Lane | Bot_Lane

record quota_decision =
  qd_skip :: bool
  qd_message :: string
  qd_lane :: lane

definition go_bool :: "bool \<Rightarrow> string" where
  "go_bool b = (if b then ''true'' else ''false'')"

text \<open>\<^verbatim>\<open>%.4f\<close>: four decimals, the nearest, ties to the even digit.\<close>

fun dec_digits :: "nat \<Rightarrow> string" where
  "dec_digits n = (if n < 10 then [char_of (48 + n)] else dec_digits (n div 10) @ [char_of (48 + n mod 10)])"

declare dec_digits.simps [simp del]

definition round_half_even :: "rat \<Rightarrow> int" where
  "round_half_even x =
     (let d = x - of_int \<lfloor>x\<rfloor>; f = \<lfloor>x\<rfloor> in
      if d < 1 / 2 then f else if d > 1 / 2 then f + 1 else if even f then f else f + 1)"

definition fmt4 :: "rat \<Rightarrow> string" where
  "fmt4 x =
     (let n = nat (round_half_even (\<bar>x\<bar> * 10000)); f = n mod 10000 in
      (if x < 0 then ''-'' else []) @ dec_digits (n div 10000) @ ''.'' @
      map (\<lambda>d. char_of (48 + f div d mod 10)) [1000, 100, 10, 1])"

definition decide_quota_lane_from_quota ::
  "(string \<Rightarrow> string) \<Rightarrow> string \<Rightarrow> account_quota \<Rightarrow> quota_decision" where
  "decide_quota_lane_from_quota quote model q =
     (let b = model_quota_bucket model in
      if b = Other_Bucket \<and> should_overflow_other_to_bot q
      then \<lparr>qd_skip = False, qd_message = [], qd_lane = Bot_Lane\<rparr>
      else if \<not> native_bucket_exhausted q b
      then \<lparr>qd_skip = False, qd_message = [], qd_lane = (if b = Bot_Bucket then Bot_Lane else Native_Lane)\<rparr>
      else if b \<noteq> Bot_Bucket \<and> bot_can_overflow q
      then \<lparr>qd_skip = False, qd_message = [], qd_lane = Bot_Lane\<rparr>
      else if b = Bot_Bucket
      then \<lparr>qd_skip = True, qd_message =
             (if \<not> q_bot_unlocked q
              then ''cursor bot-models quota unavailable for '' @ model @
                   '' (account has no Sand/Grok Bot entitlement)''
              else ''cursor bot-models quota exhausted for '' @ model @ '' (pct='' @ fmt4 (q_bot_percent q) @
                   '' plan='' @ quote (q_bot_plan q) @ '')''), qd_lane = No_Lane\<rparr>
      else \<lparr>qd_skip = True, qd_message =
             ''cursor '' @ bucket_name b @ ''-models quota exhausted for '' @ model @ '' (auto='' @ fmt4 (q_auto q) @
             '' slow_pool='' @ go_bool (q_in_slow_pool q) @ '' no_usage_based='' @ go_bool (q_no_usage_based q) @ '')'',
             qd_lane = No_Lane\<rparr>)"

subsection \<open>Catalogue and lanes agree\<close>

lemmas bars = native_bucket_exhausted_def bot_can_overflow_def quota_exhausted_bot_def
  should_overflow_other_to_bot_def

lemma skip_iff:
  "qd_skip (decide_quota_lane_from_quota quote m q) \<longleftrightarrow>
     native_bucket_exhausted q (model_quota_bucket m) \<and>
     (model_quota_bucket m = Bot_Bucket \<or> \<not> bot_can_overflow q)"
  by (auto simp: decide_quota_lane_from_quota_def Let_def should_overflow_other_to_bot_def split: if_splits)

text \<open>
  C26: The advertised models are exactly the servable ones. When the quota could be read, a model
  stays in an account's list if and only if a request for it on that account would not be
  skipped; when it could not be read, every model stays.
\<close>

theorem catalogue_matches_lanes:
  "filter_models_for_quota (q, True) names =
     filter (\<lambda>m. \<not> qd_skip (decide_quota_lane_from_quota quote m q)) names \<and>
   filter_models_for_quota (q', False) names = names"
proof -
  have "filter_models_for_quota (q, True) names = filter (\<lambda>m. \<not> (native_bucket_exhausted q (model_quota_bucket m) \<and>
      (model_quota_bucket m = Bot_Bucket \<or> \<not> bot_can_overflow q))) names"
  proof (cases "quota_exhausted_auto (q_auto q) \<or> quota_exhausted_other q \<or> quota_exhausted_bot q")
    case True
    then show ?thesis
      by (auto simp: filter_models_for_quota_def Let_def native_bucket_exhausted_def
          intro!: filter_cong split: bucket.splits)
  next
    case False
    then have "\<not> native_bucket_exhausted q b" for b
      by (simp add: native_bucket_exhausted_def split: bucket.splits)
    with False show ?thesis by (simp add: filter_models_for_quota_def)
  qed
  then show ?thesis by (simp add: skip_iff) (simp add: filter_models_for_quota_def)
qed

text \<open>
  What the gate decides. A request is skipped exactly when the bar its model bills to is
  exhausted and the bot bar cannot take it (a bot model never overflows); a skipped request has a
  message and no lane. A model of another bar goes to the bot lane exactly when the bot bar is
  known, unlocked and available, and its own bar is exhausted or, for the other-models bar, full.
\<close>

theorem quota_lane_characterisation:
  "let d = decide_quota_lane_from_quota quote m q; b = model_quota_bucket m in
     qd_skip d = (native_bucket_exhausted q b \<and> \<not> (b \<noteq> Bot_Bucket \<and> bot_can_overflow q)) \<and>
     (qd_lane d = No_Lane) = qd_skip d \<and> (qd_message d \<noteq> []) = qd_skip d \<and>
     (qd_lane d = Bot_Lane \<and> b \<noteq> Bot_Bucket) =
       (b \<noteq> Bot_Bucket \<and> bot_can_overflow q \<and>
        (native_bucket_exhausted q b \<or>
         b = Other_Bucket \<and> q_other_fetched q \<and> normalize_auto_percent (q_other q) \<ge> 1))"
proof -
  have o: "native_bucket_exhausted q Other_Bucket = quota_exhausted_other q"
    by (simp add: native_bucket_exhausted_def)
  show ?thesis
    by (cases "model_quota_bucket m")
      (auto simp: decide_quota_lane_from_quota_def Let_def should_overflow_other_to_bot_def o)
qed

subsection \<open>The cache\<close>

record load_call =
  lc_auth :: string
  lc_account :: "account option"
  lc_now :: int
  lc_fetched :: "account_quota \<times> bool"
  lc_done :: int

definition load_of :: "load_call \<Rightarrow> quota_cache \<Rightarrow> (account_quota \<times> bool) \<times> quota_cache" where
  "load_of c = load_account_quota (lc_auth c) (lc_account c) (lc_now c) (lc_fetched c) (lc_done c)"

definition cache_after :: "load_call list \<Rightarrow> quota_cache" where
  "cache_after cs = fold (\<lambda>c cache. snd (load_of c cache)) cs []"

definition load_key :: "load_call \<Rightarrow> string" where
  "load_key c = quota_cache_key (lc_auth c) (lc_account c)"

lemma cache_from_loads:
  "map_of (cache_after cs) key = Some (r, stamp) \<Longrightarrow>
     \<exists>c \<in> set cs. load_key c = key \<and> lc_fetched c = r \<and> lc_done c = stamp"
proof (induction cs rule: rev_induct)
  case (snoc c cs)
  have "snd (load_of c (cache_after cs)) = cache_after cs \<or>
      snd (load_of c (cache_after cs)) = AList.update (load_key c) (lc_fetched c, lc_done c) (cache_after cs)"
    by (auto simp: load_of_def load_account_quota_def Let_def load_key_def split: option.splits)
  with snoc show ?case
    by (auto simp: cache_after_def update_conv' split: if_splits)
qed (simp add: cache_after_def)

text \<open>
  C37: The cache never serves stale or foreign quotas. After any sequence of loads, a load returns
  either what its own fetch gives, or what an earlier load under the same key fetched less than 45
  seconds before; an account without any name (empty key) is never cached.
\<close>

theorem quota_cache_fresh:
  "let (r, _) = load_of c (cache_after cs) in
     (r = lc_fetched c \<or> load_key c \<noteq> [] \<and>
        (\<exists>e \<in> set cs. load_key e = load_key c \<and> lc_fetched e = r \<and> lc_now c - lc_done e < 45 * 10 ^ 9))"
proof -
  show ?thesis
  proof (cases "cached_quota (load_key c) (lc_now c) (cache_after cs)")
    case None
    then show ?thesis by (simp add: load_of_def load_account_quota_def load_key_def Let_def)
  next
    case (Some r)
    then obtain stamp where "map_of (cache_after cs) (load_key c) = Some (r, stamp)" "load_key c \<noteq> []"
      "lc_now c - stamp < quota_cache_ttl"
      by (auto simp: cached_quota_def split: if_splits option.splits)
    then have "load_key c \<noteq> [] \<and> (\<exists>e \<in> set cs. load_key e = load_key c \<and> lc_fetched e = r \<and>
        lc_now c - lc_done e < 45 * 10 ^ 9)"
      using cache_from_loads [of cs "load_key c" r stamp] unfolding quota_cache_ttl_def by blast
    with Some show ?thesis by (simp add: load_of_def load_account_quota_def load_key_def Let_def)
  qed
qed

lemma reset_empties: "reset_quota_cache cache = []"
proof -
  have "set (fold (\<lambda>(key, _). AList.delete key) xs al) = {x \<in> set al. fst x \<notin> fst ` set xs}"
    for xs al :: quota_cache
    by (induction xs arbitrary: al) (auto simp: set_delete)
  from this [of cache cache] have "set (reset_quota_cache cache) = {}"
    by (auto simp: reset_quota_cache_def)
  then show ?thesis by simp
qed

subsection \<open>Model names\<close>

text \<open>A bare model name: lower case, trimmed, without a provider or a variant.\<close>

definition bare_name :: "string \<Rightarrow> bool" where
  "bare_name m \<longleftrightarrow> m \<noteq> [] \<and> to_lower m = m \<and> trim_space m = m \<and> CHR ''/'' \<notin> set m \<and> CHR ''['' \<notin> set m"

lemma normalize_bare: "bare_name m \<Longrightarrow> normalize_model_id m = m"
  by (simp add: bare_name_def normalize_model_id_def index_byte_absent last_index_byte_absent)

lemma lower_bracket: "lower_char c = CHR ''['' \<longleftrightarrow> c = CHR ''[''"
proof -
  have "lower_char c = CHR ''['' \<longleftrightarrow> byte_of (lower_char c) = 91"
    using byte_of_inj [of "lower_char c" "CHR ''[''"] by (simp add: byte_of_def)
  also have "\<dots> \<longleftrightarrow> byte_of c = 91" by (simp add: byte_of_lower)
  also have "\<dots> \<longleftrightarrow> c = CHR ''[''" using byte_of_inj [of c "CHR ''[''"] by (simp add: byte_of_def)
  finally show ?thesis .
qed

lemma bracket_lower: "CHR ''['' \<in> set (to_lower s) \<longleftrightarrow> CHR ''['' \<in> set s"
proof (induction s)
  case (Cons c s)
  have "CHR ''['' = lower_char c \<longleftrightarrow> CHR ''['' = c"
    unfolding eq_commute [of "CHR ''[''"] by (rule lower_bracket)
  with Cons show ?case by (simp only: to_lower_Cons list.set insert_iff)
qed (simp add: to_lower_def)

lemma normalize_variant:
  assumes m: "bare_name m" and p: "CHR ''['' \<notin> set p"
  shows "normalize_model_id (p @ ''/'' @ m @ ''['' @ x) = m"
proof -
  let ?s = "CHR ''/''" and ?b = "CHR ''[''"
  have sb: "byte_of ?s < 0x80" "\<not> is_space ?s" "byte_of ?b < 0x80" "\<not> is_space ?b"
    "lower_char ?s = ?s" "lower_char ?b = ?b"
    by (simp_all add: is_space_def lower_char_def byte_of_def)
  have b: "m \<noteq> []" "to_lower m = m" "trim_space m = m" "?s \<notin> set m" "?b \<notin> set m"
    using m by (simp_all add: bare_name_def)
  obtain a p1 where p1: "p = a @ p1" "trim_left (p @ ?s # m @ ?b # x) = p1 @ ?s # m @ ?b # x"
    using trim_left_keep [OF sb(1,2)] by metis
  obtain x1 where "trim_right ((p1 @ ?s # m) @ ?b # x) = (p1 @ ?s # m) @ ?b # x1"
    using trim_right_keep [OF sb(3,4)] by blast
  with p1(2) have t: "trim_space (p @ ''/'' @ m @ ''['' @ x) = (p1 @ ?s # m) @ ?b # x1"
    by (simp add: trim_space_def)
  define q where "q = to_lower p1"
  have low: "to_lower ((p1 @ ?s # m) @ ?b # x1) = (q @ ?s # m) @ ?b # to_lower x1"
    by (simp only: to_lower_append to_lower_Cons sb(5,6) b(2) q_def)
  have "?b \<notin> set p1" using p p1(1) by simp
  then have "?b \<notin> set q" unfolding q_def by (simp only: bracket_lower not_False_eq_True)
  then have i: "index_byte ((q @ ?s # m) @ ?b # to_lower x1) ?b = Some (length (q @ ?s # m))"
    using b(5) by (intro index_byte_first) simp
  obtain a' q1 where q1: "q = a' @ q1" "trim_left (q @ ?s # m) = q1 @ ?s # m"
    using trim_left_keep [OF sb(1,2)] by metis
  then have t2: "trim_space (q @ ?s # m) = q1 @ ?s # m"
    using trim_right_trimmed [OF sb(1) b(3,1)] by (simp add: trim_space_def)
  have l: "last_index_byte (q1 @ ?s # m) ?s = Some (length q1)" by (rule last_index_byte_last [OF b(4)])
  have k: "take (length (q @ ?s # m)) ((q @ ?s # m) @ ?b # to_lower x1) = q @ ?s # m" by simp
  show ?thesis unfolding normalize_model_id_def Let_def t low i option.case k t2 l
    using b(3) by simp
qed

text \<open>
  Variants bill like their model. A provider prefix and a bracketed variant never change the
  bar: for every bare name (lower case, trimmed, without slash or bracket), the id with any
  prefix before a slash and anything after an opening bracket is in the bucket of the name.
\<close>

theorem variant_bucket:
  assumes "bare_name m" and "CHR ''['' \<notin> set p"
  shows "model_quota_bucket (p @ ''/'' @ m @ ''['' @ x) = model_quota_bucket m"
  by (simp only: model_quota_bucket_def normalize_variant [OF assms] normalize_bare [OF assms(1)])

lemma variant_bucket_witness:
  "model_quota_bucket (''cursor'' @ ''/'' @ ''grok-4'' @ ''['' @ ''fast=true]'') = model_quota_bucket ''grok-4''"
proof (rule variant_bucket)
  have "trim_space ''grok-4'' = ''grok-4''" by (rule ascii_trim_id) (simp add: is_space_def byte_of_def)
  then show "bare_name ''grok-4''" by (simp add: bare_name_def to_lower_def lower_char_def byte_of_def)
qed simp

text \<open>
  Unread quotas fail open. When the bot bar was not
  fetched, no model is moved to the bot lane except those that bill to it, no bot model is
  skipped, and quotas that were not completely read are reported as not readable.
\<close>

theorem unread_quota_fails_open:
  "let d = decide_quota_lane_from_quota quote m (q\<lparr>q_bot_fetched := False\<rparr>) in
     (qd_lane d = Bot_Lane) = (model_quota_bucket m = Bot_Bucket) \<and>
     (if model_quota_bucket m = Bot_Bucket then \<not> qd_skip d else True) \<and>
     snd (fetch_account_quota (\<lambda>_. None) acc) = False \<and>
     snd (fetch_account_quota (\<lambda>_. Some (sn\<lparr>sn_fetched_slow_pool := False\<rparr>)) acc) = False \<and>
     snd (fetch_account_quota (\<lambda>_. Some (sn\<lparr>sn_fetched_hard_limit := False\<rparr>)) acc) = False"
  by (cases "model_quota_bucket m")
    (auto simp: decide_quota_lane_from_quota_def bars fetch_account_quota_def Let_def split: option.splits)

end
