(* ===== verification/ModelCatalog.thy ===== *)
theory ModelCatalog
  imports Prelude
begin

text \<open>
  Model of \<^verbatim>\<open>executor/models_catalog.go\<close> and the catalog cache of \<^verbatim>\<open>executor/models.go\<close>: which model
  ids are advertised and routed, how a row of an exploded catalog is folded to its base id, and
  how a requested id is resolved to a model and one of its variants.

  The records hold the fields of the protobuf messages that the code reads. A Go map of
  parameters is a list of pairs. A nil catalog is None; nil elements do not occur in decoded
  repeated fields.
\<close>

record model_variant =
  mv_legacy_slug :: string
  mv_string_repr :: string
  mv_parameters :: "(string \<times> string) list"
  mv_max_mode :: bool
  mv_default_non_max :: bool

record catalog_model =
  cm_name :: string
  cm_server_name :: string
  cm_id_aliases :: "string list"
  cm_legacy_slugs :: "string list"
  cm_variants :: "model_variant list"

type_synonym catalog = "catalog_model list option"

record requested_model =
  rm_model_id :: string
  rm_built_in :: bool
  rm_max_mode :: bool
  rm_parameters :: "(string \<times> string) list"

subsection \<open>The registration fallback\<close>

definition stable_model_fallback_ids :: "string list" where
  "stable_model_fallback_ids = [''auto-smart'', ''claude-fable-5'', ''claude-haiku-4-5'', ''claude-opus-4-5'',
     ''claude-opus-4-6'', ''claude-opus-4-7'', ''claude-opus-4-8'', ''claude-opus-5'', ''claude-sonnet-4'',
     ''claude-sonnet-4-5'', ''claude-sonnet-4-6'', ''claude-sonnet-5'', ''composer-2.5'', ''gemini-2.5-flash'',
     ''gemini-3-flash'', ''gemini-3.1-pro'', ''gemini-3.5-flash'', ''gemini-3.6-flash'', ''gemini-3.7-flash'',
     ''glm-5.2'', ''gpt-5-mini'', ''gpt-5.1'', ''gpt-5.2'', ''gpt-5.3-codex'', ''gpt-5.4'', ''gpt-5.4-mini'',
     ''gpt-5.4-nano'', ''gpt-5.5'', ''gpt-5.6-luna'', ''gpt-5.6-sol'', ''gpt-5.6-terra'', ''grok-4.5'',
     ''grok-4.6'', ''kimi-k2.7-code'', ''kimi-k3'']"

definition routable_suffixes :: "string list" where
  "routable_suffixes = [''-low'', ''-medium'', ''-high'', ''-xhigh'', ''-max'', ''-thinking-low'',
     ''-thinking-medium'', ''-thinking-high'', ''-thinking-xhigh'', ''-thinking-max'', ''-longcontext'',
     ''-long-context'']"

text \<open>The \<^verbatim>\<open>add\<close> closure of the listing functions: trim, drop the empty id, keep first occurrences.\<close>

definition add_ids :: "string list \<Rightarrow> string list" where
  "add_ids ids = dedup_by (\<lambda>i. i) [] (filter (\<lambda>i. i \<noteq> []) (map trim_space ids))"

definition stable_routable_model_fallback_ids :: "string list" where
  "stable_routable_model_fallback_ids =
     add_ids (concat (map (\<lambda>base. [base, base @ ''-fast''] @
        concat (map (\<lambda>suffix. [base @ suffix, base @ suffix @ ''-fast'']) routable_suffixes))
      stable_model_fallback_ids))"

subsection \<open>Base ids\<close>

definition variant_suffixes :: "string list" where
  "variant_suffixes = [''-thinking-max'', ''-thinking-high'', ''-thinking-medium'', ''-thinking-low'',
     ''-thinking-fast'', ''-thinking'', ''-longcontext'', ''-long-context'', ''-max'', ''-fast'',
     ''-effort-max'', ''-effort-high'', ''-effort-medium'', ''-effort-low'']"

definition has_known_variant_suffix :: "string \<Rightarrow> bool" where
  "has_known_variant_suffix name \<longleftrightarrow> list_ex (\<lambda>s. has_suffix name s \<and> name \<noteq> s) variant_suffixes"

function strip_loop :: "string \<Rightarrow> string" where
  "strip_loop t =
     (case find (\<lambda>s. has_suffix t s \<and> t \<noteq> s) variant_suffixes of
        None \<Rightarrow> t
      | Some s \<Rightarrow> strip_loop (trim_suffix t s))"
  by pat_completeness auto
termination
proof (relation "measure length", goal_cases)
  case (2 t s)
  then have "s \<in> set variant_suffixes" "has_suffix t s" by (auto simp: find_Some_iff)
  moreover from this(1) have "s \<noteq> []" by (auto simp: variant_suffixes_def)
  ultimately show ?case by (simp add: trim_suffix_shorter)
qed simp

declare strip_loop.simps [simp del]

definition strip_variant_suffixes :: "string \<Rightarrow> string" where
  "strip_variant_suffixes name = (let t = trim_space name in if t = [] then [] else strip_loop t)"

definition looks_like_exploded_variant :: "catalog_model \<Rightarrow> string \<Rightarrow> bool" where
  "looks_like_exploded_variant m name \<longleftrightarrow>
     (if list_ex (\<lambda>slug. trim_space slug = name) (cm_legacy_slugs m) then True
      else if \<not> has_known_variant_suffix name then False
      else let stripped = strip_variant_suffixes name in
        if stripped = [] \<or> stripped = name then False
        else list_ex (\<lambda>a. trim_space a = stripped) (cm_id_aliases m) \<or>
          list_ex (\<lambda>s. trim_space s = stripped) (cm_legacy_slugs m) \<or>
          trim_space (cm_server_name m) = stripped)"

definition base_model_id :: "catalog_model \<Rightarrow> string" where
  "base_model_id m =
     (let name = trim_space (cm_name m) in
      if name = [] then trim_space (cm_server_name m)
      else let server = trim_space (cm_server_name m) in
        if \<not> looks_like_exploded_variant m name then name
        else if server \<noteq> [] \<and> server \<noteq> name then server
        else let stripped = strip_variant_suffixes name in
          if stripped \<noteq> [] \<and> stripped \<noteq> name then stripped else name)"

subsection \<open>Listings\<close>

definition available_model_ids :: "catalog \<Rightarrow> string list" where
  "available_model_ids resp =
     (case resp of None \<Rightarrow> []
      | Some ms \<Rightarrow> dedup_by (\<lambda>i. i) [] (filter (\<lambda>i. i \<noteq> []) (map base_model_id ms)))"

definition routable_ids_of :: "catalog_model \<Rightarrow> string list" where
  "routable_ids_of m =
     (let base = base_model_id m; name = trim_space (cm_name m) in
      [base] @ (if name \<noteq> base then [name] else []) @ map mv_legacy_slug (cm_variants m) @
      filter (\<lambda>slug. base \<noteq> [] \<and> has_prefix slug (base @ ''-'')) (map trim_space (cm_legacy_slugs m)))"

definition routable_model_ids :: "catalog \<Rightarrow> string list" where
  "routable_model_ids resp =
     (case resp of None \<Rightarrow> [] | Some ms \<Rightarrow> add_ids (concat (map routable_ids_of ms)))"

subsection \<open>Resolving a request\<close>

definition contains_trimmed :: "string list \<Rightarrow> string \<Rightarrow> bool" where
  "contains_trimmed values req \<longleftrightarrow> list_ex (\<lambda>v. trim_space v = req) values"

text \<open>The map of a variant's trimmed parameters: the last entry of an id wins.\<close>

definition parameter_map :: "model_variant \<Rightarrow> string \<Rightarrow> string option" where
  "parameter_map v = map_of (rev (map (\<lambda>(i, x). (trim_space i, trim_space x)) (mv_parameters v)))"

definition parameters_conflict :: "model_variant \<Rightarrow> (string \<times> string) list \<Rightarrow> bool" where
  "parameters_conflict v ps \<longleftrightarrow>
     list_ex (\<lambda>(i, want). case parameter_map v (trim_space i) of
        None \<Rightarrow> False | Some got \<Rightarrow> got \<noteq> trim_space want) ps"

definition variant_matches :: "(string \<times> string) list \<Rightarrow> model_variant \<Rightarrow> bool" where
  "variant_matches ps v \<longleftrightarrow>
     list_all (\<lambda>(i, x). (case parameter_map v (trim_space i) of None \<Rightarrow> [] | Some y \<Rightarrow> y) = trim_space x) ps"

definition matching_variant :: "catalog_model \<Rightarrow> (string \<times> string) list \<Rightarrow> model_variant option" where
  "matching_variant m ps = (if ps = [] then None else find (variant_matches ps) (cm_variants m))"

definition primary_model_id :: "catalog_model \<Rightarrow> string" where
  "primary_model_id m =
     (if trim_space (cm_name m) \<noteq> [] then trim_space (cm_name m) else trim_space (cm_server_name m))"

definition default_variant :: "catalog_model \<Rightarrow> model_variant option" where
  "default_variant m =
     (case find mv_default_non_max (cm_variants m) of
        Some v \<Rightarrow> Some v
      | None \<Rightarrow>
          (case find (\<lambda>v. \<not> mv_max_mode v) (cm_variants m) of
             Some v \<Rightarrow> Some v
           | None \<Rightarrow> (case cm_variants m of [] \<Rightarrow> None | v # _ \<Rightarrow> Some v)))"

definition requested_for_variant :: "string \<Rightarrow> model_variant option \<Rightarrow> requested_model" where
  "requested_for_variant i v =
     (case v of
        None \<Rightarrow> \<lparr>rm_model_id = i, rm_built_in = True, rm_max_mode = False, rm_parameters = []\<rparr>
      | Some v \<Rightarrow> \<lparr>rm_model_id = i, rm_built_in = True, rm_max_mode = mv_max_mode v,
                   rm_parameters = mv_parameters v\<rparr>)"

text \<open>A variant chosen by its slug gives way to one that matches the parameters if it conflicts with them.\<close>

definition reconcile ::
  "catalog_model \<Rightarrow> (string \<times> string) list \<Rightarrow> model_variant \<Rightarrow> model_variant" where
  "reconcile m ps v =
     (if parameters_conflict v ps
      then case matching_variant m ps of Some w \<Rightarrow> w | None \<Rightarrow> v
      else v)"

definition resolve_in_model ::
  "catalog_model \<Rightarrow> string \<Rightarrow> (string \<times> string) list \<Rightarrow> requested_model option" where
  "resolve_in_model m req ps =
     (let i = primary_model_id m in
      if i = [] then None
      else if req = i \<or> req = trim_space (cm_server_name m) \<or> contains_trimmed (cm_id_aliases m) req
      then Some (requested_for_variant i
        (case matching_variant m ps of Some v \<Rightarrow> Some v | None \<Rightarrow> default_variant m))
      else
        (case find (\<lambda>v. req = trim_space (mv_legacy_slug v) \<or> req = trim_space (mv_string_repr v)) (cm_variants m) of
           Some v \<Rightarrow> Some (requested_for_variant i (Some (reconcile m ps v)))
         | None \<Rightarrow>
             if contains_trimmed (cm_legacy_slugs m) req
             then (case find (\<lambda>v. req = trim_space (mv_legacy_slug v)) (cm_variants m) of
                     Some v \<Rightarrow> Some (requested_for_variant i (Some (reconcile m ps v)))
                   | None \<Rightarrow> None)
             else None))"

fun resolve_models ::
  "catalog_model list \<Rightarrow> string \<Rightarrow> (string \<times> string) list \<Rightarrow> requested_model option" where
  "resolve_models [] req ps = None"
| "resolve_models (m # ms) req ps =
     (case resolve_in_model m req ps of Some r \<Rightarrow> Some r | None \<Rightarrow> resolve_models ms req ps)"

definition resolve_with_parameters ::
  "catalog \<Rightarrow> string \<Rightarrow> (string \<times> string) list \<Rightarrow> requested_model option" where
  "resolve_with_parameters resp requested ps =
     (let req = trim_space requested in
      case resp of None \<Rightarrow> None
      | Some ms \<Rightarrow> if req = [] then None else resolve_models ms req ps)"

definition resolve_requested_model :: "catalog \<Rightarrow> string \<Rightarrow> requested_model option" where
  "resolve_requested_model resp requested = resolve_with_parameters resp requested []"

subsection \<open>The catalog cache of a client\<close>

text \<open>The account is its id and access token; times are nanoseconds.\<close>

definition model_catalog_identity :: "(string \<times> string) option \<Rightarrow> string" where
  "model_catalog_identity acc = (case acc of None \<Rightarrow> [] | Some (i, t) \<Rightarrow> i @ [CHR 0x00] @ t)"

record catalog_cache =
  cc_catalog :: catalog
  cc_identity :: string
  cc_at :: int

definition model_catalog_ttl :: int where
  "model_catalog_ttl = 5 * 60 * 10 ^ 9"

definition remember_model_catalog ::
  "catalog \<Rightarrow> (string \<times> string) option \<Rightarrow> int \<Rightarrow> catalog_cache \<Rightarrow> catalog_cache" where
  "remember_model_catalog cat acc now c =
     (case cat of None \<Rightarrow> c
      | Some _ \<Rightarrow> \<lparr>cc_catalog = cat, cc_identity = model_catalog_identity acc, cc_at = now\<rparr>)"

text \<open>
  One request: \<open>listing\<close> is what the upstream call returns (Inl its error), \<open>later\<close> the time at
  which it returns. The result is the error, or the resolution.
\<close>

definition resolve_request ::
  "(string \<times> string) option \<Rightarrow> int \<Rightarrow> string + catalog_model list \<Rightarrow> int \<Rightarrow> string \<Rightarrow> (string \<times> string) list \<Rightarrow>
     catalog_cache \<Rightarrow> (string + requested_model option) \<times> catalog_cache" where
  "resolve_request acc now listing later model ps c =
     (let fresh = cc_catalog c \<noteq> None \<and> cc_identity c = model_catalog_identity acc \<and>
                  now - cc_at c < model_catalog_ttl in
      if fresh then (Inr (resolve_with_parameters (cc_catalog c) model ps), c)
      else case listing of
        Inl e \<Rightarrow> (Inl (''load live model catalog: '' @ e), c)
      | Inr ms \<Rightarrow> (Inr (resolve_with_parameters (Some ms) model ps),
                   remember_model_catalog (Some ms) acc later c))"

subsection \<open>Listings are sets of proper ids\<close>

lemma add_ids_distinct: "distinct (add_ids ids)"
  using dedup_by_distinct [of "\<lambda>i :: string. i"] by (simp add: add_ids_def)

lemma set_add_ids: "set (add_ids ids) = trim_space ` set ids - {[]}"
  using dedup_by_keys [of "\<lambda>i :: string. i" "[]"] by (auto simp: add_ids_def)

lemma available_props:
  "distinct (available_model_ids resp) \<and>
   set (available_model_ids resp) = (case resp of None \<Rightarrow> {} | Some ms \<Rightarrow> base_model_id ` set ms - {[]})"
  using dedup_by_distinct [of "\<lambda>i :: string. i"] dedup_by_keys [of "\<lambda>i :: string. i" "[]"]
  by (auto simp: available_model_ids_def split: option.splits)

lemma set_routable:
  "set (routable_model_ids (Some ms)) = (\<Union>m \<in> set ms. trim_space ` set (routable_ids_of m)) - {[]}"
  by (auto simp: routable_model_ids_def set_add_ids)

text \<open>
  The model lists are proper. Both lists are free of duplicates and of the empty id; every
  advertised id is routable (up to surrounding white space), and so are the name and every
  variant slug of every catalog row.
\<close>

theorem model_lists_proper:
  "distinct (available_model_ids resp) \<and> distinct (routable_model_ids resp) \<and>
   [] \<notin> set (available_model_ids resp) \<and> [] \<notin> set (routable_model_ids resp) \<and>
   trim_space ` set (available_model_ids resp) - {[]} \<subseteq> set (routable_model_ids resp) \<and>
   (\<Union>m \<in> set (case resp of None \<Rightarrow> [] | Some ms \<Rightarrow> ms).
      trim_space ` ({cm_name m} \<union> mv_legacy_slug ` set (cm_variants m))) - {[]} \<subseteq> set (routable_model_ids resp)"
proof (cases resp)
  case None
  then show ?thesis by (simp add: available_model_ids_def routable_model_ids_def)
next
  case (Some ms)
  have "trim_space (base_model_id m) \<in> trim_space ` set (routable_ids_of m)" for m
    by (simp add: routable_ids_of_def Let_def)
  then have av: "trim_space ` set (available_model_ids resp) - {[]} \<subseteq> set (routable_model_ids resp)"
    using available_props [of resp] by (auto simp: Some set_routable)
  have nm: "trim_space (cm_name m) \<in> trim_space ` set (routable_ids_of m)" for m
  proof (cases "trim_space (cm_name m) = base_model_id m")
    case True
    then have "trim_space (base_model_id m) = trim_space (cm_name m)" by (metis trim_space_idem)
    then show ?thesis by (simp add: routable_ids_of_def Let_def)
  next
    case False
    have "trim_space (cm_name m) = trim_space (trim_space (cm_name m))" by simp
    with False show ?thesis unfolding routable_ids_of_def Let_def
      by (intro image_eqI [of _ _ "trim_space (cm_name m)"]) simp_all
  qed
  have sl: "trim_space (mv_legacy_slug v) \<in> trim_space ` set (routable_ids_of m)"
    if "v \<in> set (cm_variants m)" for v m
    using that by (auto simp: routable_ids_of_def Let_def)
  have "trim_space ` ({cm_name m} \<union> mv_legacy_slug ` set (cm_variants m)) \<subseteq> trim_space ` set (routable_ids_of m)" for m
    using nm sl by auto
  then have "(\<Union>m \<in> set ms. trim_space ` ({cm_name m} \<union> mv_legacy_slug ` set (cm_variants m))) - {[]}
       \<subseteq> set (routable_model_ids resp)"
    unfolding Some set_routable by (intro Diff_mono UN_mono) auto
  moreover have "distinct (routable_model_ids resp)" "[] \<notin> set (routable_model_ids resp)"
    by (simp_all add: Some routable_model_ids_def add_ids_distinct set_add_ids)
  moreover have "distinct (available_model_ids resp)" "[] \<notin> set (available_model_ids resp)"
    using available_props [of resp] by (simp_all add: Some)
  ultimately show ?thesis using av unfolding Some option.case by blast
qed

subsection \<open>Resolution\<close>

lemma find_in: "find P xs = Some x \<Longrightarrow> x \<in> set xs \<and> P x"
  by (auto simp: find_Some_iff)

lemma matching_variant_in: "matching_variant m ps = Some v \<Longrightarrow> v \<in> set (cm_variants m) \<and> variant_matches ps v"
  by (auto simp: matching_variant_def split: if_splits dest: find_in)

lemma default_variant_in: "default_variant m = Some v \<Longrightarrow> v \<in> set (cm_variants m)"
  by (auto simp: default_variant_def split: option.splits list.splits dest: find_in)

lemma default_variant_None: "default_variant m = None \<longleftrightarrow> cm_variants m = []"
  by (auto simp: default_variant_def split: option.splits list.splits dest: find_in)

lemma reconcile_in: "v \<in> set (cm_variants m) \<Longrightarrow> reconcile m ps v \<in> set (cm_variants m)"
  by (auto simp: reconcile_def split: option.splits dest: matching_variant_in)

lemma resolve_in_model_sound:
  assumes "resolve_in_model m req ps = Some r"
  shows "primary_model_id m \<noteq> [] \<and>
    (\<exists>v. r = requested_for_variant (primary_model_id m) v \<and>
       (case v of None \<Rightarrow> cm_variants m = [] | Some v \<Rightarrow> v \<in> set (cm_variants m)))"
proof -
  have i: "primary_model_id m \<noteq> []" using assms by (auto simp: resolve_in_model_def)
  have chosen: "case (case matching_variant m ps of Some v \<Rightarrow> Some v | None \<Rightarrow> default_variant m) of
      None \<Rightarrow> cm_variants m = [] | Some v \<Rightarrow> v \<in> set (cm_variants m)"
    using matching_variant_in default_variant_in default_variant_None by (auto split: option.splits)
  have "\<exists>v. r = requested_for_variant (primary_model_id m) v \<and>
      (v = (case matching_variant m ps of Some v \<Rightarrow> Some v | None \<Rightarrow> default_variant m) \<or>
       (\<exists>w \<in> set (cm_variants m). v = Some (reconcile m ps w)))"
    using assms i by (auto simp: resolve_in_model_def Let_def split: if_splits option.splits dest!: find_in)
  then show ?thesis using i chosen reconcile_in by (auto split: option.splits)
qed

lemma resolve_models_sound:
  "resolve_models ms req ps = Some r \<Longrightarrow> \<exists>m \<in> set ms. resolve_in_model m req ps = Some r"
  by (induction ms) (auto split: option.splits)

lemma resolve_models_complete:
  "m \<in> set ms \<Longrightarrow> resolve_in_model m req ps \<noteq> None \<Longrightarrow> resolve_models ms req ps \<noteq> None"
  by (induction ms) (auto split: option.splits)


definition sample_variant :: "string \<Rightarrow> string \<Rightarrow> model_variant" where
  "sample_variant slug effort = \<lparr>mv_legacy_slug = slug, mv_string_repr = [],
     mv_parameters = [(''effort'', effort)], mv_max_mode = False, mv_default_non_max = False\<rparr>"

definition sample_model :: "string \<Rightarrow> string list \<Rightarrow> model_variant list \<Rightarrow> catalog_model" where
  "sample_model name slugs vs = \<lparr>cm_name = name, cm_server_name = [], cm_id_aliases = [],
     cm_legacy_slugs = slugs, cm_variants = vs\<rparr>"

lemma ascii_name_trim: "list_all (\<lambda>c. byte_of c < 0x80 \<and> \<not> is_space c) s \<Longrightarrow> trim_space s = s"
  by (rule ascii_trim_id) (simp add: list_all_iff)


text \<open>
  Names and variant slugs resolve. For every row with an id and every one of its variants, the
  row's name and the variant's slug resolve (whatever parameters come with the request).
\<close>

theorem catalog_names_resolve:
  assumes "m \<in> set ms" and "trim_space (cm_name m) \<noteq> []"
    and "s = cm_name m \<or> (\<exists>v \<in> set (cm_variants m). s = mv_legacy_slug v)" and "trim_space s \<noteq> []"
  shows "resolve_with_parameters (Some ms) s ps \<noteq> None"
proof -
  have p: "primary_model_id m = trim_space (cm_name m)" using assms(2) by (simp add: primary_model_id_def)
  have "resolve_in_model m (trim_space s) ps \<noteq> None"
  proof (cases "s = cm_name m")
    case True
    then show ?thesis using assms(2) by (simp add: resolve_in_model_def p Let_def)
  next
    case False
    with assms(3) obtain v where v: "v \<in> set (cm_variants m)" "s = mv_legacy_slug v" by blast
    then have "find (\<lambda>v. trim_space s = trim_space (mv_legacy_slug v) \<or> trim_space s = trim_space (mv_string_repr v))
        (cm_variants m) \<noteq> None"
      by (auto simp: find_None_iff)
    then show ?thesis using assms(2) by (auto simp: resolve_in_model_def p Let_def)
  qed
  from resolve_models_complete [OF assms(1) this] show ?thesis
    using assms(4) by (simp add: resolve_with_parameters_def)
qed

lemma catalog_names_resolve_witness:
  "resolve_with_parameters (Some [sample_model ''m'' [] [sample_variant ''m-high'' ''high'']]) ''m-high'' [] \<noteq> None"
proof (rule catalog_names_resolve)
  have t: "trim_space ''m'' = ''m''" "trim_space ''m-high'' = ''m-high''"
    by (rule ascii_name_trim; simp add: is_space_def byte_of_def)+
  let ?m = "sample_model ''m'' [] [sample_variant ''m-high'' ''high'']"
  show "?m \<in> set [?m]" by simp
  show "trim_space (cm_name ?m) \<noteq> []" by (simp add: sample_model_def t)
  show "''m-high'' = cm_name ?m \<or> (\<exists>v \<in> set (cm_variants ?m). ''m-high'' = mv_legacy_slug v)"
    by (simp add: sample_model_def sample_variant_def)
  show "trim_space ''m-high'' \<noteq> []" by (simp add: t)
qed

text \<open>
  An id can be routable and yet unknown to the resolver. A row that lists a legacy slug but no
  variants (a shape the listing handles on purpose) makes the slug routable; resolving it fails.
\<close>

theorem legacy_slug_unresolvable:
  "let resp = Some [sample_model ''m'' [''m-high''] []] in
     ''m-high'' \<in> set (routable_model_ids resp) \<and> resolve_with_parameters resp ''m-high'' ps = None"
proof -
  have t: "trim_space ''m'' = ''m''" "trim_space ''m-high'' = ''m-high''"
    by (rule ascii_name_trim; simp add: is_space_def byte_of_def)+
  let ?m = "sample_model ''m'' [''m-high''] []"
  have "base_model_id ?m = ''m''"
    by (simp add: base_model_id_def sample_model_def t looks_like_exploded_variant_def
        has_known_variant_suffix_def variant_suffixes_def has_suffix_def)
  then have "''m-high'' \<in> set (routable_ids_of ?m)"
    by (simp add: routable_ids_of_def Let_def sample_model_def t has_prefix_def)
  then have "''m-high'' \<in> trim_space ` set (routable_ids_of ?m)" using t(2) by (metis imageI)
  then have "''m-high'' \<in> set (routable_model_ids (Some [?m]))" by (simp add: set_routable)
  moreover have "resolve_with_parameters (Some [?m]) ''m-high'' ps = None"
    by (simp add: resolve_with_parameters_def resolve_in_model_def primary_model_id_def sample_model_def
        contains_trimmed_def t)
  ultimately show ?thesis by simp
qed

subsection \<open>Suffixes\<close>

lemma strip_loop_props: "\<not> has_known_variant_suffix (strip_loop t) \<and> (\<exists>r. t = strip_loop t @ r)"
proof (induction t rule: strip_loop.induct)
  case (1 t)
  show ?case
  proof (cases "find (\<lambda>s. has_suffix t s \<and> t \<noteq> s) variant_suffixes")
    case None
    then have "strip_loop t = t" by (simp add: strip_loop.simps [of t])
    with None show ?thesis by (auto simp: has_known_variant_suffix_def find_None_iff list_ex_iff)
  next
    case (Some s)
    then have "strip_loop t = strip_loop (trim_suffix t s)" "has_suffix t s"
      by (auto simp: strip_loop.simps [of t] dest: find_in)
    moreover from this(2) obtain r where "t = trim_suffix t s @ r"
      by (auto simp: trim_suffix_def has_suffix_iff)
    ultimately show ?thesis using 1 [OF Some] by (metis append.assoc)
  qed
qed

text \<open>
  Stripping ends, and ends with a name without a variant suffix. The result is a prefix of the
  trimmed name and has no known suffix left. But the list tries \<^verbatim>\<open>-max\<close> before \<^verbatim>\<open>-effort-max\<close>, so the
  highest effort tier leaves \<^verbatim>\<open>-effort\<close> behind where the other tiers are removed.
\<close>

theorem strip_suffixes_correct:
  "\<not> has_known_variant_suffix (strip_variant_suffixes name) \<and>
   (\<exists>r. trim_space name = strip_variant_suffixes name @ r) \<and>
   strip_variant_suffixes ''gpt-6-effort-high'' = ''gpt-6'' \<and>
   strip_variant_suffixes ''gpt-6-effort-max'' = ''gpt-6-effort''"
proof -
  have t: "trim_space ''gpt-6-effort-high'' = ''gpt-6-effort-high''"
    "trim_space ''gpt-6-effort-max'' = ''gpt-6-effort-max''"
    by (rule ascii_name_trim; simp add: is_space_def byte_of_def)+
  have stop: "strip_loop ''gpt-6'' = ''gpt-6''" "strip_loop ''gpt-6-effort'' = ''gpt-6-effort''"
    by (subst strip_loop.simps; simp add: variant_suffixes_def has_suffix_def)+
  have "strip_loop ''gpt-6-effort-high'' = strip_loop ''gpt-6''"
    "strip_loop ''gpt-6-effort-max'' = strip_loop ''gpt-6-effort''"
    by (subst strip_loop.simps; simp add: variant_suffixes_def has_suffix_def trim_suffix_def)+
  with stop t have "strip_variant_suffixes ''gpt-6-effort-high'' = ''gpt-6''"
    "strip_variant_suffixes ''gpt-6-effort-max'' = ''gpt-6-effort''"
    by (simp_all add: strip_variant_suffixes_def)
  moreover have "\<not> has_known_variant_suffix []"
    by (simp add: has_known_variant_suffix_def variant_suffixes_def has_suffix_def)
  ultimately show ?thesis
    using strip_loop_props [of "trim_space name"] by (auto simp: strip_variant_suffixes_def Let_def)
qed

subsection \<open>The cache of a client\<close>

record catalog_request =
  cq_account :: "(string \<times> string) option"
  cq_now :: int
  cq_listing :: "string + catalog_model list"
  cq_later :: int
  cq_model :: string
  cq_parameters :: "(string \<times> string) list"

definition request_step ::
  "catalog_request \<Rightarrow> catalog_cache \<Rightarrow> (string + requested_model option) \<times> catalog_cache" where
  "request_step q = resolve_request (cq_account q) (cq_now q) (cq_listing q) (cq_later q) (cq_model q) (cq_parameters q)"

definition empty_cache :: catalog_cache where
  "empty_cache = \<lparr>cc_catalog = None, cc_identity = [], cc_at = 0\<rparr>"

definition requests_done :: "catalog_request list \<Rightarrow> catalog_cache" where
  "requests_done qs = fold (\<lambda>q c. snd (request_step q c)) qs empty_cache"

lemma cache_listed:
  "cc_catalog (requests_done qs) = Some ms \<Longrightarrow>
     \<exists>q \<in> set qs. cq_listing q = Inr ms \<and> cc_identity (requests_done qs) = model_catalog_identity (cq_account q) \<and>
       cc_at (requests_done qs) = cq_later q"
proof (induction qs rule: rev_induct)
  case (snoc q qs)
  have "requests_done (qs @ [q]) = requests_done qs \<or>
      (\<exists>ms'. cq_listing q = Inr ms' \<and> requests_done (qs @ [q]) =
         \<lparr>cc_catalog = Some ms', cc_identity = model_catalog_identity (cq_account q), cc_at = cq_later q\<rparr>)"
    by (auto simp: requests_done_def request_step_def resolve_request_def remember_model_catalog_def Let_def
        split: sum.splits)
  with snoc show ?case by auto
qed (simp add: requests_done_def empty_cache_def)

text \<open>
  Requests are resolved against a current catalog of their own account. After any requests, a
  request fails with the error of its own listing call, or is resolved against the catalog it just
  listed, or against one that an earlier request with the same identity string listed less than
  five minutes before.
\<close>

theorem catalog_cache_fresh:
  "let (r, _) = request_step q (requests_done qs);
       resolved = (\<lambda>ms. r = Inr (resolve_with_parameters (Some ms) (cq_model q) (cq_parameters q))) in
     (\<exists>e. cq_listing q = Inl e \<and> r = Inl (''load live model catalog: '' @ e)) \<or>
     (\<exists>ms. cq_listing q = Inr ms \<and> resolved ms) \<or>
     (\<exists>p \<in> set qs. \<exists>ms. cq_listing p = Inr ms \<and> resolved ms \<and>
        model_catalog_identity (cq_account p) = model_catalog_identity (cq_account q) \<and>
        cq_now q - cq_later p < 5 * 60 * 10 ^ 9)"
proof -
  let ?c = "requests_done qs"
  show ?thesis
  proof (cases "cc_catalog ?c \<noteq> None \<and> cc_identity ?c = model_catalog_identity (cq_account q) \<and>
      cq_now q - cc_at ?c < model_catalog_ttl")
    case True
    then obtain ms where ms: "cc_catalog ?c = Some ms" by auto
    from cache_listed [OF this] True obtain p where "p \<in> set qs" "cq_listing p = Inr ms"
      "model_catalog_identity (cq_account p) = model_catalog_identity (cq_account q)"
      "cq_now q - cq_later p < 5 * 60 * 10 ^ 9"
      by (auto simp: model_catalog_ttl_def)
    moreover have "request_step q ?c = (Inr (resolve_with_parameters (Some ms) (cq_model q) (cq_parameters q)), ?c)"
      using True ms by (simp add: request_step_def resolve_request_def)
    ultimately show ?thesis by auto
  next
    case False
    then show ?thesis
      by (cases "cq_listing q") (auto simp: request_step_def resolve_request_def Let_def)
  qed
qed

text \<open>Identities of accounts whose ids have no NUL byte are different for different accounts.\<close>

lemma split_unique: "i @ z # t = j @ z # u \<Longrightarrow> z \<notin> set i \<Longrightarrow> z \<notin> set j \<Longrightarrow> i = j \<and> t = u"
proof (induction i arbitrary: j)
  case Nil
  then show ?case by (cases j) auto
next
  case (Cons a i)
  then show ?case by (cases j) auto
qed

lemma identity_inject:
  assumes "CHR 0x00 \<notin> set i" "CHR 0x00 \<notin> set j"
  shows "model_catalog_identity (Some (i, t)) = model_catalog_identity (Some (j, u)) \<longleftrightarrow> i = j \<and> t = u"
proof
  assume "model_catalog_identity (Some (i, t)) = model_catalog_identity (Some (j, u))"
  then have "i @ CHR 0x00 # t = j @ CHR 0x00 # u" by (simp add: model_catalog_identity_def)
  from split_unique [OF this assms] show "i = j \<and> t = u" .
qed simp

end
