(* ===== verification/Events.thy ===== *)
theory Events
  imports Upstream
begin

text \<open>
  The provider-neutral events of \<^verbatim>\<open>translator/events.go\<close>: the \<^verbatim>\<open>Event\<close> struct the stream
  writers consume, the clean-up of tool call ids, and the normalisation of web search results.
  \<^verbatim>\<open>Usage\<close> and \<^verbatim>\<open>NormalizedOutputTokens\<close> are in theory Upstream.
\<close>

datatype event_kind =
    EventUnknown | EventTextDelta | EventThinkingDelta | EventSignatureDelta
  | EventToolCallStarted | EventToolCallDelta | EventToolCallCompleted
  | EventServerToolStarted | EventWebSearchResult | EventServerToolPermission
  | EventTurnEnded | EventStepStarted | EventStepCompleted | EventHeartbeat

record web_search_result =
  wr_title :: string
  wr_url :: string
  wr_chunk :: string

record event =
  ev_kind :: event_kind
  ev_text :: string
  ev_tool_call_id :: string
  ev_tool_name :: string
  ev_tool_args_delta :: string
  ev_web_results :: "web_search_result list"
  ev_tool_error :: string
  ev_usage :: "usage option"
  ev_stop_reason :: string
  ev_stop_sequence :: string

text \<open>An event of a kind with every other field zero.\<close>

definition event_of :: "event_kind \<Rightarrow> event" where
  "event_of k = \<lparr>ev_kind = k, ev_text = [], ev_tool_call_id = [], ev_tool_name = [],
     ev_tool_args_delta = [], ev_web_results = [], ev_tool_error = [], ev_usage = None,
     ev_stop_reason = [], ev_stop_sequence = []\<rparr>"

definition sanitize_tool_call_id :: "string \<Rightarrow> string" where
  "sanitize_tool_call_id s =
     (if s = [] then s
      else replace_char CHR 0x0A CHR ''-'' (replace_char CHR 0x0D CHR ''-'' s))"

lemma sanitize_tool_call_id_set:
  "set (sanitize_tool_call_id s) \<inter> {CHR 0x0A, CHR 0x0D} = {}"
  by (auto simp: sanitize_tool_call_id_def replace_char_def)

lemma sanitize_tool_call_id_fix:
  "set s \<inter> {CHR 0x0A, CHR 0x0D} = {} \<Longrightarrow> sanitize_tool_call_id s = s"
  unfolding sanitize_tool_call_id_def replace_char_def by (auto intro!: map_idI)

lemma sanitize_tool_call_id_Nil [simp]: "sanitize_tool_call_id s = [] \<longleftrightarrow> s = []"
  by (simp add: sanitize_tool_call_id_def replace_char_def)

subsection \<open>Web search results\<close>

text \<open>
  \<open>match_link\<close> is the expression \<^verbatim>\<open>\[([^\]]+)\]\((https?://[^)\s]+)\)\<close> at the head of the text:
  the two groups and what follows. Both repetitions stop at the first byte of their class's
  complement, so there is one way to match.
\<close>

definition is_re_space :: "char \<Rightarrow> bool" where
  "is_re_space c \<longleftrightarrow> c \<in> {CHR 0x09, CHR 0x0A, CHR 0x0C, CHR 0x0D, CHR '' ''}"

definition url_char :: "char \<Rightarrow> bool" where
  "url_char c \<longleftrightarrow> c \<noteq> CHR '')'' \<and> \<not> is_re_space c"

definition match_scheme :: "string \<Rightarrow> nat option" where
  "match_scheme s =
     (if has_prefix s ''https://'' then Some 8 else if has_prefix s ''http://'' then Some 7 else None)"

definition match_link :: "string \<Rightarrow> (string \<times> string \<times> string) option" where
  "match_link s =
     (case s of [] \<Rightarrow> None
      | c # s1 \<Rightarrow>
          if c \<noteq> CHR ''['' then None
          else let title = takeWhile (\<lambda>c. c \<noteq> CHR '']'') s1;
                   s2 = dropWhile (\<lambda>c. c \<noteq> CHR '']'') s1 in
            if title = [] \<or> \<not> has_prefix s2 ''](''
            then None
            else let s3 = drop 2 s2 in
              (case match_scheme s3 of None \<Rightarrow> None
               | Some n \<Rightarrow>
                   let body = takeWhile url_char (drop n s3);
                       s4 = dropWhile url_char (drop n s3) in
                   if body = [] \<or> \<not> has_prefix s4 '')'' then None
                   else Some (title, take n s3 @ body, drop 1 s4)))"

lemma match_link_shorter: "match_link s = Some (t, u, r) \<Longrightarrow> length r < length s"
proof -
  assume a: "match_link s = Some (t, u, r)"
  then obtain s1 n where s: "s = CHR ''['' # s1"
    and r: "r = drop 1 (dropWhile url_char (drop n (drop 2 (dropWhile (\<lambda>c. c \<noteq> CHR '']'') s1))))"
    by (auto simp: match_link_def Let_def split: list.splits if_splits option.splits)
  have "length r \<le> length s1"
    unfolding r using length_dropWhile_le [of "\<lambda>c. c \<noteq> CHR '']''" s1]
      length_dropWhile_le [of url_char "drop n (drop 2 (dropWhile (\<lambda>c. c \<noteq> CHR '']'') s1))"]
    by simp
  with s show ?thesis by simp
qed

text \<open>\<^verbatim>\<open>FindAllStringSubmatch(chunk, n)\<close>: leftmost matches, without overlap, at most \<open>n\<close>.\<close>

function find_links :: "nat \<Rightarrow> string \<Rightarrow> (string \<times> string) list" where
  "find_links n s =
     (if n = 0 \<or> s = [] then []
      else case match_link s of
        Some (t, u, r) \<Rightarrow> (t, u) # find_links (n - 1) r
      | None \<Rightarrow> find_links n (tl s))"
  by pat_completeness auto
termination
  by (relation "measure (\<lambda>(_, s). length s)") (auto dest: match_link_shorter)

declare find_links.simps [simp del]

text \<open>The \<^verbatim>\<open>seen\<close> loop: a hit with an empty or repeated address is skipped.\<close>

definition extract_markdown_search_hits :: "string \<Rightarrow> web_search_result list" where
  "extract_markdown_search_hits chunk =
     map (\<lambda>(t, u). \<lparr>wr_title = t, wr_url = u, wr_chunk = t\<rparr>)
       (dedup_by snd [] (filter (\<lambda>(t, u). u \<noteq> [])
          (map (\<lambda>(t, u). (trim_space t, trim_space u)) (find_links 8 chunk))))"

definition normalize_web_search_results :: "web_search_result list \<Rightarrow> web_search_result list" where
  "normalize_web_search_results results =
     concat (map (\<lambda>r. if trim_space (wr_url r) \<noteq> [] then [r]
                      else let e = extract_markdown_search_hits (wr_chunk r) in
                        if e = [] then [r] else e) results)"

lemma find_links_length: "length (find_links n s) \<le> n"
proof (induction n s rule: find_links.induct)
  case (1 n s)
  show ?case
  proof (cases "n = 0 \<or> s = []")
    case False
    show ?thesis
    proof (cases "match_link s")
      case None
      with 1(1) [OF False None] False show ?thesis by (simp add: find_links.simps [of n s])
    next
      case (Some x)
      obtain t u r where x: "x = (t, u, r)" by (cases x)
      have "find_links n s = (t, u) # find_links (n - 1) r" "0 < n"
        using Some False x by (simp_all add: find_links.simps [of n s])
      with 1(2) [OF False Some x [symmetric] refl] show ?thesis by simp
    qed
  qed (simp add: find_links.simps)
qed

lemma match_link_url:
  "match_link s = Some (t, u, r) \<Longrightarrow>
     (has_prefix u ''http://'' \<or> has_prefix u ''https://'') \<and> (\<forall>c \<in> set u. \<not> is_re_space c)"
proof -
  assume "match_link s = Some (t, u, r)"
  then obtain s3 n where n: "match_scheme s3 = Some n"
    and u: "u = take n s3 @ takeWhile url_char (drop n s3)"
    by (auto simp: match_link_def Let_def split: list.splits if_splits option.splits)
  from n have "(\<exists>r. s3 = ''https://'' @ r \<and> n = 8) \<or> (\<exists>r. s3 = ''http://'' @ r \<and> n = 7)"
    by (auto simp: match_scheme_def has_prefix_iff split: if_splits)
  with u obtain b where "u = ''https://'' @ takeWhile url_char b \<or> u = ''http://'' @ takeWhile url_char b"
    by auto
  moreover have "\<forall>c \<in> set (takeWhile url_char b). \<not> is_re_space c"
    by (auto dest: set_takeWhileD simp: url_char_def)
  moreover have "\<forall>c \<in> set ''https://''. \<not> is_re_space c" "\<forall>c \<in> set ''http://''. \<not> is_re_space c"
    by (simp_all add: is_re_space_def)
  ultimately show ?thesis by (metis Un_iff has_prefix_append set_append)
qed

lemma find_links_url:
  "(t, u) \<in> set (find_links n s) \<Longrightarrow>
     (has_prefix u ''http://'' \<or> has_prefix u ''https://'') \<and> (\<forall>c \<in> set u. \<not> is_re_space c)"
proof (induction n s arbitrary: t u rule: find_links.induct)
  case (1 n s)
  show ?case
  proof (cases "n = 0 \<or> s = []")
    case True
    with 1(3) show ?thesis by (simp add: find_links.simps)
  next
    case False
    then show ?thesis
    proof (cases "match_link s")
      case None
      with False 1(3) have "(t, u) \<in> set (find_links n (tl s))" by (simp add: find_links.simps [of n s])
      with 1(1) [OF False None] show ?thesis by blast
    next
      case (Some x)
      obtain t' u' r where x: "x = (t', u', r)" by (cases x)
      with Some False 1(3) have "(t, u) = (t', u') \<or> (t, u) \<in> set (find_links (n - 1) r)"
        by (simp add: find_links.simps [of n s])
      with 1(2) [OF False Some x [symmetric] refl] match_link_url [of s t' u' r] Some x show ?thesis by blast
    qed
  qed
qed

subsection \<open>Properties\<close>

lemma link_url_trim:
  assumes "has_prefix u ''http://'' \<or> has_prefix u ''https://''"
  shows "has_prefix (trim_space u) ''http''"
proof -
  from assms obtain r where u: "u = ''htt'' @ CHR ''p'' # r" by (auto simp: has_prefix_iff)
  have "trim_left u = u"
  proof (rule trim_left_id, intro ballI notI)
    fix w assume w: "w \<in> set space_runes" "has_prefix u w"
    have "w \<noteq> []" using w(1) space_runes_nonempty by metis
    then obtain c v where cv: "w = c # v" by (cases w) auto
    with w(2) u have "c = CHR ''h''" by (auto simp: has_prefix_iff)
    with space_runes_ascii [OF w(1), of c] cv show False by (simp add: byte_of_def is_space_def)
  qed
  moreover obtain r' where "trim_right u = ''htt'' @ CHR ''p'' # r'"
    using trim_right_keep [of "CHR ''p''" "''htt''" r] u by (auto simp: byte_of_def is_space_def)
  ultimately show ?thesis by (simp add: trim_space_def has_prefix_def)
qed

text \<open>
  Markdown links are turned into search hits with a usable address: at most eight per blob,
  no address twice, each an http or https link; and normalising a result list only ever replaces
  a result without an address by such hits.
\<close>

theorem web_results_normalized:
  "length (extract_markdown_search_hits chunk) \<le> 8 \<and>
   distinct (map wr_url (extract_markdown_search_hits chunk)) \<and>
   list_all (\<lambda>h. has_prefix (wr_url h) ''http'') (extract_markdown_search_hits chunk) \<and>
   set (normalize_web_search_results results) \<subseteq>
     {r \<in> set results. trim_space (wr_url r) \<noteq> [] \<or> extract_markdown_search_hits (wr_chunk r) = []} \<union>
     {h. has_prefix (wr_url h) ''http''}"
proof -
  let ?links = "\<lambda>chunk. filter (\<lambda>(t, u). u \<noteq> [])
    (map (\<lambda>(t, u). (trim_space t, trim_space u)) (find_links 8 chunk))"
  have "length (?links chunk) \<le> length (find_links 8 chunk)"
    by (rule le_trans [OF length_filter_le]) simp
  also have "\<dots> \<le> 8" by (rule find_links_length)
  finally have "length (?links chunk) \<le> 8" .
  then have l: "length (extract_markdown_search_hits chunk) \<le> 8"
    unfolding extract_markdown_search_hits_def length_map using dedup_by_length le_trans by blast
  have d: "distinct (map wr_url (extract_markdown_search_hits chunk))"
    using dedup_by_distinct [of snd "[]" "?links chunk"]
    by (simp add: extract_markdown_search_hits_def comp_def case_prod_beta)
  have u: "has_prefix (wr_url h) ''http''" if "h \<in> set (extract_markdown_search_hits c)" for h c
  proof -
    from that obtain t u where "(t, u) \<in> set (dedup_by snd [] (?links c))" "wr_url h = u"
      by (auto simp: extract_markdown_search_hits_def)
    then obtain t' u' where "(t', u') \<in> set (find_links 8 c)" "wr_url h = trim_space u'"
      using dedup_by_subset by fastforce
    with find_links_url link_url_trim show ?thesis by metis
  qed
  have "set (normalize_web_search_results results) \<subseteq>
     {r \<in> set results. trim_space (wr_url r) \<noteq> [] \<or> extract_markdown_search_hits (wr_chunk r) = []} \<union>
     (\<Union>r \<in> set results. set (extract_markdown_search_hits (wr_chunk r)))"
    by (auto simp: normalize_web_search_results_def Let_def simp del: trim_space_idem split: if_splits)
  with l d u show ?thesis unfolding list_all_iff by blast
qed

lemma web_results_normalized_witness:
  "extract_markdown_search_hits ''see [a](https://b.c) and [x](https://b.c)'' =
     [\<lparr>wr_title = ''a'', wr_url = ''https://b.c'', wr_chunk = ''a''\<rparr>] \<and>
   list_all (\<lambda>h. has_prefix (wr_url h) ''http'')
     (extract_markdown_search_hits ''see [a](https://b.c) and [x](https://b.c)'')"
proof -
  have "extract_markdown_search_hits ''see [a](https://b.c) and [x](https://b.c)'' =
     [\<lparr>wr_title = ''a'', wr_url = ''https://b.c'', wr_chunk = ''a''\<rparr>]" by code_simp
  with web_results_normalized [of "''see [a](https://b.c) and [x](https://b.c)''" "[]"]
  show ?thesis by blast
qed

end
