(* ===== verification/Refusal.thy ===== *)
theory Refusal
  imports Prelude Json
begin

text \<open>
  Model of \<^verbatim>\<open>translator/refusal.go\<close>: the text is normalised and tested against three regular
  expressions anchored at its start; the stop reason of a completed Anthropic turn follows. The
  matcher of \<^verbatim>\<open>regexp\<close> is a small backtracking one over bytes: \<open>rx_match\<close> lists what may be left
  of the text, with the byte before it, so a pattern matches iff that list is not empty.
\<close>

datatype rx =
    Cls "char list"
  | Lit string
  | Sq rx rx
  | Alt rx rx
  | Star rx
  | Word_End

definition is_word_char :: "char \<Rightarrow> bool" where
  "is_word_char c \<longleftrightarrow> (let b = byte_of c in
     (48 \<le> b \<and> b \<le> 57) \<or> (65 \<le> b \<and> b \<le> 90) \<or> b = 95 \<or> (97 \<le> b \<and> b \<le> 122))"

type_synonym rx_state = "char option \<times> string"

text \<open>A boundary \<^verbatim>\<open>\b\<close>: exactly one of the bytes before and after is a word character.\<close>

definition at_boundary :: "rx_state \<Rightarrow> bool" where
  "at_boundary st \<longleftrightarrow>
     ((case fst st of None \<Rightarrow> False | Some c \<Rightarrow> is_word_char c) \<noteq>
      (case snd st of [] \<Rightarrow> False | c # _ \<Rightarrow> is_word_char c))"

function rx_match :: "rx \<Rightarrow> rx_state \<Rightarrow> rx_state list" where
  "rx_match (Cls cs) st =
     (case snd st of [] \<Rightarrow> [] | c # t \<Rightarrow> if c \<in> set cs then [(Some c, t)] else [])"
| "rx_match (Lit u) st =
     (if u = [] then [st]
      else if has_prefix (snd st) u then [(Some (last u), drop (length u) (snd st))] else [])"
| "rx_match (Sq r q) st = concat (map (rx_match q) (rx_match r st))"
| "rx_match (Alt r q) st = rx_match r st @ rx_match q st"
| "rx_match (Star r) st =
     st # concat (map (rx_match (Star r))
       (filter (\<lambda>st'. length (snd st') < length (snd st)) (rx_match r st)))"
| "rx_match Word_End st = (if at_boundary st then [st] else [])"
  by pat_completeness auto
termination
  by (relation "measures [\<lambda>(r, _). size r, \<lambda>(_, st). length (snd st)]") auto

declare rx_match.simps(5) [simp del]

definition rx_matches :: "rx \<Rightarrow> string \<Rightarrow> bool" where
  "rx_matches r s \<longleftrightarrow> rx_match r (None, s) \<noteq> []"

text \<open>
  Case-insensitive letters: \<^verbatim>\<open>(?i)\<close> folds in Unicode, where the long s and the Kelvin sign fold
  to s and k.
\<close>

definition ci_char :: "char \<Rightarrow> rx" where
  "ci_char c =
     (if c = CHR ''s'' then Alt (Cls ''sS'') (Lit [CHR 0xC5, CHR 0xBF])
      else if c = CHR ''k'' then Alt (Cls ''kK'') (Lit [CHR 0xE2, CHR 0x84, CHR 0xAA])
      else if 97 \<le> byte_of c \<and> byte_of c \<le> 122 then Cls [c, char_of (byte_of c - 32)]
      else Cls [c])"

fun ci :: "string \<Rightarrow> rx" where
  "ci [] = Lit []"
| "ci (c # s) = Sq (ci_char c) (ci s)"

fun alts :: "rx list \<Rightarrow> rx" where
  "alts [] = Cls []"
| "alts [r] = r"
| "alts (r # q # rs) = Alt r (alts (q # rs))"

definition opt_rx :: "rx \<Rightarrow> rx" where "opt_rx r = Alt r (Lit [])"
definition plus_rx :: "rx \<Rightarrow> rx" where "plus_rx r = Sq r (Star r)"
definition space_cls :: "char list" where
  "space_cls = [CHR 0x09, CHR 0x0A, CHR 0x0C, CHR 0x0D, CHR '' '']"

subsection \<open>The patterns\<close>

definition opt_i :: rx where
  "opt_i = opt_rx (Sq (ci ''i'') (plus_rx (Cls space_cls)))"

definition refusal_rx1 :: rx where
  "refusal_rx1 =
     (let sep = plus_rx (Cls ('',.!:'' @ space_cls));
          apology = alts [Sq (ci ''sorry'') sep, Sq (ci ''apologies'') sep,
            Sq (ci ''i'') (Sq (Alt (ci [CHR 0x27, CHR ''m'']) (ci '' am'')) (Sq (ci '' sorry'') sep))]
      in Sq (Star apology) (Sq opt_i
        (alts [ci ''cannot'', ci (''can'' @ [CHR 0x27] @ ''t''), ci (''won'' @ [CHR 0x27] @ ''t''),
               ci ''will not'', ci ''am unable to'', ci ''must decline'', ci ''refuse''])))"

definition refusal_rx2 :: rx where
  "refusal_rx2 = Sq opt_i
     (Sq (alts [ci (''can'' @ [CHR 0x27] @ ''t''), ci ''cannot'', ci (''won'' @ [CHR 0x27] @ ''t'')])
       (Sq (plus_rx (Cls space_cls))
         (Sq (alts [ci ''do'', ci ''provide'', ci ''share'', ci ''reveal'', ci ''output'', ci ''disclose''])
           Word_End)))"

text \<open>The Chinese pattern, by code points.\<close>

definition cjk :: "nat list \<Rightarrow> rx" where
  "cjk ns = Lit (concat (map utf8_encode ns))"

definition refusal_rx3 :: rx where
  "refusal_rx3 = Sq (opt_rx (alts [cjk [0x62B1, 0x6B49], cjk [0x5BF9, 0x4E0D, 0x8D77],
                                   cjk [0x5F88, 0x62B1, 0x6B49]]))
     (Sq (Star (alts [cjk [0xFF0C], Cls '','', cjk [0xFF1A], Cls '':'', cjk [0x3002], Cls ''.'',
                      Cls ''!'', cjk [0xFF01], Cls ''?'', cjk [0xFF1F], Cls space_cls]))
       (Sq (opt_rx (cjk [0x6211]))
         (alts [cjk [0x4E0D, 0x80FD], cjk [0x65E0, 0x6CD5], cjk [0x6CA1, 0x529E, 0x6CD5],
                cjk [0x6CA1, 0x6CD5], cjk [0x4E0D, 0x4F1A], cjk [0x4E0D, 0x53EF, 0x4EE5],
                cjk [0x62D2, 0x7EDD]])))"

definition refusal_prefixes :: "rx list" where
  "refusal_prefixes = [refusal_rx1, refusal_rx2, refusal_rx3]"

subsection \<open>The test\<close>

text \<open>\<^verbatim>\<open>strings.NewReplacer\<close> of the four typographic quotes, one pass from the left.\<close>

definition quote_pairs :: "(string \<times> string) list" where
  "quote_pairs = [(utf8_encode 0x2019, [CHR 0x27]), (utf8_encode 0x2018, [CHR 0x27]),
     (utf8_encode 0x201C, [CHR 0x22]), (utf8_encode 0x201D, [CHR 0x22])]"

function replace_pairs :: "(string \<times> string) list \<Rightarrow> string \<Rightarrow> string" where
  "replace_pairs ps [] = []"
| "replace_pairs ps (c # s) =
     (case find (\<lambda>(k, _). k \<noteq> [] \<and> has_prefix (c # s) k) ps of
        None \<Rightarrow> c # replace_pairs ps s
      | Some (k, v) \<Rightarrow> v @ replace_pairs ps (drop (length k) (c # s)))"
  by pat_completeness auto
termination
  by (relation "measure (\<lambda>(_, s). length s)") (auto simp: find_Some_iff)

definition is_refusal_text :: "string \<Rightarrow> bool" where
  "is_refusal_text s =
     (let n = trim_space (replace_pairs quote_pairs s) in
      if n = [] then False
      else let n = (if length n > 240 then take 240 n else n)
           in list_ex (\<lambda>r. rx_matches r n) refusal_prefixes)"

definition anthropic_stop_reason :: "string \<Rightarrow> bool \<Rightarrow> string" where
  "anthropic_stop_reason s saw_tool_call =
     (if saw_tool_call then ''tool_use'' else if is_refusal_text s then ''refusal'' else ''end_turn'')"

subsection \<open>Properties\<close>

lemma alts_match:
  "rs \<noteq> [] \<Longrightarrow> set (rx_match (alts rs) st) = (\<Union>r \<in> set rs. set (rx_match r st))"
  by (induction rs rule: alts.induct) auto

lemma alts_mono:
  "set rs \<subseteq> set qs \<Longrightarrow> rs \<noteq> [] \<Longrightarrow> v \<in> set (rx_match (alts rs) u) \<Longrightarrow> v \<in> set (rx_match (alts qs) u)"
proof -
  assume s: "set rs \<subseteq> set qs" "rs \<noteq> []" and v: "v \<in> set (rx_match (alts rs) u)"
  from s have "qs \<noteq> []" by auto
  with s v show ?thesis by (auto simp: alts_match)
qed

lemma Sq_match: "rx_match (Sq r q) st \<noteq> [] \<longleftrightarrow> (\<exists>u \<in> set (rx_match r st). rx_match q u \<noteq> [])"
  by auto

lemma star_skip: "rx_match q st \<noteq> [] \<Longrightarrow> rx_match (Sq (Star r) q) st \<noteq> []"
  unfolding Sq_match by (subst rx_match.simps(5)) (metis list.set_intros(1))

text \<open>
  The second pattern is redundant: whatever it matches, the first one matches, so a text is a
  refusal exactly when the first or the third pattern matches its normalised prefix.
\<close>

theorem refusal_second_pattern_redundant:
  "is_refusal_text s \<longleftrightarrow>
     (let n = take 240 (trim_space (replace_pairs quote_pairs s)) in
      n \<noteq> [] \<and> (rx_matches refusal_rx1 n \<or> rx_matches refusal_rx3 n))"
proof -
  have "rx_matches refusal_rx1 n" if m: "rx_matches refusal_rx2 n" for n
  proof -
    let ?big = "alts [ci ''cannot'', ci (''can'' @ [CHR 0x27] @ ''t''), ci (''won'' @ [CHR 0x27] @ ''t''),
               ci ''will not'', ci ''am unable to'', ci ''must decline'', ci ''refuse'']"
    from m obtain u v where u: "u \<in> set (rx_match opt_i (None, n))" and
      v: "v \<in> set (rx_match (alts [ci (''can'' @ [CHR 0x27] @ ''t''), ci ''cannot'',
            ci (''won'' @ [CHR 0x27] @ ''t'')]) u)"
      unfolding rx_matches_def refusal_rx2_def Sq_match by blast
    have sub: "set [ci (''can'' @ [CHR 0x27] @ ''t''), ci ''cannot'', ci (''won'' @ [CHR 0x27] @ ''t'')]
      \<subseteq> set [ci ''cannot'', ci (''can'' @ [CHR 0x27] @ ''t''), ci (''won'' @ [CHR 0x27] @ ''t''),
               ci ''will not'', ci ''am unable to'', ci ''must decline'', ci ''refuse'']"
      unfolding list.set by blast
    from alts_mono [OF sub _ v] have "v \<in> set (rx_match ?big u)" by simp
    then have "rx_match ?big u \<noteq> []" by (metis empty_iff empty_set)
    with u have "rx_match (Sq opt_i ?big) (None, n) \<noteq> []" unfolding Sq_match by blast
    then show ?thesis
      unfolding rx_matches_def refusal_rx1_def Let_def by (rule star_skip)
  qed
  then show ?thesis by (auto simp: is_refusal_text_def Let_def refusal_prefixes_def)
qed

text \<open>
  A turn with a tool call always ends in \<^verbatim>\<open>tool_use\<close>; otherwise the stop reason is \<^verbatim>\<open>refusal\<close>
  or \<^verbatim>\<open>end_turn\<close>, and an empty answer is never a refusal.
\<close>

lemma stop_reason_cases:
  "anthropic_stop_reason s saw \<in> {''tool_use'', ''refusal'', ''end_turn''} \<and>
   (anthropic_stop_reason s saw = ''tool_use'' \<longleftrightarrow> saw) \<and>
   anthropic_stop_reason [] False = ''end_turn''"
  by (simp add: anthropic_stop_reason_def is_refusal_text_def)

end
