(* ===== verification/Anthropic.thy ===== *)
theory Anthropic
  imports Events Refusal "HOL-Library.Multiset"
begin

text \<open>
  Model of \<^verbatim>\<open>translator/anthropic.go\<close>: the stream writer that turns events into Anthropic
  Messages SSE frames. A frame is a value of \<open>sse_frame\<close>, one constructor per kind of object the
  Go code passes to \<^verbatim>\<open>frame\<close>; \<open>frame_event\<close>, \<open>frame_data\<close> and \<open>frame_bytes\<close> give the event
  name, the JSON object (keys in the order \<^verbatim>\<open>json.Marshal\<close> prints them) and the bytes. A method
  returns the frames and the updated writer.

  Two things the code leaves open are arguments: the random bytes of a minted id (\<open>rnd\<close>, None
  where the generator fails) and the order in which a map is iterated (\<open>ord\<close>).
\<close>

subsection \<open>Identifiers\<close>

definition anthropic_id_alphabet :: string where
  "anthropic_id_alphabet = ''0123456789ABCDEFGHIJKLMNOPQRSTUVWXYZabcdefghijklmnopqrstuvwxyz''"

definition random_id :: "string \<Rightarrow> nat \<Rightarrow> nat list option \<Rightarrow> string" where
  "random_id pre n rnd =
     (case rnd of None \<Rightarrow> pre @ replicate n CHR ''0''
      | Some bs \<Rightarrow> pre @ map (\<lambda>b. anthropic_id_alphabet ! (b mod length anthropic_id_alphabet)) bs)"

definition new_anthropic_message_id :: "nat list option \<Rightarrow> string" where
  "new_anthropic_message_id = random_id ''msg_01'' 22"

definition new_anthropic_request_id :: "nat list option \<Rightarrow> string" where
  "new_anthropic_request_id = random_id ''req_011'' 24"

definition new_anthropic_tool_use_id :: "nat list option \<Rightarrow> string" where
  "new_anthropic_tool_use_id = random_id ''toolu_01'' 22"

definition trim_prefix :: "string \<Rightarrow> string \<Rightarrow> string" where
  "trim_prefix s p = (if has_prefix s p then drop (length p) s else s)"

definition canonical_anthropic_tool_id :: "string \<Rightarrow> bool \<Rightarrow> string" where
  "canonical_anthropic_tool_id tid server =
     (let tid = sanitize_tool_call_id tid in
      if tid = [] then []
      else if server then
        (if has_prefix tid ''srvtoolu_'' then tid
         else if has_prefix tid ''toolu_'' then ''srvtoolu_'' @ trim_prefix tid ''toolu_''
         else ''srvtoolu_'' @ tid)
      else
        (let tid = (if has_prefix tid ''srvtoolu_'' then ''toolu_'' @ trim_prefix tid ''srvtoolu_'' else tid)
         in if has_prefix tid ''toolu_'' then tid else ''toolu_'' @ tid))"

subsection \<open>Frames\<close>

datatype content_block =
    Text_Block | Thinking_Block | Tool_Use string string | Server_Tool_Use string string
  | Web_Search_Result string json | Web_Fetch_Result string json

datatype block_delta =
    Text_Delta string | Thinking_Delta string | Signature_Delta string
  | Input_Json_Delta string | Citations_Delta json

datatype sse_frame =
    Message_Start string string int
  | Block_Start nat content_block
  | Block_Delta nat block_delta
  | Block_Stop nat
  | Ping
  | Message_Delta string "string option" "(string \<times> int) list" nat
  | Message_Stop
  | Error_Event string string

fun block_json :: "content_block \<Rightarrow> json" where
  "block_json Text_Block = JObj [(''text'', JStr []), (''type'', JStr ''text'')]"
| "block_json Thinking_Block = JObj [(''thinking'', JStr []), (''type'', JStr ''thinking'')]"
| "block_json (Tool_Use i n) = JObj [(''id'', JStr i), (''input'', JObj []), (''name'', JStr n),
     (''type'', JStr ''tool_use'')]"
| "block_json (Server_Tool_Use i n) = JObj [(''id'', JStr i), (''input'', JObj []), (''name'', JStr n),
     (''type'', JStr ''server_tool_use'')]"
| "block_json (Web_Search_Result i c) = JObj [(''content'', c), (''tool_use_id'', JStr i),
     (''type'', JStr ''web_search_tool_result'')]"
| "block_json (Web_Fetch_Result i c) = JObj [(''content'', c), (''tool_use_id'', JStr i),
     (''type'', JStr ''web_fetch_tool_result'')]"

fun delta_json :: "block_delta \<Rightarrow> json" where
  "delta_json (Text_Delta s) = JObj [(''text'', JStr s), (''type'', JStr ''text_delta'')]"
| "delta_json (Thinking_Delta s) = JObj [(''thinking'', JStr s), (''type'', JStr ''thinking_delta'')]"
| "delta_json (Signature_Delta s) = JObj [(''signature'', JStr s), (''type'', JStr ''signature_delta'')]"
| "delta_json (Input_Json_Delta s) = JObj [(''partial_json'', JStr s), (''type'', JStr ''input_json_delta'')]"
| "delta_json (Citations_Delta c) = JObj [(''citation'', c), (''type'', JStr ''citations_delta'')]"

definition json_int :: "int \<Rightarrow> json" where "json_int i = JNum (fmt_int i)"

fun frame_event :: "sse_frame \<Rightarrow> string" where
  "frame_event (Message_Start _ _ _) = ''message_start''"
| "frame_event (Block_Start _ _) = ''content_block_start''"
| "frame_event (Block_Delta _ _) = ''content_block_delta''"
| "frame_event (Block_Stop _) = ''content_block_stop''"
| "frame_event Ping = ''ping''"
| "frame_event (Message_Delta _ _ _ _) = ''message_delta''"
| "frame_event Message_Stop = ''message_stop''"
| "frame_event (Error_Event _ _) = ''error''"

fun frame_data :: "sse_frame \<Rightarrow> json" where
  "frame_data (Message_Start i m n) = JObj [(''message'', JObj [(''content'', JArr []),
      (''id'', JStr i), (''model'', JStr m), (''role'', JStr ''assistant''),
      (''stop_reason'', JNull), (''stop_sequence'', JNull), (''type'', JStr ''message''),
      (''usage'', JObj [(''cache_creation_input_tokens'', json_int 0),
         (''cache_read_input_tokens'', json_int 0), (''input_tokens'', json_int n),
         (''output_tokens'', json_int 1)])]), (''type'', JStr ''message_start'')]"
| "frame_data (Block_Start i b) = JObj [(''content_block'', block_json b),
      (''index'', json_int (int i)), (''type'', JStr ''content_block_start'')]"
| "frame_data (Block_Delta i d) = JObj [(''delta'', delta_json d), (''index'', json_int (int i)),
      (''type'', JStr ''content_block_delta'')]"
| "frame_data (Block_Stop i) = JObj [(''index'', json_int (int i)), (''type'', JStr ''content_block_stop'')]"
| "frame_data Ping = JObj [(''type'', JStr ''ping'')]"
| "frame_data (Message_Delta r q u n) = JObj [(''delta'', JObj [(''stop_reason'', JStr r),
      (''stop_sequence'', case q of None \<Rightarrow> JNull | Some s \<Rightarrow> JStr s)]),
      (''type'', JStr ''message_delta''),
      (''usage'', JObj (map (\<lambda>(k, v). (k, json_int v)) u @
         (if n > 0 then [(''server_tool_use'', JObj [(''web_search_requests'', json_int (int n))])] else [])))]"
| "frame_data Message_Stop = JObj [(''type'', JStr ''message_stop'')]"
| "frame_data (Error_Event t m) = JObj [(''error'', JObj [(''message'', JStr m), (''type'', JStr t)]),
      (''type'', JStr ''error'')]"

definition frame_bytes :: "sse_frame \<Rightarrow> string" where
  "frame_bytes f = ''event: '' @ frame_event f @ ''\<newline>data: '' @ print_json (frame_data f) @ ''\<newline>\<newline>''"

subsection \<open>The writer\<close>

record anthropic_writer =
  aw_model :: string
  aw_id :: string
  aw_input_tokens :: int
  aw_block_open :: bool
  aw_block_index :: nat
  aw_sent_start :: bool
  aw_block_type :: string
  aw_tool_blocks :: "(string \<times> nat) list option"
  aw_saw_tool_call :: bool
  aw_server_blocks :: "(string \<times> nat) list"
  aw_server_names :: "(string \<times> string) list"
  aw_web_requests :: nat
  aw_text :: string
  aw_citations :: "json list"
  aw_anon_id :: string

type_synonym emit = "sse_frame list \<times> anthropic_writer"

definition new_anthropic_stream_writer :: "string \<Rightarrow> nat list option \<Rightarrow> anthropic_writer" where
  "new_anthropic_stream_writer m rnd = \<lparr>aw_model = m, aw_id = new_anthropic_message_id rnd,
     aw_input_tokens = 0, aw_block_open = False, aw_block_index = 0, aw_sent_start = False,
     aw_block_type = [], aw_tool_blocks = None, aw_saw_tool_call = False, aw_server_blocks = [],
     aw_server_names = [], aw_web_requests = 0, aw_text = [], aw_citations = [], aw_anon_id = []\<rparr>"

definition resolve_client_tool_id ::
  "nat list option \<Rightarrow> string \<Rightarrow> anthropic_writer \<Rightarrow> string \<times> anthropic_writer" where
  "resolve_client_tool_id rnd tid w =
     (let tid = canonical_anthropic_tool_id tid False in
      if tid \<noteq> [] then (tid, w)
      else let w = (if aw_anon_id w = [] then w\<lparr>aw_anon_id := new_anthropic_tool_use_id rnd\<rparr> else w)
           in (aw_anon_id w, w))"

definition encode_error :: "string \<Rightarrow> string \<Rightarrow> sse_frame list" where
  "encode_error t m = [Error_Event (if t = [] then ''api_error'' else t) m]"

definition start_frame :: "anthropic_writer \<Rightarrow> emit" where
  "start_frame w =
     (if aw_sent_start w then ([], w)
      else ([Message_Start (aw_id w) (aw_model w) (aw_input_tokens w)], w\<lparr>aw_sent_start := True\<rparr>))"

definition close_current_block :: "anthropic_writer \<Rightarrow> emit" where
  "close_current_block w =
     (if \<not> aw_block_open w then ([], w)
      else let cite = aw_block_type w = ''text'' \<and> aw_citations w \<noteq> [];
               fs = (if cite then map (\<lambda>c. Block_Delta (aw_block_index w) (Citations_Delta c)) (aw_citations w)
                     else []);
               w' = (if cite then w\<lparr>aw_citations := []\<rparr> else w)
           in (fs @ [Block_Stop (aw_block_index w)], w'))"

text \<open>The idiom of the \<^verbatim>\<open>Encode\<close> cases: close the open block, then move to the next index.\<close>

definition close_and_advance :: "anthropic_writer \<Rightarrow> emit" where
  "close_and_advance w =
     (if aw_block_open w
      then let (fs, w) = close_current_block w
           in (fs, w\<lparr>aw_block_open := False, aw_block_index := aw_block_index w + 1\<rparr>)
      else ([], w))"

definition leave_other_block :: "string \<Rightarrow> anthropic_writer \<Rightarrow> emit" where
  "leave_other_block ty w =
     (if aw_block_open w \<and> aw_block_type w \<noteq> ty then close_and_advance w else ([], w))"

definition enter_block :: "string \<Rightarrow> content_block \<Rightarrow> anthropic_writer \<Rightarrow> emit" where
  "enter_block ty b w =
     (if \<not> aw_block_open w
      then ([Block_Start (aw_block_index w) b], w\<lparr>aw_block_open := True, aw_block_type := ty\<rparr>)
      else ([], w))"

definition encode_text_delta :: "event \<Rightarrow> anthropic_writer \<Rightarrow> emit" where
  "encode_text_delta ev w =
     (let w = w\<lparr>aw_text := aw_text w @ ev_text ev\<rparr>;
          (f1, w) = start_frame w;
          (f2, w) = leave_other_block ''text'' w;
          (f3, w) = enter_block ''text'' Text_Block w
      in (f1 @ f2 @ f3 @ [Block_Delta (aw_block_index w) (Text_Delta (ev_text ev))], w))"

definition encode_thinking_delta :: "event \<Rightarrow> anthropic_writer \<Rightarrow> emit" where
  "encode_thinking_delta ev w =
     (let (f1, w) = start_frame w;
          (f2, w) = leave_other_block ''thinking'' w;
          (f3, w) = enter_block ''thinking'' Thinking_Block w
      in (f1 @ f2 @ f3 @ [Block_Delta (aw_block_index w) (Thinking_Delta (ev_text ev))], w))"

definition encode_signature_delta :: "event \<Rightarrow> anthropic_writer \<Rightarrow> emit" where
  "encode_signature_delta ev w =
     (if ev_text ev = [] then ([], w)
      else let (f1, w) = start_frame w in
        if aw_block_open w \<and> aw_block_type w \<noteq> ''thinking'' then ([], w)
        else let (f2, w) = enter_block ''thinking'' Thinking_Block w
             in (f1 @ f2 @ [Block_Delta (aw_block_index w) (Signature_Delta (ev_text ev))], w))"

definition encode_heartbeat :: "anthropic_writer \<Rightarrow> emit" where
  "encode_heartbeat w = (let (f1, w) = start_frame w in (f1 @ [Ping], w))"

definition args_delta :: "nat \<Rightarrow> event \<Rightarrow> sse_frame list" where
  "args_delta i ev =
     (if ev_tool_args_delta ev \<noteq> [] then [Block_Delta i (Input_Json_Delta (ev_tool_args_delta ev))] else [])"

definition tool_list :: "anthropic_writer \<Rightarrow> (string \<times> nat) list" where
  "tool_list w = (case aw_tool_blocks w of None \<Rightarrow> [] | Some bs \<Rightarrow> bs)"

definition encode_tool_call_started :: "nat list option \<Rightarrow> event \<Rightarrow> anthropic_writer \<Rightarrow> emit" where
  "encode_tool_call_started rnd ev w =
     (let (f1, w) = start_frame w;
          (f2, w) = close_and_advance w;
          w = w\<lparr>aw_tool_blocks := Some (tool_list w)\<rparr>;
          (tool_id, w) = resolve_client_tool_id rnd (ev_tool_call_id ev) w in
      if map_of (tool_list w) tool_id \<noteq> None then ([], w)
      else let i = aw_block_index w;
               w = w\<lparr>aw_tool_blocks := Some (AList.update tool_id i (tool_list w)),
                     aw_block_index := aw_block_index w + 1, aw_saw_tool_call := True\<rparr>
           in (f1 @ f2 @ [Block_Start i (Tool_Use tool_id (ev_tool_name ev))] @ args_delta i ev, w))"

definition encode_tool_call_delta :: "nat list option \<Rightarrow> event \<Rightarrow> anthropic_writer \<Rightarrow> emit" where
  "encode_tool_call_delta rnd ev w =
     (if ev_tool_args_delta ev = [] \<or> aw_tool_blocks w = None then ([], w)
      else let (tool_id, w) = resolve_client_tool_id rnd (ev_tool_call_id ev) w in
        case map_of (tool_list w) tool_id of None \<Rightarrow> ([], w)
        | Some i \<Rightarrow> ([Block_Delta i (Input_Json_Delta (ev_tool_args_delta ev))], w))"

definition encode_tool_call_completed :: "nat list option \<Rightarrow> event \<Rightarrow> anthropic_writer \<Rightarrow> emit" where
  "encode_tool_call_completed rnd ev w =
     (if aw_tool_blocks w = None then ([], w)
      else let (tool_id, w) = resolve_client_tool_id rnd (ev_tool_call_id ev) w in
        case map_of (tool_list w) tool_id of None \<Rightarrow> ([], w)
        | Some i \<Rightarrow> ([Block_Stop i], w\<lparr>aw_tool_blocks := Some (AList.delete tool_id (tool_list w))\<rparr>))"

definition encode_server_tool_started :: "event \<Rightarrow> anthropic_writer \<Rightarrow> emit" where
  "encode_server_tool_started ev w =
     (let (f1, w) = start_frame w;
          (f2, w) = close_and_advance w;
          tid = ev_tool_call_id ev in
      if map_of (aw_server_blocks w) tid \<noteq> None then ([], w)
      else let i = aw_block_index w;
               w = w\<lparr>aw_server_blocks := AList.update tid i (aw_server_blocks w),
                     aw_server_names := AList.update tid (ev_tool_name ev) (aw_server_names w),
                     aw_block_index := aw_block_index w + 1\<rparr>
           in (f1 @ f2 @ [Block_Start i (Server_Tool_Use tid (ev_tool_name ev))] @ args_delta i ev, w))"

text \<open>The stop of a server tool's block, and the result block that takes the next index.\<close>

definition stop_server_tool :: "string \<Rightarrow> anthropic_writer \<Rightarrow> emit" where
  "stop_server_tool tid w =
     (case map_of (aw_server_blocks w) tid of None \<Rightarrow> ([], w)
      | Some i \<Rightarrow> ([Block_Stop i], w\<lparr>aw_server_blocks := AList.delete tid (aw_server_blocks w),
                                     aw_server_names := AList.delete tid (aw_server_names w)\<rparr>))"

definition result_block :: "content_block \<Rightarrow> anthropic_writer \<Rightarrow> emit" where
  "result_block b w =
     (let i = aw_block_index w
      in ([Block_Start i b, Block_Stop i], w\<lparr>aw_block_index := aw_block_index w + 1\<rparr>))"

definition search_error_json :: json where
  "search_error_json = JObj [(''error_code'', JStr ''unavailable''),
     (''type'', JStr ''web_search_tool_result_error'')]"

definition search_item_json :: "web_search_result \<Rightarrow> json" where
  "search_item_json r = JObj [(''encrypted_content'', JStr (wr_chunk r)), (''page_age'', JNull),
     (''title'', JStr (wr_title r)), (''type'', JStr ''web_search_result''), (''url'', JStr (wr_url r))]"

definition citation_json :: "string \<Rightarrow> nat \<Rightarrow> web_search_result \<Rightarrow> json" where
  "citation_json tid n r = JObj [(''cited_text'', JStr (if wr_title r = [] then wr_url r else wr_title r)),
     (''encrypted_index'', JStr (tid @ ''#'' @ fmt_int (int n))), (''title'', JStr (wr_title r)),
     (''type'', JStr ''web_search_result_location''), (''url'', JStr (wr_url r))]"

definition encode_web_fetch_result :: "event \<Rightarrow> anthropic_writer \<Rightarrow> emit" where
  "encode_web_fetch_result ev w =
     (let (f1, w) = start_frame w;
          (f2, w) = stop_server_tool (ev_tool_call_id ev) w;
          url = (case ev_web_results ev of [] \<Rightarrow> [] | r # _ \<Rightarrow> wr_url r);
          body = (case ev_web_results ev of [] \<Rightarrow> [] | r # _ \<Rightarrow> wr_chunk r);
          title = (case ev_web_results ev of [] \<Rightarrow> url | r # _ \<Rightarrow> if wr_title r \<noteq> [] then wr_title r else url);
          content = (if ev_tool_error ev \<noteq> [] then
              JObj [(''error_code'', JStr ''unavailable''), (''type'', JStr ''web_fetch_tool_result_error'')]
            else JObj [(''content'', JObj [(''citations'', JObj [(''enabled'', JBool True)]),
                (''source'', JObj [(''data'', JStr body), (''media_type'', JStr ''text/plain''),
                   (''type'', JStr ''text'')]),
                (''title'', JStr title), (''type'', JStr ''document'')]),
              (''type'', JStr ''web_fetch_result''), (''url'', JStr url)]);
          (f3, w) = result_block (Web_Fetch_Result (ev_tool_call_id ev) content) w
      in (f1 @ f2 @ f3, w))"

definition encode_web_search_result :: "event \<Rightarrow> anthropic_writer \<Rightarrow> emit" where
  "encode_web_search_result ev w =
     (if equal_fold (ev_tool_name ev) ''web_fetch'' then encode_web_fetch_result ev w
      else let (f1, w) = start_frame w;
               (f2, w) = stop_server_tool (ev_tool_call_id ev) w;
               rs = ev_web_results ev;
               w = w\<lparr>aw_citations := map (\<lambda>(n, r). citation_json (ev_tool_call_id ev) n r)
                                      (zip [0 ..< length rs] rs)\<rparr>;
               content = (if ev_tool_error ev \<noteq> [] then search_error_json
                          else JArr (map search_item_json rs));
               (f3, w) = result_block (Web_Search_Result (ev_tool_call_id ev) content) w
           in (f1 @ f2 @ f3, w\<lparr>aw_web_requests := aw_web_requests w + 1\<rparr>))"

definition encode_web_search_error_result :: "string \<Rightarrow> anthropic_writer \<Rightarrow> emit" where
  "encode_web_search_error_result tid w =
     (let (f1, w) = stop_server_tool tid w;
          (f2, w) = result_block (Web_Search_Result tid search_error_json) w
      in (f1 @ f2, w\<lparr>aw_web_requests := aw_web_requests w + 1\<rparr>))"

definition close_one_orphan :: "string \<Rightarrow> anthropic_writer \<Rightarrow> emit" where
  "close_one_orphan tid w =
     (if equal_fold (case map_of (aw_server_names w) tid of None \<Rightarrow> [] | Some n \<Rightarrow> n) ''web_fetch''
      then encode_web_fetch_result ((event_of EventUnknown)\<lparr>ev_tool_call_id := tid,
             ev_tool_name := ''web_fetch'', ev_tool_error := ''unavailable''\<rparr>) w
      else encode_web_search_error_result tid w)"

fun close_orphans :: "string list \<Rightarrow> anthropic_writer \<Rightarrow> emit" where
  "close_orphans [] w = ([], w)"
| "close_orphans (tid # ids) w =
     (let (f1, w) = close_one_orphan tid w; (f2, w) = close_orphans ids w in (f1 @ f2, w))"

definition close_orphan_server_tools ::
  "((string \<times> nat) list \<Rightarrow> (string \<times> nat) list) \<Rightarrow> anthropic_writer \<Rightarrow> emit" where
  "close_orphan_server_tools ord w = close_orphans (map fst (ord (aw_server_blocks w))) w"

definition build_anthropic_usage :: "usage option \<Rightarrow> (string \<times> int) list" where
  "build_anthropic_usage u =
     (case u of
        None \<Rightarrow> [(''cache_creation_input_tokens'', 0), (''cache_read_input_tokens'', 0),
                 (''input_tokens'', 0), (''output_tokens'', 0)]
      | Some v \<Rightarrow>
          let input = i64 (i64 (u_input v - u_cache_read v) - u_cache_write v);
              input = (if input < 0 then 0 else input);
              output = normalized_output_tokens u;
              output = (if u_truncated v > 0 then u_truncated v else output)
          in [(''cache_creation_input_tokens'', u_cache_write v),
              (''cache_read_input_tokens'', u_cache_read v),
              (''input_tokens'', input), (''output_tokens'', output)])"

definition encode_turn_ended ::
  "((string \<times> nat) list \<Rightarrow> (string \<times> nat) list) \<Rightarrow> event \<Rightarrow> anthropic_writer \<Rightarrow> emit" where
  "encode_turn_ended ord ev w =
     (let (f1, w) = (if aw_block_open w
                     then let (fs, w) = close_current_block w in (fs, w\<lparr>aw_block_open := False\<rparr>)
                     else ([], w));
          f2 = map (\<lambda>(_, i). Block_Stop i) (ord (tool_list w));
          w = w\<lparr>aw_tool_blocks := None\<rparr>;
          (f3, w) = close_orphan_server_tools ord w;
          reason = (if ev_stop_reason ev \<noteq> [] then ev_stop_reason ev
                    else anthropic_stop_reason (aw_text w) (aw_saw_tool_call w));
          sq = (if ev_stop_sequence ev \<noteq> [] then Some (ev_stop_sequence ev) else None)
      in (f1 @ f2 @ f3 @ [Message_Delta reason sq (build_anthropic_usage (ev_usage ev))
                            (aw_web_requests w), Message_Stop], w))"

definition encode ::
  "nat list option \<Rightarrow> ((string \<times> nat) list \<Rightarrow> (string \<times> nat) list) \<Rightarrow> event \<Rightarrow> anthropic_writer \<Rightarrow> emit" where
  "encode rnd ord ev w =
     (case ev_kind ev of
        EventTextDelta \<Rightarrow> encode_text_delta ev w
      | EventThinkingDelta \<Rightarrow> encode_thinking_delta ev w
      | EventSignatureDelta \<Rightarrow> encode_signature_delta ev w
      | EventHeartbeat \<Rightarrow> encode_heartbeat w
      | EventToolCallStarted \<Rightarrow> encode_tool_call_started rnd ev w
      | EventToolCallDelta \<Rightarrow> encode_tool_call_delta rnd ev w
      | EventToolCallCompleted \<Rightarrow> encode_tool_call_completed rnd ev w
      | EventServerToolStarted \<Rightarrow> encode_server_tool_started ev w
      | EventWebSearchResult \<Rightarrow> encode_web_search_result ev w
      | EventTurnEnded \<Rightarrow> encode_turn_ended ord ev w
      | _ \<Rightarrow> ([], w))"

text \<open>A whole stream: the frames of the events in order.\<close>

fun encode_stream ::
  "nat list option \<Rightarrow> ((string \<times> nat) list \<Rightarrow> (string \<times> nat) list) \<Rightarrow> event list \<Rightarrow> anthropic_writer \<Rightarrow> emit" where
  "encode_stream rnd ord [] w = ([], w)"
| "encode_stream rnd ord (ev # evs) w =
     (let (f1, w) = encode rnd ord ev w; (f2, w) = encode_stream rnd ord evs w in (f1 @ f2, w))"

end
