(* ===== verification/ProxyAuth.thy ===== *)
theory ProxyAuth
  imports Anthropic
begin

text \<open>
  Model of \<^verbatim>\<open>cmd/cursor-proxy/auth_middleware.go\<close>, the API key gate in front of every handler, with
  the functions of \<^verbatim>\<open>net\<close> it uses: \<^verbatim>\<open>SplitHostPort\<close>, \<^verbatim>\<open>ParseIP\<close> and \<^verbatim>\<open>IsLoopback\<close>. A request is the
  record of what the gate reads of it (the headers as \<^verbatim>\<open>Header.Get\<close> gives them, the first decoded
  value of the query parameter \<^verbatim>\<open>key\<close>); the answer is the next handler's, or a status and a body.
  That the comparison takes constant time is not modelled.
\<close>

subsection \<open>Addresses\<close>

definition split_host_port :: "string \<Rightarrow> string option" where
  "split_host_port hp =
     (case last_index_byte hp CHR '':'' of
        None \<Rightarrow> None
      | Some i \<Rightarrow>
          if hp \<noteq> [] \<and> hd hp = CHR ''['' then
            (case index_byte hp CHR '']'' of
               None \<Rightarrow> None
             | Some e \<Rightarrow>
                 if e + 1 \<noteq> i then None
                 else if CHR ''['' \<in> set (drop 1 hp) \<or> CHR '']'' \<in> set (drop (e + 1) hp) then None
                 else Some (drop 1 (take e hp)))
          else let host = take i hp in
            if CHR '':'' \<in> set host then None
            else if CHR ''['' \<in> set hp \<or> CHR '']'' \<in> set hp then None
            else Some host)"

text \<open>Four decimal octets without leading zeros.\<close>

definition parse_octet :: "string \<Rightarrow> nat option" where
  "parse_octet s =
     (if s = [] \<or> \<not> list_all is_digit s \<or> (length s > 1 \<and> hd s = CHR ''0'') \<or> length s > 3 then None
      else let n = foldl (\<lambda>n c. n * 10 + (byte_of c - 48)) 0 s in if n > 255 then None else Some n)"

definition parse_ipv4 :: "string \<Rightarrow> nat list option" where
  "parse_ipv4 s =
     (case map parse_octet (split_on CHR ''.'' s) of
        [Some a, Some b, Some c, Some d] \<Rightarrow> Some [a, b, c, d]
      | _ \<Rightarrow> None)"

text \<open>One hexadecimal field: at most four digits, at least one; the value and the rest.\<close>

definition hex_field :: "string \<Rightarrow> (nat \<times> string) option" where
  "hex_field s =
     (let ds = takeWhile (\<lambda>c. hex_value c \<noteq> None) s in
      if ds = [] \<or> length ds > 4 then None
      else Some (foldl (\<lambda>n c. n * 16 + the (hex_value c)) 0 ds, drop (length ds) s))"

text \<open>
  The loop over the fields of an IPv6 address: the bytes so far and the position of the ellipsis.
  It takes at most eight fields.
\<close>

fun ipv6_loop :: "nat \<Rightarrow> nat list \<Rightarrow> nat option \<Rightarrow> string \<Rightarrow> (nat list \<times> nat option) option" where
  "ipv6_loop 0 bytes ell s = (if s = [] then Some (bytes, ell) else None)"
| "ipv6_loop (Suc k) bytes ell s =
     (case hex_field s of
        None \<Rightarrow> None
      | Some (n, r) \<Rightarrow>
          if r \<noteq> [] \<and> hd r = CHR ''.'' then
            (if ell = None \<and> length bytes \<noteq> 12 then None
             else if length bytes + 4 > 16 then None
             else case parse_ipv4 s of None \<Rightarrow> None | Some q \<Rightarrow> Some (bytes @ q, ell))
          else let bytes = bytes @ [n div 256, n mod 256] in
            (case r of
               [] \<Rightarrow> Some (bytes, ell)
             | c # r1 \<Rightarrow>
                 if c \<noteq> CHR '':'' \<or> r1 = [] then None
                 else if hd r1 = CHR '':'' then
                   (if ell \<noteq> None then None
                    else if tl r1 = [] then Some (bytes, Some (length bytes))
                    else ipv6_loop k bytes (Some (length bytes)) (tl r1))
                 else ipv6_loop k bytes ell r1))"

definition parse_ipv6 :: "string \<Rightarrow> nat list option" where
  "parse_ipv6 s =
     (case (if has_prefix s ''::'' then
              (if drop 2 s = [] then Some ([], Some 0) else ipv6_loop 8 [] (Some 0) (drop 2 s))
            else ipv6_loop 8 [] None s) of
        None \<Rightarrow> None
      | Some (bytes, ell) \<Rightarrow>
          (case ell of
             None \<Rightarrow> if length bytes = 16 then Some bytes else None
           | Some e \<Rightarrow>
               if length bytes < 16
               then Some (take e bytes @ replicate (16 - length bytes) 0 @ drop e bytes)
               else None))"

text \<open>The first separator decides the family; a zone makes the address invalid here.\<close>

definition parse_ip :: "string \<Rightarrow> nat list option" where
  "parse_ip s =
     (case find (\<lambda>c. c \<in> {CHR ''.'', CHR '':'', CHR ''%''}) s of
        None \<Rightarrow> None
      | Some c \<Rightarrow>
          if c = CHR ''.'' then map_option (\<lambda>q. replicate 10 0 @ [255, 255] @ q) (parse_ipv4 s)
          else if c = CHR '':'' then (if CHR ''%'' \<in> set s then None else parse_ipv6 s)
          else None)"

definition ip_is_loopback :: "nat list \<Rightarrow> bool" where
  "ip_is_loopback ip \<longleftrightarrow>
     (if take 12 ip = replicate 10 0 @ [255, 255] then ip ! 12 = 127
      else ip = replicate 15 0 @ [1])"

definition trim_chars :: "string \<Rightarrow> string \<Rightarrow> string" where
  "trim_chars s cs = rev (dropWhile (\<lambda>c. c \<in> set cs) (rev (dropWhile (\<lambda>c. c \<in> set cs) s)))"

subsection \<open>The gate\<close>

record api_request =
  rq_remote_addr :: string
  rq_path :: string
  rq_authorization :: string
  rq_x_api_key :: string
  rq_x_goog_api_key :: string
  rq_query_key :: string

definition is_loopback_request :: "api_request \<Rightarrow> bool" where
  "is_loopback_request r \<longleftrightarrow>
     (let host = (case split_host_port (rq_remote_addr r) of Some h \<Rightarrow> h | None \<Rightarrow> rq_remote_addr r)
      in case parse_ip (trim_chars host ''[]'') of None \<Rightarrow> False | Some ip \<Rightarrow> ip_is_loopback ip)"

definition load_api_keys :: "string \<Rightarrow> string \<Rightarrow> string list" where
  "load_api_keys flag env =
     (let raw = (if flag = [] then env else flag) in
      if raw = [] then [] else filter (\<lambda>k. k \<noteq> []) (map trim_space (split_on CHR '','' raw)))"

definition extract_bearer :: "string \<Rightarrow> string option" where
  "extract_bearer header =
     (if header = [] then None
      else if length header < length ''bearer '' then None
      else if \<not> equal_fold (take 7 header) ''bearer '' then None
      else let tok = trim_space (drop 7 header) in if tok = [] then None else Some tok)"

definition extract_api_key :: "api_request \<Rightarrow> string option" where
  "extract_api_key r =
     (case extract_bearer (rq_authorization r) of
        Some tok \<Rightarrow> Some tok
      | None \<Rightarrow>
          if trim_space (rq_x_api_key r) \<noteq> [] then Some (trim_space (rq_x_api_key r))
          else if trim_space (rq_x_goog_api_key r) \<noteq> [] then Some (trim_space (rq_x_goog_api_key r))
          else if trim_space (rq_query_key r) \<noteq> [] then Some (trim_space (rq_query_key r))
          else None)"

datatype gate_answer = Serve | Reject nat json

definition write_invalid_api_key :: "string \<Rightarrow> gate_answer" where
  "write_invalid_api_key msg = Reject 401 (JObj [(''error'', JObj [(''code'', JStr ''invalid_api_key''),
     (''message'', JStr msg), (''param'', JNull), (''type'', JStr ''invalid_request_error'')])])"

definition exempt_path :: "string \<Rightarrow> bool" where
  "exempt_path p \<longleftrightarrow> p = ''/v1/proxy-info'' \<or> p = ''/v1/capabilities'' \<or> has_prefix p ''/v1/introspect/''"

definition require_api_keys :: "string list \<Rightarrow> api_request \<Rightarrow> gate_answer" where
  "require_api_keys keys r =
     (if keys = [] then Serve
      else if is_loopback_request r \<and> exempt_path (rq_path r) then Serve
      else case extract_api_key r of
        None \<Rightarrow> write_invalid_api_key
          ''Missing API key. Provide one via Authorization: Bearer, x-api-key, x-goog-api-key, or ?key=.''
      | Some k \<Rightarrow>
          if foldl (\<lambda>matched kb. if k = kb then True else matched) False keys then Serve
          else write_invalid_api_key ''Invalid API key provided.'')"

subsection \<open>Who gets through\<close>

lemma any_match: "foldl (\<lambda>matched kb. if k = kb then True else matched) b keys = (b \<or> k \<in> set keys)"
  by (induction keys arbitrary: b) auto

lemma load_api_keys_proper: "k \<in> set (load_api_keys flag env) \<Longrightarrow> k \<noteq> [] \<and> trim_space k = k"
  by (auto simp: load_api_keys_def Let_def split: if_splits)

lemma extract_api_key_proper: "extract_api_key r = Some k \<Longrightarrow> k \<noteq> [] \<and> trim_space k = k"
  by (auto simp: extract_api_key_def extract_bearer_def Let_def split: if_splits option.splits)

text \<open>
  C32: Nobody without a key gets through. With keys configured, a request reaches the handlers
  exactly if it comes from a loopback address for one of the metadata paths, or the first key it
  presents (bearer token, \<^verbatim>\<open>x-api-key\<close>, \<^verbatim>\<open>x-goog-api-key\<close>, query) is one of them; every other
  request is answered with status 401. A key of white space only is never configured nor
  accepted, and without configured keys everything passes.
\<close>

theorem api_gate_sound:
  "let keys = load_api_keys flag env; answer = require_api_keys keys r in
     (answer = Serve) = (keys = [] \<or> is_loopback_request r \<and> exempt_path (rq_path r) \<or>
        (\<exists>k. extract_api_key r = Some k \<and> k \<in> set keys)) \<and>
     (case answer of Serve \<Rightarrow> True | Reject status body \<Rightarrow> status = 401) \<and>
     list_all (\<lambda>k. trim_space k \<noteq> []) keys \<and>
     (case extract_api_key r of None \<Rightarrow> True | Some k \<Rightarrow> trim_space k \<noteq> [])"
proof -
  let ?keys = "load_api_keys flag env"
  have "list_all (\<lambda>k. trim_space k \<noteq> []) ?keys"
    using load_api_keys_proper [of _ flag env] by (auto simp: list_all_iff)
  moreover have "case extract_api_key r of None \<Rightarrow> True | Some k \<Rightarrow> trim_space k \<noteq> []"
    using extract_api_key_proper [of r] by (auto split: option.splits)
  moreover have "(require_api_keys ?keys r = Serve) = (?keys = [] \<or> is_loopback_request r \<and>
      exempt_path (rq_path r) \<or> (\<exists>k. extract_api_key r = Some k \<and> k \<in> set ?keys))"
    unfolding require_api_keys_def any_match write_invalid_api_key_def by (auto split: option.splits)
  moreover have "case require_api_keys ?keys r of Serve \<Rightarrow> True | Reject status body \<Rightarrow> status = 401"
    unfolding require_api_keys_def write_invalid_api_key_def by (auto split: option.splits)
  ultimately show ?thesis
    unfolding Let_def by blast
qed

text \<open>The addresses the exemption is about.\<close>

lemma loopback_addresses:
  "is_loopback_request \<lparr>rq_remote_addr = ''127.8.0.1:4000'', rq_path = p, rq_authorization = a,
     rq_x_api_key = x, rq_x_goog_api_key = g, rq_query_key = q\<rparr>"
  "is_loopback_request \<lparr>rq_remote_addr = ''[::1]:4000'', rq_path = p, rq_authorization = a,
     rq_x_api_key = x, rq_x_goog_api_key = g, rq_query_key = q\<rparr>"
  "\<not> is_loopback_request \<lparr>rq_remote_addr = ''10.0.0.7:4000'', rq_path = p, rq_authorization = a,
     rq_x_api_key = x, rq_x_goog_api_key = g, rq_query_key = q\<rparr>"
  "\<not> is_loopback_request \<lparr>rq_remote_addr = ''[::1%lo]:4000'', rq_path = p, rq_authorization = a,
     rq_x_api_key = x, rq_x_goog_api_key = g, rq_query_key = q\<rparr>"
  by code_simp+

end
