(* ===== verification/ClientTools.thy ===== *)
theory ClientTools
  imports Events "HOL-Library.List_Lexorder" "HOL-Library.Char_ord"
begin

text \<open>
  Tool names, from \<^verbatim>\<open>translator/native_tool_adapter.go\<close> and \<^verbatim>\<open>executor/tools.go\<close>: the names a client
  sees for Cursor's own tools, and the choice of the spelling the client declared. The choice is
  measured against a definition over the set of declared names, so the order and the repetitions
  of the declarations do not matter.
\<close>

subsection \<open>Names of the tools a caller supplies\<close>

definition external_tool_prefix :: string where
  "external_tool_prefix = ''mcp_''"

definition sanitize_mcp_tool_name :: "string \<Rightarrow> string" where
  "sanitize_mcp_tool_name name = external_tool_prefix @ name"

definition restore_mcp_tool_name :: "string \<Rightarrow> string" where
  "restore_mcp_tool_name name =
     (if has_prefix name external_tool_prefix then drop (length external_tool_prefix) name else name)"

definition mcp_tool_description :: "string \<Rightarrow> string \<Rightarrow> string" where
  "mcp_tool_description client_name description =
     (let c = trim_space client_name; d = trim_space description in
      if c = [] then d
      else if d = [] then ''Client tool '' @ c @ ''. Call this tool as '' @ sanitize_mcp_tool_name c @ ''.''
      else if has_prefix d c then d
      else c @ '' (call as '' @ sanitize_mcp_tool_name c @ ''): '' @ d)"

lemma restore_sanitize [simp]: "restore_mcp_tool_name (sanitize_mcp_tool_name name) = name"
  by (simp add: restore_mcp_tool_name_def sanitize_mcp_tool_name_def)

text \<open>
  The definitions sent upstream. \<open>new_struct\<close> and \<open>marshal\<close> are the protobuf library's conversions of
  the schema; each may fail with a message.
\<close>

record tool_definition =
  td_name :: string
  td_description :: string
  td_input_schema :: "json option"

record mcp_tool_definition =
  md_name :: string
  md_description :: string
  md_input_schema :: string
  md_provider_identifier :: string
  md_tool_name :: string

datatype tool_error = Name_Required nat | Schema_Struct string string | Schema_Marshal string string

definition mcp_provider_identifier :: string where
  "mcp_provider_identifier = ''cursor-tools''"

definition encode_input_schema ::
    "(json \<Rightarrow> string + 'v) \<Rightarrow> ('v \<Rightarrow> string + string) \<Rightarrow> string \<Rightarrow> json option \<Rightarrow> tool_error + string" where
  "encode_input_schema new_struct marshal name schema =
     (let s = (case schema of Some s \<Rightarrow> s
         | None \<Rightarrow> JObj [(''properties'', JObj []), (''type'', JStr ''object'')]) in
      case new_struct s of
        Inl e \<Rightarrow> Inl (Schema_Struct name e)
      | Inr v \<Rightarrow> (case marshal v of Inl e \<Rightarrow> Inl (Schema_Marshal name e) | Inr b \<Rightarrow> Inr b))"

fun build_definitions_from :: "(json \<Rightarrow> string + 'v) \<Rightarrow> ('v \<Rightarrow> string + string) \<Rightarrow> nat \<Rightarrow> tool_definition list \<Rightarrow>
    tool_error + mcp_tool_definition list" where
  "build_definitions_from new_struct marshal i [] = Inr []"
| "build_definitions_from new_struct marshal i (t # tools) =
     (if td_name t = [] then Inl (Name_Required i)
      else case encode_input_schema new_struct marshal (td_name t) (td_input_schema t) of
        Inl e \<Rightarrow> Inl e
      | Inr schema \<Rightarrow>
          let safe = sanitize_mcp_tool_name (td_name t);
              def = \<lparr>md_name = safe, md_description = mcp_tool_description (td_name t) (td_description t),
                md_input_schema = schema, md_provider_identifier = mcp_provider_identifier,
                md_tool_name = safe\<rparr> in
          case build_definitions_from new_struct marshal (Suc i) tools of
            Inl e \<Rightarrow> Inl e | Inr defs \<Rightarrow> Inr (def # defs))"

definition build_mcp_tool_definitions :: "(json \<Rightarrow> string + 'v) \<Rightarrow> ('v \<Rightarrow> string + string) \<Rightarrow> tool_definition list \<Rightarrow>
    tool_error + mcp_tool_definition list" where
  "build_mcp_tool_definitions new_struct marshal tools = build_definitions_from new_struct marshal 0 tools"

text \<open>The instructions: one line per tool, sorted by name, the last description of a name counts.\<close>

record mcp_instructions =
  mi_server_name :: string
  mi_instructions :: string
  mi_server_identifier :: string

definition build_mcp_instructions :: "tool_definition list \<Rightarrow> mcp_instructions option" where
  "build_mcp_instructions tools =
     (if tools = [] then None
      else let
        names = map (\<lambda>t. sanitize_mcp_tool_name (td_name t)) tools;
        by_name = fold (\<lambda>t m. m(sanitize_mcp_tool_name (td_name t) \<mapsto>
          (if td_description t = [] then ''No description'' else td_description t))) tools Map.empty
      in Some \<lparr>mi_server_name = mcp_provider_identifier,
        mi_instructions =
          ''Available MCP tools. The wire name is mcp_<ClientName>. '' @
          ''If the user or system prompt says Glob, Grep, WebFetch, WebSearch, Bash, Read, Write, Edit, or Task, call the matching mcp_* name.'' @ [CHR 0x0A] @
          concat (map (\<lambda>n. ''- '' @ n @ '': '' @ the (by_name n) @ [CHR 0x0A]) (sort names)) @
          [CHR 0x0A] @ ''Call tools using the mcp_ name and JSON arguments.'',
        mi_server_identifier = mcp_provider_identifier\<rparr>)"

text \<open>What is sent for a list of tools: all of them under names that give the caller's back, or the first error.\<close>

lemma build_definitions_from_spec:
  "case build_definitions_from new_struct marshal i tools of
     Inr defs \<Rightarrow> map (\<lambda>d. restore_mcp_tool_name (md_tool_name d)) defs = map td_name tools \<and>
       map md_name defs = map md_tool_name defs \<and> list_all (\<lambda>t. td_name t \<noteq> []) tools
   | Inl e \<Rightarrow> (\<exists>pre t post. tools = pre @ t # post \<and> list_all (\<lambda>t. td_name t \<noteq> []) pre \<and>
       (if td_name t = [] then e = Name_Required (i + length pre)
        else encode_input_schema new_struct marshal (td_name t) (td_input_schema t) = Inl e))"
proof (induction tools arbitrary: i)
  case (Cons t tools)
  show ?case
  proof (cases "td_name t = []")
    case True
    then show ?thesis by simp (rule exI [of _ "[]"], rule exI [of _ t], simp)
  next
    case False
    show ?thesis
    proof (cases "encode_input_schema new_struct marshal (td_name t) (td_input_schema t)")
      case (Inl e)
      with False show ?thesis by simp (rule exI [of _ "[]"], rule exI [of _ t], simp)
    next
      case (Inr b)
      show ?thesis
      proof (cases "build_definitions_from new_struct marshal (Suc i) tools")
        case (Inl e)
        with Cons.IH [of "Suc i"] obtain pre u post where "tools = pre @ u # post"
          "list_all (\<lambda>t. td_name t \<noteq> []) pre"
          "if td_name u = [] then e = Name_Required (Suc i + length pre)
            else encode_input_schema new_struct marshal (td_name u) (td_input_schema u) = Inl e" by auto
        with False Inr Inl show ?thesis by simp (rule exI [of _ "t # pre"], rule exI [of _ u], simp)
      next
        case (Inr defs)
        with Cons.IH [of "Suc i"] False \<open>encode_input_schema _ _ _ _ = Inr b\<close> show ?thesis by (simp add: Let_def)
      qed
    qed
  qed
qed simp

subsection \<open>Names for Cursor's own tools\<close>

definition native_tool_client_name :: "(string \<times> string) list" where
  "native_tool_client_name = [(''shell'', ''bash''), (''read'', ''read''), (''edit'', ''write''),
     (''grep'', ''grep''), (''ls'', ''ls''), (''glob'', ''glob''), (''delete'', ''bash''),
     (''fetch'', ''web_fetch''), (''pi_write'', ''write''), (''pi_bash'', ''bash''),
     (''pi_edit'', ''write''), (''pi_read'', ''read''), (''pi_find'', ''glob''), (''pi_grep'', ''grep''),
     (''pi_ls'', ''ls''), (''ask_question'', ''ask_question''), (''create_plan'', ''create_plan''),
     (''update_todos'', ''update_todos''), (''read_todos'', ''read_todos''), (''task'', ''task'')]"

definition client_name_for_cursor_tool :: "string \<Rightarrow> string" where
  "client_name_for_cursor_tool cursor_type =
     (case map_of native_tool_client_name cursor_type of Some m \<Rightarrow> m | None \<Rightarrow> cursor_type)"

subsection \<open>The spelling a client declared\<close>

definition tool_name_aliases :: "string list list" where
  "tool_name_aliases =
     [[''bash'', ''shell'', ''exec_command'', ''shell_command'', ''run_terminal_command'', ''run_terminal_cmd'',
       ''run_shell_command'', ''run_command'', ''execute'', ''sh''],
      [''write'', ''write_file'', ''create_file'', ''create'', ''str_replace_editor''],
      [''read'', ''read_file'', ''open_file'', ''view''],
      [''grep'', ''ripgrep_search'', ''grep_search'', ''search_files''],
      [''glob'', ''file_search'', ''find_files''],
      [''ls'', ''list_dir'', ''list_directory'', ''list_files''],
      [''web_fetch'', ''webfetch'', ''fetch_url'', ''http_get''],
      [''web_search'', ''websearch'']]"

definition alias_group_of :: "string \<Rightarrow> string list option" where
  "alias_group_of name = find (\<lambda>grp. list_ex (\<lambda>a. a = to_lower name) grp) tool_name_aliases"

text \<open>
  One turn of the loop that indexes the declared names by their lower case: the first spelling of
  a name stays, another spelling makes the lower case name ambiguous.
\<close>

type_synonym name_index = "(string \<Rightarrow> string option) \<times> string list"

definition index_name :: "string \<Rightarrow> name_index \<Rightarrow> name_index" where
  "index_name name st =
     (case st of (by_lower, ambiguous) \<Rightarrow>
        let n = trim_space name; lower = to_lower n in
        if n = [] then st
        else case by_lower lower of
          Some existing \<Rightarrow>
            if existing \<noteq> n then (by_lower, lower # ambiguous) else (by_lower(lower \<mapsto> n), ambiguous)
        | None \<Rightarrow> (by_lower(lower \<mapsto> n), ambiguous))"

text \<open>The loop over the alias group; an empty result leaves the name alone.\<close>

fun pick_alias :: "name_index \<Rightarrow> string \<Rightarrow> string list \<Rightarrow> string" where
  "pick_alias ix candidate [] = candidate"
| "pick_alias ix candidate (al # grp) =
     (let lower = to_lower al in
      if lower \<in> set (snd ix) then []
      else case fst ix lower of
        Some exact \<Rightarrow> if candidate \<noteq> [] \<and> candidate \<noteq> exact then [] else pick_alias ix exact grp
      | None \<Rightarrow> pick_alias ix candidate grp)"

definition aliased_name :: "string list \<Rightarrow> string \<Rightarrow> string" where
  "aliased_name names name =
     (if name = [] \<or> names = [] then name
      else if list_ex (\<lambda>n. trim_space n = name) names then name
      else let ix = fold index_name names (Map.empty, []); lower = to_lower name in
        if fst ix lower \<noteq> None \<and> lower \<notin> set (snd ix) then the (fst ix lower)
        else case alias_group_of name of
          None \<Rightarrow> name
        | Some grp \<Rightarrow> (let c = pick_alias ix [] grp in if c = [] then name else c))"

definition apply_client_tool_alias :: "string list \<Rightarrow> event \<Rightarrow> event" where
  "apply_client_tool_alias names ev = ev\<lparr>ev_tool_name := aliased_name names (ev_tool_name ev)\<rparr>"

datatype tool_name_dialect = Declared_Only | Claude_Code

definition claude_code_fallback :: "(string \<times> string) list" where
  "claude_code_fallback = [(''bash'', ''Bash''), (''read'', ''Read''), (''write'', ''Write''), (''grep'', ''Grep''),
     (''glob'', ''Glob''), (''ls'', ''LS''), (''web_fetch'', ''WebFetch''), (''web_search'', ''WebSearch'')]"

definition apply_client_tool_contract :: "tool_name_dialect \<Rightarrow> string list \<Rightarrow> event \<Rightarrow> event" where
  "apply_client_tool_contract dialect names ev =
     (if ev_tool_name ev = [] then ev
      else let ev = apply_client_tool_alias names ev in
        if list_ex (\<lambda>n. equal_fold (trim_space n) (ev_tool_name ev)) names then ev
        else if dialect \<noteq> Claude_Code then ev
        else case map_of claude_code_fallback (to_lower (ev_tool_name ev)) of
          Some canonical \<Rightarrow> ev\<lparr>ev_tool_name := canonical\<rparr>
        | None \<Rightarrow> ev)"

subsection \<open>The choice over the set of declared names\<close>

definition declared :: "string list \<Rightarrow> string set" where
  "declared names = set (filter (\<lambda>n. n \<noteq> []) (map trim_space names))"

definition spellings :: "string set \<Rightarrow> string set \<Rightarrow> string set" where
  "spellings D lowers = {n \<in> D. to_lower n \<in> lowers}"

text \<open>
  The declared name itself if it is declared; else its only spelling; else the only declared name
  of its alias group; else the name unchanged.
\<close>

definition best_name :: "string set \<Rightarrow> string \<Rightarrow> string" where
  "best_name D name =
     (if name = [] \<or> name \<in> D then name
      else if is_singleton (spellings D {to_lower name}) then the_elem (spellings D {to_lower name})
      else case alias_group_of name of
        None \<Rightarrow> name
      | Some grp \<Rightarrow>
          let U = spellings D (set (map to_lower grp)) in if is_singleton U then the_elem U else name)"

text \<open>What the index holds after the loop, as a relation to the set.\<close>

definition index_at :: "string option \<Rightarrow> bool \<Rightarrow> string set \<Rightarrow> bool" where
  "index_at e amb S \<longleftrightarrow>
     (case e of None \<Rightarrow> S = {} \<and> \<not> amb | Some n \<Rightarrow> n \<in> S \<and> (amb \<longleftrightarrow> S \<noteq> {n}))"

definition indexes :: "name_index \<Rightarrow> string set \<Rightarrow> bool" where
  "indexes ix D \<longleftrightarrow> (\<forall>l. index_at (fst ix l) (l \<in> set (snd ix)) (spellings D {l}))"

lemma spellings_insert:
  "spellings (insert n D) {l} = (if to_lower n = l then insert n (spellings D {l}) else spellings D {l})"
  by (auto simp: spellings_def)

lemma index_at_insert:
  "index_at None amb S \<Longrightarrow> index_at (Some n) amb (insert n S)"
  "index_at (Some n) amb S \<Longrightarrow> index_at (Some n) amb (insert n S)"
  "index_at (Some e) amb S \<Longrightarrow> e \<noteq> n \<Longrightarrow> index_at (Some e) True (insert n S)"
  by (auto simp: index_at_def)

lemma index_name_indexes:
  assumes "indexes ix D"
  shows "indexes (index_name name ix) (D \<union> declared [name])"
proof (cases "trim_space name = []")
  case True
  with assms show ?thesis by (simp add: index_name_def declared_def split: prod.splits)
next
  case False
  obtain b a where ix: "ix = (b, a)" by (cases ix)
  let ?n = "trim_space name" and ?l = "to_lower (trim_space name)"
  have D: "D \<union> declared [name] = insert ?n D" using False by (simp add: declared_def)
  have at_l: "index_at (b l) (l \<in> set a) (spellings D {l})" for l using assms by (simp add: ix indexes_def)
  consider "b ?l = None" | "b ?l = Some ?n" | e where "b ?l = Some e" "e \<noteq> ?n" by (cases "b ?l") auto
  then show ?thesis
  proof cases
    case 1
    then have "index_name name ix = (b(?l \<mapsto> ?n), a)" using False by (simp add: ix index_name_def Let_def)
    with at_l 1 index_at_insert(1) [of "?l \<in> set a" "spellings D {?l}" ?n] at_l [of ?l] show ?thesis
      by (simp add: indexes_def D spellings_insert)
  next
    case 2
    then have "index_name name ix = (b(?l \<mapsto> ?n), a)" using False by (simp add: ix index_name_def Let_def)
    with at_l 2 index_at_insert(2) [of ?n "?l \<in> set a" "spellings D {?l}"] at_l [of ?l] show ?thesis
      by (simp add: indexes_def D spellings_insert)
  next
    case 3
    then have "index_name name ix = (b, ?l # a)" using False by (simp add: ix index_name_def Let_def)
    with at_l 3 index_at_insert(3) [of e "?l \<in> set a" "spellings D {?l}" ?n] at_l [of ?l] show ?thesis
      by (simp add: indexes_def D spellings_insert)
  qed
qed

lemma fold_index_name:
  "indexes ix D \<Longrightarrow> indexes (fold index_name names ix) (D \<union> declared names)"
proof (induction names arbitrary: ix D)
  case (Cons n names)
  have "D \<union> declared (n # names) = (D \<union> declared [n]) \<union> declared names" by (auto simp: declared_def)
  with Cons.IH [OF index_name_indexes [OF Cons.prems]] show ?case by simp
qed (simp add: declared_def)

lemma index_declared: "indexes (fold index_name names (Map.empty, [])) (declared names)"
  using fold_index_name [of "(Map.empty, [])" "{}" names] by (simp add: indexes_def index_at_def spellings_def)

lemma index_at_single:
  assumes "index_at e amb S"
  shows "(e \<noteq> None \<and> \<not> amb \<longleftrightarrow> is_singleton S) \<and> (is_singleton S \<longrightarrow> e = Some (the_elem S))"
proof (cases e)
  case None
  with assms show ?thesis by (simp add: index_at_def is_singleton_def)
next
  case (Some n)
  with assms have n: "n \<in> S" "amb \<longleftrightarrow> S \<noteq> {n}" by (simp_all add: index_at_def)
  have "is_singleton S \<longleftrightarrow> S = {n}" using n(1) by (auto elim: is_singletonE)
  with Some n(2) show ?thesis by auto
qed

lemma indexes_single:
  assumes "indexes ix D"
  shows "fst ix l \<noteq> None \<and> l \<notin> set (snd ix) \<longleftrightarrow> is_singleton (spellings D {l})"
    and "is_singleton (spellings D {l}) \<Longrightarrow> fst ix l = Some (the_elem (spellings D {l}))"
  using index_at_single [of "fst ix l" "l \<in> set (snd ix)" "spellings D {l}"] assms
  unfolding indexes_def by blast+

text \<open>The loop over the group: unique candidate or nothing.\<close>

definition only :: "string set \<Rightarrow> string" where
  "only S = (if is_singleton S then the_elem S else [])"

lemma only_two: "x \<in> S \<Longrightarrow> y \<in> S \<Longrightarrow> x \<noteq> y \<Longrightarrow> only S = []"
  by (auto simp: only_def is_singleton_def)

lemma pick_alias_only:
  assumes "indexes ix D" "[] \<notin> D" "cand = [] \<and> C = {} \<or> cand \<noteq> [] \<and> C = {cand}"
  shows "pick_alias ix cand grp = only (C \<union> spellings D (set (map to_lower grp)))"
  using assms(3)
proof (induction grp arbitrary: cand C)
  case Nil
  then show ?case by (auto simp: only_def spellings_def is_singleton_def)
next
  case (Cons al grp)
  let ?l = "to_lower al" and ?S = "spellings D {to_lower al}"
  have S: "spellings D (set (map to_lower (al # grp))) = ?S \<union> spellings D (set (map to_lower grp))"
    by (auto simp: spellings_def)
  have at_l: "index_at (fst ix ?l) (?l \<in> set (snd ix)) ?S" using assms(1) by (simp add: indexes_def)
  show ?case
  proof (cases "?l \<in> set (snd ix)")
    case True
    with at_l obtain x y where "x \<in> ?S" "y \<in> ?S" "x \<noteq> y" by (auto simp: index_at_def split: option.splits)
    with True show ?thesis unfolding S by (simp add: Let_def) (metis UnCI only_two)
  next
    case amb: False
    show ?thesis
    proof (cases "fst ix ?l")
      case None
      with at_l have "?S = {}" by (simp add: index_at_def)
      with amb None Cons.IH [OF Cons.prems] show ?thesis unfolding S by simp
    next
      case (Some x)
      with at_l amb have x: "?S = {x}" by (auto simp: index_at_def)
      then have "x \<noteq> []" using assms(2) by (auto simp: spellings_def)
      show ?thesis
      proof (cases "cand \<noteq> [] \<and> cand \<noteq> x")
        case True
        with Cons.prems have "only (C \<union> (?S \<union> spellings D (set (map to_lower grp)))) = []"
          using x by (intro only_two [of cand _ x]) auto
        with True amb Some show ?thesis unfolding S by simp
      next
        case False
        with Cons.prems have "C \<union> ?S = {x}" using x by auto
        moreover have "pick_alias ix x grp = only ({x} \<union> spellings D (set (map to_lower grp)))"
          using Cons.IH [of x "{x}"] \<open>x \<noteq> []\<close> by simp
        moreover have "pick_alias ix cand (al # grp) = pick_alias ix x grp"
          using False amb Some by (simp only: pick_alias.simps Let_def if_False option.case)
        ultimately show ?thesis unfolding S Un_assoc [symmetric] by (simp only:)
      qed
    qed
  qed
qed

text \<open>
  C19: The spelling a client gets. The alias step is the choice over the set of declared names: an
  exactly declared name stays; else its only declared spelling, whatever the case; else the only
  declared name of its alias group; an ambiguous or missing declaration leaves the name. In
  particular neither order nor repetition of the declarations matters, and applying it twice
  changes nothing.
\<close>

theorem aliased_name_spec:
  "aliased_name names name = best_name (declared names) name \<and>
   aliased_name names (aliased_name names name) = aliased_name names name"
proof -
  have spec: "aliased_name names name = best_name (declared names) name" for name
  proof -
    let ?ix = "fold index_name names (Map.empty, [])" and ?D = "declared names"
    note ix = index_declared [of names]
    have e: "[] \<notin> ?D" "names = [] \<Longrightarrow> ?D = {}" by (auto simp: declared_def)
    have d: "list_ex (\<lambda>n. trim_space n = name) names \<longleftrightarrow> name \<in> ?D" if "name \<noteq> []"
      using that by (auto simp: declared_def list_ex_iff)
    have p: "pick_alias ?ix [] grp = only (spellings ?D (set (map to_lower grp)))" for grp
      using pick_alias_only [OF ix e(1), of "[]" "{}"] by simp
    have "the_elem (spellings ?D L) \<noteq> []" if "is_singleton (spellings ?D L)" for L
      using that e(1) by (elim is_singletonE) (auto simp: spellings_def)
    then have o: "(if only (spellings ?D L) = [] then name else only (spellings ?D L)) =
        (if is_singleton (spellings ?D L) then the_elem (spellings ?D L) else name)" for L
      by (cases "is_singleton (spellings ?D L)") (simp_all add: only_def)
    show ?thesis
    proof (cases "name = [] \<or> names = [] \<or> name \<in> ?D")
      case True
      with d e show ?thesis
        by (auto simp: aliased_name_def best_name_def spellings_def is_singleton_def split: option.splits)
    next
      case False
      with d indexes_single [OF ix, of "to_lower name"] show ?thesis
        by (auto simp: aliased_name_def best_name_def Let_def p o split: option.splits)
    qed
  qed
  have "best_name D (best_name D name) = best_name D name" for D
  proof -
    have "the_elem (spellings D L) \<in> D" if "is_singleton (spellings D L)" for L
      using that by (elim is_singletonE) (auto simp: spellings_def)
    then have "best_name D name = name \<or> best_name D name \<in> D"
      unfolding best_name_def Let_def by (simp split: option.splits)
    moreover have "best_name D x = x" if "x \<in> D" for x using that by (simp add: best_name_def)
    ultimately show ?thesis by metis
  qed
  with spec show ?thesis by simp
qed

end
