(* ===== verification/NativeTools.thy ===== *)
theory NativeTools
  imports Complex_Main ClientTools JsonRoundtrip
begin

text \<open>
  The arguments of Cursor's own tools in the client's schema, from
  \<^verbatim>\<open>translator/native_tool_adapter.go\<close>, and the quoting of paths for the shell. A protobuf message is the
  record of the fields the code reads, as its getters give them (zero for an absent field); the
  oneof of a tool call is a datatype. A \<^verbatim>\<open>float64\<close> time-out is a rational.
\<close>

subsection \<open>Tool calls on the wire\<close>

record shell_args =
  sh_command :: string
  sh_working_directory :: string

record read_args =
  rd_path :: string
  rd_offset :: int
  rd_limit :: int

record edit_args =
  ed_path :: string
  ed_stream_content :: string

record grep_args =
  gr_pattern :: string
  gr_path :: string
  gr_glob :: string
  gr_output_mode :: string

record ls_args =
  ls_path :: string
  ls_ignore :: "string list"

record glob_args =
  gb_pattern :: string
  gb_target_directory :: string

record fetch_args =
  fe_url :: string
  fe_tool_call_id :: string

record search_args =
  se_search_term :: string
  se_tool_call_id :: string

record pi_write_args =
  pw_path :: string
  pw_content :: string

record pi_bash_args =
  pb_command :: string
  pb_timeout :: rat

record pi_edit_args =
  pe_path :: string
  pe_edits :: "(string \<times> string) list"

record pi_find_args =
  pf_pattern :: string
  pf_path :: string

record pi_grep_args =
  pg_pattern :: string
  pg_path :: string
  pg_glob :: string

record todo_item =
  to_id :: string
  to_content :: string
  to_status :: int
  to_dependencies :: "string list"

record plan_args =
  pl_name :: string
  pl_overview :: string
  pl_plan :: string
  pl_is_project :: bool
  pl_todos :: "todo_item list"
  pl_phases :: "(string \<times> todo_item list) list"

record update_todos_args =
  ut_todos :: "todo_item list"
  ut_merge :: bool

record read_todos_args =
  rt_status_filter :: "int list"
  rt_id_filter :: "string list"

record task_args =
  ta_description :: string
  ta_prompt :: string
  ta_model :: string
  ta_resume :: string
  ta_agent_id :: string
  ta_attachments :: "string list"
  ta_responding_to :: "string list"

record mcp_args =
  mc_name :: string
  mc_tool_name :: string
  mc_tool_call_id :: string
  mc_args :: "(string \<times> string) list"

datatype fetch_result = Fetch_Success string string | Fetch_Error string string | Fetch_Unset

datatype web_fetch_result =
  Web_Fetch_Success string string | Web_Fetch_Error string string | Web_Fetch_Rejected string | Web_Fetch_Unset

datatype search_result =
  Search_Success "web_search_result list" | Search_Error string | Search_Rejected string | Search_Unset

text \<open>The branches the code names, and any other by the JSON name of its field.\<close>

datatype tool =
    Shell_Tool "shell_args option" | Read_Tool "read_args option" | Edit_Tool "edit_args option"
  | Grep_Tool "grep_args option" | Ls_Tool "ls_args option" | Glob_Tool "glob_args option"
  | Delete_Tool "string option" | Fetch_Tool "fetch_args option" "fetch_result option"
  | Web_Fetch_Tool "fetch_args option" "web_fetch_result option"
  | Web_Search_Tool "search_args option" "search_result option" | Ask_Question_Tool
  | Pi_Write_Tool "pi_write_args option" | Pi_Bash_Tool "pi_bash_args option" | Pi_Edit_Tool "pi_edit_args option"
  | Pi_Read_Tool "read_args option" | Pi_Find_Tool "pi_find_args option" | Pi_Grep_Tool "pi_grep_args option"
  | Pi_Ls_Tool "string option" | Create_Plan_Tool "plan_args option"
  | Update_Todos_Tool "update_todos_args option" | Read_Todos_Tool "read_todos_args option"
  | Task_Tool "task_args option" | Mcp_Tool "mcp_args option" | Other_Tool string

record tool_call =
  tc_tool_call_id :: "string option"
  tc_started_at_ms :: "nat option"
  tc_completed_at_ms :: "nat option"
  tc_tool :: "tool option"

subsection \<open>Quoting for the shell\<close>

text \<open>The runes of a string as \<^verbatim>\<open>range\<close> gives them and \<^verbatim>\<open>string(r)\<close> writes them back.\<close>

function runes :: "string \<Rightarrow> string list" where
  "runes [] = []"
| "runes (c # s) =
     (let w = rune_width (c # s) in
      (if byte_of c < 0x80 then [c] else if w = 1 then rune_error else take w (c # s)) # runes (drop w (c # s)))"
  by pat_completeness auto
termination
proof (relation "measure length", goal_cases)
  case (2 c s w)
  then show ?case using rune_width_pos [of "c # s"] by auto
qed auto

definition quote_char :: char where
  "quote_char = CHR 0x27"

definition shell_quote :: "string \<Rightarrow> string" where
  "shell_quote s =
     foldl (\<lambda>out r. if r = [quote_char] then out @ [quote_char, CHR 0x5C, quote_char, quote_char] else out @ r)
       [quote_char] (runes s) @ [quote_char]"

subsection \<open>Arguments\<close>

definition str_field :: "string \<Rightarrow> string \<Rightarrow> (string \<times> json) list" where
  "str_field k s = (if s = [] then [] else [(k, JStr s)])"

definition strs_field :: "string \<Rightarrow> string list \<Rightarrow> (string \<times> json) list" where
  "strs_field k ss = (if ss = [] then [] else [(k, JArr (map JStr ss))])"

definition int_field :: "string \<Rightarrow> int \<Rightarrow> (string \<times> json) list" where
  "int_field k i = (if i = 0 then [] else [(k, JNum (fmt_int i))])"

definition todo_status_string :: "int \<Rightarrow> string" where
  "todo_status_string s =
     (if s = 1 then ''pending'' else if s = 2 then ''in_progress'' else if s = 3 then ''completed''
      else if s = 4 then ''cancelled'' else ''unspecified'')"

definition todos_to_json :: "todo_item list \<Rightarrow> json" where
  "todos_to_json todos = JArr (map (\<lambda>t. JObj (
     str_field ''content'' (to_content t) @ strs_field ''dependencies'' (to_dependencies t) @
     str_field ''id'' (to_id t) @ [(''status'', JStr (todo_status_string (to_status t)))])) todos)"

definition todos_field :: "todo_item list \<Rightarrow> (string \<times> json) list" where
  "todos_field todos = (if todos = [] then [] else [(''todos'', todos_to_json todos)])"

definition read_fields :: "read_args \<Rightarrow> json" where
  "read_fields a = JObj ([(''file_path'', JStr (rd_path a))] @ int_field ''limit'' (rd_limit a) @
     int_field ''offset'' (rd_offset a))"

definition delete_command :: "string \<Rightarrow> string" where
  "delete_command path = ''rm -rf '' @ shell_quote path"

definition plan_fields :: "plan_args \<Rightarrow> json" where
  "plan_fields a = JObj ((if pl_is_project a then [(''is_project'', JBool True)] else []) @
     str_field ''name'' (pl_name a) @ str_field ''overview'' (pl_overview a) @
     (if pl_phases a = [] then [] else [(''phases'', JArr (map (\<lambda>(n, td).
        JObj (str_field ''name'' n @ todos_field td)) (pl_phases a)))]) @
     str_field ''plan'' (pl_plan a) @ todos_field (pl_todos a))"

definition task_fields :: "task_args \<Rightarrow> json" where
  "task_fields a = JObj (str_field ''agent_id'' (ta_agent_id a) @ strs_field ''attachments'' (ta_attachments a) @
     str_field ''description'' (ta_description a) @ str_field ''model'' (ta_model a) @
     str_field ''prompt'' (ta_prompt a) @ strs_field ''responding_to_message_ids'' (ta_responding_to a) @
     str_field ''resume'' (ta_resume a))"

text \<open>
  One branch per tool; None where the adapter has no arguments to give, an empty object where the
  call carries none. Members are in the order in which a Go map is printed.
\<close>

definition native_args :: "tool \<Rightarrow> json option" where
  "native_args t =
     (case t of
        Shell_Tool a \<Rightarrow> Some (case a of None \<Rightarrow> JObj [] | Some a \<Rightarrow>
          JObj ([(''command'', JStr (sh_command a))] @
            (if sh_working_directory a \<noteq> []
             then [(''description'', JStr (''Run in '' @ sh_working_directory a))] else [])))
      | Read_Tool a \<Rightarrow> Some (case a of None \<Rightarrow> JObj [] | Some a \<Rightarrow> read_fields a)
      | Edit_Tool a \<Rightarrow> Some (case a of None \<Rightarrow> JObj [] | Some a \<Rightarrow>
          JObj [(''content'', JStr (ed_stream_content a)), (''file_path'', JStr (ed_path a))])
      | Grep_Tool a \<Rightarrow> Some (case a of None \<Rightarrow> JObj [] | Some a \<Rightarrow>
          JObj (str_field ''glob'' (gr_glob a) @ str_field ''output_mode'' (gr_output_mode a) @
            str_field ''path'' (gr_path a) @ [(''pattern'', JStr (gr_pattern a))]))
      | Ls_Tool a \<Rightarrow> Some (case a of None \<Rightarrow> JObj [] | Some a \<Rightarrow>
          JObj (strs_field ''ignore'' (ls_ignore a) @ [(''path'', JStr (ls_path a))]))
      | Glob_Tool a \<Rightarrow> Some (case a of None \<Rightarrow> JObj [] | Some a \<Rightarrow>
          JObj (str_field ''path'' (gb_target_directory a) @ [(''pattern'', JStr (gb_pattern a))]))
      | Delete_Tool a \<Rightarrow> Some (case a of None \<Rightarrow> JObj [] | Some path \<Rightarrow>
          JObj [(''command'', JStr (delete_command path)), (''description'', JStr (''Delete '' @ path))])
      | Fetch_Tool a _ \<Rightarrow> Some (case a of None \<Rightarrow> JObj [] | Some a \<Rightarrow> JObj [(''url'', JStr (fe_url a))])
      | Pi_Write_Tool a \<Rightarrow> Some (case a of None \<Rightarrow> JObj [] | Some a \<Rightarrow>
          JObj [(''content'', JStr (pw_content a)), (''file_path'', JStr (pw_path a))])
      | Pi_Bash_Tool a \<Rightarrow> Some (case a of None \<Rightarrow> JObj [] | Some a \<Rightarrow>
          JObj ([(''command'', JStr (pb_command a))] @
            (if pb_timeout a > 0 then [(''timeout_ms'', JNum (fmt_int \<lfloor>pb_timeout a * 1000\<rfloor>))] else [])))
      | Pi_Edit_Tool a \<Rightarrow> Some (case a of None \<Rightarrow> JObj [] | Some a \<Rightarrow>
          JObj ((if pe_edits a = [] then [] else [(''edits'', JArr (map (\<lambda>(old, new).
             JObj [(''new_string'', JStr new), (''old_string'', JStr old)]) (pe_edits a)))]) @
            [(''file_path'', JStr (pe_path a))]))
      | Pi_Read_Tool a \<Rightarrow> Some (case a of None \<Rightarrow> JObj [] | Some a \<Rightarrow> read_fields a)
      | Pi_Find_Tool a \<Rightarrow> Some (case a of None \<Rightarrow> JObj [] | Some a \<Rightarrow>
          JObj (str_field ''path'' (pf_path a) @ [(''pattern'', JStr (pf_pattern a))]))
      | Pi_Grep_Tool a \<Rightarrow> Some (case a of None \<Rightarrow> JObj [] | Some a \<Rightarrow>
          JObj (str_field ''glob'' (pg_glob a) @ str_field ''path'' (pg_path a) @
            [(''pattern'', JStr (pg_pattern a))]))
      | Pi_Ls_Tool a \<Rightarrow> Some (case a of None \<Rightarrow> JObj [] | Some path \<Rightarrow> JObj (str_field ''path'' path))
      | Create_Plan_Tool a \<Rightarrow> Some (case a of None \<Rightarrow> JObj [] | Some a \<Rightarrow> plan_fields a)
      | Update_Todos_Tool a \<Rightarrow> Some (case a of None \<Rightarrow> JObj [] | Some a \<Rightarrow>
          JObj ((if ut_merge a then [(''merge'', JBool True)] else []) @ todos_field (ut_todos a)))
      | Read_Todos_Tool a \<Rightarrow> Some (case a of None \<Rightarrow> JObj [] | Some a \<Rightarrow>
          JObj (strs_field ''id_filter'' (rt_id_filter a) @
            strs_field ''status_filter'' (map todo_status_string (rt_status_filter a))))
      | Task_Tool a \<Rightarrow> Some (case a of None \<Rightarrow> JObj [] | Some a \<Rightarrow> task_fields a)
      | _ \<Rightarrow> None)"

definition map_native_tool_args_json :: "tool_call option \<Rightarrow> string" where
  "map_native_tool_args_json tc =
     (case Option.bind (Option.bind tc tc_tool) native_args of None \<Rightarrow> [] | Some v \<Rightarrow> print_json v)"

end
