(* ===== verification/NativeArgs.thy ===== *)
theory NativeArgs
  imports NativeTools
begin

text \<open>
  What clients read from the arguments of NativeTools: the JSON text parses to the object that was
  built, and the command that stands for a deletion is three words for the shell, whatever the path.
\<close>

subsection \<open>Numbers and values\<close>

lemma nat_digits_head: "0 < n \<Longrightarrow> hd (nat_digits n) \<noteq> CHR ''0''"
proof (induction n rule: nat_digits.induct)
  case (1 n)
  show ?case
  proof (cases "n < 10")
    case True
    have "n < 10 \<Longrightarrow> 0 < n \<Longrightarrow> char_of (48 + n) \<noteq> CHR ''0''"
      using byte_of_char_of [of "48 + n"] by (auto simp: byte_of_def dest!: arg_cong [where f = byte_of])
    with True "1.prems" show ?thesis by (simp add: nat_digits.simps [of n])
  next
    case False
    with 1 show ?thesis by (simp add: nat_digits.simps [of n])
  qed
qed

lemma take_all_digits: "list_all is_digit ds \<Longrightarrow> take_digits ds = (ds, [])"
  by (simp add: take_digits_def list_all_iff)

lemma nat_digits_literal:
  "parse_int_part (nat_digits n) = Some (nat_digits n, [])" "hd (nat_digits n) \<noteq> CHR ''-''"
proof -
  have d: "list_all is_digit (nat_digits n)" using nat_digits_value by blast
  obtain c t where n: "nat_digits n = c # t" by (cases "nat_digits n") auto
  with d have c: "is_digit c" by simp
  then show "hd (nat_digits n) \<noteq> CHR ''-''" using n digit_facts by auto
  show "parse_int_part (nat_digits n) = Some (nat_digits n, [])"
  proof (cases "n = 0")
    case True
    have "byte_of (char_of (48::nat)) = byte_of CHR ''0''" by (simp add: byte_of_char_of) (simp add: byte_of_def)
    then have "char_of (48::nat) = CHR ''0''" by (simp only: byte_of_inj)
    then have "nat_digits n = ''0''" using True by (simp add: nat_digits.simps [of 0])
    then show ?thesis by (simp add: parse_int_part_def)
  next
    case False
    then have "c \<noteq> CHR ''0''" using nat_digits_head [of n] n by simp
    then show ?thesis using c n d by (simp add: parse_int_part_def take_all_digits)
  qed
qed

lemma fmt_int_literal: "number_literal (fmt_int i)"
  using nat_digits_literal [of "nat (- i)"] nat_digits_literal [of "nat i"]
  by (auto simp: number_literal_def parse_number_def case_byte fmt_int_def parse_frac_def parse_exp_def Let_def)

lemma numbers_ok_fields [simp]:
  "(a, b) \<in> set (str_field k s) \<Longrightarrow> numbers_ok b"
  "(a, b) \<in> set (strs_field k ss) \<Longrightarrow> numbers_ok b"
  "(a, b) \<in> set (int_field k i) \<Longrightarrow> numbers_ok b"
  by (auto simp: str_field_def strs_field_def int_field_def fmt_int_literal split: if_splits)

lemma numbers_ok_todos: "(a, b) \<in> set (todos_field ts) \<Longrightarrow> numbers_ok b"
  by (auto simp: todos_field_def todos_to_json_def split: if_splits)

lemma native_args_numbers: "native_args t = Some v \<Longrightarrow> numbers_ok v"
  by (cases t) (auto simp: native_args_def read_fields_def plan_fields_def task_fields_def fmt_int_literal
      numbers_ok_todos split: option.splits if_splits)

text \<open>Valid strings come back unchanged.\<close>

fun strings_ok :: "json \<Rightarrow> bool" where
  "strings_ok (JStr s) = valid_utf8 s"
| "strings_ok (JArr vs) = (\<forall>v \<in> set vs. strings_ok v)"
| "strings_ok (JObj ms) = (\<forall>m \<in> set ms. valid_utf8 (fst m) \<and> strings_ok (snd m))"
| "strings_ok JNull = True"
| "strings_ok (JBool b) = True"
| "strings_ok (JNum n) = True"

lemma scrub_id: "strings_ok v \<Longrightarrow> scrub v = v"
  by (induction v rule: strings_ok.induct) (auto simp: valid_utf8_def intro!: map_idI)


subsection \<open>The deletion as a shell command\<close>

text \<open>
  How a POSIX shell splits a simple command into words: single quotes, the backslash outside of
  them, blanks. Every other character with a meaning for the shell makes the reading fail. The
  word under construction is None between words.
\<close>

definition shell_special :: "char \<Rightarrow> bool" where
  "shell_special c \<longleftrightarrow> c \<in> set ''|&;<>()$`*?[#~=%!{}'' \<or> c = CHR 0x22 \<or> c = CHR 0x0A"

fun shell_words :: "bool \<Rightarrow> string option \<Rightarrow> string \<Rightarrow> string list option" where
  "shell_words quoted w [] = (if quoted then None else Some (case w of None \<Rightarrow> [] | Some x \<Rightarrow> [x]))"
| "shell_words True w (c # s) =
     (if c = quote_char then shell_words False w s
      else shell_words True (Some (case w of None \<Rightarrow> [c] | Some x \<Rightarrow> x @ [c])) s)"
| "shell_words False w (c # s) =
     (if c = quote_char then shell_words True (Some (case w of None \<Rightarrow> [] | Some x \<Rightarrow> x)) s
      else if c = CHR '' '' \<or> c = CHR 0x09
        then map_option (\<lambda>ws. (case w of None \<Rightarrow> ws | Some x \<Rightarrow> x # ws)) (shell_words False None s)
      else if c = CHR 0x5C then
        (case s of [] \<Rightarrow> None
         | d # t \<Rightarrow> if d = CHR 0x0A then None
                   else shell_words False (Some (case w of None \<Rightarrow> [d] | Some x \<Rightarrow> x @ [d])) t)
      else if shell_special c then None
      else shell_words False (Some (case w of None \<Rightarrow> [c] | Some x \<Rightarrow> x @ [c])) s)"

definition quoted_rune :: "string \<Rightarrow> string" where
  "quoted_rune r = (if r = [quote_char] then [quote_char, CHR 0x5C, quote_char, quote_char] else r)"

lemma shell_quote_runes: "shell_quote s = quote_char # concat (map quoted_rune (runes s)) @ [quote_char]"
proof -
  have "foldl (\<lambda>out r. if r = [quote_char] then out @ [quote_char, CHR 0x5C, quote_char, quote_char] else out @ r) out rs
      = out @ concat (map quoted_rune rs)" for out rs
    by (induction rs arbitrary: out) (simp_all add: quoted_rune_def)
  then show ?thesis by (simp add: shell_quote_def)
qed

lemma concat_runes: "concat (runes s) = scrub_string s"
  by (induction s rule: runes.induct) (simp_all add: Let_def del: rune_width.simps)

lemma rune_bytes:
  assumes "\<not> byte_of c < 0x80" "rune_width (c # s) \<noteq> 1" "d \<in> set (take (rune_width (c # s)) (c # s))"
  shows "0x80 \<le> byte_of d"
proof -
  obtain lo hi where r: "second_range (byte_of c) = (lo, hi)" by (cases "second_range (byte_of c)")
  let ?n = "rune_need (byte_of c)"
  have lo: "0x80 \<le> lo" using r by (auto simp: second_range_def split: if_splits)
  have w: "rune_width (c # s) = (if ?n \<le> 1 \<or> length s < ?n - 1 then 1
      else if in_range lo hi (s ! 0) \<and> (\<forall>i \<in> set [1 ..< ?n - 1]. in_range 0x80 0xBF (s ! i)) then ?n else 1)"
    by (simp only: rune_width.simps Let_def r prod.case)
  then have n: "rune_width (c # s) = ?n" "\<not> ?n \<le> 1" "in_range lo hi (s ! 0)"
    "\<forall>i \<in> set [1 ..< ?n - 1]. in_range 0x80 0xBF (s ! i)"
    using assms(2) by presburger+
  from assms(3) obtain i where i: "i < ?n" "i < length (c # s)" "d = (c # s) ! i"
    unfolding n(1) by (auto simp: in_set_conv_nth)
  consider "i = 0" | "i = 1" | j where "i = Suc j" "0 < j" by (cases i) force+
  then show ?thesis
  proof cases
    case 3
    then have "j \<in> set [1 ..< ?n - 1]" using i by auto
    from bspec [OF n(4) this] 3 i show ?thesis by (simp add: in_range_def)
  qed (use i n(3) lo assms(1) in \<open>auto simp: in_range_def\<close>)
qed

lemma quote_ascii: "byte_of quote_char < 0x80"
  by (simp add: quote_char_def byte_of_def)

lemma rune_error_quote: "quote_char \<notin> set rune_error"
proof -
  have "\<forall>c \<in> set rune_error. 0x80 \<le> byte_of c"
    by (simp add: rune_error_def utf8_encode_def byte_of_char_of)
  then show ?thesis using quote_ascii by fastforce
qed

text \<open>No rune but the quote itself contains a quote: multi-byte runes are bytes above 127.\<close>

lemma rune_quote: "r \<in> set (runes s) \<Longrightarrow> r \<noteq> [quote_char] \<Longrightarrow> quote_char \<notin> set r"
proof (induction s rule: runes.induct)
  case (2 c s)
  let ?w = "rune_width (c # s)"
  have "quote_char \<notin> set (if byte_of c < 0x80 then [c] else if ?w = 1 then rune_error else take ?w (c # s))"
    if "(if byte_of c < 0x80 then [c] else if ?w = 1 then rune_error else take ?w (c # s)) \<noteq> [quote_char]"
  proof (cases "byte_of c < 0x80")
    case True
    with that show ?thesis by simp
  next
    case False
    show ?thesis
    proof (cases "?w = 1")
      case True
      with False show ?thesis using rune_error_quote by (simp del: rune_width.simps)
    next
      case w: False
      have "0x80 \<le> byte_of d" if d: "d \<in> set (take ?w (c # s))" for d
        using rune_bytes [OF False w] d by simp
      then have "quote_char \<notin> set (take ?w (c # s))" using quote_ascii by fastforce
      then show ?thesis using False w by (simp del: rune_width.simps)
    qed
  qed
  with 2 show ?case by (auto simp: Let_def simp del: rune_width.simps)
qed simp

lemma shell_words_quoted:
  "quote_char \<notin> set r \<Longrightarrow> shell_words True (Some x) (r @ t) = shell_words True (Some (x @ r)) t"
  by (induction r arbitrary: x) auto

lemma shell_words_quote:
  "shell_words True (Some x) ([quote_char, CHR 0x5C, quote_char, quote_char] @ t) =
     shell_words True (Some (x @ [quote_char])) t"
  by (simp add: quote_char_def)

lemma shell_words_runes:
  "(\<And>r. r \<in> set rs \<Longrightarrow> r = [quote_char] \<or> quote_char \<notin> set r) \<Longrightarrow>
     shell_words True (Some x) (concat (map quoted_rune rs) @ t) = shell_words True (Some (x @ concat rs)) t"
proof (induction rs arbitrary: x)
  case (Cons r rs)
  have "shell_words True (Some x) (quoted_rune r @ u) = shell_words True (Some (x @ r)) u" for u
    using Cons.prems [of r] shell_words_quoted shell_words_quote by (auto simp: quoted_rune_def)
  with Cons show ?case by simp
qed simp

text \<open>
  C20: A path cannot break out of the command. The command that a deletion becomes is read by the
  shell as the three words \<^verbatim>\<open>rm\<close>, \<^verbatim>\<open>-rf\<close> and the path itself, whatever characters the path has
  (bytes that are no UTF-8 are replaced).
\<close>

theorem delete_command_words:
  "shell_words False None (delete_command path) = Some [''rm'', ''-rf'', scrub_string path]"
proof -
  have "shell_words False None (shell_quote path) = shell_words True (Some []) (concat (map quoted_rune (runes path)) @ [quote_char])"
    by (simp add: shell_quote_runes)
  also have "\<dots> = Some [scrub_string path]"
    using shell_words_runes [of "runes path" "[]" "[quote_char]"] rune_quote by (auto simp: concat_runes)
  finally have q: "shell_words False None (shell_quote path) = Some [scrub_string path]" .
  have "shell_words False None (''rm -rf '' @ u) = map_option (\<lambda>ws. ''rm'' # ''-rf'' # ws) (shell_words False None u)" for u
    by (simp add: quote_char_def shell_special_def option.map_comp comp_def)
  then show ?thesis by (simp add: delete_command_def q)
qed

end
