(* ===== verification/ServerMessages.thy ===== *)
theory ServerMessages
  imports NativeArgs
begin

text \<open>
  \<^verbatim>\<open>FromServerMessage\<close> of \<^verbatim>\<open>translator/events.go\<close> and the functions it uses: what one message of the
  upstream stream means as an event. A message is a datatype of the branches the code looks at.
  \<open>pb_value\<close> stands for decoding a protobuf \<^verbatim>\<open>Value\<close> and printing it as JSON; it is None when
  the bytes are no such value.
\<close>

subsection \<open>Messages\<close>

datatype interaction_update =
    Upd_Text string | Upd_Thinking string
  | Upd_Call_Started string "tool_call option" | Upd_Call_Delta string | Upd_Call_Completed string "tool_call option"
  | Upd_Turn_Ended int int int int int | Upd_Step_Started | Upd_Step_Completed | Upd_Heartbeat | Upd_Other

datatype interaction_query =
    Query_Web_Search "search_args option" | Query_Web_Fetch "fetch_args option" | Query_Other

datatype server_message =
    Msg_Mcp_Exec mcp_args | Msg_Other_Exec | Msg_Query interaction_query
  | Msg_Update interaction_update | Msg_Kv string | Msg_Other

subsection \<open>Arguments and names\<close>

fun pick_first_non_empty :: "string list \<Rightarrow> string" where
  "pick_first_non_empty [] = []"
| "pick_first_non_empty (v # vals) = (if v \<noteq> [] then v else pick_first_non_empty vals)"

definition decode_mcp_arg_value :: "(string \<Rightarrow> string option) \<Rightarrow> string \<Rightarrow> string" where
  "decode_mcp_arg_value pb_value raw =
     (if raw = [] then ''null''
      else case pb_value raw of
        Some b \<Rightarrow> b
      | None \<Rightarrow> if json_valid raw then raw else print_string raw)"

definition encode_mcp_args :: "(string \<Rightarrow> string option) \<Rightarrow> (string \<times> string) list \<Rightarrow> string" where
  "encode_mcp_args pb_value args =
     (if args = [] then ''{}''
      else ''{'' @ join_str '','' (map (\<lambda>k. print_string k @ '':'' @
             decode_mcp_arg_value pb_value (the (map_of args k))) (sort (map fst args))) @ ''}'')"

definition mcp_args_to_json :: "(string \<Rightarrow> string option) \<Rightarrow> mcp_args option \<Rightarrow> string" where
  "mcp_args_to_json pb_value a = (case a of None \<Rightarrow> [] | Some a \<Rightarrow> encode_mcp_args pb_value (mc_args a))"

text \<open>The JSON name of the field a branch of the oneof is stored in.\<close>

fun tool_json_name :: "tool \<Rightarrow> string" where
  "tool_json_name (Shell_Tool _) = ''shellToolCall''"
| "tool_json_name (Read_Tool _) = ''readToolCall''"
| "tool_json_name (Edit_Tool _) = ''editToolCall''"
| "tool_json_name (Grep_Tool _) = ''grepToolCall''"
| "tool_json_name (Ls_Tool _) = ''lsToolCall''"
| "tool_json_name (Glob_Tool _) = ''globToolCall''"
| "tool_json_name (Delete_Tool _) = ''deleteToolCall''"
| "tool_json_name (Fetch_Tool _ _) = ''fetchToolCall''"
| "tool_json_name (Web_Fetch_Tool _ _) = ''webFetchToolCall''"
| "tool_json_name (Web_Search_Tool _ _) = ''webSearchToolCall''"
| "tool_json_name Ask_Question_Tool = ''askQuestionToolCall''"
| "tool_json_name (Pi_Write_Tool _) = ''piWriteToolCall''"
| "tool_json_name (Pi_Bash_Tool _) = ''piBashToolCall''"
| "tool_json_name (Pi_Edit_Tool _) = ''piEditToolCall''"
| "tool_json_name (Pi_Read_Tool _) = ''piReadToolCall''"
| "tool_json_name (Pi_Find_Tool _) = ''piFindToolCall''"
| "tool_json_name (Pi_Grep_Tool _) = ''piGrepToolCall''"
| "tool_json_name (Pi_Ls_Tool _) = ''piLsToolCall''"
| "tool_json_name (Create_Plan_Tool _) = ''createPlanToolCall''"
| "tool_json_name (Update_Todos_Tool _) = ''updateTodosToolCall''"
| "tool_json_name (Read_Todos_Tool _) = ''readTodosToolCall''"
| "tool_json_name (Task_Tool _) = ''taskToolCall''"
| "tool_json_name (Mcp_Tool _) = ''mcpToolCall''"
| "tool_json_name (Other_Tool name) = name"

text \<open>
  The first oneof of the message that is set. The optional scalar fields are oneofs of their own
  in the descriptor and come after \<^verbatim>\<open>tool\<close>.
\<close>

definition oneof_branch_name :: "tool_call \<Rightarrow> string" where
  "oneof_branch_name tc =
     (case tc_tool tc of
        Some t \<Rightarrow> trim_suffix (tool_json_name t) ''ToolCall''
      | None \<Rightarrow>
          if tc_tool_call_id tc \<noteq> None then trim_suffix ''toolCallId'' ''ToolCall''
          else if tc_started_at_ms tc \<noteq> None then trim_suffix ''startedAtMs'' ''ToolCall''
          else if tc_completed_at_ms tc \<noteq> None then trim_suffix ''completedAtMs'' ''ToolCall''
          else [])"

definition known_tool_type :: "tool \<Rightarrow> string option" where
  "known_tool_type t =
     (case t of
        Shell_Tool _ \<Rightarrow> Some ''shell'' | Read_Tool _ \<Rightarrow> Some ''read'' | Delete_Tool _ \<Rightarrow> Some ''delete''
      | Grep_Tool _ \<Rightarrow> Some ''grep'' | Ls_Tool _ \<Rightarrow> Some ''ls'' | Glob_Tool _ \<Rightarrow> Some ''glob''
      | Fetch_Tool _ _ \<Rightarrow> Some ''fetch'' | Web_Fetch_Tool _ _ \<Rightarrow> Some ''fetch'' | Edit_Tool _ \<Rightarrow> Some ''edit''
      | Ask_Question_Tool \<Rightarrow> Some ''ask_question'' | Pi_Write_Tool _ \<Rightarrow> Some ''pi_write''
      | Pi_Bash_Tool _ \<Rightarrow> Some ''pi_bash'' | Pi_Edit_Tool _ \<Rightarrow> Some ''pi_edit'' | Pi_Read_Tool _ \<Rightarrow> Some ''pi_read''
      | Pi_Find_Tool _ \<Rightarrow> Some ''pi_find'' | Pi_Grep_Tool _ \<Rightarrow> Some ''pi_grep'' | Pi_Ls_Tool _ \<Rightarrow> Some ''pi_ls''
      | Create_Plan_Tool _ \<Rightarrow> Some ''create_plan'' | Update_Todos_Tool _ \<Rightarrow> Some ''update_todos''
      | Read_Todos_Tool _ \<Rightarrow> Some ''read_todos'' | Task_Tool _ \<Rightarrow> Some ''task'' | _ \<Rightarrow> None)"

text \<open>The last resort, a field of the message named like a name, finds none in the current schema.\<close>

definition extract_tool_name :: "tool_call option \<Rightarrow> string" where
  "extract_tool_name tc =
     (case tc of None \<Rightarrow> []
      | Some tc \<Rightarrow>
          (case tc_tool tc of
             Some (Mcp_Tool a) \<Rightarrow>
               (case a of None \<Rightarrow> []
                | Some a \<Rightarrow> restore_mcp_tool_name (if mc_tool_name a = [] then mc_name a else mc_tool_name a))
           | t \<Rightarrow>
               (case Option.bind t known_tool_type of
                  Some k \<Rightarrow> client_name_for_cursor_tool k | None \<Rightarrow> oneof_branch_name tc)))"

definition extract_tool_call_id :: "tool_call option \<Rightarrow> string" where
  "extract_tool_call_id tc =
     (case tc of None \<Rightarrow> []
      | Some tc \<Rightarrow>
          (case tc_tool_call_id tc of
             Some (c # s) \<Rightarrow> c # s
           | _ \<Rightarrow> (case tc_tool tc of Some (Mcp_Tool (Some a)) \<Rightarrow> mc_tool_call_id a | _ \<Rightarrow> [])))"

definition extract_tool_args_from_start :: "(string \<Rightarrow> string option) \<Rightarrow> tool_call option \<Rightarrow> string" where
  "extract_tool_args_from_start pb_value tc =
     (case tc of None \<Rightarrow> []
      | Some c \<Rightarrow>
          (case tc_tool c of
             Some (Mcp_Tool a) \<Rightarrow> mcp_args_to_json pb_value a
           | _ \<Rightarrow> let native = map_native_tool_args_json tc in if native \<noteq> [] then native else ''{}''))"

definition extract_tool_args_delta :: "unit \<Rightarrow> string" where
  "extract_tool_args_delta d = []"

subsection \<open>Events\<close>

definition call_id_event :: "event_kind \<Rightarrow> string \<Rightarrow> string \<Rightarrow> event" where
  "call_id_event k cid name =
     (event_of k)\<lparr>ev_tool_call_id := sanitize_tool_call_id cid, ev_tool_name := name\<rparr>"

definition query_json :: "string \<Rightarrow> string \<Rightarrow> string" where
  "query_json key value = print_json (JObj [(key, JStr value)])"

definition event_from_interaction_query :: "interaction_query \<Rightarrow> event option" where
  "event_from_interaction_query q =
     (case q of
        Query_Web_Search a \<Rightarrow>
          (let (term, cid) = (case a of None \<Rightarrow> ([], []) | Some a \<Rightarrow> (se_search_term a, se_tool_call_id a)) in
           Some ((call_id_event EventServerToolPermission cid ''web_search'')
             \<lparr>ev_tool_args_delta := query_json ''query'' term\<rparr>))
      | Query_Web_Fetch a \<Rightarrow>
          (let (url, cid) = (case a of None \<Rightarrow> ([], []) | Some a \<Rightarrow> (fe_url a, fe_tool_call_id a)) in
           Some ((call_id_event EventServerToolPermission cid ''web_fetch'')
             \<lparr>ev_tool_args_delta := query_json ''url'' url\<rparr>))
      | Query_Other \<Rightarrow> None)"

definition hit :: "string \<Rightarrow> string \<Rightarrow> string \<Rightarrow> web_search_result" where
  "hit title url chunk = \<lparr>wr_title = title, wr_url = url, wr_chunk = chunk\<rparr>"

definition fetch_result_event :: "string \<Rightarrow> tool_call option \<Rightarrow> event option" where
  "fetch_result_event call_id tc =
     (let id_of = (\<lambda>a. pick_first_non_empty [call_id, (case a of None \<Rightarrow> [] | Some a \<Rightarrow> fe_tool_call_id a)]);
          ev = (\<lambda>a. call_id_event EventWebSearchResult (id_of a) ''web_fetch'');
          no_result = (\<lambda>a. case a of None \<Rightarrow> ev a | Some x \<Rightarrow> (ev a)\<lparr>ev_web_results := [hit [] (fe_url x) []]\<rparr>) in
      case Option.bind tc tc_tool of
        Some (Fetch_Tool a r) \<Rightarrow>
          Some (case r of
            None \<Rightarrow> no_result a
          | Some (Fetch_Success url content) \<Rightarrow> (ev a)\<lparr>ev_web_results := [hit url url content]\<rparr>
          | Some (Fetch_Error url err) \<Rightarrow> (ev a)\<lparr>ev_tool_error := err, ev_web_results := [hit [] url []]\<rparr>
          | Some Fetch_Unset \<Rightarrow> ev a)
      | Some (Web_Fetch_Tool a r) \<Rightarrow>
          Some (case r of
            None \<Rightarrow> no_result a
          | Some (Web_Fetch_Success url markdown) \<Rightarrow> (ev a)\<lparr>ev_web_results := [hit url url markdown]\<rparr>
          | Some (Web_Fetch_Error url err) \<Rightarrow> (ev a)\<lparr>ev_tool_error := err, ev_web_results := [hit [] url []]\<rparr>
          | Some (Web_Fetch_Rejected reason) \<Rightarrow> (ev a)\<lparr>ev_tool_error := reason\<rparr>
          | Some Web_Fetch_Unset \<Rightarrow> ev a)
      | _ \<Rightarrow> None)"

definition web_search_completed :: "string \<Rightarrow> search_args option \<Rightarrow> search_result option \<Rightarrow> event" where
  "web_search_completed call_id a r =
     (let ev = call_id_event EventWebSearchResult (pick_first_non_empty
          [call_id, (case a of None \<Rightarrow> [] | Some a \<Rightarrow> se_tool_call_id a)]) ''web_search'' in
      case r of
        Some (Search_Success refs) \<Rightarrow> ev\<lparr>ev_web_results := normalize_web_search_results refs\<rparr>
      | Some (Search_Error err) \<Rightarrow> ev\<lparr>ev_tool_error := err\<rparr>
      | Some (Search_Rejected reason) \<Rightarrow> ev\<lparr>ev_tool_error := reason\<rparr>
      | _ \<Rightarrow> ev)"

definition event_of_call_started :: "(string \<Rightarrow> string option) \<Rightarrow> string \<Rightarrow> tool_call option \<Rightarrow> event option" where
  "event_of_call_started pb_value call_id tc =
     (case Option.bind tc tc_tool of
        None \<Rightarrow> None
      | Some (Mcp_Tool _) \<Rightarrow> None
      | Some (Web_Search_Tool a _) \<Rightarrow>
          Some ((call_id_event EventServerToolStarted (pick_first_non_empty
              [call_id, (case a of None \<Rightarrow> [] | Some a \<Rightarrow> se_tool_call_id a)]) ''web_search'')
            \<lparr>ev_tool_args_delta := query_json ''query'' (case a of None \<Rightarrow> [] | Some a \<Rightarrow> se_search_term a)\<rparr>)
      | Some _ \<Rightarrow>
          Some ((call_id_event EventToolCallStarted (if call_id = [] then extract_tool_call_id tc else call_id)
              (extract_tool_name tc))\<lparr>ev_tool_args_delta := extract_tool_args_from_start pb_value tc\<rparr>))"

definition event_of_call_completed :: "string \<Rightarrow> tool_call option \<Rightarrow> event" where
  "event_of_call_completed call_id tc =
     (case fetch_result_event call_id tc of
        Some ev \<Rightarrow> ev
      | None \<Rightarrow>
          (case Option.bind tc tc_tool of
             Some (Web_Search_Tool a r) \<Rightarrow> web_search_completed call_id a r
           | _ \<Rightarrow> call_id_event EventToolCallCompleted
               (if call_id = [] then extract_tool_call_id tc else call_id) (extract_tool_name tc)))"

definition event_of_update :: "(string \<Rightarrow> string option) \<Rightarrow> interaction_update \<Rightarrow> event option" where
  "event_of_update pb_value u =
     (case u of
        Upd_Text s \<Rightarrow> Some ((event_of EventTextDelta)\<lparr>ev_text := s\<rparr>)
      | Upd_Thinking s \<Rightarrow> Some ((event_of EventThinkingDelta)\<lparr>ev_text := s\<rparr>)
      | Upd_Call_Started cid tc \<Rightarrow> event_of_call_started pb_value cid tc
      | Upd_Call_Delta cid \<Rightarrow>
          Some ((call_id_event EventToolCallDelta cid [])\<lparr>ev_tool_args_delta := extract_tool_args_delta ()\<rparr>)
      | Upd_Call_Completed cid tc \<Rightarrow> Some (event_of_call_completed cid tc)
      | Upd_Turn_Ended i out cr cw rs \<Rightarrow>
          Some ((event_of EventTurnEnded)\<lparr>ev_usage := Some \<lparr>u_input = i, u_output = out, u_cache_read = cr,
            u_cache_write = cw, u_reasoning = rs, u_observed = 0, u_truncated = 0\<rparr>\<rparr>)
      | Upd_Step_Started \<Rightarrow> Some (event_of EventStepStarted)
      | Upd_Step_Completed \<Rightarrow> Some (event_of EventStepCompleted)
      | Upd_Heartbeat \<Rightarrow> Some (event_of EventHeartbeat)
      | Upd_Other \<Rightarrow> None)"

definition from_server_message :: "(string \<Rightarrow> string option) \<Rightarrow> server_message \<Rightarrow> event option" where
  "from_server_message pb_value m =
     (case m of
        Msg_Mcp_Exec a \<Rightarrow>
          Some ((call_id_event EventToolCallStarted (mc_tool_call_id a)
              (restore_mcp_tool_name (pick_first_non_empty [mc_tool_name a, mc_name a])))
            \<lparr>ev_tool_args_delta := encode_mcp_args pb_value (mc_args a)\<rparr>)
      | Msg_Query q \<Rightarrow> event_from_interaction_query q
      | Msg_Update u \<Rightarrow> event_of_update pb_value u
      | _ \<Rightarrow> None)"

text \<open>The handlers' step: the event of a message, under the name the client declared.\<close>

definition translate_event :: "(string \<Rightarrow> string option) \<Rightarrow> tool_name_dialect \<Rightarrow> string list \<Rightarrow> server_message \<Rightarrow>
    event option" where
  "translate_event pb_value dialect names m =
     map_option (apply_client_tool_contract dialect names) (from_server_message pb_value m)"

definition events_of :: "(string \<Rightarrow> string option) \<Rightarrow> tool_name_dialect \<Rightarrow> string list \<Rightarrow> server_message list \<Rightarrow>
    event list" where
  "events_of pb_value dialect names ms = List.map_filter (translate_event pb_value dialect names) ms"

subsection \<open>What every event satisfies\<close>

definition clean_id :: "string \<Rightarrow> bool" where
  "clean_id cid \<longleftrightarrow> set cid \<inter> {CHR 0x0A, CHR 0x0D} = {}"

lemma clean_id_simps [simp]: "clean_id (sanitize_tool_call_id s)" "clean_id []"
  unfolding clean_id_def by (rule sanitize_tool_call_id_set) simp

lemma encode_mcp_args_nonempty [simp]: "encode_mcp_args pb_value args \<noteq> []"
  by (simp add: encode_mcp_args_def)

lemma contract_fields [simp]:
  "ev_kind (apply_client_tool_contract d names ev) = ev_kind ev"
  "ev_text (apply_client_tool_contract d names ev) = ev_text ev"
  "ev_tool_call_id (apply_client_tool_contract d names ev) = ev_tool_call_id ev"
  "ev_tool_args_delta (apply_client_tool_contract d names ev) = ev_tool_args_delta ev"
  "ev_usage (apply_client_tool_contract d names ev) = ev_usage ev"
  by (simp_all add: apply_client_tool_contract_def apply_client_tool_alias_def Let_def split: option.splits)

lemma call_id_event_fields [simp]:
  "ev_kind (call_id_event k cid name) = k" "ev_text (call_id_event k cid name) = []"
  "ev_tool_call_id (call_id_event k cid name) = sanitize_tool_call_id cid"
  "ev_tool_name (call_id_event k cid name) = name" "ev_tool_args_delta (call_id_event k cid name) = []"
  by (simp_all add: call_id_event_def event_of_def)

lemma fetch_result_kind: "fetch_result_event cid tc = Some ev \<Longrightarrow>
    ev_kind ev = EventWebSearchResult \<and> ev_tool_args_delta ev = [] \<and> clean_id (ev_tool_call_id ev)"
  by (auto simp: fetch_result_event_def Let_def split: option.splits tool.splits fetch_result.splits web_fetch_result.splits)

lemma completed_kind:
  "ev_kind (event_of_call_completed cid tc) \<in> {EventWebSearchResult, EventToolCallCompleted} \<and>
   ev_tool_args_delta (event_of_call_completed cid tc) = [] \<and>
   clean_id (ev_tool_call_id (event_of_call_completed cid tc))"
proof (cases "fetch_result_event cid tc")
  case (Some ev)
  with fetch_result_kind [OF Some] show ?thesis by (simp add: event_of_call_completed_def)
next
  case None
  then show ?thesis
    by (auto simp: event_of_call_completed_def web_search_completed_def Let_def
        split: option.splits tool.splits search_result.splits)
qed

lemma print_json_nonempty: "numbers_ok v \<Longrightarrow> print_json v \<noteq> []"
  using print_head by blast

lemma start_args_nonempty:
  assumes "Option.bind tc tc_tool = Some t" "\<And>a. t \<noteq> Mcp_Tool a"
  shows "extract_tool_args_from_start pb_value tc \<noteq> []"
proof -
  obtain c where "tc = Some c" "tc_tool c = Some t" using assms(1) by (cases tc) auto
  with assms(2) show ?thesis by (cases t) (auto simp: extract_tool_args_from_start_def Let_def)
qed

lemma started_kind:
  assumes "event_of_call_started pb_value cid tc = Some ev"
  shows "(ev_kind ev = EventToolCallStarted \<and> ev_tool_args_delta ev \<noteq> [] \<or> ev_kind ev = EventServerToolStarted) \<and>
    clean_id (ev_tool_call_id ev)"
proof -
  obtain t where t: "Option.bind tc tc_tool = Some t" and nm: "\<And>a. t \<noteq> Mcp_Tool a"
    using assms by (auto simp: event_of_call_started_def split: option.splits tool.splits)
  show ?thesis
  proof (cases "\<exists>a r. t = Web_Search_Tool a r")
    case True
    with assms t show ?thesis by (auto simp: event_of_call_started_def)
  next
    case False
    then have e: "ev = (call_id_event EventToolCallStarted (if cid = [] then extract_tool_call_id tc else cid)
        (extract_tool_name tc))\<lparr>ev_tool_args_delta := extract_tool_args_from_start pb_value tc\<rparr>"
      using assms t nm by (cases t) (auto simp: event_of_call_started_def)
    have "extract_tool_args_from_start pb_value tc \<noteq> []"
      using t nm by (rule start_args_nonempty)
    with e show ?thesis by auto
  qed
qed

lemma event_shape:
  assumes "from_server_message pb_value m = Some ev"
  shows "clean_id (ev_tool_call_id ev) \<and>
      (ev_tool_args_delta ev = [] \<or>
          ev_kind ev \<in> {EventToolCallStarted, EventServerToolStarted, EventServerToolPermission}) \<and>
      \<not> (ev_kind ev = EventToolCallStarted \<and> ev_tool_args_delta ev = [])"
proof (cases m)
  case (Msg_Mcp_Exec a)
  with assms show ?thesis by (auto simp: from_server_message_def)
next
  case (Msg_Query q)
  with assms show ?thesis
    by (auto simp: from_server_message_def event_from_interaction_query_def split: interaction_query.splits prod.splits)
next
  case (Msg_Update u)
  show ?thesis
  proof (cases u)
    case (Upd_Call_Started cid tc)
    with Msg_Update assms have "event_of_call_started pb_value cid tc = Some ev"
      by (simp add: from_server_message_def event_of_update_def)
    from started_kind [OF this] show ?thesis by auto
  next
    case (Upd_Call_Completed cid tc)
    with Msg_Update assms completed_kind [of cid tc] show ?thesis
      by (auto simp: from_server_message_def event_of_update_def)
  next
    case (Upd_Call_Delta cid)
    with Msg_Update assms show ?thesis
      by (auto simp: from_server_message_def event_of_update_def extract_tool_args_delta_def)
  qed (use Msg_Update assms in \<open>auto simp: from_server_message_def event_of_update_def event_of_def\<close>)
qed (use assms in \<open>auto simp: from_server_message_def\<close>)


subsection \<open>Arguments of a caller's tool\<close>

lemma join_members:
  "join_str '','' (map (\<lambda>k. print_string k @ '':'' @ print_json (val k)) ks) = print_members (map (\<lambda>k. (k, val k)) ks)"
  by (induction ks rule: induct_list012) simp_all

text \<open>
  The arguments of a caller's tool arrive as one JSON object. When every value of the argument
  map decodes to the text of a JSON value, the argument text of the call parses to the object with
  exactly these members, in the order of their names.
\<close>

theorem mcp_args_readable:
  assumes "\<And>k raw. map_of args k = Some raw \<Longrightarrow>
      numbers_ok (val k) \<and> decode_mcp_arg_value pb_value raw = print_json (val k)"
  shows "json_parse (encode_mcp_args pb_value args) =
    Some (scrub (JObj (map (\<lambda>k. (k, val k)) (sort (map fst args)))))"
proof -
  let ?v = "JObj (map (\<lambda>k. (k, val k)) (sort (map fst args)))"
  have at: "numbers_ok (val k) \<and> decode_mcp_arg_value pb_value (the (map_of args k)) = print_json (val k)"
    if "k \<in> set (map fst args)" for k
  proof -
    from that obtain raw where "map_of args k = Some raw"
      by (metis list.set_map map_of_eq_None_iff not_None_eq)
    with assms show ?thesis by simp
  qed
  then have "map (\<lambda>k. print_string k @ '':'' @ decode_mcp_arg_value pb_value (the (map_of args k))) (sort (map fst args)) =
      map (\<lambda>k. print_string k @ '':'' @ print_json (val k)) (sort (map fst args))"
    by (intro map_cong) auto
  then have "encode_mcp_args pb_value args = print_json ?v"
    by (simp only: encode_mcp_args_def join_members print_json.simps) simp
  moreover have "numbers_ok ?v" using at by auto
  ultimately show ?thesis using json_parse_print [of ?v] by (simp only:)
qed

theorem mcp_args_readable_witness:
  "\<exists>pb_value. json_parse (encode_mcp_args pb_value [(''path'', [CHR 0x1A, CHR 0x01, CHR ''a'']), (''all'', [])]) =
     Some (scrub (JObj (map (\<lambda>k. (k, if k = ''path'' then JStr ''a'' else JNull)) (sort [''path'', ''all'']))))"
proof -
  let ?pb = "\<lambda>raw. if raw = [CHR 0x1A, CHR 0x01, CHR ''a''] then Some (print_json (JStr ''a'')) else None"
  have "json_parse (encode_mcp_args ?pb [(''path'', [CHR 0x1A, CHR 0x01, CHR ''a'']), (''all'', [])]) =
     Some (scrub (JObj (map (\<lambda>k. (k, if k = ''path'' then JStr ''a'' else JNull))
       (sort (map fst [(''path'', [CHR 0x1A, CHR 0x01, CHR ''a'']), (''all'', [])])))))"
    by (rule mcp_args_readable) (auto simp: decode_mcp_arg_value_def split: if_splits)
  then show ?thesis by auto
qed

subsection \<open>Names, and three gaps\<close>

text \<open>Every branch the code names has an entry in the table of client names.\<close>

lemma known_tool_has_name: "known_tool_type t = Some k \<Longrightarrow> k \<in> set (map fst native_tool_client_name)"
  by (cases t) (auto simp: known_tool_type_def native_tool_client_name_def)

definition bare_call :: "tool option \<Rightarrow> tool_call" where
  "bare_call t = \<lparr>tc_tool_call_id = None, tc_started_at_ms = None, tc_completed_at_ms = None, tc_tool = t\<rparr>"

text \<open>
  The questions of \<^verbatim>\<open>ask_question\<close> and the address of a web fetch do not reach the client, and a call
  with a branch this build does not know is named after the field of its id.
\<close>

lemma tool_call_gaps:
  "extract_tool_args_from_start pb (Some (bare_call (Some Ask_Question_Tool))) = ''{}''"
  "extract_tool_args_from_start pb (Some (bare_call (Some (Web_Fetch_Tool (Some a) r)))) = ''{}''"
  "extract_tool_name (Some ((bare_call None)\<lparr>tc_tool_call_id := Some i\<rparr>)) = ''toolCallId''"
  by (simp_all add: extract_tool_args_from_start_def bare_call_def map_native_tool_args_json_def native_args_def
      extract_tool_name_def oneof_branch_name_def trim_suffix_def has_suffix_def)

end
