(* ===== verification/AssistantText.thy ===== *)
theory AssistantText
  imports ServerMessages
begin

text \<open>
  The assistant's text arrives in two ways, as deltas and as snapshots of the final message in a
  key-value blob. \<^verbatim>\<open>translator/kv.go\<close> reads the blobs, \<^verbatim>\<open>assistantTextTracker\<close> of
  \<^verbatim>\<open>cmd/cursor-proxy/main.go\<close> merges both. The theorem says what the client has when they are mixed.
\<close>

subsection \<open>Blobs\<close>

record blob_event =
  be_assistant_text :: string
  be_thought_text :: string
  be_signature :: string

text \<open>One element of \<^verbatim>\<open>content\<close>: its type, text and signature, or None for a value of another shape.\<close>

definition blob_part :: "json \<Rightarrow> (string \<times> string \<times> string) option" where
  "blob_part v =
     (case v of
        JNull \<Rightarrow> Some ([], [], [])
      | JObj ms \<Rightarrow>
          (case (string_field ms ''type'', string_field ms ''text'', string_field ms ''signature'') of
             (Some t, Some x, Some s) \<Rightarrow> Some (t, x, s) | _ \<Rightarrow> None)
      | _ \<Rightarrow> None)"

definition blob_content :: "(string \<times> json) list \<Rightarrow> (string \<times> string \<times> string) list option" where
  "blob_content ms =
     (case field_get ms ''content'' of
        None \<Rightarrow> Some [] | Some JNull \<Rightarrow> Some []
      | Some (JArr vs) \<Rightarrow> if list_all (\<lambda>v. blob_part v \<noteq> None) vs then Some (map (\<lambda>v. the (blob_part v)) vs) else None
      | _ \<Rightarrow> None)"

definition read_part :: "string \<times> string \<times> string \<Rightarrow> blob_event \<Rightarrow> blob_event" where
  "read_part = (\<lambda>(ty, txt, sg) b.
     if ty = ''text'' then b\<lparr>be_assistant_text := be_assistant_text b @ txt\<rparr>
     else if ty = ''reasoning'' \<or> ty = ''thinking''
       then b\<lparr>be_thought_text := be_thought_text b @ txt,
              be_signature := (if be_signature b = [] then sg else be_signature b)\<rparr>
     else b)"

definition empty_blob :: blob_event where
  "empty_blob = \<lparr>be_assistant_text = [], be_thought_text = [], be_signature = []\<rparr>"

definition extract_assistant_blob_from_json :: "string \<Rightarrow> blob_event option" where
  "extract_assistant_blob_from_json data =
     (case index_byte data CHR ''{'' of
        None \<Rightarrow> None
      | Some start \<Rightarrow>
          (case json_parse (drop start data) of
             Some (JObj ms) \<Rightarrow>
               (case (string_field ms ''role'', blob_content ms) of
                  (Some role, Some parts) \<Rightarrow>
                    if \<not> equal_fold role ''assistant'' then None
                    else let b = fold read_part parts empty_blob in
                      if b = empty_blob then None else Some b
                | _ \<Rightarrow> None)
           | _ \<Rightarrow> None))"

definition from_kv_blob :: "server_message \<Rightarrow> blob_event option" where
  "from_kv_blob m =
     (case m of Msg_Kv data \<Rightarrow> if data = [] then None else extract_assistant_blob_from_json data | _ \<Rightarrow> None)"

subsection \<open>The text tracker\<close>

text \<open>Both methods return what to send and the new text.\<close>

definition accept_delta :: "string \<Rightarrow> string \<Rightarrow> string \<times> string" where
  "accept_delta t delta = (if delta = [] then ([], t) else (delta, t @ delta))"

definition accept_snapshot :: "string \<Rightarrow> string \<Rightarrow> string \<times> string" where
  "accept_snapshot t full =
     (if full = [] \<or> full = t \<or> has_prefix t full then ([], t)
      else if has_suffix t full then ([], full)
      else if has_prefix full t then (drop (length t) full, full)
      else (full, full))"

datatype text_input = Text_Input string | Snapshot_Input string

fun accept_input :: "text_input \<Rightarrow> string \<Rightarrow> string \<times> string" where
  "accept_input (Text_Input d) t = accept_delta t d"
| "accept_input (Snapshot_Input f) t = accept_snapshot t f"

text \<open>What is sent for a list of inputs, and the tracker's text after them.\<close>

fun accept_inputs :: "text_input list \<Rightarrow> string \<Rightarrow> string \<times> string" where
  "accept_inputs [] t = ([], t)"
| "accept_inputs (x # xs) t =
     (let (d, t) = accept_input x t; (ds, t) = accept_inputs xs t in (d @ ds, t))"

lemma accept_snapshot_cases:
  "accept_snapshot t full = (d, t') \<Longrightarrow>
     d = [] \<and> t' = t \<or> d = [] \<and> t' = full \<and> has_suffix t full \<or>
     d = drop (length t) full \<and> t' = full \<and> has_prefix full t \<or> d = full \<and> t' = full"
  unfolding accept_snapshot_def by (simp split: if_split_asm) blast+

lemma accept_input_suffix:
  assumes "accept_input x t = (d, t')" and "has_suffix s t"
  shows "has_suffix (s @ d) t'"
proof -
  obtain a where s: "s = a @ t" using assms(2) by (auto simp: has_suffix_iff)
  show ?thesis
  proof (cases x)
    case (Text_Input u)
    with assms(1) s show ?thesis by (auto simp: accept_delta_def has_suffix_iff split: if_splits)
  next
    case (Snapshot_Input full)
    have "accept_snapshot t full = (d, t')" using assms(1) Snapshot_Input by simp
    then consider "d = []" "t' = t" | "d = []" "t' = full" "has_suffix t full"
      | "d = drop (length t) full" "t' = full" "has_prefix full t" | "d = full" "t' = full"
      using accept_snapshot_cases by blast
    then show ?thesis
    proof cases
      case 3
      then have "full = t @ d" by (auto simp: has_prefix_iff)
      with 3 s show ?thesis by (simp add: has_suffix_iff)
    qed (use s in \<open>auto simp: has_suffix_iff\<close>)
  qed
qed

lemma accept_inputs_suffix:
  "has_suffix s t \<Longrightarrow> accept_inputs xs t = (d, t') \<Longrightarrow> has_suffix (s @ d) t'"
proof (induction xs arbitrary: s t d t')
  case (Cons x xs)
  obtain d1 t1 where 1: "accept_input x t = (d1, t1)" by (cases "accept_input x t")
  obtain d2 t2 where 2: "accept_inputs xs t1 = (d2, t2)" by (cases "accept_inputs xs t1")
  have "has_suffix (s @ d1) t1" by (rule accept_input_suffix [OF 1 Cons.prems(1)])
  from Cons.IH [OF this 2] Cons.prems(2) 1 2 show ?case by simp
qed simp

lemma accept_snapshot_contained:
  "accept_snapshot t full = (d, t') \<Longrightarrow> has_prefix t' full"
  by (auto simp: accept_snapshot_def has_prefix_iff split: if_splits)

lemma accept_inputs_append:
  "accept_inputs (xs @ ys) t =
     (let (d, t) = accept_inputs xs t; (e, t) = accept_inputs ys t in (d @ e, t))"
  by (induction xs arbitrary: t) (auto simp: Let_def split: prod.splits)

text \<open>The inputs agree when every snapshot continues the text that is known then.\<close>

fun consistent :: "text_input list \<Rightarrow> string \<Rightarrow> bool" where
  "consistent [] t = True"
| "consistent (x # xs) t =
     ((case x of Text_Input _ \<Rightarrow> True | Snapshot_Input f \<Rightarrow> has_prefix t f \<or> has_prefix f t) \<and>
      consistent xs (snd (accept_input x t)))"

lemma consistent_sent:
  "consistent xs t \<Longrightarrow> accept_inputs xs t = (d, t') \<Longrightarrow> t' = t @ d"
proof (induction xs arbitrary: t d t')
  case (Cons x xs)
  obtain d1 t1 where 1: "accept_input x t = (d1, t1)" by (cases "accept_input x t")
  obtain d2 t2 where 2: "accept_inputs xs t1 = (d2, t2)" by (cases "accept_inputs xs t1")
  have "t1 = t @ d1"
  proof (cases x)
    case (Text_Input u)
    with 1 show ?thesis by (auto simp: accept_delta_def split: if_splits)
  next
    case (Snapshot_Input f)
    with Cons.prems(1) have "has_prefix t f \<or> has_prefix f t" by simp
    moreover have "has_suffix t f \<Longrightarrow> has_prefix f t \<Longrightarrow> t = f"
      by (auto simp: has_prefix_iff has_suffix_iff dest: arg_cong [where f = length])
    ultimately show ?thesis using 1 Snapshot_Input
      by (auto simp: accept_snapshot_def has_prefix_iff split: if_splits)
  qed
  moreover have "t2 = t1 @ d2" using Cons.IH [OF _ 2] Cons.prems(1) 1 by simp
  ultimately show ?case using Cons.prems(2) 1 2 by auto
qed simp

text \<open>
  The merged text. However deltas and snapshots are mixed, what has been sent ends with the
  tracker's text, and right after a snapshot the tracker's text begins with that snapshot, so the
  client has every accepted final message in one piece. If every snapshot continues what was known,
  nothing is sent twice: what has been sent is the tracker's text.
\<close>

theorem merged_text:
  "has_suffix (fst (accept_inputs xs [])) (snd (accept_inputs xs [])) \<and>
   has_prefix (snd (accept_inputs (xs @ [Snapshot_Input full]) [])) full \<and>
   (consistent xs [] \<longrightarrow> fst (accept_inputs xs []) = snd (accept_inputs xs []))"
proof (intro conjI impI)
  obtain d t where a: "accept_inputs xs [] = (d, t)" by (cases "accept_inputs xs []")
  have "has_suffix ([] @ d) t" by (rule accept_inputs_suffix [OF _ a]) (simp add: has_suffix_def)
  then show "has_suffix (fst (accept_inputs xs [])) (snd (accept_inputs xs []))" by (simp add: a)
  obtain e t' where b: "accept_snapshot t full = (e, t')" by (cases "accept_snapshot t full")
  with a accept_snapshot_contained [OF b] show "has_prefix (snd (accept_inputs (xs @ [Snapshot_Input full]) [])) full"
    by (simp add: accept_inputs_append)
  assume "consistent xs []"
  from consistent_sent [OF this a] show "fst (accept_inputs xs []) = snd (accept_inputs xs [])" by (simp add: a)
qed

theorem merged_text_witness:
  "consistent [Text_Input ''Hel'', Snapshot_Input ''Hello''] [] \<and>
   fst (accept_inputs [Text_Input ''Hel'', Snapshot_Input ''Hello''] []) = ''Hello''"
proof -
  have c: "consistent [Text_Input ''Hel'', Snapshot_Input ''Hello''] []"
    by (simp add: accept_delta_def has_prefix_def)
  moreover have "snd (accept_inputs [Text_Input ''Hel'', Snapshot_Input ''Hello''] []) = ''Hello''"
    by (simp add: accept_delta_def accept_snapshot_def has_prefix_def has_suffix_def)
  ultimately show ?thesis using merged_text [of "[Text_Input ''Hel'', Snapshot_Input ''Hello'']" "[]"] by simp
qed

text \<open>A snapshot that only corrects the text is sent whole, behind what the client already has.\<close>

lemma snapshot_repeats:
  "accept_inputs [Text_Input ''Hello world'', Snapshot_Input ''Hello, world''] [] =
     (''Hello worldHello, world'', ''Hello, world'')"
  by (simp add: accept_delta_def accept_snapshot_def has_prefix_def has_suffix_def)

end
