(* ===== verification/StreamWriter.thy ===== *)
theory StreamWriter
  imports Events
begin

text \<open>
  What the stream writers of \<^verbatim>\<open>translator/\<close> have in common: an operation that turns one event into
  frames and an updated writer, run over the events of a turn. The locale \<open>text_writer\<close> is the
  contract the proxy relies on for the assistant's text: frames say the text of text events and
  nothing else. Every writer is an interpretation of it.
\<close>

definition step_text :: "event \<Rightarrow> string" where
  "step_text ev = (if ev_kind ev = EventTextDelta then ev_text ev else [])"

definition events_text :: "event list \<Rightarrow> string" where
  "events_text evs = concat (map step_text evs)"

lemma events_text_simps [simp]:
  "events_text [] = []"
  "events_text (ev # evs) = step_text ev @ events_text evs"
  "events_text (evs @ evs') = events_text evs @ events_text evs'"
  by (simp_all add: events_text_def)

fun run_writer :: "(event \<Rightarrow> 'w \<Rightarrow> 'f list \<times> 'w) \<Rightarrow> event list \<Rightarrow> 'w \<Rightarrow> 'f list \<times> 'w" where
  "run_writer enc [] w = ([], w)"
| "run_writer enc (ev # evs) w =
     (let (f1, w) = enc ev w; (f2, w) = run_writer enc evs w in (f1 @ f2, w))"

lemma run_writer_append:
  "run_writer enc (evs @ evs') w =
     (let (f1, w) = run_writer enc evs w; (f2, w) = run_writer enc evs' w in (f1 @ f2, w))"
  by (induction evs arbitrary: w) (auto simp: Let_def split: prod.splits)

lemma run_writer_snoc:
  "run_writer enc (evs @ [ev]) w =
     (let (f1, w) = run_writer enc evs w; (f2, w) = enc ev w in (f1 @ f2, w))"
  by (simp add: run_writer_append Let_def split: prod.splits)

text \<open>The event that ends a turn.\<close>

definition turn_end :: "usage option \<Rightarrow> event" where
  "turn_end u = (event_of EventTurnEnded)\<lparr>ev_usage := u\<rparr>"

lemma turn_end_simps [simp]: "ev_kind (turn_end u) = EventTurnEnded" "ev_usage (turn_end u) = u"
  by (simp_all add: turn_end_def event_of_def)

locale text_writer =
  fixes enc :: "event \<Rightarrow> 'w \<Rightarrow> 'f list \<times> 'w"
    and inv :: "'w \<Rightarrow> bool"
    and said :: "'f list \<Rightarrow> string"
  assumes said_Nil: "said [] = []"
    and said_append: "said (fs @ gs) = said fs @ said gs"
    and enc_step: "inv w \<Longrightarrow> enc ev w = (fs, w') \<Longrightarrow> inv w' \<and> said fs = step_text ev"
begin

lemma run_text:
  "inv w \<Longrightarrow> run_writer enc evs w = (fs, w') \<Longrightarrow> inv w' \<and> said fs = events_text evs"
proof (induction evs arbitrary: w fs w')
  case (Cons ev evs)
  obtain f1 w1 where 1: "enc ev w = (f1, w1)" by (cases "enc ev w")
  obtain f2 w2 where 2: "run_writer enc evs w1 = (f2, w2)" by (cases "run_writer enc evs w1")
  have s1: "inv w1 \<and> said f1 = step_text ev" using enc_step [OF _ 1] Cons.prems by simp
  then have "inv w2 \<and> said f2 = events_text evs" using Cons.IH [OF _ 2] by simp
  with s1 Cons.prems(2) 1 2 show ?case by (auto simp: said_append)
qed (simp add: said_Nil)

text \<open>What was said is never taken back: later events only extend it.\<close>

lemma said_grows:
  assumes "inv w"
  shows "said (fst (run_writer enc (evs @ evs') w)) =
    said (fst (run_writer enc evs w)) @ events_text evs'"
  using run_text [OF assms, of evs] run_text [OF assms, of "evs @ evs'"]
  by (metis events_text_simps(3) prod.collapse)

end

end
