(* ===== verification/OpenAI.thy ===== *)
theory OpenAI
  imports Anthropic StreamWriter
begin

text \<open>
  Model of \<^verbatim>\<open>translator/openai.go\<close>: the Chat Completions stream writer and the accumulator of
  the non-streaming answer. A frame is a value of \<open>chunk\<close>, one constructor per object the code
  builds; \<open>chunk_json\<close> is the \<^verbatim>\<open>chat.completion.chunk\<close> envelope around it (keys in the order
  \<^verbatim>\<open>json.Marshal\<close> prints them). The unique id and the clock are arguments of the constructors.
  A Go map from tool ids to indexes is a list of pairs with distinct keys.
\<close>

subsection \<open>Usage and frames\<close>

definition build_openai_usage :: "usage option \<Rightarrow> json" where
  "build_openai_usage u =
     (case u of
        None \<Rightarrow> JObj []
      | Some v \<Rightarrow>
          let output = normalized_output_tokens u in
          JObj [(''completion_tokens'', json_int output),
                (''completion_tokens_details'', JObj [(''reasoning_tokens'', json_int (u_reasoning v))]),
                (''prompt_tokens'', json_int (u_input v)),
                (''prompt_tokens_details'', JObj [(''cached_tokens'', json_int (u_cache_read v))]),
                (''total_tokens'', json_int (i64 (u_input v + output)))])"

datatype chunk =
    Role_Chunk
  | Content_Chunk string
  | Tool_Header nat string string
  | Tool_Args nat string
  | Finish_Chunk string
  | Usage_Chunk usage
  | Done_Chunk

definition choice_json :: "json \<Rightarrow> json \<Rightarrow> json" where
  "choice_json delta finish =
     JArr [JObj [(''delta'', delta), (''finish_reason'', finish), (''index'', json_int 0)]]"

fun chunk_choices :: "chunk \<Rightarrow> json" where
  "chunk_choices Role_Chunk = choice_json (JObj [(''role'', JStr ''assistant'')]) JNull"
| "chunk_choices (Content_Chunk s) = choice_json (JObj [(''content'', JStr s)]) JNull"
| "chunk_choices (Tool_Header i tid n) = choice_json (JObj [(''role'', JStr ''assistant''),
     (''tool_calls'', JArr [JObj [
        (''function'', JObj [(''arguments'', JStr []), (''name'', JStr n)]),
        (''id'', JStr tid), (''index'', json_int (int i)), (''type'', JStr ''function'')]])]) JNull"
| "chunk_choices (Tool_Args i a) = choice_json (JObj [(''tool_calls'', JArr [JObj [
        (''function'', JObj [(''arguments'', JStr a)]), (''index'', json_int (int i))]])]) JNull"
| "chunk_choices (Finish_Chunk r) = choice_json (JObj []) (JStr r)"
| "chunk_choices (Usage_Chunk _) = JArr []"
| "chunk_choices Done_Chunk = JArr []"

subsection \<open>The stream writer\<close>

record openai_writer =
  ow_model :: string
  ow_id :: string
  ow_created :: int
  ow_sent_start :: bool
  ow_saw_tool_call :: bool
  ow_include_usage :: bool
  ow_last_usage :: "usage option"
  ow_tool_indexes :: "(string \<times> nat) list"

definition new_openai_stream_writer :: "string \<Rightarrow> string \<Rightarrow> int \<Rightarrow> openai_writer" where
  "new_openai_stream_writer model uuid now =
     \<lparr>ow_model = model, ow_id = ''chatcmpl-'' @ uuid, ow_created = now, ow_sent_start = False,
      ow_saw_tool_call = False, ow_include_usage = False, ow_last_usage = None, ow_tool_indexes = []\<rparr>"

definition chunk_json :: "openai_writer \<Rightarrow> chunk \<Rightarrow> json" where
  "chunk_json w c = JObj ([(''choices'', chunk_choices c), (''created'', json_int (ow_created w)),
     (''id'', JStr (ow_id w)), (''model'', JStr (ow_model w)),
     (''object'', JStr ''chat.completion.chunk'')] @
     (case c of Usage_Chunk u \<Rightarrow> [(''usage'', build_openai_usage (Some u))] | _ \<Rightarrow> []))"

definition chunk_bytes :: "openai_writer \<Rightarrow> chunk \<Rightarrow> string" where
  "chunk_bytes w c = ''data: '' @ (if c = Done_Chunk then ''[DONE]'' else print_json (chunk_json w c))
     @ ''\<newline>\<newline>''"

definition tool_index :: "string \<Rightarrow> openai_writer \<Rightarrow> nat \<times> openai_writer" where
  "tool_index tid w =
     (case map_of (ow_tool_indexes w) tid of
        Some i \<Rightarrow> (i, w)
      | None \<Rightarrow> let i = length (ow_tool_indexes w)
                in (i, w\<lparr>ow_tool_indexes := AList.update tid i (ow_tool_indexes w)\<rparr>))"

definition encode_openai :: "event \<Rightarrow> openai_writer \<Rightarrow> chunk list \<times> openai_writer" where
  "encode_openai ev w =
     (case ev_kind ev of
        EventTextDelta \<Rightarrow>
          (let (start, w) = (if ow_sent_start w then ([], w)
                             else ([Role_Chunk], w\<lparr>ow_sent_start := True\<rparr>))
           in (start @ [Content_Chunk (ev_text ev)], w))
      | EventToolCallStarted \<Rightarrow>
          (let w = (if ow_sent_start w then w else w\<lparr>ow_sent_start := True\<rparr>);
               (i, w) = tool_index (ev_tool_call_id ev) w;
               w = w\<lparr>ow_saw_tool_call := True\<rparr>
           in (Tool_Header i (ev_tool_call_id ev) (ev_tool_name ev) #
                (if ev_tool_args_delta ev \<noteq> [] then [Tool_Args i (ev_tool_args_delta ev)] else []), w))
      | EventToolCallDelta \<Rightarrow>
          (if ev_tool_args_delta ev = [] then ([], w)
           else let (i, w) = tool_index (ev_tool_call_id ev) w
                in ([Tool_Args i (ev_tool_args_delta ev)], w))
      | EventTurnEnded \<Rightarrow>
          (let w = (if ev_usage ev \<noteq> None then w\<lparr>ow_last_usage := ev_usage ev\<rparr> else w)
           in ([Finish_Chunk (if ow_saw_tool_call w then ''tool_calls'' else ''stop'')], w))
      | _ \<Rightarrow> ([], w))"

definition final_usage_frame :: "openai_writer \<Rightarrow> chunk list" where
  "final_usage_frame w =
     (case ow_last_usage w of
        None \<Rightarrow> []
      | Some u \<Rightarrow> if ow_include_usage w then [Usage_Chunk u] else [])"

definition final_done :: "chunk list" where
  "final_done = [Done_Chunk]"

subsection \<open>The non-streaming accumulator\<close>

record accumulator =
  na_model :: string
  na_text :: string
  na_tool_calls :: "(string \<times> string \<times> string) list"
  na_usage :: "usage option"
  na_finish_stop :: bool

definition new_accumulator :: "string \<Rightarrow> accumulator" where
  "new_accumulator model =
     \<lparr>na_model = model, na_text = [], na_tool_calls = [], na_usage = None, na_finish_stop = False\<rparr>"

definition consume :: "event \<Rightarrow> accumulator \<Rightarrow> accumulator" where
  "consume ev a =
     (case ev_kind ev of
        EventTextDelta \<Rightarrow> a\<lparr>na_text := na_text a @ ev_text ev\<rparr>
      | EventToolCallStarted \<Rightarrow>
          let args = (if ev_tool_args_delta ev = [] then ''{}'' else ev_tool_args_delta ev) in
          a\<lparr>na_tool_calls := na_tool_calls a @ [(ev_tool_call_id ev, ev_tool_name ev, args)]\<rparr>
      | EventTurnEnded \<Rightarrow> a\<lparr>na_finish_stop := True, na_usage := ev_usage ev\<rparr>
      | _ \<Rightarrow> a)"

definition tool_call_json :: "string \<times> string \<times> string \<Rightarrow> json" where
  "tool_call_json = (\<lambda>(tid, name, args). JObj [
     (''function'', JObj [(''arguments'', JStr args), (''name'', JStr name)]),
     (''id'', JStr tid), (''type'', JStr ''function'')])"

definition finish_reason :: "accumulator \<Rightarrow> string" where
  "finish_reason a = (if na_tool_calls a \<noteq> [] then ''tool_calls'' else ''stop'')"

definition accumulator_response :: "string \<Rightarrow> int \<Rightarrow> accumulator \<Rightarrow> json" where
  "accumulator_response rid now a =
     (let msg = [(''content'', JStr (na_text a)), (''role'', JStr ''assistant'')] @
                (if na_tool_calls a \<noteq> []
                 then [(''tool_calls'', JArr (map tool_call_json (na_tool_calls a)))] else [])
      in JObj [(''choices'', JArr [JObj [(''finish_reason'', JStr (finish_reason a)),
                  (''index'', json_int 0), (''message'', JObj msg)]]),
               (''created'', json_int now), (''id'', JStr rid), (''model'', JStr (na_model a)),
               (''object'', JStr ''chat.completion''), (''usage'', build_openai_usage (na_usage a))])"

subsection \<open>What a client reads from the stream\<close>

text \<open>
  A Chat Completions client folds the chunks of a stream: text is appended, a tool header must
  announce the next index, arguments are appended to the call with their index. None is a stream
  the client cannot read: a role after the role is known, text before it, a header out of order,
  arguments for an unknown index.
\<close>

record client =
  cl_role :: bool
  cl_text :: string
  cl_calls :: "(string \<times> string \<times> string) list"
  cl_finish :: "string option"

definition fresh_client :: client where
  "fresh_client = \<lparr>cl_role = False, cl_text = [], cl_calls = [], cl_finish = None\<rparr>"

fun client_step :: "chunk \<Rightarrow> client \<Rightarrow> client option" where
  "client_step Role_Chunk c = (if cl_role c then None else Some (c\<lparr>cl_role := True\<rparr>))"
| "client_step (Content_Chunk s) c = (if cl_role c then Some (c\<lparr>cl_text := cl_text c @ s\<rparr>) else None)"
| "client_step (Tool_Header i tid n) c =
     (if i = length (cl_calls c)
      then Some (c\<lparr>cl_role := True, cl_calls := cl_calls c @ [(tid, n, [])]\<rparr>) else None)"
| "client_step (Tool_Args i a) c =
     (if i < length (cl_calls c)
      then Some (c\<lparr>cl_calls := (cl_calls c)[i := (case cl_calls c ! i of (t, n, b) \<Rightarrow> (t, n, b @ a))]\<rparr>)
      else None)"
| "client_step (Finish_Chunk r) c = Some (c\<lparr>cl_finish := Some r\<rparr>)"
| "client_step _ c = Some c"

fun client_run :: "chunk list \<Rightarrow> client \<Rightarrow> client option" where
  "client_run [] c = Some c"
| "client_run (f # fs) c = (case client_step f c of None \<Rightarrow> None | Some c \<Rightarrow> client_run fs c)"

lemma client_run_append:
  "client_run (fs @ gs) c = (case client_run fs c of None \<Rightarrow> None | Some c \<Rightarrow> client_run gs c)"
  by (induction fs arbitrary: c) (auto split: option.splits)

text \<open>The meaning of a turn, without chunks or indexes.\<close>

definition add_call :: "event \<Rightarrow> (string \<times> string \<times> string) list \<Rightarrow> (string \<times> string \<times> string) list" where
  "add_call ev calls =
     (case ev_kind ev of
        EventToolCallStarted \<Rightarrow> calls @ [(ev_tool_call_id ev, ev_tool_name ev, ev_tool_args_delta ev)]
      | EventToolCallDelta \<Rightarrow>
          map (\<lambda>(t, n, a). if t = ev_tool_call_id ev then (t, n, a @ ev_tool_args_delta ev) else (t, n, a)) calls
      | _ \<Rightarrow> calls)"

definition turn_step :: "event \<Rightarrow> client \<Rightarrow> client" where
  "turn_step ev c =
     \<lparr>cl_role = (cl_role c \<or> ev_kind ev = EventTextDelta \<or> ev_kind ev = EventToolCallStarted),
      cl_text = cl_text c @ step_text ev,
      cl_calls = add_call ev (cl_calls c),
      cl_finish = (if ev_kind ev = EventTurnEnded
                   then Some (if cl_calls c \<noteq> [] then ''tool_calls'' else ''stop'') else cl_finish c)\<rparr>"

text \<open>Each call is started once, and arguments follow the start of their call.\<close>

definition call_ok :: "event \<Rightarrow> string list \<Rightarrow> bool" where
  "call_ok ev ids =
     (case ev_kind ev of
        EventToolCallStarted \<Rightarrow> ev_tool_call_id ev \<notin> set ids
      | EventToolCallDelta \<Rightarrow> ev_tool_args_delta ev = [] \<or> ev_tool_call_id ev \<in> set ids
      | _ \<Rightarrow> True)"

definition next_ids :: "event \<Rightarrow> string list \<Rightarrow> string list" where
  "next_ids ev ids = (if ev_kind ev = EventToolCallStarted then ids @ [ev_tool_call_id ev] else ids)"

fun calls_ok :: "string list \<Rightarrow> event list \<Rightarrow> bool" where
  "calls_ok ids [] = True"
| "calls_ok ids (ev # evs) = (call_ok ev ids \<and> calls_ok (next_ids ev ids) evs)"

definition indexed :: "'a list \<Rightarrow> ('a \<times> nat) list" where
  "indexed xs = zip xs [0 ..< length xs]"

lemma indexed_lookup: "distinct xs \<Longrightarrow> i < length xs \<Longrightarrow> map_of (indexed xs) (xs ! i) = Some i"
  by (simp add: indexed_def map_of_zip_nth)

lemma indexed_lookup_None: "x \<notin> set xs \<Longrightarrow> map_of (indexed xs) x = None"
  by (simp add: indexed_def map_of_zip_is_None)

lemma indexed_snoc: "indexed xs @ [(x, length xs)] = indexed (xs @ [x])"
  by (simp add: indexed_def)

lemma length_indexed [simp]: "length (indexed xs) = length xs"
  by (simp add: indexed_def)

lemma indexed_update: "x \<notin> set xs \<Longrightarrow> AList.update x (length xs) (indexed xs) = indexed (xs @ [x])"
proof -
  assume "x \<notin> set xs"
  then have "x \<notin> fst ` set (indexed xs)" by (auto simp: indexed_def dest: set_zip_leftD)
  from update_new_key [OF this] show ?thesis by (simp add: indexed_snoc)
qed

definition call_ids :: "client \<Rightarrow> string list" where
  "call_ids c = map fst (cl_calls c)"

definition writes_for :: "openai_writer \<Rightarrow> client \<Rightarrow> bool" where
  "writes_for w c \<longleftrightarrow> distinct (call_ids c) \<and> ow_tool_indexes w = indexed (call_ids c) \<and>
     ow_sent_start w = cl_role c \<and> (cl_calls c \<noteq> [] \<longrightarrow> cl_role c) \<and>
     ow_saw_tool_call w = (cl_calls c \<noteq> [])"

lemma call_ids_turn: "call_ids (turn_step ev c) = next_ids ev (call_ids c)"
  by (simp add: call_ids_def turn_step_def add_call_def next_ids_def comp_def case_prod_beta
      split: event_kind.splits)

lemma args_update:
  assumes "distinct (map fst calls)" "i < length calls" "fst (calls ! i) = tid"
  shows "calls[i := (case calls ! i of (t, n, b) \<Rightarrow> (t, n, b @ a))] =
    map (\<lambda>(t, n, b). if t = tid then (t, n, b @ a) else (t, n, b)) calls"
proof (rule nth_equalityI)
  fix j assume j: "j < length (calls[i := (case calls ! i of (t, n, b) \<Rightarrow> (t, n, b @ a))])"
  have "fst (calls ! j) = tid \<longleftrightarrow> j = i"
    using assms j nth_eq_iff_index_eq [of "map fst calls" i j] by auto
  then show "calls[i := (case calls ! i of (t, n, b) \<Rightarrow> (t, n, b @ a))] ! j =
      map (\<lambda>(t, n, b). if t = tid then (t, n, b @ a) else (t, n, b)) calls ! j"
    using j assms by (cases "j = i") (auto split: prod.splits)
qed simp

lemma no_args: "a = [] \<Longrightarrow> map (\<lambda>(t, n, b). if t = tid then (t, n, b @ a) else (t, n, b)) calls = calls"
  by (induction calls) auto

lemma tool_index_new:
  assumes "writes_for w c" "tid \<notin> set (call_ids c)"
  shows "tool_index tid w = (length (cl_calls c), w\<lparr>ow_tool_indexes := indexed (call_ids c @ [tid])\<rparr>)"
proof -
  have "ow_tool_indexes w = indexed (call_ids c)" using assms(1) by (simp add: writes_for_def)
  moreover have "length (call_ids c) = length (cl_calls c)" by (simp add: call_ids_def)
  ultimately show ?thesis
    using indexed_lookup_None [OF assms(2)] indexed_update [OF assms(2)] by (simp add: tool_index_def)
qed

lemma tool_index_old:
  assumes "writes_for w c" "tid \<in> set (call_ids c)"
  obtains i where "tool_index tid w = (i, w)" "i < length (cl_calls c)" "fst (cl_calls c ! i) = tid"
proof -
  obtain i where i: "i < length (call_ids c)" "call_ids c ! i = tid"
    using assms(2) by (auto simp: in_set_conv_nth)
  then have "map_of (ow_tool_indexes w) tid = Some i"
    using assms(1) indexed_lookup [of "call_ids c" i] by (simp add: writes_for_def)
  then have "tool_index tid w = (i, w)" by (simp add: tool_index_def)
  then show thesis using that i by (simp add: call_ids_def)
qed

lemma encode_openai_step:
  assumes w: "writes_for w c" and ok: "call_ok ev (call_ids c)"
    and e: "encode_openai ev w = (cs, w')"
  shows "client_run cs c = Some (turn_step ev c) \<and> writes_for w' (turn_step ev c)"
proof (cases "ev_kind ev")
  case EventToolCallStarted
  then have new: "ev_tool_call_id ev \<notin> set (call_ids c)" using ok by (simp add: call_ok_def)
  have "writes_for (if ow_sent_start w then w else w\<lparr>ow_sent_start := True\<rparr>) (c\<lparr>cl_role := True\<rparr>)"
    "call_ids (c\<lparr>cl_role := True\<rparr>) = call_ids c"
    using w by (auto simp: writes_for_def call_ids_def)
  from tool_index_new [OF this(1)] new this(2) EventToolCallStarted w e show ?thesis
    by (auto simp: encode_openai_def Let_def turn_step_def add_call_def step_text_def writes_for_def
        call_ids_def nth_append list_update_append)
next
  case EventToolCallDelta
  show ?thesis
  proof (cases "ev_tool_args_delta ev = []")
    case True
    then show ?thesis using EventToolCallDelta e w
      by (simp add: encode_openai_def turn_step_def add_call_def step_text_def no_args
          writes_for_def call_ids_def)
  next
    case False
    then have "ev_tool_call_id ev \<in> set (call_ids c)"
      using ok EventToolCallDelta by (simp add: call_ok_def)
    from tool_index_old [OF w this] obtain i where i: "tool_index (ev_tool_call_id ev) w = (i, w)"
      "i < length (cl_calls c)" "fst (cl_calls c ! i) = ev_tool_call_id ev" .
    have d: "distinct (map fst (cl_calls c))" using w by (simp add: writes_for_def call_ids_def)
    have "cs = [Tool_Args i (ev_tool_args_delta ev)]" "w' = w"
      using e i(1) False EventToolCallDelta by (simp_all add: encode_openai_def)
    moreover have "call_ids (turn_step ev c) = call_ids c"
      using EventToolCallDelta by (simp add: call_ids_turn next_ids_def)
    ultimately show ?thesis using i(2) args_update [OF d i(2,3)] EventToolCallDelta w
      by (simp add: turn_step_def add_call_def step_text_def writes_for_def)
  qed
qed (use e w in \<open>auto simp: encode_openai_def Let_def turn_step_def add_call_def step_text_def
       writes_for_def call_ids_def split: if_splits\<close>)

lemma openai_stream_client:
  "writes_for w c \<Longrightarrow> calls_ok (call_ids c) evs \<Longrightarrow>
     client_run (fst (run_writer encode_openai evs w)) c = Some (fold turn_step evs c)"
proof (induction evs arbitrary: w c)
  case (Cons ev evs)
  obtain f1 w1 where 1: "encode_openai ev w = (f1, w1)" by (cases "encode_openai ev w")
  have s: "client_run f1 c = Some (turn_step ev c) \<and> writes_for w1 (turn_step ev c)"
    using encode_openai_step [OF Cons.prems(1) _ 1] Cons.prems(2) by simp
  with Cons.IH [of w1 "turn_step ev c"] Cons.prems(2) 1 show ?case
    by (auto simp: client_run_append call_ids_turn split: prod.splits)
qed simp

lemma fold_turn_text: "cl_text (fold turn_step evs c) = cl_text c @ events_text evs"
  by (induction evs arbitrary: c) (simp_all add: turn_step_def)

lemma fold_turn_calls: "cl_calls (fold turn_step evs c) = fold add_call evs (cl_calls c)"
  by (induction evs arbitrary: c) (simp_all add: turn_step_def)

text \<open>The text of a stream, for the contract shared with the other writers.\<close>

definition chunk_text :: "chunk list \<Rightarrow> string" where
  "chunk_text fs = concat (map (\<lambda>f. case f of Content_Chunk s \<Rightarrow> s | _ \<Rightarrow> []) fs)"

interpretation openai_text: text_writer encode_openai "\<lambda>_. True" chunk_text
  by unfold_locales
    (auto simp: chunk_text_def encode_openai_def step_text_def Let_def split: event_kind.splits if_splits prod.splits)

lemma writes_for_new: "writes_for (new_openai_stream_writer m u t) fresh_client"
  by (simp add: writes_for_def new_openai_stream_writer_def fresh_client_def call_ids_def indexed_def)


definition call_event :: "event_kind \<Rightarrow> string \<Rightarrow> string \<Rightarrow> string \<Rightarrow> event" where
  "call_event k tid name args =
     (event_of k)\<lparr>ev_tool_call_id := tid, ev_tool_name := name, ev_tool_args_delta := args\<rparr>"


text \<open>What the accumulator keeps of a turn whose arguments all come with the start.\<close>

definition default_args :: "string \<times> string \<times> string \<Rightarrow> string \<times> string \<times> string" where
  "default_args = (\<lambda>(t, n, a). (t, n, if a = [] then ''{}'' else a))"

lemma consume_turn:
  "list_all (\<lambda>ev. ev_kind ev = EventToolCallDelta \<longrightarrow> ev_tool_args_delta ev = []) evs \<Longrightarrow>
     na_tool_calls a = map default_args (cl_calls c) \<Longrightarrow> na_text a = cl_text c \<Longrightarrow>
     na_tool_calls (fold consume evs a) = map default_args (cl_calls (fold turn_step evs c)) \<and>
     na_text (fold consume evs a) = cl_text (fold turn_step evs c)"
proof (induction evs arbitrary: a c)
  case (Cons ev evs)
  have "na_tool_calls (consume ev a) = map default_args (cl_calls (turn_step ev c))"
    "na_text (consume ev a) = cl_text (turn_step ev c)"
    using Cons.prems by (auto simp: consume_def turn_step_def add_call_def step_text_def no_args
        default_args_def Let_def split: event_kind.splits)
  with Cons show ?case by simp
qed simp

text \<open>
  Streaming and non-streaming answers agree. When each call is started once and its arguments
  arrive with the start, the client of the stream ends with the text, the tool calls (empty
  arguments read as an empty object) and the finish reason that the accumulator puts into the
  single response for the same events.
\<close>

theorem openai_stream_matches_response:
  assumes "calls_ok [] evs"
    and "list_all (\<lambda>ev. ev_kind ev = EventToolCallDelta \<longrightarrow> ev_tool_args_delta ev = []) evs"
  shows "let turn = evs @ [(event_of EventTurnEnded)\<lparr>ev_usage := us\<rparr>];
             a = fold consume turn (new_accumulator m)
         in \<exists>c. client_run (fst (run_writer encode_openai turn (new_openai_stream_writer m u t))) fresh_client = Some c \<and>
              cl_text c = na_text a \<and> map default_args (cl_calls c) = na_tool_calls a \<and>
              cl_finish c = Some (finish_reason a) \<and> na_usage a = us"
proof -
  let ?fin = "(event_of EventTurnEnded)\<lparr>ev_usage := us\<rparr>" and ?c = "fold turn_step evs fresh_client"
  have fin: "ev_kind ?fin = EventTurnEnded" "ev_usage ?fin = us" by (simp_all add: event_of_def)
  have "calls_ok ids (evs @ [?fin])" if "calls_ok ids evs" for ids
    using that by (induction evs arbitrary: ids) (simp_all add: call_ok_def fin)
  from openai_stream_client [OF writes_for_new, of "evs @ [?fin]"] this assms(1)
  have run: "client_run (fst (run_writer encode_openai (evs @ [?fin]) (new_openai_stream_writer m u t))) fresh_client =
    Some (turn_step ?fin ?c)"
    by (simp add: call_ids_def fresh_client_def)
  have "na_tool_calls (fold consume evs (new_accumulator m)) = map default_args (cl_calls ?c)"
    "na_text (fold consume evs (new_accumulator m)) = cl_text ?c"
    using consume_turn [OF assms(2), of "new_accumulator m" fresh_client]
    by (simp_all add: new_accumulator_def fresh_client_def)
  then show ?thesis
    unfolding Let_def run
    by (simp add: turn_step_def add_call_def step_text_def consume_def finish_reason_def fin)
qed

lemma openai_stream_matches_response_witness:
  "let turn = [call_event EventToolCallStarted ''a'' ''f'' []] @ [(event_of EventTurnEnded)\<lparr>ev_usage := None\<rparr>];
       a = fold consume turn (new_accumulator ''m'')
   in (\<exists>c. client_run (fst (run_writer encode_openai turn (new_openai_stream_writer ''m'' ''u'' 0))) fresh_client = Some c \<and>
         cl_text c = na_text a \<and> map default_args (cl_calls c) = na_tool_calls a \<and>
         cl_finish c = Some (finish_reason a) \<and> na_usage a = None) \<and>
      na_tool_calls a = [(''a'', ''f'', ''{}'')] \<and> finish_reason a = ''tool_calls''"
proof -
  let ?evs = "[call_event EventToolCallStarted ''a'' ''f'' []]"
  have ok: "calls_ok [] ?evs"
    "list_all (\<lambda>ev. ev_kind ev = EventToolCallDelta \<longrightarrow> ev_tool_args_delta ev = []) ?evs"
    by (simp_all add: call_ok_def call_event_def event_of_def)
  show ?thesis unfolding Let_def
    by (intro conjI openai_stream_matches_response [OF ok, unfolded Let_def])
      (simp_all add: consume_def finish_reason_def call_event_def event_of_def new_accumulator_def)
qed

text \<open>
  The non-streaming answer loses streamed arguments. When a call's arguments arrive in a
  later event, the stream delivers them and the accumulator answers the call with an empty
  object, because its \<^verbatim>\<open>Consume\<close> has no case for argument deltas.
\<close>

theorem openai_response_drops_streamed_arguments:
  "let evs = [call_event EventToolCallStarted tid name [], call_event EventToolCallDelta tid [] args]
   in map_option cl_calls (client_run (fst (run_writer encode_openai evs (new_openai_stream_writer m u t))) fresh_client)
        = Some [(tid, name, args)] \<and>
      na_tool_calls (fold consume evs (new_accumulator m)) = [(tid, name, ''{}'')]"
proof -
  let ?evs = "[call_event EventToolCallStarted tid name [], call_event EventToolCallDelta tid [] args]"
  have "calls_ok (call_ids fresh_client) ?evs"
    by (simp add: call_ok_def next_ids_def call_event_def event_of_def call_ids_def fresh_client_def)
  from openai_stream_client [OF writes_for_new this] show ?thesis
    by (simp add: turn_step_def add_call_def step_text_def call_event_def event_of_def fresh_client_def
        consume_def new_accumulator_def)
qed

end
