(* ===== verification/ChatLoop.thy ===== *)
theory ChatLoop
  imports AssistantText OpenAI SimCacheWiring
begin

text \<open>
  The loop that a streaming handler of \<^verbatim>\<open>cmd/cursor-proxy\<close> runs over the upstream events, and the
  Chat Completions handlers \<^verbatim>\<open>streamOpenAI\<close> and \<^verbatim>\<open>nonStreamOpenAI\<close> of \<^verbatim>\<open>main.go\<close>. The loop's body is the
  same text in four handlers up to the writer and the kinds it forwards, which are arguments here.
  Frames are collected in the state; the response headers are committed by the first of them.
\<close>

datatype chat_event = Trailer_Event "trailer_status option" | Server_Event "server_message option"

definition note_trailer :: "trailer_status option \<Rightarrow> trailer_status option \<Rightarrow> trailer_status option" where
  "note_trailer status err = (if status \<noteq> None \<and> \<not> trailer_ok status then status else err)"

text \<open>The text of a blob that counts as a snapshot.\<close>

definition snapshot_of :: "server_message \<Rightarrow> string option" where
  "snapshot_of m =
     (case from_kv_blob m of
        Some b \<Rightarrow> if be_assistant_text b \<noteq> [] then Some (be_assistant_text b) else None
      | None \<Rightarrow> None)"

definition text_delta :: "string \<Rightarrow> event" where
  "text_delta s = (event_of EventTextDelta)\<lparr>ev_text := s\<rparr>"

lemma text_delta_simps [simp]:
  "ev_kind (text_delta s) = EventTextDelta" "ev_text (text_delta s) = s" "ev_tool_args_delta (text_delta s) = []"
  by (simp_all add: text_delta_def event_of_def)

record ('w, 'f) loop =
  lp_writer :: 'w
  lp_frames :: "'f list"
  lp_text :: string
  lp_saw_turn_end :: bool
  lp_wrote_turn_end :: bool
  lp_saw_output :: bool
  lp_last_usage :: "usage option"
  lp_trailer_err :: "trailer_status option"

definition new_loop :: "'w \<Rightarrow> ('w, 'f) loop" where
  "new_loop w = \<lparr>lp_writer = w, lp_frames = [], lp_text = [], lp_saw_turn_end = False, lp_wrote_turn_end = False,
     lp_saw_output = False, lp_last_usage = None, lp_trailer_err = None\<rparr>"

definition write_event :: "(event \<Rightarrow> 'w \<Rightarrow> 'f list \<times> 'w) \<Rightarrow> event \<Rightarrow> ('w, 'f) loop \<Rightarrow> ('w, 'f) loop" where
  "write_event enc ev st =
     (case enc ev (lp_writer st) of (fs, w) \<Rightarrow> st\<lparr>lp_writer := w, lp_frames := lp_frames st @ fs\<rparr>)"

text \<open>One translated event; \<open>forwarded\<close> are the tool call kinds the handler passes on.\<close>

definition loop_event :: "(event \<Rightarrow> 'w \<Rightarrow> 'f list \<times> 'w) \<Rightarrow> event_kind list \<Rightarrow> sim_cache_decision \<Rightarrow> event \<Rightarrow>
    ('w, 'f) loop \<Rightarrow> ('w, 'f) loop" where
  "loop_event enc forwarded d ev st =
     (if ev_kind ev = EventTextDelta then
        (case accept_delta (lp_text st) (ev_text ev) of (delta, t) \<Rightarrow>
           let st = st\<lparr>lp_text := t, lp_saw_output := lp_saw_output st \<or> delta \<noteq> []\<rparr> in
           write_event enc (ev\<lparr>ev_text := delta\<rparr>) st)
      else if ev_kind ev \<in> set forwarded then write_event enc ev (st\<lparr>lp_saw_output := True\<rparr>)
      else if ev_kind ev = EventTurnEnded then
        (let u = apply_to_usage d (ev_usage ev) False;
             st = st\<lparr>lp_saw_turn_end := True, lp_last_usage := u\<rparr> in
         if lp_saw_output st then write_event enc (ev\<lparr>ev_usage := u\<rparr>) (st\<lparr>lp_wrote_turn_end := True\<rparr>) else st)
      else st)"

definition loop_step :: "(server_message \<Rightarrow> event option) \<Rightarrow> (event \<Rightarrow> 'w \<Rightarrow> 'f list \<times> 'w) \<Rightarrow> event_kind list \<Rightarrow>
    sim_cache_decision \<Rightarrow> chat_event \<Rightarrow> ('w, 'f) loop \<Rightarrow> ('w, 'f) loop" where
  "loop_step tr enc forwarded d ce st =
     (case ce of
        Trailer_Event status \<Rightarrow> st\<lparr>lp_trailer_err := note_trailer status (lp_trailer_err st)\<rparr>
      | Server_Event None \<Rightarrow> st
      | Server_Event (Some m) \<Rightarrow>
          (case snapshot_of m of
             Some full \<Rightarrow>
               (case accept_snapshot (lp_text st) full of (delta, t) \<Rightarrow>
                  let st = st\<lparr>lp_text := t\<rparr> in
                  if delta \<noteq> [] then write_event enc (text_delta delta) (st\<lparr>lp_saw_output := True\<rparr>) else st)
           | None \<Rightarrow> (case tr m of None \<Rightarrow> st | Some ev \<Rightarrow> loop_event enc forwarded d ev st)))"

text \<open>An error answer in place of the stream while nothing was written.\<close>

datatype 'f answer = Stream "'f list" | Failed http_response

definition failure :: "(trailer_status option \<Rightarrow> http_response) \<Rightarrow> http_response \<Rightarrow> ('w, 'f) loop \<Rightarrow> http_response option" where
  "failure upstream_error empty_error st =
     (if lp_frames st = [] \<and> lp_trailer_err st \<noteq> None then Some (upstream_error (lp_trailer_err st))
      else if lp_frames st = [] \<and> is_empty_upstream_response (lp_saw_output st) (lp_last_usage st)
        then Some empty_error
      else None)"

subsection \<open>Chat Completions\<close>

definition finish_openai :: "(openai_writer, chunk) loop \<Rightarrow> chunk answer" where
  "finish_openai st =
     (case failure write_upstream_openai_error write_empty_upstream_openai_error st of
        Some r \<Rightarrow> Failed r
      | None \<Rightarrow>
          let st = (if \<not> lp_saw_turn_end st \<and> ow_saw_tool_call (lp_writer st)
                    then write_event encode_openai (turn_end None) st
                    else if lp_saw_turn_end st \<and> \<not> lp_wrote_turn_end st
                    then write_event encode_openai (turn_end (lp_last_usage st)) st else st)
          in Stream (lp_frames st @ final_usage_frame (lp_writer st) @ final_done))"

definition stream_openai :: "(server_message \<Rightarrow> event option) \<Rightarrow> sim_cache_decision \<Rightarrow> openai_writer \<Rightarrow> chat_event list \<Rightarrow>
    chunk answer" where
  "stream_openai tr d w ces =
     finish_openai (fold (loop_step tr encode_openai [EventToolCallStarted, EventToolCallDelta] d) ces (new_loop w))"

text \<open>The single answer: the accumulator, the trailer error, and what is left when all is read.\<close>

definition non_stream_openai_step :: "(server_message \<Rightarrow> event option) \<Rightarrow> chat_event \<Rightarrow>
    accumulator \<times> trailer_status option \<Rightarrow> accumulator \<times> trailer_status option" where
  "non_stream_openai_step tr ce = (\<lambda>(a, err).
     case ce of
       Trailer_Event status \<Rightarrow> (a, note_trailer status err)
     | Server_Event None \<Rightarrow> (a, err)
     | Server_Event (Some m) \<Rightarrow>
         (case snapshot_of m of
            Some full \<Rightarrow> (a\<lparr>na_text := full\<rparr>, err)
          | None \<Rightarrow>
              (case tr m of
                 None \<Rightarrow> (a, err)
               | Some ev \<Rightarrow>
                   if ev_kind ev = EventTextDelta \<or> ev_kind ev = EventToolCallStarted then (consume ev a, err)
                   else if ev_kind ev = EventTurnEnded
                     then (a\<lparr>na_usage := ev_usage ev, na_finish_stop := True\<rparr>, err)
                   else (a, err))))"

datatype answer_or_error = Answer string json | Error_Answer http_response

definition non_stream_openai :: "(server_message \<Rightarrow> event option) \<Rightarrow> sim_cache_decision \<Rightarrow> string \<Rightarrow> string \<Rightarrow> int \<Rightarrow>
    chat_event list \<Rightarrow> answer_or_error" where
  "non_stream_openai tr d model uuid now ces =
     (case fold (non_stream_openai_step tr) ces (new_accumulator model, None) of (a, err) \<Rightarrow>
        if err \<noteq> None \<and> na_text a = [] \<and> na_tool_calls a = [] then Error_Answer (write_upstream_openai_error err)
        else if is_empty_upstream_response (na_text a \<noteq> [] \<or> na_tool_calls a \<noteq> []) (na_usage a)
          then Error_Answer write_empty_upstream_openai_error
        else Answer (header_after d (case na_usage a of None \<Rightarrow> 0 | Some u \<Rightarrow> u_cache_read u))
          (accumulator_response (''chatcmpl-'' @ uuid) now (a\<lparr>na_usage := apply_to_usage d (na_usage a) False\<rparr>)))"

subsection \<open>Single answers by an accumulator\<close>

text \<open>
  The body of the loop that \<^verbatim>\<open>nonStreamResponses\<close> and \<^verbatim>\<open>nonStreamGemini\<close> share, with the method
  \<^verbatim>\<open>Consume\<close> of their accumulator as an argument: the accumulator, the tracker's text, the trailer error.
\<close>

definition single_step :: "(server_message \<Rightarrow> event option) \<Rightarrow> (event \<Rightarrow> 'a \<Rightarrow> 'a) \<Rightarrow> chat_event \<Rightarrow>
    'a \<times> string \<times> trailer_status option \<Rightarrow> 'a \<times> string \<times> trailer_status option" where
  "single_step tr accept ce = (\<lambda>(a, t, err).
     case ce of
       Trailer_Event status \<Rightarrow> (a, t, note_trailer status err)
     | Server_Event None \<Rightarrow> (a, t, err)
     | Server_Event (Some m) \<Rightarrow>
         (case snapshot_of m of
            Some full \<Rightarrow> (case accept_snapshot t full of (delta, t) \<Rightarrow>
              (if delta \<noteq> [] then accept (text_delta delta) a else a, t, err))
          | None \<Rightarrow>
              (case tr m of
                 None \<Rightarrow> (a, t, err)
               | Some ev \<Rightarrow>
                   if ev_kind ev = EventTextDelta
                   then (case accept_delta t (ev_text ev) of (delta, t) \<Rightarrow> (accept (ev\<lparr>ev_text := delta\<rparr>) a, t, err))
                   else (accept ev a, t, err))))"

end
