(* ===== verification/ChatDelivery.thy ===== *)
theory ChatDelivery
  imports ChatLoop
begin

text \<open>
  The loop of ChatLoop as a function from upstream events to writer events, followed by a run of
  the writer; with it the theorems about writers carry over to whole responses.
\<close>

subsection \<open>The loop is a writer run\<close>

text \<open>The events one upstream event hands to the writer; the state is the tracker's text and \<open>sawOutput\<close>.\<close>

definition loop_says :: "(server_message \<Rightarrow> event option) \<Rightarrow> event_kind list \<Rightarrow> sim_cache_decision \<Rightarrow> chat_event \<Rightarrow>
    string \<times> bool \<Rightarrow> event list \<times> string \<times> bool" where
  "loop_says tr forwarded d ce = (\<lambda>(t, out).
     case ce of
       Server_Event (Some m) \<Rightarrow>
         (case snapshot_of m of
            Some full \<Rightarrow> (case accept_snapshot t full of (delta, t) \<Rightarrow>
              if delta \<noteq> [] then ([text_delta delta], t, True) else ([], t, out))
          | None \<Rightarrow>
              (case tr m of
                 None \<Rightarrow> ([], t, out)
               | Some ev \<Rightarrow>
                   if ev_kind ev = EventTextDelta then ([ev], t @ ev_text ev, out \<or> ev_text ev \<noteq> [])
                   else if ev_kind ev \<in> set forwarded then ([ev], t, True)
                   else if ev_kind ev = EventTurnEnded
                     then (if out then [ev\<lparr>ev_usage := apply_to_usage d (ev_usage ev) False\<rparr>] else [], t, out)
                   else ([], t, out)))
     | _ \<Rightarrow> ([], t, out))"

fun loop_says_all :: "(server_message \<Rightarrow> event option) \<Rightarrow> event_kind list \<Rightarrow> sim_cache_decision \<Rightarrow> chat_event list \<Rightarrow>
    string \<times> bool \<Rightarrow> event list \<times> string \<times> bool" where
  "loop_says_all tr fw d [] st = ([], st)"
| "loop_says_all tr fw d (ce # ces) st =
     (let (evs, st) = loop_says tr fw d ce st; (evs', st) = loop_says_all tr fw d ces st in (evs @ evs', st))"

definition loop_view :: "('w, 'f) loop \<Rightarrow> string \<times> bool" where
  "loop_view st = (lp_text st, lp_saw_output st)"

lemma write_event_simps [simp]:
  "lp_writer (write_event enc ev st) = snd (enc ev (lp_writer st))"
  "lp_frames (write_event enc ev st) = lp_frames st @ fst (enc ev (lp_writer st))"
  "lp_text (write_event enc ev st) = lp_text st" "lp_saw_output (write_event enc ev st) = lp_saw_output st"
  "lp_saw_turn_end (write_event enc ev st) = lp_saw_turn_end st"
  "lp_wrote_turn_end (write_event enc ev st) = lp_wrote_turn_end st"
  "lp_last_usage (write_event enc ev st) = lp_last_usage st"
  "lp_trailer_err (write_event enc ev st) = lp_trailer_err st"
  by (simp_all add: write_event_def split: prod.splits)

lemma same_text: "ev\<lparr>ev_text := ev_text ev\<rparr> = ev"
  by simp

lemma loop_step_says:
  assumes "loop_says tr fw d ce (loop_view st) = (evs, v)"
  shows "loop_view (loop_step tr enc fw d ce st) = v \<and>
    lp_frames (loop_step tr enc fw d ce st) = lp_frames st @ fst (run_writer enc evs (lp_writer st)) \<and>
    lp_writer (loop_step tr enc fw d ce st) = snd (run_writer enc evs (lp_writer st))"
proof (cases ce)
  case (Trailer_Event s)
  with assms show ?thesis by (simp add: loop_says_def loop_step_def loop_view_def)
next
  case (Server_Event mo)
  show ?thesis
  proof (cases mo)
    case None
    with assms Server_Event show ?thesis by (simp add: loop_says_def loop_step_def loop_view_def)
  next
    case (Some m)
    show ?thesis
    proof (cases "snapshot_of m")
      case (Some full)
      obtain dl t where a: "accept_snapshot (lp_text st) full = (dl, t)" by (cases "accept_snapshot (lp_text st) full")
      with assms Server_Event \<open>mo = Some m\<close> Some show ?thesis
        by (cases "dl = []") (auto simp: loop_says_def loop_step_def loop_view_def Let_def split: prod.splits)
    next
      case None
      show ?thesis
      proof (cases "tr m")
        case None
        with assms Server_Event \<open>mo = Some m\<close> \<open>snapshot_of m = None\<close> show ?thesis
          by (simp add: loop_says_def loop_step_def loop_view_def)
      next
        case (Some ev)
        have s: "loop_step tr enc fw d ce st = loop_event enc fw d ev st"
          using Server_Event \<open>mo = Some m\<close> None Some by (simp add: loop_step_def)
        have v: "loop_says tr fw d ce (loop_view st) =
           (if ev_kind ev = EventTextDelta then ([ev], lp_text st @ ev_text ev, lp_saw_output st \<or> ev_text ev \<noteq> [])
            else if ev_kind ev \<in> set fw then ([ev], lp_text st, True)
            else if ev_kind ev = EventTurnEnded
              then (if lp_saw_output st then [ev\<lparr>ev_usage := apply_to_usage d (ev_usage ev) False\<rparr>] else [],
                lp_text st, lp_saw_output st)
            else ([], lp_text st, lp_saw_output st))"
          using Server_Event \<open>mo = Some m\<close> None Some by (simp add: loop_says_def loop_view_def)
        have ad: "accept_delta t x = (x, t @ x)" for t x by (simp add: accept_delta_def)
        show ?thesis
          using assms unfolding s v
          by (auto simp: loop_event_def loop_view_def ad Let_def split: if_splits prod.splits)
      qed
    qed
  qed
qed

lemma loop_says:
  assumes "loop_says_all tr fw d ces (loop_view st) = (evs, v)"
  shows "loop_view (fold (loop_step tr enc fw d) ces st) = v \<and>
    lp_frames (fold (loop_step tr enc fw d) ces st) = lp_frames st @ fst (run_writer enc evs (lp_writer st)) \<and>
    lp_writer (fold (loop_step tr enc fw d) ces st) = snd (run_writer enc evs (lp_writer st))"
  using assms
proof (induction ces arbitrary: st evs v)
  case (Cons ce ces)
  obtain e1 v1 where 1: "loop_says tr fw d ce (loop_view st) = (e1, v1)" by (cases "loop_says tr fw d ce (loop_view st)")
  obtain e2 v2 where 2: "loop_says_all tr fw d ces v1 = (e2, v2)" by (cases "loop_says_all tr fw d ces v1")
  note s = loop_step_says [OF 1, of enc]
  from s 2 have "loop_says_all tr fw d ces (loop_view (loop_step tr enc fw d ce st)) = (e2, v2)" by simp
  from Cons.IH [OF this] s Cons.prems 1 2 show ?case
    by (auto simp: run_writer_append split: prod.splits)
qed simp

text \<open>One upstream event hands over at most one event, and what it does to \<open>sawOutput\<close>.\<close>

lemma loop_says_one:
  assumes "loop_says tr fw d ce (t, out) = (evs, t', out')" "EventTurnEnded \<notin> set fw" "EventTextDelta \<notin> set fw"
  obtains "evs = []" "out' = out"
  | ev where "evs = [ev]" "ev_kind ev = EventTextDelta" "out' = (out \<or> ev_text ev \<noteq> [])"
  | ev where "evs = [ev]" "ev_kind ev = EventTurnEnded" "out" "out'"
  | ev where "evs = [ev]" "ev_kind ev \<in> set fw" "out'"
  using assms
  by (auto simp: loop_says_def split: chat_event.splits option.splits prod.splits if_splits)

text \<open>The end of the turn is written exactly if the loop hands it over.\<close>

definition ends_turn :: "event \<Rightarrow> bool" where
  "ends_turn ev \<longleftrightarrow> ev_kind ev = EventTurnEnded"

definition turn_flags :: "('w, 'f) loop \<Rightarrow> bool \<times> bool" where
  "turn_flags st = (lp_wrote_turn_end st, lp_wrote_turn_end st \<longrightarrow> lp_saw_turn_end st)"

lemma turn_flags_simps [simp]:
  "turn_flags (write_event enc ev st) = turn_flags st" "turn_flags (st\<lparr>lp_saw_output := b\<rparr>) = turn_flags st"
  "turn_flags (st\<lparr>lp_text := t\<rparr>) = turn_flags st" "turn_flags (st\<lparr>lp_trailer_err := e\<rparr>) = turn_flags st"
  by (simp_all add: turn_flags_def)

lemma loop_step_flags:
  assumes "loop_says tr fw d ce (loop_view st) = (evs, v)" "EventTurnEnded \<notin> set fw" "EventTextDelta \<notin> set fw"
    and "turn_flags st = (b, True)"
  shows "turn_flags (loop_step tr enc fw d ce st) = (b \<or> list_ex ends_turn evs, True)"
proof (cases "\<exists>m. ce = Server_Event (Some m)")
  case False
  with assms(1,4) show ?thesis
    by (auto simp: loop_says_def loop_step_def loop_view_def split: chat_event.splits option.splits)
next
  case True
  then obtain m where m: "ce = Server_Event (Some m)" by blast
  show ?thesis
  proof (cases "snapshot_of m")
    case (Some full)
    obtain dl t where "accept_snapshot (lp_text st) full = (dl, t)" by (cases "accept_snapshot (lp_text st) full")
    with assms(1,4) m Some show ?thesis
      by (auto simp: loop_says_def loop_step_def loop_view_def Let_def ends_turn_def split: if_splits)
  next
    case None
    show ?thesis
    proof (cases "tr m")
      case None
      with assms(1,4) m \<open>snapshot_of m = None\<close> show ?thesis by (simp add: loop_says_def loop_step_def loop_view_def)
    next
      case (Some ev)
      have s: "loop_step tr enc fw d ce st = loop_event enc fw d ev st" using m None Some by (simp add: loop_step_def)
      consider "ev_kind ev = EventTextDelta" | "ev_kind ev \<in> set fw" "ev_kind ev \<noteq> EventTurnEnded" "ev_kind ev \<noteq> EventTextDelta"
        | "ev_kind ev = EventTurnEnded" "ev_kind ev \<notin> set fw"
        | "ev_kind ev \<notin> set fw" "ev_kind ev \<noteq> EventTurnEnded" "ev_kind ev \<noteq> EventTextDelta"
        using assms(2,3) by metis
      then show ?thesis
      proof cases
        case 1
        with assms(1,4) m None Some show ?thesis unfolding s
          by (auto simp: loop_says_def loop_view_def loop_event_def accept_delta_def Let_def ends_turn_def)
      next
        case 3
        with assms(1,4) m None Some show ?thesis unfolding s
          by (auto simp: loop_says_def loop_view_def loop_event_def Let_def ends_turn_def turn_flags_def split: if_splits)
      qed (use assms(1,4) m None Some in \<open>auto simp: loop_step_def loop_says_def loop_view_def loop_event_def ends_turn_def\<close>)
    qed
  qed
qed

lemma loop_flags:
  assumes "loop_says_all tr fw d ces (loop_view st) = (evs, v)" "EventTurnEnded \<notin> set fw" "EventTextDelta \<notin> set fw"
    and "turn_flags st = (b, True)"
  shows "turn_flags (fold (loop_step tr enc fw d) ces st) = (b \<or> list_ex ends_turn evs, True)"
  using assms(1,4)
proof (induction ces arbitrary: st evs v b)
  case (Cons ce ces)
  obtain e1 v1 where 1: "loop_says tr fw d ce (loop_view st) = (e1, v1)" by (cases "loop_says tr fw d ce (loop_view st)")
  obtain e2 v2 where 2: "loop_says_all tr fw d ces v1 = (e2, v2)" by (cases "loop_says_all tr fw d ces v1")
  have "loop_view (loop_step tr enc fw d ce st) = v1" using loop_step_says [OF 1] by blast
  with 2 have "loop_says_all tr fw d ces (loop_view (loop_step tr enc fw d ce st)) = (e2, v2)" by simp
  from Cons.IH [OF this loop_step_flags [OF 1 assms(2,3) Cons.prems(2)]] Cons.prems 1 2 show ?case
    by (auto split: prod.splits)
qed simp

text \<open>What is known of the events of a loop from what is known of each.\<close>

lemma loop_says_all_list:
  assumes "\<And>m ev. tr m = Some ev \<Longrightarrow> P ev" and "\<And>s. P (text_delta s)"
    and "\<And>ev u. P ev \<Longrightarrow> P (ev\<lparr>ev_usage := u\<rparr>)"
    and "loop_says_all tr fw d ces st = (evs, st')"
  shows "list_all P evs"
  using assms(4)
proof (induction ces arbitrary: st evs st')
  case (Cons ce ces)
  obtain e1 v1 where 1: "loop_says tr fw d ce st = (e1, v1)" by (cases "loop_says tr fw d ce st")
  obtain e2 v2 where 2: "loop_says_all tr fw d ces v1 = (e2, v2)" by (cases "loop_says_all tr fw d ces v1")
  have "list_all P e1"
    using 1 assms(1-3)
    by (auto simp: loop_says_def split: chat_event.splits option.splits prod.splits if_splits)
  with Cons.IH [OF 2] Cons.prems 1 2 show ?case by auto
qed simp

subsection \<open>The text and the calls of an upstream stream\<close>

definition chat_input :: "(server_message \<Rightarrow> event option) \<Rightarrow> chat_event \<Rightarrow> text_input list" where
  "chat_input tr ce =
     (case ce of
        Server_Event (Some m) \<Rightarrow>
          (case snapshot_of m of
             Some full \<Rightarrow> [Snapshot_Input full]
           | None \<Rightarrow> (case tr m of None \<Rightarrow> []
               | Some ev \<Rightarrow> if ev_kind ev = EventTextDelta then [Text_Input (ev_text ev)] else []))
      | _ \<Rightarrow> [])"

definition chat_inputs :: "(server_message \<Rightarrow> event option) \<Rightarrow> chat_event list \<Rightarrow> text_input list" where
  "chat_inputs tr ces = concat (map (chat_input tr) ces)"

definition chat_call :: "(server_message \<Rightarrow> event option) \<Rightarrow> chat_event \<Rightarrow> (string \<times> string \<times> string) list" where
  "chat_call tr ce =
     (case ce of
        Server_Event (Some m) \<Rightarrow>
          (case snapshot_of m of
             Some full \<Rightarrow> []
           | None \<Rightarrow> (case tr m of None \<Rightarrow> []
               | Some ev \<Rightarrow> if ev_kind ev = EventToolCallStarted
                   then [(ev_tool_call_id ev, ev_tool_name ev, ev_tool_args_delta ev)] else []))
      | _ \<Rightarrow> [])"

definition chat_calls :: "(server_message \<Rightarrow> event option) \<Rightarrow> chat_event list \<Rightarrow> (string \<times> string \<times> string) list" where
  "chat_calls tr ces = concat (map (chat_call tr) ces)"

definition started_calls :: "event list \<Rightarrow> (string \<times> string \<times> string) list" where
  "started_calls evs = map (\<lambda>ev. (ev_tool_call_id ev, ev_tool_name ev, ev_tool_args_delta ev))
     (filter (\<lambda>ev. ev_kind ev = EventToolCallStarted) evs)"

lemma loop_says_text:
  assumes "loop_says_all tr fw d ces (t, out) = (evs, t', out')" "EventTextDelta \<notin> set fw"
  shows "accept_inputs (chat_inputs tr ces) t = (events_text evs, t')"
  using assms
proof (induction ces arbitrary: t out evs t' out')
  case (Cons ce ces)
  obtain e1 t1 o1 where 1: "loop_says tr fw d ce (t, out) = (e1, t1, o1)" by (cases "loop_says tr fw d ce (t, out)")
  obtain e2 v2 where 2: "loop_says_all tr fw d ces (t1, o1) = (e2, v2)" by (cases "loop_says_all tr fw d ces (t1, o1)")
  have "accept_inputs (chat_input tr ce) t = (events_text e1, t1)"
    using 1 Cons.prems(2)
    by (auto simp: loop_says_def chat_input_def accept_delta_def step_text_def Let_def
        split: chat_event.splits option.splits prod.splits if_splits)
  moreover have "accept_inputs (chat_inputs tr ces) t1 = (events_text e2, t')"
    using Cons.IH [of t1 o1 e2] 2 Cons.prems 1 by auto
  ultimately show ?case
    using Cons.prems 1 2 by (auto simp: chat_inputs_def accept_inputs_append)
qed (simp add: chat_inputs_def)

lemma loop_says_calls:
  assumes "loop_says_all tr fw d ces st = (evs, st')" "EventToolCallStarted \<in> set fw"
  shows "started_calls evs = chat_calls tr ces"
  using assms
proof (induction ces arbitrary: st evs st')
  case (Cons ce ces)
  obtain e1 v1 where 1: "loop_says tr fw d ce st = (e1, v1)" by (cases "loop_says tr fw d ce st")
  obtain e2 v2 where 2: "loop_says_all tr fw d ces v1 = (e2, v2)" by (cases "loop_says_all tr fw d ces v1")
  have "started_calls e1 = chat_call tr ce"
    using 1 Cons.prems(2)
    by (auto simp: loop_says_def chat_call_def started_calls_def
        split: chat_event.splits option.splits prod.splits if_splits)
  with Cons.IH [OF 2 Cons.prems(2)] Cons.prems(1) 1 2 show ?case
    by (auto simp: chat_calls_def started_calls_def)
qed (simp add: started_calls_def chat_calls_def)

subsection \<open>The end of the turn\<close>

definition turn_over :: "(server_message \<Rightarrow> event option) \<Rightarrow> chat_event \<Rightarrow> bool" where
  "turn_over tr ce = (case ce of
     Server_Event (Some m) \<Rightarrow> snapshot_of m = None \<and> (case tr m of Some ev \<Rightarrow> ends_turn ev | None \<Rightarrow> False)
   | _ \<Rightarrow> False)"

definition says_nothing :: "(server_message \<Rightarrow> event option) \<Rightarrow> chat_event \<Rightarrow> bool" where
  "says_nothing tr ce \<longleftrightarrow> chat_input tr ce = [] \<and> chat_call tr ce = []"

text \<open>After the end of the turn there is no more text and no more call.\<close>

fun silent_after_turn :: "(server_message \<Rightarrow> event option) \<Rightarrow> chat_event list \<Rightarrow> bool" where
  "silent_after_turn tr [] = True"
| "silent_after_turn tr (ce # ces) =
     (if turn_over tr ce then list_all (says_nothing tr) ces else silent_after_turn tr ces)"

lemma nothing_said: "list_all (says_nothing tr) ces \<Longrightarrow> chat_inputs tr ces = [] \<and> chat_calls tr ces = [] \<and> silent_after_turn tr ces"
  by (induction ces) (auto simp: says_nothing_def chat_inputs_def chat_calls_def)

text \<open>After the end of the turn there is nothing a handler forwards.\<close>

definition idle :: "(server_message \<Rightarrow> event option) \<Rightarrow> chat_event \<Rightarrow> bool" where
  "idle tr ce = (case ce of
     Server_Event (Some m) \<Rightarrow> snapshot_of m = None \<and>
       (case tr m of Some ev \<Rightarrow> ev_kind ev \<notin> {EventTextDelta, EventToolCallStarted, EventToolCallDelta,
          EventToolCallCompleted, EventTurnEnded} | None \<Rightarrow> True)
   | _ \<Rightarrow> True)"

fun turn_last :: "(server_message \<Rightarrow> event option) \<Rightarrow> chat_event list \<Rightarrow> bool" where
  "turn_last tr [] = True"
| "turn_last tr (ce # ces) = (if turn_over tr ce then list_all (idle tr) ces else turn_last tr ces)"

lemma idle_says:
  assumes "idle tr ce" "set fw \<subseteq> {EventToolCallStarted, EventToolCallDelta, EventToolCallCompleted}"
  shows "loop_says tr fw d ce st = ([], st)"
proof -
  have kinds: "k \<in> set fw \<Longrightarrow> k = EventToolCallStarted \<or> k = EventToolCallDelta \<or> k = EventToolCallCompleted" for k
    using assms(2) by blast
  show ?thesis using assms(1)
    by (cases st) (auto simp: idle_def loop_says_def dest!: kinds split: chat_event.splits option.splits)
qed

lemma idle_says_all:
  "list_all (idle tr) ces \<Longrightarrow> set fw \<subseteq> {EventToolCallStarted, EventToolCallDelta, EventToolCallCompleted} \<Longrightarrow>
     loop_says_all tr fw d ces st = ([], st)"
  by (induction ces) (simp_all add: idle_says)

lemma turn_last_events:
  assumes "turn_last tr ces" "loop_says_all tr fw d ces st = (evs, st')"
    and fw: "set fw \<subseteq> {EventToolCallStarted, EventToolCallDelta, EventToolCallCompleted}"
  shows "\<exists>pre. list_all (\<lambda>ev. \<not> ends_turn ev) pre \<and> (evs = pre \<or> (\<exists>e. evs = pre @ [e] \<and> ends_turn e))"
  using assms(1,2)
proof (induction ces arbitrary: st evs st')
  case (Cons ce ces)
  obtain t out where st: "st = (t, out)" by (cases st)
  obtain e1 t1 o1 where 1: "loop_says tr fw d ce (t, out) = (e1, t1, o1)" by (cases "loop_says tr fw d ce (t, out)")
  obtain e2 v2 where 2: "loop_says_all tr fw d ces (t1, o1) = (e2, v2)" by (cases "loop_says_all tr fw d ces (t1, o1)")
  have e: "evs = e1 @ e2" using Cons.prems(2) 1 2 st by simp
  show ?case
  proof (cases "turn_over tr ce")
    case True
    then have "e2 = []" using Cons.prems(1) idle_says_all [OF _ fw, of tr ces d "(t1, o1)"] 2 by simp
    moreover have "e1 = [] \<or> (\<exists>ev. e1 = [ev] \<and> ends_turn ev)"
      using True 1 fw by (auto simp: turn_over_def loop_says_def ends_turn_def
          split: chat_event.splits option.splits if_splits)
    ultimately show ?thesis unfolding e by (intro exI [of _ "[]"]) auto
  next
    case False
    have "list_all (\<lambda>ev. \<not> ends_turn ev) e1"
      using False 1 fw by (auto simp: turn_over_def loop_says_def ends_turn_def
          split: chat_event.splits option.splits prod.splits if_splits)
    moreover have "turn_last tr ces" using False Cons.prems(1) by simp
    from Cons.IH [OF this 2] obtain pre where "list_all (\<lambda>ev. \<not> ends_turn ev) pre"
      "e2 = pre \<or> (\<exists>e. e2 = pre @ [e] \<and> ends_turn e)" by blast
    ultimately show ?thesis unfolding e by (intro exI [of _ "e1 @ pre"]) auto
  qed
qed simp

subsection \<open>Events of the upstream stream\<close>

text \<open>Arguments come with the start of a call, as \<open>event_shape\<close> says of every server message.\<close>

definition args_with_start :: "event \<Rightarrow> bool" where
  "args_with_start ev \<longleftrightarrow>
     (ev_kind ev \<noteq> EventToolCallStarted \<longrightarrow> ev_kind ev = EventToolCallDelta \<longrightarrow> ev_tool_args_delta ev = []) \<and>
     (ev_kind ev = EventToolCallStarted \<longrightarrow> ev_tool_args_delta ev \<noteq> [])"

lemma translated_shape:
  "translate_event pb_value dialect names m = Some ev \<Longrightarrow> args_with_start ev"
  using event_shape [of pb_value m] by (auto simp: translate_event_def args_with_start_def)

lemma says_shape:
  assumes "loop_says_all (translate_event pb_value dialect names) fw d ces st = (evs, st')"
  shows "list_all args_with_start evs"
proof (rule loop_says_all_list [OF translated_shape _ _ assms])
qed (auto simp: args_with_start_def)

text \<open>No call is started after its completion.\<close>

definition completed_ids :: "(server_message \<Rightarrow> event option) \<Rightarrow> chat_event \<Rightarrow> string list" where
  "completed_ids tr ce =
     (case ce of
        Server_Event (Some m) \<Rightarrow>
          if snapshot_of m \<noteq> None then []
          else (case tr m of None \<Rightarrow> []
            | Some ev \<Rightarrow> if ev_kind ev = EventToolCallCompleted then [ev_tool_call_id ev] else [])
      | _ \<Rightarrow> [])"

fun calls_in_order :: "string list \<Rightarrow> (server_message \<Rightarrow> event option) \<Rightarrow> chat_event list \<Rightarrow> bool" where
  "calls_in_order ids tr [] = True"
| "calls_in_order ids tr (ce # ces) =
     (list_all (\<lambda>c. fst c \<notin> set ids) (chat_call tr ce) \<and> calls_in_order (completed_ids tr ce @ ids) tr ces)"

lemma started_calls_simps [simp]:
  "started_calls [] = []"
  "started_calls (ev # evs) = (if ev_kind ev = EventToolCallStarted
     then [(ev_tool_call_id ev, ev_tool_name ev, ev_tool_args_delta ev)] else []) @ started_calls evs"
  "started_calls (evs @ evs') = started_calls evs @ started_calls evs'"
  by (simp_all add: started_calls_def)

lemma calls_ok_started:
  "list_all args_with_start evs \<Longrightarrow> distinct (ids @ map fst (started_calls evs)) \<Longrightarrow> calls_ok ids evs"
proof (induction evs arbitrary: ids)
  case (Cons ev evs)
  then have "call_ok ev ids" by (auto simp: call_ok_def args_with_start_def split: event_kind.splits)
  moreover have "distinct (next_ids ev ids @ map fst (started_calls evs))"
    using Cons.prems(2) by (auto simp: next_ids_def split: if_splits)
  ultimately show ?case using Cons by simp
qed simp

lemma fold_add_call_started:
  "list_all args_with_start evs \<Longrightarrow> fold add_call evs cs = cs @ started_calls evs"
proof (induction evs arbitrary: cs)
  case (Cons ev evs)
  have "add_call ev cs = cs @ started_calls [ev]"
    using Cons.prems by (auto simp: add_call_def args_with_start_def no_args split: event_kind.splits)
  with Cons show ?case by simp
qed simp

lemma chat_call_args:
  "x \<in> set (chat_call (translate_event pb_value dialect names) ce) \<Longrightarrow> snd (snd x) \<noteq> []"
  using translated_shape [of pb_value dialect names]
  by (auto simp: chat_call_def args_with_start_def split: chat_event.splits option.splits if_splits)

lemma run_writer_fst:
  "fst (run_writer enc (evs @ evs') w) = fst (run_writer enc evs w) @ fst (run_writer enc evs' (snd (run_writer enc evs w)))"
  by (simp add: run_writer_append Let_def split: prod.splits)

subsection \<open>Single answers\<close>

text \<open>The events one upstream event hands to an accumulator.\<close>

definition single_says :: "(server_message \<Rightarrow> event option) \<Rightarrow> chat_event \<Rightarrow> string \<Rightarrow> event list \<times> string" where
  "single_says tr ce t =
     (case ce of
       Server_Event (Some m) \<Rightarrow>
         (case snapshot_of m of
            Some full \<Rightarrow> (case accept_snapshot t full of (delta, t) \<Rightarrow> (if delta \<noteq> [] then [text_delta delta] else [], t))
          | None \<Rightarrow>
              (case tr m of None \<Rightarrow> ([], t)
               | Some ev \<Rightarrow> ([ev], if ev_kind ev = EventTextDelta then t @ ev_text ev else t)))
     | _ \<Rightarrow> ([], t))"

fun single_says_all :: "(server_message \<Rightarrow> event option) \<Rightarrow> chat_event list \<Rightarrow> string \<Rightarrow> event list \<times> string" where
  "single_says_all tr [] t = ([], t)"
| "single_says_all tr (ce # ces) t =
     (let (evs, t) = single_says tr ce t; (evs', t) = single_says_all tr ces t in (evs @ evs', t))"

lemma empty_text: "ev_text ev = [] \<Longrightarrow> ev\<lparr>ev_text := []\<rparr> = ev"
  by simp

lemma single_step_says:
  "single_says tr ce t = (evs, t') \<Longrightarrow> fst (snd (single_step tr accept ce (a, t, err))) = t' \<and>
     fst (single_step tr accept ce (a, t, err)) = fold accept evs a"
  by (auto simp: single_says_def single_step_def accept_delta_def empty_text
      split: chat_event.splits option.splits prod.splits if_splits)

lemma single_run:
  "single_says_all tr ces t = (evs, t') \<Longrightarrow>
     fst (fold (single_step tr accept) ces (a, t, err)) = fold accept evs a"
proof (induction ces arbitrary: a t err evs t')
  case (Cons ce ces)
  obtain e1 t1 where 1: "single_says tr ce t = (e1, t1)" by (cases "single_says tr ce t")
  obtain e2 t2 where 2: "single_says_all tr ces t1 = (e2, t2)" by (cases "single_says_all tr ces t1")
  obtain a' t'' err' where s: "single_step tr accept ce (a, t, err) = (a', t'', err')"
    by (cases "single_step tr accept ce (a, t, err)")
  from single_step_says [OF 1, of accept a err] have "t'' = t1" "a' = fold accept e1 a" by (simp_all add: s)
  with Cons.IH [OF 2] Cons.prems 1 2 s show ?case by auto
qed simp

lemma single_says_text:
  "single_says_all tr ces t = (evs, t') \<Longrightarrow>
     accept_inputs (chat_inputs tr ces) t = (events_text evs, t') \<and> started_calls evs = chat_calls tr ces"
proof (induction ces arbitrary: t evs t')
  case (Cons ce ces)
  obtain e1 t1 where 1: "single_says tr ce t = (e1, t1)" by (cases "single_says tr ce t")
  obtain e2 t2 where 2: "single_says_all tr ces t1 = (e2, t2)" by (cases "single_says_all tr ces t1")
  have "accept_inputs (chat_input tr ce) t = (events_text e1, t1) \<and> started_calls e1 = chat_call tr ce"
    using 1
    by (auto simp: single_says_def chat_input_def chat_call_def accept_delta_def step_text_def started_calls_def Let_def
        split: chat_event.splits option.splits prod.splits if_splits)
  with Cons.IH [OF 2] Cons.prems 1 2 show ?case
    by (auto simp: chat_inputs_def chat_calls_def accept_inputs_append started_calls_def)
qed (simp add: chat_inputs_def chat_calls_def started_calls_def)

lemma single_says_shape:
  "single_says_all (translate_event pb_value dialect names) ces t = (evs, t') \<Longrightarrow> list_all args_with_start evs"
proof (induction ces arbitrary: t evs t')
  case (Cons ce ces)
  let ?tr = "translate_event pb_value dialect names"
  obtain e1 t1 where 1: "single_says ?tr ce t = (e1, t1)" by (cases "single_says ?tr ce t")
  obtain e2 t2 where 2: "single_says_all ?tr ces t1 = (e2, t2)" by (cases "single_says_all ?tr ces t1")
  have "list_all args_with_start e1"
    using 1 translated_shape [of pb_value dialect names]
    by (auto simp: single_says_def args_with_start_def split: chat_event.splits option.splits prod.splits if_splits)
  with Cons.IH [OF 2] Cons.prems 1 2 show ?case by auto
qed simp

subsection \<open>Chat Completions\<close>

abbreviation openai_loop ::
    "(server_message \<Rightarrow> event option) \<Rightarrow> sim_cache_decision \<Rightarrow> openai_writer \<Rightarrow> chat_event list \<Rightarrow> (openai_writer, chunk) loop" where
  "openai_loop tr d w ces \<equiv>
     fold (loop_step tr encode_openai [EventToolCallStarted, EventToolCallDelta] d) ces (new_loop w)"

lemma new_loop_view [simp]:
  "loop_view (new_loop w) = ([], False)" "lp_frames (new_loop w) = []" "lp_writer (new_loop w) = w"
  by (simp_all add: new_loop_def loop_view_def)

lemma client_run_end:
  "client_run (final_usage_frame w) c = Some c" "client_run final_done c = Some c"
  by (simp_all add: final_usage_frame_def final_done_def split: option.splits)

text \<open>The chunks of a stream answer: those of the loop, perhaps a finish chunk, the usage, the end mark.\<close>

lemma finish_openai_stream:
  assumes "finish_openai st = Stream fs"
  shows "\<exists>evs w. fs = lp_frames st @ fst (run_writer encode_openai evs (lp_writer st)) @ final_usage_frame w @ final_done \<and>
    (evs = [] \<or> (\<exists>u. evs = [turn_end u]))"
proof -
  have none: "failure write_upstream_openai_error write_empty_upstream_openai_error st = None"
    using assms by (auto simp: finish_openai_def split: option.splits)
  let ?finish = "\<lambda>u. lp_frames st @ fst (run_writer encode_openai [turn_end u] (lp_writer st)) @
      final_usage_frame (snd (encode_openai (turn_end u) (lp_writer st))) @ final_done"
  have "fs = ?finish None \<or> fs = ?finish (lp_last_usage st) \<or>
      fs = lp_frames st @ fst (run_writer encode_openai [] (lp_writer st)) @ final_usage_frame (lp_writer st) @ final_done"
    using assms none by (simp add: finish_openai_def Let_def split: if_splits prod.splits)
  then show ?thesis by blast
qed

lemma openai_loop_client:
  assumes "distinct (map fst (chat_calls tr ces))" and tr: "tr = translate_event pb_value dialect names"
    and "finish_openai (openai_loop tr d (new_openai_stream_writer m u t) ces) = Stream fs"
  shows "\<exists>c. client_run fs fresh_client = Some c \<and>
    cl_text c = fst (accept_inputs (chat_inputs tr ces) []) \<and> cl_calls c = chat_calls tr ces"
proof -
  let ?fw = "[EventToolCallStarted, EventToolCallDelta]" and ?w = "new_openai_stream_writer m u t"
  obtain evs v where says: "loop_says_all tr ?fw d ces ([], False) = (evs, v)"
    by (cases "loop_says_all tr ?fw d ces ([], False)")
  obtain w1 where loop: "lp_frames (openai_loop tr d ?w ces) = fst (run_writer encode_openai evs ?w)"
    "lp_writer (openai_loop tr d ?w ces) = snd (run_writer encode_openai evs ?w)"
    using loop_says [of tr ?fw d ces "new_loop ?w"] says by auto
  obtain evs' w' where fs: "fs = fst (run_writer encode_openai (evs @ evs') ?w) @ final_usage_frame w' @ final_done"
    and e: "evs' = [] \<or> (\<exists>u. evs' = [turn_end u])"
    using finish_openai_stream [OF assms(3)] unfolding loop run_writer_fst by (metis append.assoc)
  have shape: "list_all args_with_start (evs @ evs')"
    using says_shape says e tr by (auto simp: args_with_start_def)
  have starts: "started_calls (evs @ evs') = chat_calls tr ces"
    using loop_says_calls [OF says] e by auto
  have said: "events_text (evs @ evs') = fst (accept_inputs (chat_inputs tr ces) [])"
    using loop_says_text [of tr ?fw d ces "[]" False evs] says e by (cases v) (auto simp: step_text_def)
  have "calls_ok (call_ids fresh_client) (evs @ evs')"
    using calls_ok_started [OF shape, of "[]"] assms(1) unfolding starts by (simp add: call_ids_def fresh_client_def)
  from openai_stream_client [OF writes_for_new this] have "client_run fs fresh_client = Some (fold turn_step (evs @ evs') fresh_client)"
    unfolding fs by (simp add: client_run_append client_run_end)
  moreover have "cl_calls (fold turn_step (evs @ evs') fresh_client) = chat_calls tr ces"
    unfolding fold_turn_calls fold_add_call_started [OF shape] starts by (simp add: fresh_client_def)
  moreover have "cl_text (fold turn_step (evs @ evs') fresh_client) = fst (accept_inputs (chat_inputs tr ces) [])"
    unfolding fold_turn_text said by (simp add: fresh_client_def)
  ultimately show ?thesis by blast
qed

text \<open>The text of the single answer: a snapshot replaces what was there.\<close>

fun last_text :: "text_input list \<Rightarrow> string \<Rightarrow> string" where
  "last_text [] t = t"
| "last_text (Text_Input d # xs) t = last_text xs (t @ d)"
| "last_text (Snapshot_Input f # xs) t = last_text xs f"

text \<open>Every snapshot extends the text before it.\<close>

fun growing :: "text_input list \<Rightarrow> string \<Rightarrow> bool" where
  "growing [] t = True"
| "growing (Text_Input d # xs) t = growing xs (t @ d)"
| "growing (Snapshot_Input f # xs) t = (has_prefix f t \<and> growing xs f)"

lemma growing_text: "growing xs t \<Longrightarrow> accept_inputs xs t = (d, t') \<Longrightarrow> last_text xs t = t @ d"
proof (induction xs t arbitrary: d t' rule: growing.induct)
  case (2 u xs t)
  then show ?case by (auto simp: accept_delta_def Let_def split: prod.splits if_splits)
next
  case (3 f xs t)
  then obtain e where f: "f = t @ e" by (auto simp: has_prefix_iff)
  have "accept_snapshot t f = (e, f)"
    by (auto simp: accept_snapshot_def f has_prefix_iff has_suffix_iff dest: arg_cong [where f = length])
  with 3 f show ?case by (auto simp: Let_def split: prod.splits)
qed simp

lemma last_text_append: "last_text (xs @ ys) t = last_text ys (last_text xs t)"
  by (induction xs t rule: last_text.induct) simp_all

lemma non_stream_openai_fold:
  assumes tr: "tr = translate_event pb_value dialect names"
    and "fold (non_stream_openai_step tr) ces (a, err) = (a', err')"
  shows "na_text a' = last_text (chat_inputs tr ces) (na_text a) \<and>
    na_tool_calls a' = na_tool_calls a @ chat_calls tr ces"
  using assms(2)
proof (induction ces arbitrary: a err)
  case (Cons ce ces)
  obtain a1 err1 where 1: "non_stream_openai_step tr ce (a, err) = (a1, err1)"
    by (cases "non_stream_openai_step tr ce (a, err)")
  have "na_text a1 = last_text (chat_input tr ce) (na_text a) \<and> na_tool_calls a1 = na_tool_calls a @ chat_call tr ce"
  proof (cases "\<exists>m ev. ce = Server_Event (Some m) \<and> snapshot_of m = None \<and> tr m = Some ev")
    case True
    then obtain m ev where m: "ce = Server_Event (Some m)" "snapshot_of m = None" "tr m = Some ev" by blast
    then have "args_with_start ev" using translated_shape unfolding tr by blast
    with m 1 show ?thesis
      by (cases "ev_kind ev") (auto simp: non_stream_openai_step_def chat_input_def chat_call_def consume_def
          args_with_start_def Let_def)
  next
    case False
    with 1 show ?thesis
      by (auto simp: non_stream_openai_step_def chat_input_def chat_call_def
          split: chat_event.splits option.splits)
  qed
  with Cons.IH [of a1 err1] Cons.prems 1 show ?case
    by (simp add: chat_inputs_def chat_calls_def last_text_append)
qed (simp add: chat_inputs_def chat_calls_def)


definition hello_chat :: "chat_event list" where
  "hello_chat = [Server_Event (Some (Msg_Update (Upd_Text ''Hi''))),
     Server_Event (Some (Msg_Mcp_Exec \<lparr>mc_name = ''mcp_f'', mc_tool_name = [], mc_tool_call_id = ''a'', mc_args = []\<rparr>)),
     Server_Event (Some (Msg_Update (Upd_Turn_Ended 5 2 0 0 0))), Trailer_Event None]"

definition no_cache :: sim_cache_decision where
  "no_cache = \<lparr>d_active = False, d_hit = False, d_tokens = 0\<rparr>"

abbreviation plain_translation :: "server_message \<Rightarrow> event option" where
  "plain_translation \<equiv> translate_event (\<lambda>_. None) Declared_Only []"

lemma plain_contract: "apply_client_tool_contract Declared_Only [] ev = ev"
  by (simp add: apply_client_tool_contract_def apply_client_tool_alias_def aliased_name_def)

lemma hello_events:
  "snapshot_of (Msg_Update u) = None" "snapshot_of (Msg_Mcp_Exec x) = None"
  "plain_translation (Msg_Update (Upd_Text s)) = Some (text_delta s)"
  "plain_translation (Msg_Mcp_Exec \<lparr>mc_name = ''mcp_f'', mc_tool_name = [], mc_tool_call_id = ''a'', mc_args = []\<rparr>) =
     Some (call_event EventToolCallStarted ''a'' ''f'' ''{}'')"
  "plain_translation (Msg_Update (Upd_Turn_Ended 5 2 0 0 0)) = Some (turn_end (Some \<lparr>u_input = 5, u_output = 2,
     u_cache_read = 0, u_cache_write = 0, u_reasoning = 0, u_observed = 0, u_truncated = 0\<rparr>))"
  by (simp_all add: snapshot_of_def from_kv_blob_def translate_event_def plain_contract from_server_message_def
      event_of_update_def text_delta_def turn_end_def call_id_event_def call_event_def event_of_def
      encode_mcp_args_def restore_mcp_tool_name_def has_prefix_def external_tool_prefix_def
      sanitize_tool_call_id_def replace_char_def)

lemma hello_calls: "chat_calls plain_translation hello_chat = [(''a'', ''f'', ''{}'')]"
  by (simp add: chat_calls_def chat_call_def hello_chat_def hello_events call_event_def event_of_def)

lemma hello_inputs: "chat_inputs plain_translation hello_chat = [Text_Input ''Hi'']"
  by (simp add: chat_inputs_def chat_input_def hello_chat_def hello_events call_event_def event_of_def)

lemma failure_written: "lp_frames st \<noteq> [] \<Longrightarrow> failure u e st = None"
  by (simp add: failure_def)

lemma frames_kept: "lp_frames st \<noteq> [] \<Longrightarrow> lp_frames (fold (loop_step tr enc fw d) ces st) \<noteq> []"
  using loop_says [of tr fw d ces st] by (cases "loop_says_all tr fw d ces (loop_view st)") auto

lemma hello_written:
  assumes "\<And>ev. ev_kind ev = EventTextDelta \<Longrightarrow> ev_text ev \<noteq> [] \<Longrightarrow> fst (enc ev w) \<noteq> []"
  shows "lp_frames (fold (loop_step plain_translation enc fw d) hello_chat (new_loop w)) \<noteq> []"
proof -
  have "lp_frames (loop_step plain_translation enc fw d (Server_Event (Some (Msg_Update (Upd_Text ''Hi'')))) (new_loop w)) \<noteq> []"
    by (simp add: loop_step_def hello_events loop_event_def accept_delta_def assms)
  from frames_kept [OF this] show ?thesis unfolding hello_chat_def by (subst fold_simps(2))
qed


end
