(* ===== verification/AnthropicProtocol.thy ===== *)
theory AnthropicProtocol
  imports Anthropic StreamWriter
begin

text \<open>
  The Anthropic stream protocol as an acceptor of frame sequences, written from the shape the
  header comment of \<^verbatim>\<open>anthropic.go\<close> documents, and the proof that the writer of theory
  Anthropic implements it. A stream is a message start, content blocks that are started at
  consecutive indexes, receive deltas of their own kind and are stopped once, a message delta
  when no block is open, and the message stop.
\<close>

subsection \<open>The acceptor\<close>

datatype block_kind = KText | KThinking | KTool | KServer | KResult

datatype phase = Not_Started | Streaming | Delta_Sent | Finished

record protocol =
  pr_phase :: phase
  pr_next :: nat
  pr_open :: "(nat \<times> block_kind) list"

definition fresh_protocol :: protocol where
  "fresh_protocol = \<lparr>pr_phase = Not_Started, pr_next = 0, pr_open = []\<rparr>"

fun kind_of :: "content_block \<Rightarrow> block_kind" where
  "kind_of Text_Block = KText"
| "kind_of Thinking_Block = KThinking"
| "kind_of (Tool_Use _ _) = KTool"
| "kind_of (Server_Tool_Use _ _) = KServer"
| "kind_of (Web_Search_Result _ _) = KResult"
| "kind_of (Web_Fetch_Result _ _) = KResult"

fun delta_fits :: "block_kind \<Rightarrow> block_delta \<Rightarrow> bool" where
  "delta_fits k (Text_Delta _) = (k = KText)"
| "delta_fits k (Citations_Delta _) = (k = KText)"
| "delta_fits k (Thinking_Delta _) = (k = KThinking)"
| "delta_fits k (Signature_Delta _) = (k = KThinking)"
| "delta_fits k (Input_Json_Delta _) = (k = KTool \<or> k = KServer)"

fun accept_frame :: "sse_frame \<Rightarrow> protocol \<Rightarrow> protocol option" where
  "accept_frame (Message_Start _ _ _) p =
     (if pr_phase p = Not_Started then Some (p\<lparr>pr_phase := Streaming\<rparr>) else None)"
| "accept_frame (Block_Start i b) p =
     (if pr_phase p = Streaming \<and> i = pr_next p
      then Some (p\<lparr>pr_open := (i, kind_of b) # pr_open p, pr_next := i + 1\<rparr>) else None)"
| "accept_frame (Block_Delta i d) p =
     (if pr_phase p = Streaming
      then (case map_of (pr_open p) i of None \<Rightarrow> None
            | Some k \<Rightarrow> if delta_fits k d then Some p else None) else None)"
| "accept_frame (Block_Stop i) p =
     (if pr_phase p = Streaming \<and> map_of (pr_open p) i \<noteq> None
      then Some (p\<lparr>pr_open := AList.delete i (pr_open p)\<rparr>) else None)"
| "accept_frame Ping p = (if pr_phase p = Streaming then Some p else None)"
| "accept_frame (Message_Delta _ _ _ _) p =
     (if pr_phase p = Streaming \<and> pr_open p = [] then Some (p\<lparr>pr_phase := Delta_Sent\<rparr>) else None)"
| "accept_frame Message_Stop p =
     (if pr_phase p = Delta_Sent then Some (p\<lparr>pr_phase := Finished\<rparr>) else None)"
| "accept_frame (Error_Event _ _) p =
     (if pr_phase p = Finished then None else Some (p\<lparr>pr_phase := Finished\<rparr>))"

fun accept_frames :: "sse_frame list \<Rightarrow> protocol \<Rightarrow> protocol option" where
  "accept_frames [] p = Some p"
| "accept_frames (f # fs) p =
     (case accept_frame f p of None \<Rightarrow> None | Some q \<Rightarrow> accept_frames fs q)"

lemma accept_frames_append:
  "accept_frames (fs @ gs) p =
     (case accept_frames fs p of None \<Rightarrow> None | Some q \<Rightarrow> accept_frames gs q)"
  by (induction fs arbitrary: p) (auto split: option.splits)

subsection \<open>The invariant\<close>

definition blocks :: "anthropic_writer \<Rightarrow> (nat \<times> block_kind) list" where
  "blocks w =
     (if aw_block_open w
      then [(aw_block_index w, if aw_block_type w = ''text'' then KText else KThinking)] else []) @
     map (\<lambda>(_, i). (i, KTool)) (tool_list w) @ map (\<lambda>(_, i). (i, KServer)) (aw_server_blocks w)"

text \<open>
  \<open>tracks w p\<close>: the blocks open in the protocol are exactly those the writer knows as open;
  \<open>writer_ok w p\<close> adds that the writer's index is the next one.
\<close>

definition tracks :: "anthropic_writer \<Rightarrow> protocol \<Rightarrow> bool" where
  "tracks w p \<longleftrightarrow>
     pr_phase p = (if aw_sent_start w then Streaming else Not_Started) \<and>
     set (pr_open p) = set (blocks w) \<and>
     distinct (map fst (pr_open p)) \<and> distinct (map fst (blocks w)) \<and>
     (\<forall>x \<in> set (blocks w). fst x < pr_next p) \<and>
     distinct (map fst (tool_list w)) \<and> distinct (map fst (aw_server_blocks w)) \<and>
     (aw_block_open w \<longrightarrow> aw_block_type w \<in> {''text'', ''thinking''}) \<and>
     (\<not> aw_sent_start w \<longrightarrow> blocks w = [])"

definition writer_ok :: "anthropic_writer \<Rightarrow> protocol \<Rightarrow> bool" where
  "writer_ok w p \<longleftrightarrow> tracks w p \<and>
     pr_next p = aw_block_index w + (if aw_block_open w then 1 else 0)"

text \<open>A step that emits \<open>fs\<close> and keeps the invariant; such steps compose.\<close>

definition emits :: "anthropic_writer \<Rightarrow> sse_frame list \<Rightarrow> anthropic_writer \<Rightarrow> bool" where
  "emits w fs w' \<longleftrightarrow>
     (\<forall>p. writer_ok w p \<longrightarrow> (\<exists>q. accept_frames fs p = Some q \<and> writer_ok w' q))"

lemma emitsI: "(\<And>p. writer_ok w p \<Longrightarrow> \<exists>q. accept_frames fs p = Some q \<and> writer_ok w' q) \<Longrightarrow> emits w fs w'"
  by (simp add: emits_def)

lemma emits_Nil: "emits w [] w"
  by (simp add: emits_def)

lemma emits_append: "emits w fs w' \<Longrightarrow> emits w' gs w'' \<Longrightarrow> emits w (fs @ gs) w''"
  unfolding emits_def accept_frames_append by fastforce

lemma open_lookup:
  "tracks w p \<Longrightarrow> (i, k) \<in> set (blocks w) \<Longrightarrow> map_of (pr_open p) i = Some k"
  by (simp add: tracks_def)

lemma started_if_blocks: "tracks w p \<Longrightarrow> blocks w \<noteq> [] \<Longrightarrow> aw_sent_start w"
  by (auto simp: tracks_def)

text \<open>What a step leaves alone: the tool blocks, and the open block.\<close>

definition same_tools :: "anthropic_writer \<Rightarrow> anthropic_writer \<Rightarrow> bool" where
  "same_tools w w' \<longleftrightarrow> aw_tool_blocks w' = aw_tool_blocks w \<and> aw_server_blocks w' = aw_server_blocks w"

lemma same_tools_list: "same_tools w w' \<Longrightarrow> tool_list w' = tool_list w"
  by (simp add: same_tools_def tool_list_def)

lemma start_frame_step:
  assumes "start_frame w = (fs, w')"
  shows "emits w fs w' \<and> aw_sent_start w' \<and> same_tools w w' \<and> aw_block_open w' = aw_block_open w \<and>
    aw_block_index w' = aw_block_index w \<and> aw_block_type w' = aw_block_type w"
proof (cases "aw_sent_start w")
  case True
  with assms have "fs = []" "w' = w" by (simp_all add: start_frame_def)
  with True show ?thesis by (simp add: emits_Nil same_tools_def)
next
  case False
  with assms have r: "fs = [Message_Start (aw_id w) (aw_model w) (aw_input_tokens w)]"
    "w' = w\<lparr>aw_sent_start := True\<rparr>" by (simp_all add: start_frame_def)
  have "blocks w' = blocks w" "tool_list w' = tool_list w"
    by (simp_all add: r blocks_def tool_list_def)
  then have "emits w fs w'"
    using False by (auto simp: r emits_def writer_ok_def tracks_def)
  with r show ?thesis by (simp add: same_tools_def)
qed

lemma accept_citations:
  "pr_phase p = Streaming \<Longrightarrow> map_of (pr_open p) i = Some KText \<Longrightarrow>
     accept_frames (map (\<lambda>c. Block_Delta i (Citations_Delta c)) cs) p = Some p"
  by (induction cs) auto

lemma stop_accepts:
  assumes "pr_phase p = Streaming" "(i, k) \<in> set (pr_open p)" "distinct (map fst (pr_open p))"
  shows "accept_frame (Block_Stop i) p = Some (p\<lparr>pr_open := AList.delete i (pr_open p)\<rparr>)"
  using assms by simp

lemma delete_key:
  "set al = insert (i, k) S \<Longrightarrow> i \<notin> fst ` S \<Longrightarrow> set (AList.delete i al) = S"
  unfolding set_delete by force

lemma close_cites: "close_current_block w = (fs, w') \<Longrightarrow> \<exists>cs. w' = w\<lparr>aw_citations := cs\<rparr>"
proof (cases "aw_block_open w \<and> aw_block_type w = ''text'' \<and> aw_citations w \<noteq> []")
  case False
  assume "close_current_block w = (fs, w')"
  with False have "w' = w" by (auto simp: close_current_block_def Let_def split: if_splits)
  then have "w' = w\<lparr>aw_citations := aw_citations w\<rparr>" by simp
  then show ?thesis by blast
qed (auto simp: close_current_block_def Let_def)

text \<open>Closing the open block, whatever happens to the index afterwards.\<close>

lemma close_block_step:
  assumes ok: "tracks w p" and op: "aw_block_open w" and "close_current_block w = (fs, w')"
  shows "\<exists>q. accept_frames fs p = Some q \<and> tracks (w'\<lparr>aw_block_open := False\<rparr>) q \<and>
    pr_next q = pr_next p \<and> (\<exists>cs. w' = w\<lparr>aw_citations := cs\<rparr>)"
proof -
  let ?i = "aw_block_index w" and ?k = "if aw_block_type w = ''text'' then KText else KThinking"
  let ?q = "p\<lparr>pr_open := AList.delete ?i (pr_open p)\<rparr>"
  have b: "blocks w = (?i, ?k) # blocks (w\<lparr>aw_block_open := False\<rparr>)"
    using op by (simp add: blocks_def tool_list_def)
  have s: "pr_phase p = Streaming" using started_if_blocks [OF ok] b ok by (simp add: tracks_def)
  have l: "map_of (pr_open p) ?i = Some ?k" using open_lookup [OF ok] b by simp
  obtain cs where w': "w' = w\<lparr>aw_citations := cs\<rparr>" using close_cites [OF assms(3)] by blast
  have "accept_frames fs p = Some ?q"
    using assms(3) op s l accept_citations [OF s, of ?i "aw_citations w"]
    by (auto simp: close_current_block_def Let_def accept_frames_append split: if_splits)
  moreover have "tracks (w'\<lparr>aw_block_open := False\<rparr>) ?q"
  proof -
    have "set (pr_open p) = insert (?i, ?k) (set (blocks (w\<lparr>aw_block_open := False\<rparr>)))"
      using ok b by (simp add: tracks_def)
    moreover have "?i \<notin> fst ` set (blocks (w\<lparr>aw_block_open := False\<rparr>))"
      using ok b by (simp add: tracks_def)
    ultimately have "set (AList.delete ?i (pr_open p)) = set (blocks (w\<lparr>aw_block_open := False\<rparr>))"
      by (rule delete_key)
    moreover have "blocks (w'\<lparr>aw_block_open := False\<rparr>) = blocks (w\<lparr>aw_block_open := False\<rparr>)"
      by (simp add: w' blocks_def tool_list_def)
    ultimately show ?thesis
      using ok b by (auto simp: tracks_def w' tool_list_def distinct_delete)
  qed
  ultimately show ?thesis using w' by auto
qed

lemma close_and_advance_step:
  assumes "close_and_advance w = (fs, w')"
  shows "emits w fs w' \<and> \<not> aw_block_open w' \<and> aw_sent_start w' = aw_sent_start w \<and>
    same_tools w w'"
proof (cases "aw_block_open w")
  case True
  obtain gs v where c: "close_current_block w = (gs, v)" by (cases "close_current_block w")
  with assms True have r: "fs = gs" "w' = v\<lparr>aw_block_open := False, aw_block_index := aw_block_index v + 1\<rparr>"
    by (simp_all add: close_and_advance_def)
  have "emits w fs w'"
  proof (rule emitsI)
    fix p assume p: "writer_ok w p"
    then have t: "tracks w p" by (simp add: writer_ok_def)
    from close_block_step [OF t True c] obtain q cs where q: "accept_frames gs p = Some q"
      "tracks (v\<lparr>aw_block_open := False\<rparr>) q" "pr_next q = pr_next p" "v = w\<lparr>aw_citations := cs\<rparr>" by blast
    moreover have "tracks w' q"
      using q(2) by (simp add: r tracks_def blocks_def tool_list_def)
    ultimately show "\<exists>q. accept_frames fs p = Some q \<and> writer_ok w' q"
      using p True r by (auto simp: writer_ok_def)
  qed
  with close_cites [OF c] show ?thesis by (auto simp: r same_tools_def)
next
  case False
  with assms show ?thesis by (simp add: close_and_advance_def emits_Nil same_tools_def)
qed

text \<open>The fields the invariant looks at.\<close>

definition core :: "anthropic_writer \<Rightarrow> bool \<times> bool \<times> nat \<times> string \<times> (string \<times> nat) list \<times> (string \<times> nat) list" where
  "core w = (aw_sent_start w, aw_block_open w, aw_block_index w, aw_block_type w, tool_list w,
             aw_server_blocks w)"

lemma writer_ok_core: "core w = core v \<Longrightarrow> writer_ok w p = writer_ok v p"
proof -
  assume c: "core w = core v"
  note eqs = c [unfolded core_def prod.inject]
  have "blocks w = blocks v" unfolding blocks_def by (simp only: eqs)
  with eqs show ?thesis unfolding writer_ok_def tracks_def by (simp only:)
qed

lemma emits_core: "core w = core v \<Longrightarrow> core w' = core v' \<Longrightarrow> emits v fs v' \<Longrightarrow> emits w fs w'"
  unfolding emits_def by (metis writer_ok_core)

lemma enter_block_step:
  assumes "enter_block ty b w = (fs, w')" "aw_sent_start w"
    "(ty, b) = (''text'', Text_Block) \<or> (ty, b) = (''thinking'', Thinking_Block)"
    "aw_block_open w \<longrightarrow> aw_block_type w = ty"
  shows "emits w fs w' \<and> aw_block_open w' \<and> aw_block_type w' = ty \<and> aw_sent_start w' \<and> same_tools w w'"
proof (cases "aw_block_open w")
  case True
  with assms have "fs = []" "w' = w" by (simp_all add: enter_block_def)
  with True assms show ?thesis by (simp add: emits_Nil same_tools_def)
next
  case False
  with assms have r: "fs = [Block_Start (aw_block_index w) b]"
    "w' = w\<lparr>aw_block_open := True, aw_block_type := ty\<rparr>" by (simp_all add: enter_block_def)
  have b: "blocks w' = (aw_block_index w, kind_of b) # blocks w" "tool_list w' = tool_list w"
    using assms(3) False by (auto simp: r blocks_def tool_list_def)
  have "emits w fs w'"
  proof (rule emitsI)
    fix p assume "writer_ok w p"
    with False assms(2) have t: "tracks w p" "pr_next p = aw_block_index w" "pr_phase p = Streaming"
      by (auto simp: writer_ok_def tracks_def)
    let ?q = "p\<lparr>pr_open := (aw_block_index w, kind_of b) # pr_open p, pr_next := aw_block_index w + 1\<rparr>"
    have n: "aw_block_index w \<notin> fst ` set (blocks w)" using t by (fastforce simp: tracks_def)
    have "writer_ok w' ?q"
      using t n assms(2,3) b unfolding writer_ok_def tracks_def by (auto simp: r less_Suc_eq)
    with t show "\<exists>q. accept_frames fs p = Some q \<and> writer_ok w' q" by (simp add: r)
  qed
  with r assms(2) show ?thesis by (simp add: same_tools_def)
qed

lemma delta_step:
  assumes "(i, k) \<in> set (blocks w)" "delta_fits k d"
  shows "emits w [Block_Delta i d] w"
proof (rule emitsI)
  fix p assume p: "writer_ok w p"
  then have t: "tracks w p" by (simp add: writer_ok_def)
  have "aw_sent_start w" using started_if_blocks [OF t] assms(1) by (metis empty_iff empty_set)
  with t open_lookup [OF t assms(1)] assms(2) p
  show "\<exists>q. accept_frames [Block_Delta i d] p = Some q \<and> writer_ok w q"
    by (simp add: tracks_def)
qed

lemma current_delta_step:
  assumes "aw_block_open w" "delta_fits (if aw_block_type w = ''text'' then KText else KThinking) d"
  shows "emits w [Block_Delta (aw_block_index w) d] w"
  using assms(1) by (intro delta_step [OF _ assms(2)]) (simp add: blocks_def)

text \<open>A new tool block at the writer's index, and the removal of a block.\<close>

lemma add_block_step:
  assumes "aw_sent_start w" "\<not> aw_block_open w" "aw_sent_start w'" "\<not> aw_block_open w'"
    "aw_block_index w' = aw_block_index w + 1"
    "blocks w = as @ bs" "blocks w' = as @ (aw_block_index w, kind_of b) # bs"
    "distinct (map fst (tool_list w)) \<Longrightarrow> distinct (map fst (tool_list w'))"
    "distinct (map fst (aw_server_blocks w)) \<Longrightarrow> distinct (map fst (aw_server_blocks w'))"
  shows "emits w [Block_Start (aw_block_index w) b] w'"
proof (rule emitsI)
  fix p assume "writer_ok w p"
  with assms(1,2) have t: "tracks w p" "pr_next p = aw_block_index w" "pr_phase p = Streaming"
    by (auto simp: writer_ok_def tracks_def)
  let ?q = "p\<lparr>pr_open := (aw_block_index w, kind_of b) # pr_open p, pr_next := aw_block_index w + 1\<rparr>"
  have n: "aw_block_index w \<notin> fst ` set (blocks w)" using t by (fastforce simp: tracks_def)
  have "writer_ok w' ?q"
    using t n assms unfolding writer_ok_def tracks_def by (auto simp: less_Suc_eq)
  with t show "\<exists>q. accept_frames [Block_Start (aw_block_index w) b] p = Some q \<and> writer_ok w' q"
    by simp
qed

lemma remove_block_tracks:
  assumes t: "tracks w p" and b: "blocks w = as @ (i, k) # bs" "blocks w' = as @ bs"
    and "aw_sent_start w' = aw_sent_start w"
    "aw_block_open w' \<longrightarrow> aw_block_type w' \<in> {''text'', ''thinking''}"
    "distinct (map fst (tool_list w'))" "distinct (map fst (aw_server_blocks w'))"
  shows "accept_frames [Block_Stop i] p = Some (p\<lparr>pr_open := AList.delete i (pr_open p)\<rparr>) \<and>
    tracks w' (p\<lparr>pr_open := AList.delete i (pr_open p)\<rparr>)"
proof -
  have "aw_sent_start w" using started_if_blocks [OF t] b by auto
  moreover have "map_of (pr_open p) i = Some k" using open_lookup [OF t] b by simp
  moreover have "set (AList.delete i (pr_open p)) = set (blocks w')"
    by (rule delete_key [where k = k]) (use t b in \<open>auto simp: tracks_def\<close>)
  ultimately show ?thesis using t b assms(4-) by (auto simp: tracks_def distinct_delete)
qed

lemma alist_split:
  assumes "map_of al k = Some v" "distinct (map fst al)"
  obtains xs ys where "al = xs @ (k, v) # ys" "AList.delete k al = xs @ ys"
proof -
  from assms(1) obtain xs ys where al: "al = xs @ (k, v) # ys"
    by (metis map_of_SomeD split_list)
  with assms(2) have n: "\<forall>x \<in> set xs. fst x \<noteq> k" "\<forall>x \<in> set ys. fst x \<noteq> k" by force+
  have "filter (\<lambda>(k', _). k \<noteq> k') xs = xs" "filter (\<lambda>(k', _). k \<noteq> k') ys = ys"
    by (rule filter_True; use n in force)+
  then have "AList.delete k al = xs @ ys" by (simp add: al AList.delete_eq)
  with al that show thesis by blast
qed

lemma stop_tool_step:
  assumes "map_of (tool_list w) tid = Some i"
  shows "emits w [Block_Stop i] (w\<lparr>aw_tool_blocks := Some (AList.delete tid (tool_list w))\<rparr>)" (is "emits w _ ?w")
proof (rule emitsI)
  fix p assume p: "writer_ok w p"
  then have t: "tracks w p" by (simp add: writer_ok_def)
  then have "distinct (map fst (tool_list w))" by (simp add: tracks_def)
  from alist_split [OF assms this] obtain xs ys where
    s: "tool_list w = xs @ (tid, i) # ys" "AList.delete tid (tool_list w) = xs @ ys" .
  have w: "?w = w\<lparr>aw_tool_blocks := Some (xs @ ys)\<rparr>" by (simp add: s(2))
  have l: "tool_list ?w = xs @ ys" unfolding w by (simp add: tool_list_def)
  let ?cur = "if aw_block_open w then [(aw_block_index w, if aw_block_type w = ''text'' then KText else KThinking)] else []"
  let ?as = "?cur @ map (\<lambda>(_, i). (i, KTool)) xs"
    and ?bs = "map (\<lambda>(_, i). (i, KTool)) ys @ map (\<lambda>(_, i). (i, KServer)) (aw_server_blocks w)"
  have "blocks w = ?as @ (i, KTool) # ?bs" "blocks ?w = ?as @ ?bs"
    unfolding blocks_def l by (simp_all add: s(1) w)
  from remove_block_tracks [OF t this] t l s p
  show "\<exists>q. accept_frames [Block_Stop i] p = Some q \<and> writer_ok ?w q"
    by (auto simp: writer_ok_def tracks_def)
qed

lemma stop_server_step:
  assumes "stop_server_tool tid w = (fs, w')"
  shows "emits w fs w' \<and> aw_sent_start w' = aw_sent_start w \<and> aw_block_open w' = aw_block_open w \<and>
    tool_list w' = tool_list w \<and> aw_server_blocks w' = AList.delete tid (aw_server_blocks w)"
proof (cases "map_of (aw_server_blocks w) tid")
  case None
  then have "AList.delete tid (aw_server_blocks w) = aw_server_blocks w"
    by (simp add: delete_id map_of_eq_None_iff)
  with None assms show ?thesis by (simp add: stop_server_tool_def emits_Nil)
next
  case (Some i)
  with assms have r: "fs = [Block_Stop i]" "w' = w\<lparr>aw_server_blocks := AList.delete tid (aw_server_blocks w),
      aw_server_names := AList.delete tid (aw_server_names w)\<rparr>" by (simp_all add: stop_server_tool_def)
  have tl: "tool_list w' = tool_list w" by (simp add: r tool_list_def)
  have "emits w fs w'"
  proof (rule emitsI)
    fix p assume p: "writer_ok w p"
    then have t: "tracks w p" by (simp add: writer_ok_def)
    then have "distinct (map fst (aw_server_blocks w))" by (simp add: tracks_def)
    from alist_split [OF Some this] obtain xs ys where
      s: "aw_server_blocks w = xs @ (tid, i) # ys" "AList.delete tid (aw_server_blocks w) = xs @ ys" .
    have sv: "aw_server_blocks w' = xs @ ys" unfolding r(2) s(2) by simp
    let ?cur = "if aw_block_open w then [(aw_block_index w, if aw_block_type w = ''text'' then KText else KThinking)] else []"
    let ?as = "?cur @ map (\<lambda>(_, i). (i, KTool)) (tool_list w) @ map (\<lambda>(_, i). (i, KServer)) xs"
      and ?bs = "map (\<lambda>(_, i). (i, KServer)) ys"
    have "blocks w = ?as @ (i, KServer) # ?bs" "blocks w' = ?as @ ?bs"
      unfolding blocks_def sv tl by (simp_all add: s(1) r(2))
    from remove_block_tracks [OF t this] t tl sv s p
    show "\<exists>q. accept_frames fs p = Some q \<and> writer_ok w' q"
      by (auto simp: writer_ok_def tracks_def r(1,2))
  qed
  with tl r show ?thesis by simp
qed

lemma result_block_step:
  assumes "result_block b w = (fs, w')" "kind_of b = KResult" "aw_sent_start w" "\<not> aw_block_open w"
  shows "emits w fs w' \<and> aw_sent_start w' \<and> \<not> aw_block_open w' \<and>
    tool_list w' = tool_list w \<and> aw_server_blocks w' = aw_server_blocks w"
proof -
  have r: "fs = [Block_Start (aw_block_index w) b, Block_Stop (aw_block_index w)]"
    "w' = w\<lparr>aw_block_index := aw_block_index w + 1\<rparr>"
    using assms(1) by (simp_all add: result_block_def Let_def)
  have b: "blocks w' = blocks w" "tool_list w' = tool_list w"
    using assms(4) by (simp_all add: r blocks_def tool_list_def)
  have "emits w fs w'"
  proof (rule emitsI)
    fix p assume p: "writer_ok w p"
    let ?i = "aw_block_index w"
    have n: "?i \<notin> fst ` set (pr_open p)" and s: "pr_phase p = Streaming" "pr_next p = ?i"
      using p assms(3,4) by (auto simp: writer_ok_def tracks_def)
    then have "AList.delete ?i (pr_open p) = pr_open p" by (simp add: delete_id)
    with s n have "accept_frames fs p = Some (p\<lparr>pr_next := ?i + 1\<rparr>)" by (simp add: r)
    moreover have "writer_ok w' (p\<lparr>pr_next := ?i + 1\<rparr>)"
      using p assms(3,4) b s unfolding writer_ok_def tracks_def by (auto simp: r less_Suc_eq)
    ultimately show "\<exists>q. accept_frames fs p = Some q \<and> writer_ok w' q" by blast
  qed
  with b r assms(3,4) show ?thesis by simp
qed

subsection \<open>The events of a turn\<close>

lemma text_core: "core (w\<lparr>aw_text := t\<rparr>) = core w"
  by (simp add: core_def tool_list_def)

lemma leave_other_block_step:
  assumes "leave_other_block ty w = (fs, w')"
  shows "emits w fs w' \<and> (aw_block_open w' \<longrightarrow> aw_block_type w' = ty) \<and>
    aw_sent_start w' = aw_sent_start w"
proof (cases "aw_block_open w \<and> aw_block_type w \<noteq> ty")
  case True
  with assms have "close_and_advance w = (fs, w')" by (simp add: leave_other_block_def)
  from close_and_advance_step [OF this] show ?thesis by simp
next
  case False
  with assms show ?thesis by (auto simp: leave_other_block_def emits_Nil)
qed

lemma encode_text_step:
  assumes "encode_text_delta ev w = (fs, w')"
  shows "emits w fs w'"
proof -
  let ?w = "w\<lparr>aw_text := aw_text w @ ev_text ev\<rparr>"
  obtain f1 w1 where 1: "start_frame ?w = (f1, w1)" by (cases "start_frame ?w")
  obtain f2 w2 where 2: "leave_other_block ''text'' w1 = (f2, w2)" by (cases "leave_other_block ''text'' w1")
  obtain f3 w3 where 3: "enter_block ''text'' Text_Block w2 = (f3, w3)"
    by (cases "enter_block ''text'' Text_Block w2")
  note s1 = start_frame_step [OF 1] and s2 = leave_other_block_step [OF 2]
  have s3: "emits w2 f3 w3 \<and> aw_block_open w3 \<and> aw_block_type w3 = ''text'' \<and> aw_sent_start w3 \<and> same_tools w2 w3"
    using enter_block_step [OF 3] s1 s2 by simp
  have r: "fs = f1 @ f2 @ f3 @ [Block_Delta (aw_block_index w3) (Text_Delta (ev_text ev))]" "w' = w3"
    using assms by (auto simp: encode_text_delta_def Let_def 1 2 3)
  have "emits ?w fs w'"
    unfolding r using s1 s2 s3 current_delta_step [of w3 "Text_Delta (ev_text ev)"]
    by (intro emits_append) auto
  then show ?thesis using emits_core [OF text_core [symmetric] refl] by blast
qed

lemma encode_thinking_step:
  assumes "encode_thinking_delta ev w = (fs, w')"
  shows "emits w fs w'"
proof -
  obtain f1 w1 where 1: "start_frame w = (f1, w1)" by (cases "start_frame w")
  obtain f2 w2 where 2: "leave_other_block ''thinking'' w1 = (f2, w2)"
    by (cases "leave_other_block ''thinking'' w1")
  obtain f3 w3 where 3: "enter_block ''thinking'' Thinking_Block w2 = (f3, w3)"
    by (cases "enter_block ''thinking'' Thinking_Block w2")
  note s1 = start_frame_step [OF 1] and s2 = leave_other_block_step [OF 2]
  have s3: "emits w2 f3 w3 \<and> aw_block_open w3 \<and> aw_block_type w3 = ''thinking'' \<and> aw_sent_start w3"
    using enter_block_step [OF 3] s1 s2 by simp
  have r: "fs = f1 @ f2 @ f3 @ [Block_Delta (aw_block_index w3) (Thinking_Delta (ev_text ev))]" "w' = w3"
    using assms by (auto simp: encode_thinking_delta_def Let_def 1 2 3)
  show ?thesis
    unfolding r using s1 s2 s3 current_delta_step [of w3 "Thinking_Delta (ev_text ev)"]
    by (intro emits_append) auto
qed

lemma encode_signature_step:
  assumes "encode_signature_delta ev w = (fs, w')"
  shows "emits w fs w'"
proof -
  obtain f1 w1 where 1: "start_frame w = (f1, w1)" by (cases "start_frame w")
  obtain f2 w2 where 2: "enter_block ''thinking'' Thinking_Block w1 = (f2, w2)"
    by (cases "enter_block ''thinking'' Thinking_Block w1")
  note s1 = start_frame_step [OF 1]
  consider "ev_text ev = []" | "ev_text ev \<noteq> []" "aw_block_open w" "aw_block_type w \<noteq> ''thinking''"
    | "ev_text ev \<noteq> []" "aw_block_open w1 \<longrightarrow> aw_block_type w1 = ''thinking''"
    using s1 by auto
  then show ?thesis
  proof cases
    case 1
    with assms show ?thesis by (simp add: encode_signature_delta_def emits_Nil)
  next
    case 2
    have "emits w [] w1"
    proof (rule emitsI)
      fix p assume p: "writer_ok w p"
      then have t: "tracks w p" by (simp add: writer_ok_def)
      have "blocks w \<noteq> []" using 2 by (simp add: blocks_def)
      then have "f1 = []" using started_if_blocks [OF t] 1 by (simp add: start_frame_def)
      with s1 p show "\<exists>q. accept_frames [] p = Some q \<and> writer_ok w1 q" by (simp add: emits_def)
    qed
    with 2 assms s1 show ?thesis by (simp add: encode_signature_delta_def Let_def 1)
  next
    case 3
    have r: "fs = f1 @ f2 @ [Block_Delta (aw_block_index w2) (Signature_Delta (ev_text ev))]" "w' = w2"
      using assms 3 by (auto simp: encode_signature_delta_def Let_def 1 2)
    have s2: "emits w1 f2 w2 \<and> aw_block_open w2 \<and> aw_block_type w2 = ''thinking''"
      using enter_block_step [OF 2] s1 3 by simp
    show ?thesis
      unfolding r using s1 s2 current_delta_step [of w2 "Signature_Delta (ev_text ev)"]
      by (intro emits_append) auto
  qed
qed

lemma ping_step: "aw_sent_start w \<Longrightarrow> emits w [Ping] w"
proof (rule emitsI)
  fix p assume "aw_sent_start w" and p: "writer_ok w p"
  then have "pr_phase p = Streaming" by (simp add: writer_ok_def tracks_def)
  with p show "\<exists>q. accept_frames [Ping] p = Some q \<and> writer_ok w q" by simp
qed

lemma encode_heartbeat_step:
  assumes "encode_heartbeat w = (fs, w')"
  shows "emits w fs w'"
proof -
  obtain f1 w1 where 1: "start_frame w = (f1, w1)" by (cases "start_frame w")
  with assms have "fs = f1 @ [Ping]" "w' = w1" by (auto simp: encode_heartbeat_def)
  with start_frame_step [OF 1] ping_step emits_append show ?thesis by blast
qed

lemma args_delta_step: "(i, k) \<in> set (blocks w) \<Longrightarrow> k = KTool \<or> k = KServer \<Longrightarrow> emits w (args_delta i ev) w"
  by (auto simp: args_delta_def emits_Nil intro: delta_step)

lemma resolve_step:
  assumes "resolve_client_tool_id rnd tid w = (t, w')"
  shows "core w' = core w \<and> aw_tool_blocks w' = aw_tool_blocks w"
  using assms by (auto simp: resolve_client_tool_id_def Let_def core_def tool_list_def split: if_splits)

lemma encode_tool_started_step:
  assumes "encode_tool_call_started rnd ev w = (fs, w')"
    "map_of (tool_list w) (fst (resolve_client_tool_id rnd (ev_tool_call_id ev) w)) = None"
  shows "emits w fs w'"
proof -
  obtain f1 w1 where 1: "start_frame w = (f1, w1)" by (cases "start_frame w")
  obtain f2 w2 where 2: "close_and_advance w1 = (f2, w2)" by (cases "close_and_advance w1")
  let ?w = "w2\<lparr>aw_tool_blocks := Some (tool_list w2)\<rparr>"
  obtain t w3 where 3: "resolve_client_tool_id rnd (ev_tool_call_id ev) ?w = (t, w3)"
    by (cases "resolve_client_tool_id rnd (ev_tool_call_id ev) ?w")
  note s1 = start_frame_step [OF 1] and s2 = close_and_advance_step [OF 2] and s3 = resolve_step [OF 3]
  have anon: "aw_anon_id w2 = aw_anon_id w"
    using 1 2 by (auto simp: start_frame_def close_and_advance_def close_current_block_def Let_def split: if_splits)
  have tl: "tool_list w2 = tool_list w" "aw_server_blocks w2 = aw_server_blocks w"
    using s1 s2 by (auto simp: same_tools_def tool_list_def)
  have "t = fst (resolve_client_tool_id rnd (ev_tool_call_id ev) w)"
    using 3 anon by (auto simp: resolve_client_tool_id_def Let_def split: if_splits)
  with assms(2) have new: "t \<notin> fst ` set (tool_list w)" by (simp add: map_of_eq_None_iff)
  have c3: "core w3 = core w2" using s3 by (simp add: core_def tool_list_def)
  then have w3: "aw_sent_start w3" "\<not> aw_block_open w3" "tool_list w3 = tool_list w"
    "aw_server_blocks w3 = aw_server_blocks w" "aw_block_index w3 = aw_block_index w2"
    using s1 s2 tl by (simp_all add: core_def)
  let ?i = "aw_block_index w3"
  let ?w' = "w3\<lparr>aw_tool_blocks := Some (AList.update t ?i (tool_list w3)), aw_block_index := ?i + 1,
                aw_saw_tool_call := True\<rparr>"
  have r: "fs = f1 @ f2 @ [Block_Start ?i (Tool_Use t (ev_tool_name ev))] @ args_delta ?i ev" "w' = ?w'"
    using assms(1) new w3 by (simp_all add: encode_tool_call_started_def Let_def 1 2 3 map_of_eq_None_iff
        del: AList.update.simps)
  have l: "tool_list ?w' = tool_list w3 @ [(t, ?i)]"
    using new w3 by (simp add: tool_list_def update_new_key)
  let ?as = "map (\<lambda>(_, i). (i, KTool)) (tool_list w3)"
    and ?bs = "map (\<lambda>(_, i). (i, KServer)) (aw_server_blocks w3)"
  have b: "blocks w3 = ?as @ ?bs" "blocks ?w' = ?as @ (?i, kind_of (Tool_Use t (ev_tool_name ev))) # ?bs"
    unfolding blocks_def l using w3 by simp_all
  have "emits w3 [Block_Start ?i (Tool_Use t (ev_tool_name ev))] ?w'"
    by (rule add_block_step [OF _ _ _ _ _ b]) (use w3 new l in auto)
  moreover have "emits ?w' (args_delta ?i ev) ?w'"
    by (rule args_delta_step [where k = KTool]) (use b in auto)
  moreover have "emits w1 f2 w3" using emits_core [OF refl c3] s2 by blast
  ultimately show ?thesis unfolding r using s1 by (blast intro: emits_append)
qed

lemma encode_tool_delta_step:
  assumes "encode_tool_call_delta rnd ev w = (fs, w')"
  shows "emits w fs w'"
proof (cases "ev_tool_args_delta ev = [] \<or> aw_tool_blocks w = None")
  case True
  with assms show ?thesis by (auto simp: encode_tool_call_delta_def emits_Nil)
next
  case False
  obtain t w1 where 1: "resolve_client_tool_id rnd (ev_tool_call_id ev) w = (t, w1)"
    by (cases "resolve_client_tool_id rnd (ev_tool_call_id ev) w")
  note s1 = resolve_step [OF 1]
  have e1: "emits w [] w1" using emits_core [OF refl _ emits_Nil] s1 by blast
  show ?thesis
  proof (cases "map_of (tool_list w1) t")
    case None
    with False assms have "fs = []" "w' = w1" by (auto simp: encode_tool_call_delta_def 1)
    with e1 show ?thesis by simp
  next
    case (Some i)
    with False assms have r: "fs = [Block_Delta i (Input_Json_Delta (ev_tool_args_delta ev))]" "w' = w1"
      by (auto simp: encode_tool_call_delta_def 1)
    have "(i, KTool) \<in> set (blocks w1)"
      using map_of_SomeD [OF Some] by (force simp: blocks_def)
    from emits_append [OF e1 delta_step [OF this]] show ?thesis by (simp add: r)
  qed
qed

lemma encode_tool_completed_step:
  assumes "encode_tool_call_completed rnd ev w = (fs, w')"
  shows "emits w fs w'"
proof (cases "aw_tool_blocks w = None")
  case True
  with assms show ?thesis by (auto simp: encode_tool_call_completed_def emits_Nil)
next
  case False
  obtain t w1 where 1: "resolve_client_tool_id rnd (ev_tool_call_id ev) w = (t, w1)"
    by (cases "resolve_client_tool_id rnd (ev_tool_call_id ev) w")
  note s1 = resolve_step [OF 1]
  have e1: "emits w [] w1" using emits_core [OF refl _ emits_Nil] s1 by blast
  show ?thesis
  proof (cases "map_of (tool_list w1) t")
    case None
    with False assms have "fs = []" "w' = w1" by (auto simp: encode_tool_call_completed_def 1)
    with e1 show ?thesis by simp
  next
    case (Some i)
    with False assms have "fs = [Block_Stop i]"
      "w' = w1\<lparr>aw_tool_blocks := Some (AList.delete t (tool_list w1))\<rparr>"
      by (auto simp: encode_tool_call_completed_def 1)
    with emits_append [OF e1 stop_tool_step [OF Some]] show ?thesis by simp
  qed
qed

lemma encode_server_started_step:
  assumes "encode_server_tool_started ev w = (fs, w')"
    "map_of (aw_server_blocks w) (ev_tool_call_id ev) = None"
  shows "emits w fs w'"
proof -
  obtain f1 w1 where 1: "start_frame w = (f1, w1)" by (cases "start_frame w")
  obtain f2 w2 where 2: "close_and_advance w1 = (f2, w2)" by (cases "close_and_advance w1")
  note s1 = start_frame_step [OF 1] and s2 = close_and_advance_step [OF 2]
  let ?t = "ev_tool_call_id ev" and ?b = "Server_Tool_Use (ev_tool_call_id ev) (ev_tool_name ev)"
  have w2: "aw_sent_start w2" "\<not> aw_block_open w2" "aw_server_blocks w2 = aw_server_blocks w"
    using s1 s2 by (simp_all add: same_tools_def)
  with assms(2) have new: "?t \<notin> fst ` set (aw_server_blocks w2)" by (simp add: map_of_eq_None_iff)
  let ?i = "aw_block_index w2"
  let ?w' = "w2\<lparr>aw_server_blocks := AList.update ?t ?i (aw_server_blocks w2),
               aw_server_names := AList.update ?t (ev_tool_name ev) (aw_server_names w2),
               aw_block_index := ?i + 1\<rparr>"
  have r: "fs = f1 @ f2 @ [Block_Start ?i ?b] @ args_delta ?i ev" "w' = ?w'"
    using assms w2 by (simp_all add: encode_server_tool_started_def Let_def 1 2 del: AList.update.simps)
  have l: "aw_server_blocks ?w' = aw_server_blocks w2 @ [(?t, ?i)]" "tool_list ?w' = tool_list w2"
    using new by (simp_all add: update_new_key tool_list_def)
  let ?as = "map (\<lambda>(_, i). (i, KTool)) (tool_list w2) @ map (\<lambda>(_, i). (i, KServer)) (aw_server_blocks w2)"
  have b: "blocks w2 = ?as @ []" "blocks ?w' = ?as @ (?i, kind_of ?b) # []"
    unfolding blocks_def l using w2 by simp_all
  have "emits w2 [Block_Start ?i ?b] ?w'"
    by (rule add_block_step [OF _ _ _ _ _ b]) (use w2 new l in auto)
  moreover have "emits ?w' (args_delta ?i ev) ?w'"
    by (rule args_delta_step [where k = KServer]) (use b in auto)
  ultimately show ?thesis unfolding r using s1 s2 by (blast intro: emits_append)
qed

lemma encode_fetch_step:
  assumes "encode_web_fetch_result ev w = (fs, w')" "\<not> aw_block_open w"
  shows "emits w fs w' \<and> \<not> aw_block_open w' \<and> aw_sent_start w' \<and> tool_list w' = tool_list w \<and>
    aw_server_blocks w' = AList.delete (ev_tool_call_id ev) (aw_server_blocks w)"
proof -
  obtain f1 w1 where 1: "start_frame w = (f1, w1)" by (cases "start_frame w")
  obtain f2 w2 where 2: "stop_server_tool (ev_tool_call_id ev) w1 = (f2, w2)"
    by (cases "stop_server_tool (ev_tool_call_id ev) w1")
  from assms(1) obtain c f3 where 3: "result_block (Web_Fetch_Result (ev_tool_call_id ev) c) w2 = (f3, w')"
    and r: "fs = f1 @ f2 @ f3"
    by (auto simp: encode_web_fetch_result_def Let_def 1 2 split: prod.splits)
  note s1 = start_frame_step [OF 1] and s2 = stop_server_step [OF 2]
  have s3: "emits w2 f3 w' \<and> aw_sent_start w' \<and> \<not> aw_block_open w' \<and>
    tool_list w' = tool_list w2 \<and> aw_server_blocks w' = aw_server_blocks w2"
    by (rule result_block_step [OF 3]) (use s1 s2 assms(2) in auto)
  with s1 s2 show ?thesis
    unfolding r by (auto intro: emits_append simp: same_tools_def tool_list_def)
qed

lemma search_core: "core (w\<lparr>aw_citations := c\<rparr>) = core w" "core (w\<lparr>aw_web_requests := n\<rparr>) = core w"
  by (simp_all add: core_def tool_list_def)

lemma encode_search_step:
  assumes "encode_web_search_result ev w = (fs, w')" "\<not> aw_block_open w"
  shows "emits w fs w'"
proof (cases "equal_fold (ev_tool_name ev) ''web_fetch''")
  case True
  with assms encode_fetch_step show ?thesis by (auto simp: encode_web_search_result_def)
next
  case False
  obtain f1 w1 where 1: "start_frame w = (f1, w1)" by (cases "start_frame w")
  obtain f2 w2 where 2: "stop_server_tool (ev_tool_call_id ev) w1 = (f2, w2)"
    by (cases "stop_server_tool (ev_tool_call_id ev) w1")
  from assms(1) False obtain cs c f3 w3 where
    3: "result_block (Web_Search_Result (ev_tool_call_id ev) c) (w2\<lparr>aw_citations := cs\<rparr>) = (f3, w3)"
    and r: "fs = f1 @ f2 @ f3" "w' = w3\<lparr>aw_web_requests := aw_web_requests w3 + 1\<rparr>"
    by (auto simp: encode_web_search_result_def Let_def 1 2 split: prod.splits)
  note s1 = start_frame_step [OF 1] and s2 = stop_server_step [OF 2]
  have "emits (w2\<lparr>aw_citations := cs\<rparr>) f3 w3"
    using result_block_step [OF 3] s1 s2 assms(2) by auto
  then have "emits w2 f3 w'"
    unfolding r(2) by (rule emits_core [OF search_core(1) [symmetric] search_core(2)])
  with s1 s2 show ?thesis unfolding r(1) by (auto intro: emits_append)
qed

lemma search_error_step:
  assumes "encode_web_search_error_result tid w = (fs, w')" "\<not> aw_block_open w" "aw_sent_start w"
  shows "emits w fs w' \<and> \<not> aw_block_open w' \<and> aw_sent_start w' \<and> tool_list w' = tool_list w \<and>
    aw_server_blocks w' = AList.delete tid (aw_server_blocks w)"
proof -
  obtain f1 w1 where 1: "stop_server_tool tid w = (f1, w1)" by (cases "stop_server_tool tid w")
  obtain f2 w2 where 2: "result_block (Web_Search_Result tid search_error_json) w1 = (f2, w2)"
    by (cases "result_block (Web_Search_Result tid search_error_json) w1")
  have r: "fs = f1 @ f2" "w' = w2\<lparr>aw_web_requests := aw_web_requests w2 + 1\<rparr>"
    using assms(1) by (auto simp: encode_web_search_error_result_def 1 2)
  note s1 = stop_server_step [OF 1]
  have s2: "emits w1 f2 w2 \<and> aw_sent_start w2 \<and> \<not> aw_block_open w2 \<and>
    tool_list w2 = tool_list w1 \<and> aw_server_blocks w2 = aw_server_blocks w1"
    by (rule result_block_step [OF 2]) (use s1 assms in auto)
  have "emits w1 f2 w'"
    unfolding r(2) using emits_core [OF refl search_core(2)] s2 by blast
  with s1 s2 show ?thesis unfolding r by (auto intro: emits_append simp: tool_list_def)
qed

subsection \<open>The end of a turn\<close>

lemma accept_stops:
  assumes "pr_phase p = Streaming" "distinct (map fst (pr_open p))" "distinct (map snd bs)"
    "\<forall>(t, i) \<in> set bs. (i, k) \<in> set (pr_open p)"
  shows "\<exists>q. accept_frames (map (\<lambda>(_, i). Block_Stop i) bs) p = Some q \<and> pr_phase q = Streaming \<and>
    pr_next q = pr_next p \<and> distinct (map fst (pr_open q)) \<and>
    set (pr_open q) = {x \<in> set (pr_open p). fst x \<notin> snd ` set bs}"
  using assms
proof (induction bs arbitrary: p)
  case (Cons b bs)
  obtain t i where b: "b = (t, i)" by (cases b)
  let ?p = "p\<lparr>pr_open := AList.delete i (pr_open p)\<rparr>"
  have "(i, k) \<in> set (pr_open p)" using Cons.prems(4) b by simp
  from stop_accepts [OF Cons.prems(1) this Cons.prems(2)]
  have "accept_frame (Block_Stop i) p = Some ?p" .
  moreover have "\<forall>(u, j) \<in> set bs. (j, k) \<in> set (pr_open ?p)"
    using Cons.prems b by (auto simp: set_delete) force
  then obtain q where "accept_frames (map (\<lambda>(_, i). Block_Stop i) bs) ?p = Some q" "pr_phase q = Streaming"
    "pr_next q = pr_next p" "distinct (map fst (pr_open q))"
    "set (pr_open q) = {x \<in> set (pr_open ?p). fst x \<notin> snd ` set bs}"
    using Cons.IH [of ?p] Cons.prems by (auto simp: distinct_delete)
  ultimately show ?case using b by (auto simp: set_delete)
qed simp

lemma middle_removed:
  "distinct (map fst (as @ bs @ cs)) \<Longrightarrow>
     {x \<in> set (as @ bs @ cs). fst x \<notin> fst ` set bs} = set (as @ cs) \<and> distinct (map fst (as @ cs))"
  by (auto simp: image_iff)

lemma stop_tools_tracks:
  assumes t: "tracks w p" and "aw_sent_start w" and m: "mset (ord (tool_list w)) = mset (tool_list w)"
  shows "\<exists>q. accept_frames (map (\<lambda>(_, i). Block_Stop i) (ord (tool_list w))) p = Some q \<and>
    pr_next q = pr_next p \<and> tracks (w\<lparr>aw_tool_blocks := None\<rparr>) q"
proof -
  let ?bs = "ord (tool_list w)" and ?w = "w\<lparr>aw_tool_blocks := None\<rparr>"
  let ?cur = "if aw_block_open w then [(aw_block_index w, if aw_block_type w = ''text'' then KText else KThinking)] else []"
  have set: "set ?bs = set (tool_list w)" using m by (metis set_mset_mset)
  have "mset (map snd ?bs) = mset (map snd (tool_list w))" using m by simp
  moreover have d: "distinct (map fst (blocks w))" using t by (simp add: tracks_def)
  then have "distinct (map snd (tool_list w))" by (simp add: blocks_def comp_def case_prod_beta)
  ultimately have ds: "distinct (map snd ?bs)" by (metis mset_eq_imp_distinct_iff)
  have "\<forall>(u, i) \<in> set ?bs. (i, KTool) \<in> set (pr_open p)"
    using t set by (force simp: tracks_def blocks_def)
  from accept_stops [OF _ _ ds this] t assms(2) obtain q where q:
    "accept_frames (map (\<lambda>(_, i). Block_Stop i) ?bs) p = Some q" "pr_phase q = Streaming"
    "pr_next q = pr_next p" "distinct (map fst (pr_open q))"
    "set (pr_open q) = {x \<in> set (blocks w). fst x \<notin> snd ` set (tool_list w)}"
    by (auto simp: tracks_def set)
  have bw: "blocks w = ?cur @ map (\<lambda>(_, i). (i, KTool)) (tool_list w) @ map (\<lambda>(_, i). (i, KServer)) (aw_server_blocks w)"
    and b': "blocks ?w = ?cur @ map (\<lambda>(_, i). (i, KServer)) (aw_server_blocks w)"
    by (simp_all add: blocks_def tool_list_def)
  let ?ts = "map (\<lambda>(_, i). (i, KTool)) (tool_list w)" and ?ss = "map (\<lambda>(_, i). (i, KServer)) (aw_server_blocks w)"
  have k: "fst ` set ?ts = snd ` set (tool_list w)" by force
  note mr = middle_removed [of ?cur ?ts ?ss, folded bw b', OF d, unfolded k]
  have "set (pr_open q) = set (blocks ?w)" using q(5) mr by blast
  moreover have "distinct (map fst (blocks ?w))" using mr by blast
  moreover have "set (blocks ?w) \<subseteq> set (blocks w)" using mr by blast
  then have "\<forall>x \<in> set (blocks ?w). fst x < pr_next p" using t by (auto simp only: tracks_def)
  ultimately have "tracks ?w q" using q t assms(2) by (auto simp: tracks_def tool_list_def)
  with q show ?thesis by blast
qed

lemma close_one_orphan_step:
  assumes "close_one_orphan tid w = (fs, w')" "\<not> aw_block_open w" "aw_sent_start w"
  shows "emits w fs w' \<and> \<not> aw_block_open w' \<and> aw_sent_start w' \<and> tool_list w' = tool_list w \<and>
    aw_server_blocks w' = AList.delete tid (aw_server_blocks w)"
  using assms(1) encode_fetch_step [OF _ assms(2)] search_error_step [OF _ assms(2,3)]
  unfolding close_one_orphan_def by (auto split: if_splits)

lemma close_orphans_step:
  "close_orphans ids w = (fs, w') \<Longrightarrow> \<not> aw_block_open w \<Longrightarrow> aw_sent_start w \<Longrightarrow>
     emits w fs w' \<and> \<not> aw_block_open w' \<and> aw_sent_start w' \<and> tool_list w' = tool_list w \<and>
     set (aw_server_blocks w') = {x \<in> set (aw_server_blocks w). fst x \<notin> set ids}"
proof (induction ids arbitrary: w fs w')
  case (Cons tid ids)
  obtain f1 w1 where 1: "close_one_orphan tid w = (f1, w1)" by (cases "close_one_orphan tid w")
  obtain f2 w2 where 2: "close_orphans ids w1 = (f2, w2)" by (cases "close_orphans ids w1")
  have r: "fs = f1 @ f2" "w' = w2" using Cons.prems(1) by (auto simp: 1 2)
  note s1 = close_one_orphan_step [OF 1 Cons.prems(2,3)]
  with Cons.IH [OF 2] show ?case unfolding r by (auto simp: set_delete intro: emits_append)
qed (simp add: emits_Nil)

lemma turn_ended_step:
  assumes e: "encode_turn_ended ord ev w = (fs, w')" and ok: "writer_ok w p" and "aw_sent_start w"
    and sv: "aw_server_blocks w = [] \<or> \<not> aw_block_open w" and m: "\<And>xs. mset (ord xs) = mset xs"
  shows "\<exists>q. accept_frames fs p = Some q \<and> pr_phase q = Finished \<and> pr_open q = []"
proof -
  obtain f1 w1 where 1: "(if aw_block_open w
      then let (fs, w) = close_current_block w in (fs, w\<lparr>aw_block_open := False\<rparr>) else ([], w)) = (f1, w1)"
    by (meson surj_pair)
  let ?f2 = "map (\<lambda>(_, i). Block_Stop i) (ord (tool_list w1))" and ?w2 = "w1\<lparr>aw_tool_blocks := None\<rparr>"
  obtain f3 w3 where 3: "close_orphan_server_tools ord ?w2 = (f3, w3)"
    by (cases "close_orphan_server_tools ord ?w2")
  from e obtain d where r: "fs = f1 @ ?f2 @ f3 @ [d, Message_Stop]" and d: "\<exists>a b u n. d = Message_Delta a b u n"
    unfolding encode_turn_ended_def Let_def 1 [unfolded Let_def] by (auto simp: 3)
  have "\<exists>q. accept_frames f1 p = Some q \<and> tracks w1 q \<and> \<not> aw_block_open w1 \<and> aw_sent_start w1 \<and>
      aw_server_blocks w1 = aw_server_blocks w \<and> (aw_server_blocks w \<noteq> [] \<longrightarrow> writer_ok w1 q)"
  proof (cases "aw_block_open w")
    case True
    obtain gs v where c: "close_current_block w = (gs, v)" by (cases "close_current_block w")
    have "tracks w p" using ok by (simp add: writer_ok_def)
    from close_block_step [OF this True c] 1 True c sv assms(3) show ?thesis by auto
  next
    case False
    with 1 ok assms(3) show ?thesis by (auto simp: writer_ok_def)
  qed
  then obtain p1 where p1: "accept_frames f1 p = Some p1" "tracks w1 p1" "\<not> aw_block_open w1" "aw_sent_start w1"
    "aw_server_blocks w1 = aw_server_blocks w" "aw_server_blocks w \<noteq> [] \<longrightarrow> writer_ok w1 p1" by blast
  from stop_tools_tracks [where ord = ord, OF p1(2,4) m] obtain p2 where p2: "accept_frames ?f2 p1 = Some p2"
    "pr_next p2 = pr_next p1" "tracks ?w2 p2" by blast
  have "\<exists>p3. accept_frames f3 p2 = Some p3 \<and> tracks w3 p3 \<and> blocks w3 = [] \<and> aw_sent_start w3"
  proof (cases "aw_server_blocks w = []")
    case True
    have "ord [] = []" using m [of "[]"] by simp
    with 3 True p1(5) have "f3 = []" "w3 = ?w2" by (simp_all add: close_orphan_server_tools_def)
    with p1 p2 True show ?thesis by (auto simp: blocks_def tool_list_def)
  next
    case False
    have "set (map fst (ord (aw_server_blocks ?w2))) = fst ` set (aw_server_blocks ?w2)"
      using m by (metis image_set set_mset_mset)
    with close_orphans_step [of "map fst (ord (aw_server_blocks ?w2))" ?w2 f3 w3] 3 p1
    have s: "emits ?w2 f3 w3" "\<not> aw_block_open w3" "aw_sent_start w3" "tool_list w3 = tool_list ?w2"
      "set (aw_server_blocks w3) = {}"
      by (auto simp: close_orphan_server_tools_def)
    have "writer_ok ?w2 p2" using p1 p2 False by (auto simp: writer_ok_def)
    with s(1) obtain p3 where "accept_frames f3 p2 = Some p3" "writer_ok w3 p3" by (auto simp: emits_def)
    with s(2-) show ?thesis by (auto simp: writer_ok_def blocks_def tool_list_def)
  qed
  then obtain p3 where p3: "accept_frames f3 p2 = Some p3" "tracks w3 p3" "blocks w3 = []" "aw_sent_start w3"
    by blast
  have "pr_open p3 = []" "pr_phase p3 = Streaming" using p3 by (auto simp: tracks_def)
  with d have "\<exists>q. accept_frames [d, Message_Stop] p3 = Some q \<and> pr_phase q = Finished \<and> pr_open q = []"
    by auto
  with p1(1) p2(1) p3(1) show ?thesis unfolding r accept_frames_append by simp
qed

subsection \<open>Reachable streams\<close>

text \<open>
  What the upstream has to respect for the stream to be well formed: a tool call is announced
  once while it is open, a result arrives while no text or thinking block is open, and a turn
  ends after something was sent and, if a server tool is pending, while no text or thinking block
  is open. The code does not check these; the last theorem shows what happens without them.
\<close>

definition event_ok :: "nat list option \<Rightarrow> anthropic_writer \<Rightarrow> event \<Rightarrow> bool" where
  "event_ok rnd w ev \<longleftrightarrow>
     (case ev_kind ev of
        EventToolCallStarted \<Rightarrow>
          map_of (tool_list w) (fst (resolve_client_tool_id rnd (ev_tool_call_id ev) w)) = None
      | EventServerToolStarted \<Rightarrow> map_of (aw_server_blocks w) (ev_tool_call_id ev) = None
      | EventWebSearchResult \<Rightarrow> \<not> aw_block_open w
      | EventTurnEnded \<Rightarrow> aw_sent_start w \<and> (aw_server_blocks w = [] \<or> \<not> aw_block_open w)
      | _ \<Rightarrow> True)"

inductive writer_reach :: "anthropic_writer \<Rightarrow> sse_frame list \<Rightarrow> bool \<Rightarrow> bool" where
  reach_new: "writer_reach ((new_anthropic_stream_writer m rnd)\<lparr>aw_input_tokens := n\<rparr>) [] False"
| reach_step: "writer_reach w out False \<Longrightarrow> event_ok rnd w ev \<Longrightarrow> (\<And>xs. mset (ord xs) = mset xs) \<Longrightarrow>
    encode rnd ord ev w = (fs, w') \<Longrightarrow> writer_reach w' (out @ fs) (ev_kind ev = EventTurnEnded)"

inductive_cases writer_reach_open: "writer_reach w out False"

lemma encode_step:
  assumes "encode rnd ord ev w = (fs, w')" "event_ok rnd w ev" "ev_kind ev \<noteq> EventTurnEnded"
  shows "emits w fs w'"
  using assms encode_text_step [of ev w fs w'] encode_thinking_step [of ev w fs w']
    encode_signature_step [of ev w fs w'] encode_heartbeat_step [of w fs w']
    encode_tool_started_step [of rnd ev w fs w'] encode_tool_delta_step [of rnd ev w fs w']
    encode_tool_completed_step [of rnd ev w fs w'] encode_server_started_step [of ev w fs w']
    encode_search_step [of ev w fs w']
  by (cases "ev_kind ev") (auto simp: encode_def event_ok_def emits_Nil)

lemma writer_ok_new: "writer_ok ((new_anthropic_stream_writer m rnd)\<lparr>aw_input_tokens := n\<rparr>) fresh_protocol"
  by (simp add: writer_ok_def tracks_def new_anthropic_stream_writer_def fresh_protocol_def blocks_def
      tool_list_def)

lemma reach_accepted:
  "writer_reach w out fin \<Longrightarrow> \<exists>p. accept_frames out fresh_protocol = Some p \<and>
     (if fin then pr_phase p = Finished \<and> pr_open p = [] else writer_ok w p)"
proof (induction rule: writer_reach.induct)
  case reach_new
  then show ?case using writer_ok_new by simp
next
  case (reach_step w out rnd ev ord fs w')
  then obtain p where p: "accept_frames out fresh_protocol = Some p" "writer_ok w p" by auto
  show ?case
  proof (cases "ev_kind ev = EventTurnEnded")
    case True
    with reach_step.hyps have "encode_turn_ended ord ev w = (fs, w')" "aw_sent_start w"
      "aw_server_blocks w = [] \<or> \<not> aw_block_open w" by (simp_all add: encode_def event_ok_def)
    from turn_ended_step [OF this(1) p(2) this(2,3) reach_step.hyps(3)] p(1) True
    show ?thesis by (auto simp: accept_frames_append)
  next
    case False
    from encode_step [OF reach_step.hyps(4,2) False] p show ?thesis
      by (auto simp: accept_frames_append emits_def False)
  qed
qed

subsection \<open>What the frames say\<close>

definition text_of :: "sse_frame list \<Rightarrow> string" where
  "text_of fs = concat (map (\<lambda>f. case f of Block_Delta _ (Text_Delta s) \<Rightarrow> s | _ \<Rightarrow> []) fs)"

lemma text_of_append [simp]: "text_of (fs @ gs) = text_of fs @ text_of gs"
  by (simp add: text_of_def)

lemma text_of_simps [simp]:
  "text_of [] = []" "text_of (Block_Start i b # fs) = text_of fs" "text_of (Block_Stop i # fs) = text_of fs"
  "text_of (Ping # fs) = text_of fs" "text_of (Message_Start x m k # fs) = text_of fs"
  "text_of (Message_Delta r q u n # fs) = text_of fs" "text_of (Message_Stop # fs) = text_of fs"
  "text_of (Block_Delta i (Text_Delta t) # fs) = t @ text_of fs"
  "text_of (Block_Delta i (Thinking_Delta t) # fs) = text_of fs"
  "text_of (Block_Delta i (Signature_Delta t) # fs) = text_of fs"
  "text_of (Block_Delta i (Input_Json_Delta t) # fs) = text_of fs"
  "text_of (Block_Delta i (Citations_Delta c) # fs) = text_of fs"
  by (simp_all add: text_of_def)

lemma text_of_citations [simp]: "text_of (map (\<lambda>c. Block_Delta i (Citations_Delta c)) cs) = []"
  by (induction cs) auto

lemma text_of_stops [simp]: "text_of (map (\<lambda>(_, i). Block_Stop i) bs) = []"
  by (induction bs) auto

lemma text_of_args [simp]: "text_of (args_delta i ev) = []"
  by (simp add: args_delta_def)

text \<open>A silent step sends no text and leaves the collected text and the tool flag alone.\<close>

definition silent :: "anthropic_writer \<Rightarrow> sse_frame list \<times> anthropic_writer \<Rightarrow> bool" where
  "silent w r \<longleftrightarrow> text_of (fst r) = [] \<and> aw_text (snd r) = aw_text w \<and>
     aw_saw_tool_call (snd r) = aw_saw_tool_call w \<and> tool_list (snd r) = tool_list w"

lemma silent_parts:
  "silent w (start_frame w)" "silent w (close_current_block w)"
  "silent w (enter_block ty b w)" "silent w (stop_server_tool tid w)" "silent w (result_block b w)"
  by (auto simp: silent_def start_frame_def close_current_block_def enter_block_def stop_server_tool_def
      result_block_def tool_list_def Let_def split: option.splits)

lemma silentE:
  assumes "f = (fs, w')" "silent w f"
  shows "text_of fs = [] \<and> aw_text w' = aw_text w \<and> aw_saw_tool_call w' = aw_saw_tool_call w \<and>
    tool_list w' = tool_list w"
  using assms by (simp add: silent_def)

lemma silent_close_and_advance: "silent w (close_and_advance w)"
  using silent_parts(2) [of w]
  by (auto simp: silent_def close_and_advance_def tool_list_def split: prod.splits)

lemma silent_leave: "silent w (leave_other_block ty w)"
  using silent_close_and_advance [of w] by (auto simp: silent_def leave_other_block_def)

lemma silent_fetch: "silent w (encode_web_fetch_result ev w)"
proof -
  obtain f1 w1 where 1: "start_frame w = (f1, w1)" by (cases "start_frame w")
  obtain f2 w2 where 2: "stop_server_tool (ev_tool_call_id ev) w1 = (f2, w2)"
    by (cases "stop_server_tool (ev_tool_call_id ev) w1")
  show ?thesis
    using silentE [OF 1 silent_parts(1)] silentE [OF 2 silent_parts(4)]
    by (auto simp: silent_def encode_web_fetch_result_def Let_def 1 2 result_block_def tool_list_def)
qed

lemma silent_search: "silent w (encode_web_search_result ev w)"
proof (cases "equal_fold (ev_tool_name ev) ''web_fetch''")
  case True
  then show ?thesis using silent_fetch by (simp add: encode_web_search_result_def)
next
  case False
  obtain f1 w1 where 1: "start_frame w = (f1, w1)" by (cases "start_frame w")
  obtain f2 w2 where 2: "stop_server_tool (ev_tool_call_id ev) w1 = (f2, w2)"
    by (cases "stop_server_tool (ev_tool_call_id ev) w1")
  show ?thesis
    using False silentE [OF 1 silent_parts(1)] silentE [OF 2 silent_parts(4)]
    by (auto simp: silent_def encode_web_search_result_def Let_def 1 2 result_block_def tool_list_def)
qed

lemma silent_orphan: "silent w (close_one_orphan tid w)"
proof -
  obtain f1 w1 where 1: "stop_server_tool tid w = (f1, w1)" by (cases "stop_server_tool tid w")
  show ?thesis
    using silent_fetch silentE [OF 1 silent_parts(4)]
    by (auto simp: silent_def close_one_orphan_def encode_web_search_error_result_def 1 result_block_def
        Let_def tool_list_def)
qed

lemma silent_orphans: "silent w (close_orphans ids w)"
proof (induction ids arbitrary: w)
  case (Cons tid ids)
  obtain f1 w1 where 1: "close_one_orphan tid w = (f1, w1)" by (cases "close_one_orphan tid w")
  show ?case
    using silentE [OF 1 silent_orphan] Cons [of w1] by (auto simp: silent_def 1 split: prod.splits)
qed (simp add: silent_def)

text \<open>The text of a step, and the two things a turn's stop reason depends on.\<close>

definition turn_state_ok :: "anthropic_writer \<Rightarrow> bool" where
  "turn_state_ok w \<longleftrightarrow> (tool_list w \<noteq> [] \<longrightarrow> aw_saw_tool_call w)"

definition tells :: "event \<Rightarrow> anthropic_writer \<Rightarrow> emit \<Rightarrow> bool" where
  "tells ev w r \<longleftrightarrow> text_of (fst r) = step_text ev \<and> aw_text (snd r) = aw_text w @ step_text ev \<and>
     (turn_state_ok w \<longrightarrow> turn_state_ok (snd r) \<and>
        aw_saw_tool_call (snd r) = (aw_saw_tool_call w \<or> ev_kind ev = EventToolCallStarted))"

lemma silent_tells:
  "silent w r \<Longrightarrow> ev_kind ev \<notin> {EventTextDelta, EventToolCallStarted} \<Longrightarrow> tells ev w r"
  by (auto simp: silent_def tells_def step_text_def turn_state_ok_def)

lemma tells_text: "ev_kind ev = EventTextDelta \<Longrightarrow> tells ev w (encode_text_delta ev w)"
proof -
  assume k: "ev_kind ev = EventTextDelta"
  let ?w = "w\<lparr>aw_text := aw_text w @ ev_text ev\<rparr>"
  obtain f1 w1 where 1: "start_frame ?w = (f1, w1)" by (cases "start_frame ?w")
  obtain f2 w2 where 2: "leave_other_block ''text'' w1 = (f2, w2)" by (cases "leave_other_block ''text'' w1")
  obtain f3 w3 where 3: "enter_block ''text'' Text_Block w2 = (f3, w3)"
    by (cases "enter_block ''text'' Text_Block w2")
  have "tool_list ?w = tool_list w" by (simp add: tool_list_def)
  then show ?thesis
    using k silentE [OF 1 silent_parts(1)] silentE [OF 2 silent_leave] silentE [OF 3 silent_parts(3)]
    by (simp add: tells_def encode_text_delta_def Let_def 1 2 3 step_text_def turn_state_ok_def)
qed

lemma silent_thinking: "silent w (encode_thinking_delta ev w)"
proof -
  obtain f1 w1 where 1: "start_frame w = (f1, w1)" by (cases "start_frame w")
  obtain f2 w2 where 2: "leave_other_block ''thinking'' w1 = (f2, w2)"
    by (cases "leave_other_block ''thinking'' w1")
  obtain f3 w3 where 3: "enter_block ''thinking'' Thinking_Block w2 = (f3, w3)"
    by (cases "enter_block ''thinking'' Thinking_Block w2")
  show ?thesis
    using silentE [OF 1 silent_parts(1)] silentE [OF 2 silent_leave] silentE [OF 3 silent_parts(3)]
    by (simp add: silent_def encode_thinking_delta_def 1 2 3)
qed

lemma silent_signature: "silent w (encode_signature_delta ev w)"
proof -
  obtain f1 w1 where 1: "start_frame w = (f1, w1)" by (cases "start_frame w")
  obtain f3 w3 where 3: "enter_block ''thinking'' Thinking_Block w1 = (f3, w3)"
    by (cases "enter_block ''thinking'' Thinking_Block w1")
  show ?thesis
    using silentE [OF 1 silent_parts(1)] silentE [OF 3 silent_parts(3)]
    by (simp add: silent_def encode_signature_delta_def 1 3)
qed

lemma silent_heartbeat: "silent w (encode_heartbeat w)"
  using silent_parts(1) [of w] by (auto simp: silent_def encode_heartbeat_def split: prod.splits)

lemma silent_server_started: "silent w (encode_server_tool_started ev w)"
proof -
  obtain f1 w1 where 1: "start_frame w = (f1, w1)" by (cases "start_frame w")
  obtain f2 w2 where 2: "close_and_advance w1 = (f2, w2)" by (cases "close_and_advance w1")
  show ?thesis
    using silentE [OF 1 silent_parts(1)] silentE [OF 2 silent_close_and_advance]
    by (auto simp: silent_def encode_server_tool_started_def Let_def 1 2 tool_list_def)
qed

lemma resolve_frame:
  "resolve_client_tool_id rnd tid w = (t, w') \<Longrightarrow> aw_text w' = aw_text w \<and>
     aw_saw_tool_call w' = aw_saw_tool_call w \<and> tool_list w' = tool_list w"
  by (auto simp: resolve_client_tool_id_def Let_def tool_list_def split: if_splits)

lemma tells_tool_started: "ev_kind ev = EventToolCallStarted \<Longrightarrow> tells ev w (encode_tool_call_started rnd ev w)"
proof -
  assume k: "ev_kind ev = EventToolCallStarted"
  obtain f1 w1 where 1: "start_frame w = (f1, w1)" by (cases "start_frame w")
  obtain f2 w2 where 2: "close_and_advance w1 = (f2, w2)" by (cases "close_and_advance w1")
  let ?w = "w2\<lparr>aw_tool_blocks := Some (tool_list w2)\<rparr>"
  obtain t w3 where 3: "resolve_client_tool_id rnd (ev_tool_call_id ev) ?w = (t, w3)"
    by (cases "resolve_client_tool_id rnd (ev_tool_call_id ev) ?w")
  have "aw_text ?w = aw_text w2" "aw_saw_tool_call ?w = aw_saw_tool_call w2" "tool_list ?w = tool_list w2"
    by (simp_all add: tool_list_def)
  note fr = silentE [OF 1 silent_parts(1)] silentE [OF 2 silent_close_and_advance] resolve_frame [OF 3] this
  let ?w' = "w3\<lparr>aw_tool_blocks := Some (AList.update t (aw_block_index w3) (tool_list w3)),
               aw_block_index := aw_block_index w3 + 1, aw_saw_tool_call := True\<rparr>"
  have r: "encode_tool_call_started rnd ev w =
    (if map_of (tool_list w3) t \<noteq> None then ([], w3)
     else (f1 @ f2 @ [Block_Start (aw_block_index w3) (Tool_Use t (ev_tool_name ev))] @
             args_delta (aw_block_index w3) ev, ?w'))"
    by (simp add: encode_tool_call_started_def Let_def 1 2 3)
  show ?thesis
  proof (cases "map_of (tool_list w3) t")
    case None
    then show ?thesis
      unfolding r using k fr by (simp add: tells_def step_text_def turn_state_ok_def)
  next
    case (Some i)
    then have "tool_list w3 \<noteq> []" by auto
    with Some show ?thesis
      unfolding r using k fr by (simp add: tells_def step_text_def turn_state_ok_def)
  qed
qed

lemma tells_tool_delta:
  "ev_kind ev = EventToolCallDelta \<Longrightarrow> silent w (encode_tool_call_delta rnd ev w)"
proof (cases "ev_tool_args_delta ev = [] \<or> aw_tool_blocks w = None")
  case False
  obtain t w1 where 1: "resolve_client_tool_id rnd (ev_tool_call_id ev) w = (t, w1)"
    by (cases "resolve_client_tool_id rnd (ev_tool_call_id ev) w")
  show ?thesis
    using resolve_frame [OF 1] False
    by (cases "map_of (tool_list w1) t") (simp_all add: silent_def encode_tool_call_delta_def 1)
qed (simp add: silent_def encode_tool_call_delta_def)

lemma delete_nonempty: "AList.delete t al \<noteq> [] \<Longrightarrow> al \<noteq> []"
  by auto

lemma tells_tool_completed:
  assumes "ev_kind ev = EventToolCallCompleted"
  shows "tells ev w (encode_tool_call_completed rnd ev w)"
proof (cases "aw_tool_blocks w = None")
  case True
  then show ?thesis using assms by (simp add: tells_def encode_tool_call_completed_def step_text_def)
next
  case False
  obtain t w1 where 1: "resolve_client_tool_id rnd (ev_tool_call_id ev) w = (t, w1)"
    by (cases "resolve_client_tool_id rnd (ev_tool_call_id ev) w")
  have tl: "tool_list (w1\<lparr>aw_tool_blocks := Some bs\<rparr>) = bs" for bs by (simp add: tool_list_def)
  show ?thesis
    using resolve_frame [OF 1] False assms delete_nonempty [of t "tool_list w1"]
    by (cases "map_of (tool_list w1) t")
      (auto simp: tells_def encode_tool_call_completed_def 1 step_text_def turn_state_ok_def tl)
qed

lemma encode_tells: "ev_kind ev \<noteq> EventTurnEnded \<Longrightarrow> tells ev w (encode rnd ord ev w)"
proof -
  have "silent w ([], w)" by (simp add: silent_def)
  then show "ev_kind ev \<noteq> EventTurnEnded \<Longrightarrow> tells ev w (encode rnd ord ev w)"
    using silent_thinking silent_signature silent_heartbeat silent_server_started silent_search
      tells_text tells_tool_started tells_tool_delta tells_tool_completed
    by (cases "ev_kind ev") (simp_all add: encode_def silent_tells)
qed

lemma stream_tells:
  "\<forall>ev \<in> set evs. ev_kind ev \<noteq> EventTurnEnded \<Longrightarrow> encode_stream rnd ord evs w = (fs, w') \<Longrightarrow>
     text_of fs = concat (map step_text evs) \<and> aw_text w' = aw_text w @ concat (map step_text evs) \<and>
     (turn_state_ok w \<longrightarrow> turn_state_ok w' \<and>
        aw_saw_tool_call w' = (aw_saw_tool_call w \<or> (\<exists>ev \<in> set evs. ev_kind ev = EventToolCallStarted)))"
proof (induction evs arbitrary: w fs w')
  case (Cons ev evs)
  obtain f1 w1 where 1: "encode rnd ord ev w = (f1, w1)" by (cases "encode rnd ord ev w")
  obtain f2 w2 where 2: "encode_stream rnd ord evs w1 = (f2, w2)" by (cases "encode_stream rnd ord evs w1")
  have "tells ev w (f1, w1)" using encode_tells [of ev w rnd ord] Cons.prems(1) 1 by simp
  with Cons.IH [OF _ 2] Cons.prems 1 2 show ?case by (auto simp: tells_def)
qed simp

lemma turn_ended_summary:
  assumes "encode_turn_ended ord ev w = (fs, w')"
  shows "text_of fs = [] \<and> (\<exists>pre n. fs = pre @ [Message_Delta
      (if ev_stop_reason ev \<noteq> [] then ev_stop_reason ev
       else anthropic_stop_reason (aw_text w) (aw_saw_tool_call w))
      (if ev_stop_sequence ev \<noteq> [] then Some (ev_stop_sequence ev) else None)
      (build_anthropic_usage (ev_usage ev)) n, Message_Stop])"
proof -
  obtain f1 w1 where 1: "(if aw_block_open w
      then let (fs, w) = close_current_block w in (fs, w\<lparr>aw_block_open := False\<rparr>) else ([], w)) = (f1, w1)"
    by (meson surj_pair)
  let ?w2 = "w1\<lparr>aw_tool_blocks := None\<rparr>"
  obtain f3 w3 where 3: "close_orphan_server_tools ord ?w2 = (f3, w3)"
    by (cases "close_orphan_server_tools ord ?w2")
  have "text_of f1 = []" "aw_text w1 = aw_text w" "aw_saw_tool_call w1 = aw_saw_tool_call w"
    using 1 silent_parts(2) [of w] by (auto simp: silent_def split: if_splits prod.splits)
  moreover have "silent ?w2 (f3, w3)" using silent_orphans 3 by (metis close_orphan_server_tools_def)
  ultimately show ?thesis
    using assms unfolding encode_turn_ended_def Let_def 1 [unfolded Let_def]
    by (auto simp: 3 silent_def)
qed

subsection \<open>Properties\<close>


definition text_event :: "string \<Rightarrow> event" where
  "text_event t = (event_of EventTextDelta)\<lparr>ev_text := t\<rparr>"

definition tool_event :: "event_kind \<Rightarrow> string \<Rightarrow> event" where
  "tool_event k t = (event_of k)\<lparr>ev_tool_call_id := t\<rparr>"

lemma canonical_t: "canonical_anthropic_tool_id ''t'' False = ''toolu_t''"
  by (simp add: canonical_anthropic_tool_id_def sanitize_tool_call_id_def replace_char_def has_prefix_def)

lemma not_fetch: "\<not> equal_fold [] ''web_fetch''"
  by (simp add: equal_fold_def to_lower_def)

lemmas writer_run = text_event_def tool_event_def event_of_def encode_def encode_text_delta_def
  encode_server_tool_started_def encode_web_search_result_def encode_tool_call_started_def
  start_frame_def close_and_advance_def close_current_block_def leave_other_block_def
  enter_block_def stop_server_tool_def result_block_def resolve_client_tool_id_def
  new_anthropic_stream_writer_def fresh_protocol_def args_delta_def tool_list_def Let_def
  encode_turn_ended_def close_orphan_server_tools_def close_one_orphan_def
  encode_web_search_error_result_def canonical_t not_fetch


lemma encode_stream_run: "encode_stream rnd ord evs w = run_writer (encode rnd ord) evs w"
  by (induction evs arbitrary: w) simp_all

interpretation anthropic_text: text_writer "encode rnd ord" "\<lambda>_. True" text_of for rnd ord
proof
  fix w ev fs w'
  assume e: "encode rnd ord ev w = (fs, w')"
  show "True \<and> text_of fs = step_text ev"
  proof (cases "ev_kind ev = EventTurnEnded")
    case True
    then have "encode_turn_ended ord ev w = (fs, w')" using e by (simp add: encode_def)
    from turn_ended_summary [OF this] True show ?thesis by (simp add: step_text_def)
  next
    case False
    with encode_tells [of ev w rnd ord] e show ?thesis by (simp add: tells_def)
  qed
qed (simp_all add: text_of_simps)

text \<open>
  C27: What a turn tells the client. For every sequence of events before the end of the turn, the
  text deltas of the stream add up to the text of the text events, and the closing frames carry
  the caller's stop reason if there is one; otherwise \<^verbatim>\<open>tool_use\<close> exactly if a tool call was
  announced, and else what the refusal test says about that text.
\<close>

theorem anthropic_turn_summary:
  "let evs' = filter (\<lambda>ev. ev_kind ev \<noteq> EventTurnEnded) evs;
       (out, w) = encode_stream rnd ord evs' ((new_anthropic_stream_writer m r)\<lparr>aw_input_tokens := k\<rparr>);
       (fin, _) = encode rnd ord ((event_of EventTurnEnded)\<lparr>ev_usage := u, ev_stop_reason := sr,
                                     ev_stop_sequence := sq\<rparr>) w;
       txt = concat (map ev_text (filter (\<lambda>ev. ev_kind ev = EventTextDelta) evs));
       tool = list_ex (\<lambda>ev. ev_kind ev = EventToolCallStarted) evs
   in text_of (out @ fin) = txt \<and>
      (\<exists>pre n. fin = pre @ [Message_Delta (if sr = [] then anthropic_stop_reason txt tool else sr)
         (if sq = [] then None else Some sq) (build_anthropic_usage u) n, Message_Stop])"
proof -
  let ?evs = "filter (\<lambda>ev. ev_kind ev \<noteq> EventTurnEnded) evs"
  let ?w0 = "(new_anthropic_stream_writer m r)\<lparr>aw_input_tokens := k\<rparr>"
  let ?fin = "(event_of EventTurnEnded)\<lparr>ev_usage := u, ev_stop_reason := sr, ev_stop_sequence := sq\<rparr>"
  obtain out w where s: "encode_stream rnd ord ?evs ?w0 = (out, w)" by (cases "encode_stream rnd ord ?evs ?w0")
  obtain fin w' where e: "encode rnd ord ?fin w = (fin, w')" by (cases "encode rnd ord ?fin w")
  have tx: "concat (map step_text ?evs) = concat (map ev_text (filter (\<lambda>ev. ev_kind ev = EventTextDelta) evs))"
    by (induction evs) (auto simp: step_text_def)
  have "turn_state_ok ?w0" "aw_text ?w0 = []" "\<not> aw_saw_tool_call ?w0"
    by (simp_all add: turn_state_ok_def new_anthropic_stream_writer_def tool_list_def)
  with stream_tells [OF _ s] tx have
    "text_of out = concat (map ev_text (filter (\<lambda>ev. ev_kind ev = EventTextDelta) evs))"
    "aw_text w = concat (map ev_text (filter (\<lambda>ev. ev_kind ev = EventTextDelta) evs))"
    "aw_saw_tool_call w = list_ex (\<lambda>ev. ev_kind ev = EventToolCallStarted) evs"
    by (auto simp: list_ex_iff)
  moreover have "encode_turn_ended ord ?fin w = (fin, w')" using e by (simp add: encode_def event_of_def)
  note turn_ended_summary [OF this]
  ultimately show ?thesis by (simp add: s e) (auto simp: event_of_def)
qed

text \<open>
  Tool ids are canonical. A client id is rewritten to a \<^verbatim>\<open>toolu_\<close> id and a server id to a
  \<^verbatim>\<open>srvtoolu_\<close> id without line breaks; rewriting again changes nothing, and converting between the
  two forms loses nothing, so a later result can echo the id in either form.
\<close>

theorem canonical_tool_id_stable:
  "canonical_anthropic_tool_id (canonical_anthropic_tool_id tid b) c = canonical_anthropic_tool_id tid c \<and>
   (canonical_anthropic_tool_id tid c = [] \<longleftrightarrow> tid = []) \<and>
   (tid = [] \<or> has_prefix (canonical_anthropic_tool_id tid c) (if c then ''srvtoolu_'' else ''toolu_''))"
proof -
  define s where "s = sanitize_tool_call_id tid"
  have kept: "sanitize_tool_call_id (p @ drop n s) = p @ drop n s" if "set p \<inter> {CHR 0x0A, CHR 0x0D} = {}" for p n
    using that sanitize_tool_call_id_set [of tid] set_drop_subset [of n s]
    by (intro sanitize_tool_call_id_fix) (auto simp: s_def)
  have ss: "sanitize_tool_call_id s = s" using kept [of "[]" 0] by simp
  consider "s = []" | r where "s = ''srvtoolu_'' @ r" | r where "s = ''toolu_'' @ r"
    | "s \<noteq> []" "\<not> has_prefix s ''srvtoolu_''" "\<not> has_prefix s ''toolu_''"
    by (auto simp: has_prefix_iff)
  then show ?thesis
  proof cases
    case 1
    then have "tid = []" using s_def by simp
    then show ?thesis by (simp add: canonical_anthropic_tool_id_def)
  next
    case 2
    have "sanitize_tool_call_id (''toolu_'' @ r) = ''toolu_'' @ r" using kept [of "''toolu_''" 9] 2 by simp
    moreover have "tid \<noteq> []" using 2 s_def by (metis append_is_Nil_conv list.distinct(1) sanitize_tool_call_id_Nil)
    ultimately show ?thesis using ss 2
      by (cases b; cases c) (simp_all add: canonical_anthropic_tool_id_def s_def [symmetric] trim_prefix_def has_prefix_def)
  next
    case 3
    have "sanitize_tool_call_id (''srvtoolu_'' @ r) = ''srvtoolu_'' @ r" using kept [of "''srvtoolu_''" 6] 3 by simp
    moreover have "tid \<noteq> []" using 3 s_def by (metis append_is_Nil_conv list.distinct(1) sanitize_tool_call_id_Nil)
    ultimately show ?thesis using ss 3
      by (cases b; cases c) (simp_all add: canonical_anthropic_tool_id_def s_def [symmetric] trim_prefix_def has_prefix_def)
  next
    case 4
    have "sanitize_tool_call_id (''srvtoolu_'' @ s) = ''srvtoolu_'' @ s"
      "sanitize_tool_call_id (''toolu_'' @ s) = ''toolu_'' @ s"
      using kept [of "''srvtoolu_''" 0] kept [of "''toolu_''" 0] by simp_all
    moreover have "tid \<noteq> []" using 4 s_def by auto
    ultimately show ?thesis using ss 4
      by (cases b; cases c) (simp_all add: canonical_anthropic_tool_id_def s_def [symmetric] trim_prefix_def has_prefix_def)
  qed
qed

text \<open>
  Four event orders break the stream: a second announcement of a tool call that is still open
  after text was streamed (the stop frame of the text block is computed and dropped), a search
  result or the end of the turn while text is open after a pending server tool (its result block
  reuses the index of the text block), and an end of turn with nothing before it (no message start).
\<close>

theorem anthropic_stream_gaps:
  "accept_frames (fst (encode_stream rnd (\<lambda>x. x) [tool_event EventToolCallStarted ''t'', text_event a,
      tool_event EventToolCallStarted ''t'', event_of EventTurnEnded] (new_anthropic_stream_writer m r)))
      fresh_protocol = None \<and>
   accept_frames (fst (encode_stream rnd (\<lambda>x. x) [tool_event EventServerToolStarted s, text_event a,
      tool_event EventWebSearchResult s] (new_anthropic_stream_writer m r))) fresh_protocol = None \<and>
   accept_frames (fst (encode_stream rnd (\<lambda>x. x) [tool_event EventServerToolStarted s, text_event a,
      event_of EventTurnEnded] (new_anthropic_stream_writer m r))) fresh_protocol = None \<and>
   accept_frames (fst (encode_stream rnd (\<lambda>x. x) [event_of EventTurnEnded]
      (new_anthropic_stream_writer m r))) fresh_protocol = None"
  by (intro conjI) (simp_all add: writer_run)

end
