(* ===== verification/JsonAny.thy ===== *)
theory JsonAny
  imports JsonRoundtrip "HOL-Library.List_Lexorder" "HOL-Library.Char_ord"
begin

text \<open>
  JSON read into \<^verbatim>\<open>any\<close> and \<^verbatim>\<open>map[string]any\<close>: an object keeps the last member of a name and is
  printed with its names in order, a number is a \<^verbatim>\<open>float64\<close>. What a number literal is printed as
  after that is a parameter, None where it is out of range and the decoding fails.
\<close>

definition go_map :: "(string \<times> 'v) list \<Rightarrow> (string \<times> 'v) list" where
  "go_map ms = map (\<lambda>k. (k, the (map_of (rev ms) k))) (sort (remdups (map fst ms)))"

fun any_value :: "(string \<Rightarrow> string option) \<Rightarrow> json \<Rightarrow> json option" where
  "any_value float_text (JNum n) = map_option JNum (float_text n)"
| "any_value float_text (JArr vs) = map_option JArr (those (map (any_value float_text) vs))"
| "any_value float_text (JObj ms) =
     map_option (\<lambda>vs. JObj (go_map vs)) (those (map (\<lambda>(k, v). map_option (Pair k) (any_value float_text v)) ms))"
| "any_value float_text v = Some v"

definition unmarshal_any :: "(string \<Rightarrow> string option) \<Rightarrow> string \<Rightarrow> json option" where
  "unmarshal_any float_text s = Option.bind (json_parse s) (any_value float_text)"

lemma go_map_keys: "map fst (go_map ms) = sort (remdups (map fst ms))"
  by (simp add: go_map_def comp_def)

lemma go_map_get: "map_of (go_map ms) k = map_of (rev ms) k"
proof (cases "map_of (rev ms) k")
  case None
  then have "k \<notin> set (map fst ms)" by (simp add: map_of_eq_None_iff)
  then have "k \<notin> fst ` set (go_map ms)" using go_map_keys [of ms] by (metis set_map set_remdups set_sort)
  then have "map_of (go_map ms) k = None" by (simp add: map_of_eq_None_iff)
  with None show ?thesis by simp
next
  case (Some v)
  then have "k \<in> set (map fst ms)" by (metis map_of_SomeD rev_map set_rev image_eqI fst_conv set_map)
  then have "(k, v) \<in> set (go_map ms)" using Some by (auto simp: go_map_def image_iff)
  moreover have "distinct (map fst (go_map ms))" by (simp add: go_map_keys)
  ultimately show ?thesis using Some by simp
qed

text \<open>Type assertions on a decoded value, with the zero value where the kind differs.\<close>

definition as_string :: "json option \<Rightarrow> string" where
  "as_string v = (case v of Some (JStr s) \<Rightarrow> s | _ \<Rightarrow> [])"

definition as_bool :: "json option \<Rightarrow> bool" where
  "as_bool v = (case v of Some (JBool b) \<Rightarrow> b | _ \<Rightarrow> False)"

definition as_map :: "json option \<Rightarrow> (string \<times> json) list option" where
  "as_map v = (case v of Some (JObj ms) \<Rightarrow> Some ms | _ \<Rightarrow> None)"

text \<open>A lookup in a map that may be nil.\<close>

definition map_get :: "(string \<times> json) list option \<Rightarrow> string \<Rightarrow> json option" where
  "map_get m k = Option.bind m (\<lambda>ms. map_of ms k)"

end
