(* ===== verification/AnthropicLoop.thy ===== *)
theory AnthropicLoop
  imports ChatDelivery AnthropicProtocol JsonAny
begin

text \<open>
  The Messages handlers of \<^verbatim>\<open>cmd/cursor-proxy/main.go\<close>, \<^verbatim>\<open>streamAnthropic\<close> and \<^verbatim>\<open>nonStreamAnthropic\<close>.
  Their loop differs from that of ChatLoop: reasoning is kept until the end, nothing but tool calls
  is written before it when the client asked for thinking, and the closing frames come last. The
  order in which the writer closes its blocks and the bytes of a minted id are in the argument \<open>enc\<close>.
\<close>

subsection \<open>The stream\<close>

record anthropic_loop =
  al_writer :: anthropic_writer
  al_frames :: "sse_frame list"
  al_text :: string
  al_thought :: string
  al_signature :: string
  al_saw_output :: bool
  al_last_usage :: "usage option"
  al_trailer_err :: "trailer_status option"

definition new_anthropic_loop :: "anthropic_writer \<Rightarrow> anthropic_loop" where
  "new_anthropic_loop w = \<lparr>al_writer = w, al_frames = [], al_text = [], al_thought = [], al_signature = [],
     al_saw_output = False, al_last_usage = None, al_trailer_err = None\<rparr>"

type_synonym anthropic_encode = "event \<Rightarrow> anthropic_writer \<Rightarrow> emit"

definition write_anthropic :: "anthropic_encode \<Rightarrow> event \<Rightarrow> anthropic_loop \<Rightarrow> anthropic_loop" where
  "write_anthropic enc ev st =
     (case enc ev (al_writer st) of (fs, w) \<Rightarrow> st\<lparr>al_writer := w, al_frames := al_frames st @ fs\<rparr>)"

definition keep_thinking :: "bool \<Rightarrow> blob_event \<Rightarrow> anthropic_loop \<Rightarrow> anthropic_loop" where
  "keep_thinking expect b st =
     (if expect then st\<lparr>al_thought := (if be_thought_text b \<noteq> [] then be_thought_text b else al_thought st),
        al_signature := (if be_signature b \<noteq> [] then be_signature b else al_signature st)\<rparr> else st)"

definition anthropic_blob :: "anthropic_encode \<Rightarrow> bool \<Rightarrow> blob_event \<Rightarrow> anthropic_loop \<Rightarrow> anthropic_loop" where
  "anthropic_blob enc expect b st =
     (let st = keep_thinking expect b st in
      if be_assistant_text b = [] then st
      else case accept_snapshot (al_text st) (be_assistant_text b) of (delta, t) \<Rightarrow>
        let st = st\<lparr>al_text := t\<rparr> in
        if delta \<noteq> [] \<and> \<not> expect then write_anthropic enc (text_delta delta) (st\<lparr>al_saw_output := True\<rparr>) else st)"

definition anthropic_event :: "anthropic_encode \<Rightarrow> bool \<Rightarrow> event \<Rightarrow> anthropic_loop \<Rightarrow> anthropic_loop" where
  "anthropic_event enc expect ev st =
     (if ev_kind ev = EventTextDelta then
        (case accept_delta (al_text st) (ev_text ev) of (delta, t) \<Rightarrow>
           let st = st\<lparr>al_text := t, al_saw_output := al_saw_output st \<or> delta \<noteq> []\<rparr> in
           if expect then st else write_anthropic enc (ev\<lparr>ev_text := delta\<rparr>) st)
      else if ev_kind ev \<in> {EventToolCallStarted, EventToolCallDelta, EventToolCallCompleted}
        then write_anthropic enc ev (st\<lparr>al_saw_output := True\<rparr>)
      else if ev_kind ev = EventTurnEnded then st\<lparr>al_last_usage := ev_usage ev\<rparr>
      else st)"

definition anthropic_step :: "(server_message \<Rightarrow> event option) \<Rightarrow> anthropic_encode \<Rightarrow> bool \<Rightarrow> chat_event \<Rightarrow>
    anthropic_loop \<Rightarrow> anthropic_loop" where
  "anthropic_step tr enc expect ce st =
     (case ce of
        Trailer_Event status \<Rightarrow> st\<lparr>al_trailer_err := note_trailer status (al_trailer_err st)\<rparr>
      | Server_Event None \<Rightarrow> st
      | Server_Event (Some m) \<Rightarrow>
          (case from_kv_blob m of
             Some b \<Rightarrow> anthropic_blob enc expect b st
           | None \<Rightarrow> (case tr m of None \<Rightarrow> st | Some ev \<Rightarrow> anthropic_event enc expect ev st)))"

text \<open>The reasoning, its signature and the text, written after the last upstream event.\<close>

definition text_like :: "event_kind \<Rightarrow> string \<Rightarrow> event" where
  "text_like k s = (event_of k)\<lparr>ev_text := s\<rparr>"

definition flush_thinking :: "anthropic_encode \<Rightarrow> anthropic_loop \<Rightarrow> anthropic_loop" where
  "flush_thinking enc st =
     (let st = (if al_thought st \<noteq> []
          then write_anthropic enc (text_like EventThinkingDelta (al_thought st)) (st\<lparr>al_saw_output := True\<rparr>) else st);
          st = (if al_signature st \<noteq> []
          then write_anthropic enc (text_like EventSignatureDelta (al_signature st)) st else st) in
      if al_text st \<noteq> [] then write_anthropic enc (text_delta (al_text st)) (st\<lparr>al_saw_output := True\<rparr>) else st)"

definition finish_anthropic :: "anthropic_encode \<Rightarrow> sim_cache_decision \<Rightarrow> bool \<Rightarrow> anthropic_loop \<Rightarrow> sse_frame answer" where
  "finish_anthropic enc d expect st =
     (let st = (if expect then flush_thinking enc st else st) in
      if al_frames st = [] \<and> al_trailer_err st \<noteq> None
        then Failed (write_upstream_anthropic_error (al_trailer_err st))
      else if al_frames st = [] \<and> is_empty_upstream_response (al_saw_output st) (al_last_usage st)
        then Failed write_empty_upstream_anthropic_error
      else case al_trailer_err st of
        Some s \<Rightarrow> Stream (al_frames st @ encode_error ''api_error'' (ts_message s))
      | None \<Rightarrow> Stream (al_frames (write_anthropic enc
          (turn_end (apply_to_usage d (al_last_usage st) True)) st)))"

definition stream_anthropic :: "(server_message \<Rightarrow> event option) \<Rightarrow> anthropic_encode \<Rightarrow> sim_cache_decision \<Rightarrow> bool \<Rightarrow>
    anthropic_writer \<Rightarrow> chat_event list \<Rightarrow> sse_frame answer" where
  "stream_anthropic tr enc d expect w ces =
     finish_anthropic enc d expect (fold (anthropic_step tr enc expect) ces (new_anthropic_loop w))"

subsection \<open>The single answer\<close>

record anthropic_answer =
  an_text :: string
  an_thought :: string
  an_signature :: string
  an_usage :: "usage option"
  an_tool_uses :: "(string \<times> string \<times> json) list"
  an_trailer_err :: "trailer_status option"

definition empty_answer :: anthropic_answer where
  "empty_answer = \<lparr>an_text = [], an_thought = [], an_signature = [], an_usage = None, an_tool_uses = [],
     an_trailer_err = None\<rparr>"

definition has_answer :: "anthropic_answer \<Rightarrow> bool" where
  "has_answer a \<longleftrightarrow> an_text a \<noteq> [] \<or> an_tool_uses a \<noteq> []"

definition answer_blob :: "bool \<Rightarrow> blob_event \<Rightarrow> anthropic_answer \<Rightarrow> anthropic_answer" where
  "answer_blob expect b a =
     (let a = (if expect then a\<lparr>an_thought := (if be_thought_text b \<noteq> [] then be_thought_text b else an_thought a),
        an_signature := (if be_signature b \<noteq> [] then be_signature b else an_signature a)\<rparr> else a) in
      if be_assistant_text b \<noteq> [] then a\<lparr>an_text := snd (accept_snapshot (an_text a) (be_assistant_text b))\<rparr> else a)"

definition tool_input :: "(string \<Rightarrow> string option) \<Rightarrow> string \<Rightarrow> json" where
  "tool_input float_text args =
     (if args = [] then JObj [] else case unmarshal_any float_text args of Some v \<Rightarrow> v | None \<Rightarrow> JObj [])"

text \<open>The new state, and whether the loop is left.\<close>

definition answer_event :: "(string \<Rightarrow> string option) \<Rightarrow> event \<Rightarrow> anthropic_answer \<Rightarrow> anthropic_answer \<times> bool" where
  "answer_event float_text ev a =
     (if ev_kind ev = EventTextDelta then (a\<lparr>an_text := snd (accept_delta (an_text a) (ev_text ev))\<rparr>, False)
      else if ev_kind ev = EventToolCallStarted
        then (a\<lparr>an_tool_uses := an_tool_uses a @
          [(ev_tool_call_id ev, ev_tool_name ev, tool_input float_text (ev_tool_args_delta ev))]\<rparr>, False)
      else if ev_kind ev = EventTurnEnded then (a\<lparr>an_usage := ev_usage ev\<rparr>, has_answer a)
      else (a, False))"

fun collect_answer :: "(server_message \<Rightarrow> event option) \<Rightarrow> (string \<Rightarrow> string option) \<Rightarrow> bool \<Rightarrow> chat_event list \<Rightarrow>
    anthropic_answer \<Rightarrow> anthropic_answer" where
  "collect_answer tr float_text expect [] a = a"
| "collect_answer tr float_text expect (Trailer_Event status # ces) a =
     collect_answer tr float_text expect ces (a\<lparr>an_trailer_err := note_trailer status (an_trailer_err a)\<rparr>)"
| "collect_answer tr float_text expect (Server_Event None # ces) a = collect_answer tr float_text expect ces a"
| "collect_answer tr float_text expect (Server_Event (Some m) # ces) a =
     (case from_kv_blob m of
        Some b \<Rightarrow> collect_answer tr float_text expect ces (answer_blob expect b a)
      | None \<Rightarrow>
          (case tr m of
             None \<Rightarrow> collect_answer tr float_text expect ces a
           | Some ev \<Rightarrow>
               (case answer_event float_text ev a of (a, leave) \<Rightarrow>
                  if leave then a else collect_answer tr float_text expect ces a)))"

definition thinking_json :: "anthropic_answer \<Rightarrow> json" where
  "thinking_json a = JObj ((if an_signature a \<noteq> [] then [(''signature'', JStr (an_signature a))] else []) @
     [(''thinking'', JStr (an_thought a)), (''type'', JStr ''thinking'')])"

definition answer_content :: "bool \<Rightarrow> anthropic_answer \<Rightarrow> json list" where
  "answer_content expect a =
     (if expect \<and> an_thought a \<noteq> [] then [thinking_json a] else []) @
     (if an_text a \<noteq> [] then [JObj [(''text'', JStr (an_text a)), (''type'', JStr ''text'')]] else []) @
     map (\<lambda>(i, n, v). JObj [(''id'', JStr i), (''input'', v), (''name'', JStr n), (''type'', JStr ''tool_use'')])
       (an_tool_uses a)"

definition answer_stop_reason :: "anthropic_answer \<Rightarrow> string" where
  "answer_stop_reason a = (if an_tool_uses a \<noteq> [] then ''tool_use'' else ''end_turn'')"

definition anthropic_response :: "sim_cache_decision \<Rightarrow> bool \<Rightarrow> string \<Rightarrow> string \<Rightarrow> anthropic_answer \<Rightarrow> json" where
  "anthropic_response d expect model uuid a =
     JObj ([(''content'', JArr (answer_content expect a)), (''id'', JStr (''msg_'' @ uuid)),
        (''model'', JStr model), (''role'', JStr ''assistant''), (''stop_reason'', JStr (answer_stop_reason a)),
        (''stop_sequence'', JNull), (''type'', JStr ''message'')] @
       (case apply_to_usage d (an_usage a) True of None \<Rightarrow> []
        | Some u \<Rightarrow> [(''usage'', JObj (map (\<lambda>(k, v). (k, json_int v)) (build_anthropic_usage (Some u))))]))"

definition finish_answer :: "sim_cache_decision \<Rightarrow> bool \<Rightarrow> string \<Rightarrow> string \<Rightarrow> anthropic_answer \<Rightarrow> answer_or_error" where
  "finish_answer d expect model uuid a =
     (if an_trailer_err a \<noteq> None \<and> \<not> has_answer a
        then Error_Answer (write_upstream_anthropic_error (an_trailer_err a))
      else if is_empty_upstream_response (has_answer a) (an_usage a)
        then Error_Answer write_empty_upstream_anthropic_error
      else Answer (header_after d (case an_usage a of None \<Rightarrow> 0 | Some u \<Rightarrow> u_cache_read u))
        (anthropic_response d expect model uuid a))"

definition non_stream_anthropic :: "(server_message \<Rightarrow> event option) \<Rightarrow> (string \<Rightarrow> string option) \<Rightarrow> sim_cache_decision \<Rightarrow>
    bool \<Rightarrow> string \<Rightarrow> string \<Rightarrow> chat_event list \<Rightarrow> answer_or_error" where
  "non_stream_anthropic tr float_text d expect model uuid ces =
     finish_answer d expect model uuid (collect_answer tr float_text expect ces empty_answer)"

end
