(* ===== verification/AnthropicDelivery.thy ===== *)
theory AnthropicDelivery
  imports AnthropicLoop
begin

text \<open>
  What a Messages client receives: the handler of AnthropicLoop as a run of the writer over a list
  of events, the tool calls a client reads from the frames, and the theorems that every request is
  answered by a complete stream and that the stream and the single answer say the same.
\<close>

subsection \<open>Tool calls in the frames\<close>

fun tool_frame :: "sse_frame \<Rightarrow> bool" where
  "tool_frame (Block_Start _ (Tool_Use _ _)) = True"
| "tool_frame (Block_Delta _ (Input_Json_Delta _)) = True"
| "tool_frame _ = False"

text \<open>A client collects the argument pieces of each block.\<close>

fun read_call :: "sse_frame \<Rightarrow> (nat \<times> string \<times> string \<times> string) list \<Rightarrow> (nat \<times> string \<times> string \<times> string) list" where
  "read_call (Block_Start i (Tool_Use tid name)) cs = cs @ [(i, tid, name, [])]"
| "read_call (Block_Delta i (Input_Json_Delta s)) cs =
     map (\<lambda>(j, tid, name, a). (j, tid, name, if j = i then a @ s else a)) cs"
| "read_call f cs = cs"

definition client_calls :: "sse_frame list \<Rightarrow> (string \<times> string \<times> string) list" where
  "client_calls fs = map snd (fold read_call fs [])"

lemma read_no_tool: "\<not> tool_frame f \<Longrightarrow> read_call f cs = cs"
  by (induction f cs rule: read_call.induct) simp_all

lemma read_no_tools: "list_all (\<lambda>f. \<not> tool_frame f) fs \<Longrightarrow> fold read_call fs cs = cs"
  by (induction fs) (simp_all add: read_no_tool)

text \<open>A quiet step announces no tool call, and its blocks have higher indexes.\<close>

definition quiet :: "anthropic_writer \<Rightarrow> emit \<Rightarrow> bool" where
  "quiet w r \<longleftrightarrow> list_all (\<lambda>f. \<not> tool_frame f) (fst r) \<and> aw_block_index w \<le> aw_block_index (snd r) \<and>
     set (tool_list (snd r)) \<subseteq> set (tool_list w) \<and> aw_server_blocks (snd r) = aw_server_blocks w"

lemma quiet_refl [simp]: "quiet w ([], w)"
  by (simp add: quiet_def)

lemma quiet_parts:
  "quiet w (start_frame w)" "quiet w (close_current_block w)" "quiet w (close_and_advance w)"
  "quiet w (leave_other_block ty w)"
  by (auto simp: quiet_def start_frame_def close_current_block_def close_and_advance_def leave_other_block_def
      tool_list_def list_all_iff Let_def)

lemma quiet_enter: "b = Text_Block \<or> b = Thinking_Block \<Longrightarrow> quiet w (enter_block ty b w)"
  by (auto simp: quiet_def enter_block_def tool_list_def)

lemma quiet_step:
  "f = (fs, w') \<Longrightarrow> quiet w f \<Longrightarrow> list_all (\<lambda>f. \<not> tool_frame f) fs \<and> aw_block_index w \<le> aw_block_index w' \<and>
     set (tool_list w') \<subseteq> set (tool_list w) \<and> aw_server_blocks w' = aw_server_blocks w"
  by (simp add: quiet_def)

lemma quiet_text: "quiet w (encode_text_delta ev w)"
proof -
  let ?w = "w\<lparr>aw_text := aw_text w @ ev_text ev\<rparr>"
  obtain f1 w1 where 1: "start_frame ?w = (f1, w1)" by (cases "start_frame ?w")
  obtain f2 w2 where 2: "leave_other_block ''text'' w1 = (f2, w2)" by (cases "leave_other_block ''text'' w1")
  obtain f3 w3 where 3: "enter_block ''text'' Text_Block w2 = (f3, w3)"
    by (cases "enter_block ''text'' Text_Block w2")
  have "tool_list ?w = tool_list w" by (simp add: tool_list_def)
  with quiet_step [OF 1 quiet_parts(1)] quiet_step [OF 2 quiet_parts(4)] quiet_step [OF 3 quiet_enter] show ?thesis
    by (auto simp: quiet_def encode_text_delta_def 1 2 3)
qed

lemma quiet_thinking: "quiet w (encode_thinking_delta ev w)"
proof -
  obtain f1 w1 where 1: "start_frame w = (f1, w1)" by (cases "start_frame w")
  obtain f2 w2 where 2: "leave_other_block ''thinking'' w1 = (f2, w2)"
    by (cases "leave_other_block ''thinking'' w1")
  obtain f3 w3 where 3: "enter_block ''thinking'' Thinking_Block w2 = (f3, w3)"
    by (cases "enter_block ''thinking'' Thinking_Block w2")
  from quiet_step [OF 1 quiet_parts(1)] quiet_step [OF 2 quiet_parts(4)] quiet_step [OF 3 quiet_enter] show ?thesis
    by (auto simp: quiet_def encode_thinking_delta_def 1 2 3)
qed

lemma quiet_signature: "quiet w (encode_signature_delta ev w)"
proof -
  obtain f1 w1 where 1: "start_frame w = (f1, w1)" by (cases "start_frame w")
  obtain f3 w3 where 3: "enter_block ''thinking'' Thinking_Block w1 = (f3, w3)"
    by (cases "enter_block ''thinking'' Thinking_Block w1")
  from quiet_step [OF 1 quiet_parts(1)] quiet_step [OF 3 quiet_enter] show ?thesis
    by (auto simp: quiet_def encode_signature_delta_def 1 3)
qed

lemma resolve_same: "resolve_client_tool_id rnd tid w = (t, w') \<Longrightarrow>
    aw_block_index w' = aw_block_index w \<and> tool_list w' = tool_list w \<and> aw_server_blocks w' = aw_server_blocks w"
  by (auto simp: resolve_client_tool_id_def Let_def tool_list_def split: if_splits)

lemma quiet_delta: "ev_tool_args_delta ev = [] \<Longrightarrow> quiet w (encode_tool_call_delta rnd ev w)"
  by (simp add: encode_tool_call_delta_def)

lemma quiet_completed: "quiet w (encode_tool_call_completed rnd ev w)"
proof (cases "aw_tool_blocks w = None")
  case True
  then show ?thesis by (simp add: encode_tool_call_completed_def)
next
  case False
  obtain t w1 where 1: "resolve_client_tool_id rnd (ev_tool_call_id ev) w = (t, w1)"
    by (cases "resolve_client_tool_id rnd (ev_tool_call_id ev) w")
  have tl: "tool_list (w1\<lparr>aw_tool_blocks := Some bs\<rparr>) = bs" for bs by (simp add: tool_list_def)
  show ?thesis
    using resolve_same [OF 1] False
    by (cases "map_of (tool_list w1) t") (auto simp: quiet_def encode_tool_call_completed_def 1 tl AList.delete_eq)
qed

text \<open>The start of a call is quiet up to its own block, which holds the arguments it came with.\<close>

lemma started_block:
  assumes e: "encode_tool_call_started rnd ev w = (fs, w')"
    and t: "t = canonical_anthropic_tool_id (ev_tool_call_id ev) False" "t \<noteq> []" "t \<notin> fst ` set (tool_list w)"
  shows "\<exists>pre i. fs = pre @ Block_Start i (Tool_Use t (ev_tool_name ev)) # args_delta i ev \<and>
    list_all (\<lambda>f. \<not> tool_frame f) pre \<and> aw_block_index w \<le> i \<and> aw_block_index w' = Suc i \<and>
    set (tool_list w') \<subseteq> insert (t, i) (set (tool_list w)) \<and> aw_server_blocks w' = aw_server_blocks w"
proof -
  obtain f1 w1 where 1: "start_frame w = (f1, w1)" by (cases "start_frame w")
  obtain f2 w2 where 2: "close_and_advance w1 = (f2, w2)" by (cases "close_and_advance w1")
  let ?w = "w2\<lparr>aw_tool_blocks := Some (tool_list w2)\<rparr>" and ?i = "aw_block_index w2"
  obtain w3 where 3: "resolve_client_tool_id rnd (ev_tool_call_id ev) ?w = (t, w3)" and w3: "w3 = ?w"
    using t by (simp add: resolve_client_tool_id_def)
  note s = quiet_step [OF 1 quiet_parts(1)] quiet_step [OF 2 quiet_parts(3)]
  have "set (tool_list w2) \<subseteq> set (tool_list w)" using s by blast
  with t(3) have new: "t \<notin> fst ` set (tool_list w2)" by blast
  have tl: "tool_list w3 = tool_list w2" "aw_block_index w3 = ?i" by (simp_all add: w3 tool_list_def)
  have "encode_tool_call_started rnd ev w =
    (if map_of (tool_list w3) t \<noteq> None then ([], w3)
     else (f1 @ f2 @ [Block_Start (aw_block_index w3) (Tool_Use t (ev_tool_name ev))] @
             args_delta (aw_block_index w3) ev,
           w3\<lparr>aw_tool_blocks := Some (AList.update t (aw_block_index w3) (tool_list w3)),
             aw_block_index := aw_block_index w3 + 1, aw_saw_tool_call := True\<rparr>))"
    by (simp add: encode_tool_call_started_def Let_def 1 2 3)
  moreover have "map_of (tool_list w2) t = None" using new by (simp add: map_of_eq_None_iff)
  ultimately have fs: "fs = f1 @ f2 @ [Block_Start ?i (Tool_Use t (ev_tool_name ev))] @ args_delta ?i ev"
    and w': "w' = w3\<lparr>aw_tool_blocks := Some (AList.update t ?i (tool_list w2)), aw_block_index := ?i + 1,
      aw_saw_tool_call := True\<rparr>"
    using e unfolding tl by simp_all
  have "tool_list w' = tool_list w2 @ [(t, ?i)]"
    using update_new_key [OF new, of ?i] by (simp add: w' tool_list_def)
  moreover have "aw_block_index w' = Suc ?i" "aw_server_blocks w' = aw_server_blocks w2" by (simp_all add: w' w3)
  ultimately show ?thesis
    using s fs by (intro exI [of _ "f1 @ f2"] exI [of _ ?i]) auto
qed

subsection \<open>A run of the writer\<close>

text \<open>The events the handler writes before the end of the turn.\<close>

definition client_event :: "event \<Rightarrow> bool" where
  "client_event ev \<longleftrightarrow> ev_kind ev \<in> {EventTextDelta, EventThinkingDelta, EventSignatureDelta, EventToolCallStarted,
       EventToolCallDelta, EventToolCallCompleted} \<and>
     args_with_start ev \<and> (ev_kind ev = EventToolCallStarted \<longrightarrow> ev_tool_call_id ev \<noteq> [])"

definition client_id :: "string \<Rightarrow> string" where
  "client_id tid = canonical_anthropic_tool_id tid False"

definition as_client :: "string \<times> string \<times> string \<Rightarrow> string \<times> string \<times> string" where
  "as_client = (\<lambda>(tid, name, a). (client_id tid, name, a))"

lemma client_id_Nil [simp]: "client_id tid = [] \<longleftrightarrow> tid = []"
  by (simp add: client_id_def canonical_anthropic_tool_id_def Let_def)

lemma quiet_event:
  assumes "client_event ev" "ev_kind ev \<noteq> EventToolCallStarted"
  shows "quiet w (encode rnd ord ev w)"
  using assms quiet_text quiet_thinking quiet_signature quiet_completed quiet_delta
  by (auto simp: client_event_def encode_def args_with_start_def)

lemma read_started:
  assumes "\<forall>c \<in> set cs. fst c < (i :: nat)"
  shows "fold read_call (Block_Start i (Tool_Use t n) # args_delta i ev) cs = cs @ [(i, t, n, ev_tool_args_delta ev)]"
proof -
  have "map (\<lambda>(j, tid, name, a). (j, tid, name, if j = i then a @ ev_tool_args_delta ev else a)) cs = cs"
    using assms by (induction cs) auto
  then show ?thesis by (simp add: args_delta_def)
qed

lemma started_event:
  assumes "encode rnd ord ev w = (fs, w')" "client_event ev" "ev_kind ev = EventToolCallStarted"
    and new: "client_id (ev_tool_call_id ev) \<notin> fst ` set (tool_list w)" and low: "\<forall>c \<in> set cs. fst c < aw_block_index w"
  shows "emits w fs w' \<and> (\<exists>i. fold read_call fs cs = cs @ [(i, client_id (ev_tool_call_id ev), ev_tool_name ev, ev_tool_args_delta ev)] \<and>
      aw_block_index w \<le> i \<and> aw_block_index w' = Suc i \<and>
      set (tool_list w') \<subseteq> insert (client_id (ev_tool_call_id ev), i) (set (tool_list w)) \<and>
      aw_server_blocks w' = aw_server_blocks w)"
proof
  let ?t = "client_id (ev_tool_call_id ev)"
  have e: "encode_tool_call_started rnd ev w = (fs, w')" using assms(1,3) by (simp add: encode_def)
  have t: "?t \<noteq> []" using assms(2,3) by (simp add: client_event_def)
  have "fst (resolve_client_tool_id rnd (ev_tool_call_id ev) w) = ?t"
    using t by (simp add: resolve_client_tool_id_def client_id_def)
  with new show "emits w fs w'" by (intro encode_tool_started_step [OF e]) (simp add: map_of_eq_None_iff)
  from started_block [OF e client_id_def t new] obtain pre i where
    b: "fs = pre @ Block_Start i (Tool_Use ?t (ev_tool_name ev)) # args_delta i ev"
    "list_all (\<lambda>f. \<not> tool_frame f) pre" "aw_block_index w \<le> i" "aw_block_index w' = Suc i"
    "set (tool_list w') \<subseteq> insert (?t, i) (set (tool_list w))" "aw_server_blocks w' = aw_server_blocks w" by blast
  have "\<forall>c \<in> set cs. fst c < i" using low b(3) by auto
  from read_started [OF this] have "fold read_call fs cs = cs @ [(i, ?t, ev_tool_name ev, ev_tool_args_delta ev)]"
    unfolding b(1) fold_append comp_apply read_no_tools [OF b(2)] by blast
  with b show "\<exists>i. fold read_call fs cs = cs @ [(i, ?t, ev_tool_name ev, ev_tool_args_delta ev)] \<and>
      aw_block_index w \<le> i \<and> aw_block_index w' = Suc i \<and>
      set (tool_list w') \<subseteq> insert (?t, i) (set (tool_list w)) \<and> aw_server_blocks w' = aw_server_blocks w" by blast
qed

lemma still_disjoint: "A' \<subseteq> insert t A \<Longrightarrow> t \<notin> S \<Longrightarrow> S \<subseteq> S' \<Longrightarrow> A \<inter> S' = {} \<Longrightarrow> A' \<inter> S = {}"
  by blast

lemma run_calls:
  assumes "list_all client_event evs" "distinct (map (client_id \<circ> fst) (started_calls evs))"
    and "fst ` set (tool_list w) \<inter> set (map (client_id \<circ> fst) (started_calls evs)) = {}"
    and "\<forall>c \<in> set cs. fst c < aw_block_index w" and "run_writer (encode rnd ord) evs w = (fs, w')"
  shows "map snd (fold read_call fs cs) = map snd cs @ map as_client (started_calls evs) \<and> emits w fs w' \<and>
    aw_server_blocks w' = aw_server_blocks w"
  using assms
proof (induction evs arbitrary: w cs fs w')
  case (Cons ev evs)
  obtain f1 w1 where 1: "encode rnd ord ev w = (f1, w1)" by (cases "encode rnd ord ev w")
  obtain f2 w2 where 2: "run_writer (encode rnd ord) evs w1 = (f2, w2)" by (cases "run_writer (encode rnd ord) evs w1")
  have r: "fs = f1 @ f2" "w' = w2" using Cons.prems(5) 1 2 by auto
  have c: "client_event ev" "list_all client_event evs" using Cons.prems(1) by simp_all
  show ?case
  proof (cases "ev_kind ev = EventToolCallStarted")
    case True
    let ?t = "client_id (ev_tool_call_id ev)"
    have new: "?t \<notin> fst ` set (tool_list w)" using Cons.prems(3) True by auto
    obtain i where i: "fold read_call f1 cs = cs @ [(i, ?t, ev_tool_name ev, ev_tool_args_delta ev)]"
      "aw_block_index w \<le> i" "aw_block_index w1 = Suc i" "set (tool_list w1) \<subseteq> insert (?t, i) (set (tool_list w))"
      "aw_server_blocks w1 = aw_server_blocks w" and e: "emits w f1 w1"
      using started_event [OF 1 c(1) True new Cons.prems(4)] by blast
    have "fst ` set (tool_list w1) \<subseteq> insert ?t (fst ` set (tool_list w))" using i(4) by auto
    moreover have "?t \<notin> set (map (client_id \<circ> fst) (started_calls evs))" using Cons.prems(2) True by simp
    moreover have "set (map (client_id \<circ> fst) (started_calls evs)) \<subseteq> set (map (client_id \<circ> fst) (started_calls (ev # evs)))"
      by (simp only: started_calls_simps map_append set_append Un_upper2)
    moreover note Cons.prems(3)
    ultimately have "fst ` set (tool_list w1) \<inter> set (map (client_id \<circ> fst) (started_calls evs)) = {}"
      by (rule still_disjoint)
    moreover have "\<forall>c \<in> set (fold read_call f1 cs). fst c < aw_block_index w1"
      unfolding i(1,3) using Cons.prems(4) i(2) by auto
    moreover have "distinct (map (client_id \<circ> fst) (started_calls evs))" using Cons.prems(2) True by (simp add: comp_def)
    ultimately have "map snd (fold read_call f2 (fold read_call f1 cs)) =
        map snd (fold read_call f1 cs) @ map as_client (started_calls evs) \<and> emits w1 f2 w2 \<and>
        aw_server_blocks w2 = aw_server_blocks w1"
      using Cons.IH [OF c(2) _ _ _ 2] by blast
    then show ?thesis using i e emits_append True by (auto simp: r as_client_def)
  next
    case False
    from quiet_event [OF c(1) False, of w rnd ord] 1 have q: "list_all (\<lambda>f. \<not> tool_frame f) f1"
      "aw_block_index w \<le> aw_block_index w1" "set (tool_list w1) \<subseteq> set (tool_list w)"
      "aw_server_blocks w1 = aw_server_blocks w" by (simp_all add: quiet_def)
    have "event_ok rnd w ev" "ev_kind ev \<noteq> EventTurnEnded" using c(1) False by (auto simp: event_ok_def client_event_def)
    from encode_step [OF 1 this] have e: "emits w f1 w1" .
    have "map snd (fold read_call f2 cs) = map snd cs @ map as_client (started_calls evs) \<and> emits w1 f2 w2 \<and>
        aw_server_blocks w2 = aw_server_blocks w1"
    proof (rule Cons.IH [OF c(2) _ _ _ 2])
      show "fst ` set (tool_list w1) \<inter> set (map (client_id \<circ> fst) (started_calls evs)) = {}"
        using Cons.prems(3) q(3) by auto
      show "\<forall>c \<in> set cs. fst c < aw_block_index w1" using Cons.prems(4) q(2) by auto
    qed (use Cons.prems(2) False in simp)
    then show ?thesis using e emits_append q False by (auto simp: r read_no_tools)
  qed
qed (simp add: emits_Nil)

subsection \<open>The handler as a run\<close>

text \<open>The events one upstream event hands to the writer, and the tracker's new text.\<close>

definition anthropic_says :: "(server_message \<Rightarrow> event option) \<Rightarrow> bool \<Rightarrow> chat_event \<Rightarrow> string \<Rightarrow> event list \<times> string" where
  "anthropic_says tr expect ce t =
     (case ce of
        Server_Event (Some m) \<Rightarrow>
          (case from_kv_blob m of
             Some b \<Rightarrow>
               if be_assistant_text b = [] then ([], t)
               else (case accept_snapshot t (be_assistant_text b) of (delta, t) \<Rightarrow>
                 (if delta \<noteq> [] \<and> \<not> expect then [text_delta delta] else [], t))
           | None \<Rightarrow>
               (case tr m of
                  None \<Rightarrow> ([], t)
                | Some ev \<Rightarrow>
                    if ev_kind ev = EventTextDelta then (if expect then [] else [ev], t @ ev_text ev)
                    else if ev_kind ev \<in> {EventToolCallStarted, EventToolCallDelta, EventToolCallCompleted} then ([ev], t)
                    else ([], t)))
      | _ \<Rightarrow> ([], t))"

fun anthropic_says_all :: "(server_message \<Rightarrow> event option) \<Rightarrow> bool \<Rightarrow> chat_event list \<Rightarrow> string \<Rightarrow> event list \<times> string" where
  "anthropic_says_all tr expect [] t = ([], t)"
| "anthropic_says_all tr expect (ce # ces) t =
     (let (evs, t) = anthropic_says tr expect ce t; (evs', t) = anthropic_says_all tr expect ces t in (evs @ evs', t))"

lemma write_anthropic_simps [simp]:
  "al_writer (write_anthropic enc ev st) = snd (enc ev (al_writer st))"
  "al_frames (write_anthropic enc ev st) = al_frames st @ fst (enc ev (al_writer st))"
  "al_text (write_anthropic enc ev st) = al_text st" "al_thought (write_anthropic enc ev st) = al_thought st"
  "al_signature (write_anthropic enc ev st) = al_signature st"
  "al_last_usage (write_anthropic enc ev st) = al_last_usage st"
  "al_saw_output (write_anthropic enc ev st) = al_saw_output st"
  "al_trailer_err (write_anthropic enc ev st) = al_trailer_err st"
  by (simp_all add: write_anthropic_def split: prod.splits)

lemma keep_thinking_simps [simp]:
  "al_writer (keep_thinking expect b st) = al_writer st" "al_frames (keep_thinking expect b st) = al_frames st"
  "al_text (keep_thinking expect b st) = al_text st" "al_trailer_err (keep_thinking expect b st) = al_trailer_err st"
  by (simp_all add: keep_thinking_def)

definition trailer_error :: "chat_event list \<Rightarrow> trailer_status option \<Rightarrow> trailer_status option" where
  "trailer_error = fold (\<lambda>ce err. case ce of Trailer_Event status \<Rightarrow> note_trailer status err | _ \<Rightarrow> err)"

text \<open>What a state and the events written so far have in common.\<close>

definition wrote :: "anthropic_encode \<Rightarrow> anthropic_loop \<Rightarrow> event list \<Rightarrow> string \<Rightarrow> anthropic_loop \<Rightarrow> bool" where
  "wrote enc st evs t st' \<longleftrightarrow> al_text st' = t \<and>
     al_frames st' = al_frames st @ fst (run_writer enc evs (al_writer st)) \<and>
     al_writer st' = snd (run_writer enc evs (al_writer st))"

lemma anthropic_event_wrote:
  assumes "(if ev_kind ev = EventTextDelta then (if expect then [] else [ev], al_text st @ ev_text ev)
       else if ev_kind ev \<in> {EventToolCallStarted, EventToolCallDelta, EventToolCallCompleted} then ([ev], al_text st)
       else ([], al_text st)) = (evs, t)"
  shows "wrote enc st evs t (anthropic_event enc expect ev st) \<and>
    al_trailer_err (anthropic_event enc expect ev st) = al_trailer_err st"
proof -
  have ad: "accept_delta t x = (x, t @ x)" for t x by (simp add: accept_delta_def)
  show ?thesis
    using assms by (auto simp: wrote_def anthropic_event_def ad Let_def split: if_splits prod.splits)
qed

lemma anthropic_step_wrote:
  assumes "anthropic_says tr expect ce (al_text st) = (evs, t)"
  shows "wrote enc st evs t (anthropic_step tr enc expect ce st) \<and>
    al_trailer_err (anthropic_step tr enc expect ce st) = trailer_error [ce] (al_trailer_err st)"
proof (cases "\<exists>m. ce = Server_Event (Some m)")
  case False
  with assms show ?thesis
    by (auto simp: anthropic_says_def anthropic_step_def wrote_def trailer_error_def
        split: chat_event.splits option.splits)
next
  case True
  then obtain m where m: "ce = Server_Event (Some m)" by blast
  show ?thesis
  proof (cases "from_kv_blob m")
    case None
    show ?thesis
    proof (cases "tr m")
      case None
      with assms m \<open>from_kv_blob m = None\<close> show ?thesis
        by (simp add: anthropic_says_def anthropic_step_def wrote_def trailer_error_def)
    next
      case (Some ev)
      with assms m None anthropic_event_wrote [of ev expect st evs t enc] show ?thesis
        by (simp add: anthropic_says_def anthropic_step_def trailer_error_def)
    qed
  next
    case (Some b)
    obtain dl u where a: "accept_snapshot (al_text st) (be_assistant_text b) = (dl, u)"
      by (cases "accept_snapshot (al_text st) (be_assistant_text b)")
    with assms m Some show ?thesis
      by (auto simp: anthropic_says_def anthropic_step_def anthropic_blob_def wrote_def trailer_error_def Let_def
          split: if_splits prod.splits)
  qed
qed

lemma anthropic_loop_wrote:
  assumes "anthropic_says_all tr expect ces (al_text st) = (evs, t)"
  shows "wrote enc st evs t (fold (anthropic_step tr enc expect) ces st) \<and>
    al_trailer_err (fold (anthropic_step tr enc expect) ces st) = trailer_error ces (al_trailer_err st)"
  using assms
proof (induction ces arbitrary: st evs t)
  case (Cons ce ces)
  obtain e1 t1 where 1: "anthropic_says tr expect ce (al_text st) = (e1, t1)"
    by (cases "anthropic_says tr expect ce (al_text st)")
  obtain e2 t2 where 2: "anthropic_says_all tr expect ces t1 = (e2, t2)" by (cases "anthropic_says_all tr expect ces t1")
  have s: "wrote enc st e1 t1 (anthropic_step tr enc expect ce st)"
    "al_trailer_err (anthropic_step tr enc expect ce st) = trailer_error [ce] (al_trailer_err st)"
    using anthropic_step_wrote [OF 1] by blast+
  then have "anthropic_says_all tr expect ces (al_text (anthropic_step tr enc expect ce st)) = (e2, t2)"
    using 2 by (simp add: wrote_def)
  from Cons.IH [OF this] Cons.prems s 1 2 show ?case
    by (auto simp: wrote_def trailer_error_def run_writer_append split: prod.splits)
qed (simp add: wrote_def trailer_error_def)

text \<open>The events of the flush.\<close>

definition flush_events :: "anthropic_loop \<Rightarrow> event list" where
  "flush_events st =
     (if al_thought st \<noteq> [] then [text_like EventThinkingDelta (al_thought st)] else []) @
     (if al_signature st \<noteq> [] then [text_like EventSignatureDelta (al_signature st)] else []) @
     (if al_text st \<noteq> [] then [text_delta (al_text st)] else [])"

lemma flush_wrote: "wrote enc st (flush_events st) (al_text st) (flush_thinking enc st) \<and>
    al_trailer_err (flush_thinking enc st) = al_trailer_err st \<and> al_last_usage (flush_thinking enc st) = al_last_usage st"
  by (simp add: wrote_def flush_events_def flush_thinking_def Let_def run_writer_append split: prod.splits)

subsection \<open>Text and calls of the run\<close>

lemma blob_no_event: "from_kv_blob m = Some b \<Longrightarrow> translate_event pb_value dialect names m = None"
  by (cases m) (simp_all add: from_kv_blob_def translate_event_def from_server_message_def)

lemma anthropic_says_one:
  assumes "anthropic_says tr expect ce t = (evs, t')" and kv: "\<And>m b. from_kv_blob m = Some b \<Longrightarrow> tr m = None"
  shows "snd (accept_inputs (chat_input tr ce) t) = t' \<and>
    events_text evs = (if expect then [] else fst (accept_inputs (chat_input tr ce) t)) \<and>
    started_calls evs = chat_call tr ce"
proof (cases "\<exists>m. ce = Server_Event (Some m)")
  case False
  with assms(1) show ?thesis
    by (auto simp: anthropic_says_def chat_input_def chat_call_def split: chat_event.splits option.splits)
next
  case True
  then obtain m where m: "ce = Server_Event (Some m)" by blast
  show ?thesis
  proof (cases "from_kv_blob m")
    case None
    with assms(1) m show ?thesis
      by (auto simp: anthropic_says_def chat_input_def chat_call_def snapshot_of_def step_text_def accept_delta_def
          split: option.splits if_splits)
  next
    case (Some b)
    obtain dl u where a: "accept_snapshot t (be_assistant_text b) = (dl, u)"
      by (cases "accept_snapshot t (be_assistant_text b)")
    with assms(1) m Some kv [OF Some] show ?thesis
      by (auto simp: anthropic_says_def chat_input_def chat_call_def snapshot_of_def step_text_def
          split: if_splits)
  qed
qed

lemma anthropic_says_all:
  assumes "anthropic_says_all tr expect ces t = (evs, t')" and kv: "\<And>m b. from_kv_blob m = Some b \<Longrightarrow> tr m = None"
  shows "snd (accept_inputs (chat_inputs tr ces) t) = t' \<and>
    events_text evs = (if expect then [] else fst (accept_inputs (chat_inputs tr ces) t)) \<and>
    started_calls evs = chat_calls tr ces"
  using assms(1)
proof (induction ces arbitrary: t evs t')
  case (Cons ce ces)
  obtain e1 t1 where 1: "anthropic_says tr expect ce t = (e1, t1)" by (cases "anthropic_says tr expect ce t")
  obtain e2 t2 where 2: "anthropic_says_all tr expect ces t1 = (e2, t2)" by (cases "anthropic_says_all tr expect ces t1")
  from anthropic_says_one [OF 1 kv] Cons.IH [OF 2] Cons.prems 1 2 show ?case
    by (auto simp: chat_inputs_def chat_calls_def accept_inputs_append split: prod.splits)
qed (simp add: chat_inputs_def chat_calls_def)

lemma text_event_client [simp]: "args_with_start (text_delta s)" "client_event (text_delta s)"
  by (simp_all add: client_event_def args_with_start_def)

lemma text_like_client: "k = EventThinkingDelta \<or> k = EventSignatureDelta \<Longrightarrow> client_event (text_like k s)"
  by (auto simp: client_event_def args_with_start_def text_like_def event_of_def)

lemma anthropic_says_client:
  assumes "anthropic_says_all (translate_event pb_value dialect names) expect ces t = (evs, t')"
    and "\<forall>c \<in> set (started_calls evs). fst c \<noteq> []"
  shows "list_all client_event evs"
  using assms
proof (induction ces arbitrary: t evs t')
  case (Cons ce ces)
  let ?tr = "translate_event pb_value dialect names"
  obtain e1 t1 where 1: "anthropic_says ?tr expect ce t = (e1, t1)" by (cases "anthropic_says ?tr expect ce t")
  obtain e2 t2 where 2: "anthropic_says_all ?tr expect ces t1 = (e2, t2)" by (cases "anthropic_says_all ?tr expect ces t1")
  have e: "evs = e1 @ e2" using Cons.prems 1 2 by simp
  have "\<forall>c \<in> set (started_calls e1). fst c \<noteq> []" using Cons.prems(2) e by simp
  then have "list_all client_event e1"
    using 1 translated_shape [of pb_value dialect names]
    by (auto simp: anthropic_says_def client_event_def split: chat_event.splits option.splits prod.splits if_splits)
  with Cons.IH [OF 2] Cons.prems(2) e show ?case by simp
qed simp

lemma flush_client: "list_all client_event (flush_events st)"
  by (simp add: flush_events_def text_like_client)

lemma flush_said: "events_text (flush_events st) = al_text st" "started_calls (flush_events st) = []"
  by (simp_all add: flush_events_def step_text_def text_like_def event_of_def)

subsection \<open>The end of the turn\<close>

lemma turn_end_quiet:
  assumes "encode rnd ord (turn_end u) w = (fs, w')" "aw_server_blocks w = []" "\<And>xs. mset (ord xs) = mset xs"
  shows "list_all (\<lambda>f. \<not> tool_frame f) fs \<and> text_of fs = []"
proof -
  have e: "encode_turn_ended ord (turn_end u) w = (fs, w')" using assms(1) by (simp add: encode_def)
  obtain f1 w1 where 1: "close_current_block w = (f1, w1)" by (cases "close_current_block w")
  have "aw_server_blocks w1 = []" "list_all (\<lambda>f. \<not> tool_frame f) f1"
    using quiet_step [OF 1 quiet_parts(2)] assms(2) by simp_all
  moreover have "ord [] = ([] :: (string \<times> nat) list)" using assms(3) [of "[]"] by simp
  ultimately have "list_all (\<lambda>f. \<not> tool_frame f) fs"
    using e assms(2) 1
    by (auto simp: encode_turn_ended_def Let_def close_orphan_server_tools_def list_all_iff split: if_splits)
  with turn_ended_summary [OF e] show ?thesis by blast
qed

lemma accepted_started: "accept_frame f p = Some q \<Longrightarrow> pr_phase q \<noteq> Not_Started"
  by (induction f p rule: accept_frame.induct) (auto split: if_splits option.splits)

lemma accepted_frames_started:
  "accept_frames fs p = Some q \<Longrightarrow> fs \<noteq> [] \<or> pr_phase p \<noteq> Not_Started \<Longrightarrow> pr_phase q \<noteq> Not_Started"
proof (induction fs arbitrary: p)
  case (Cons f fs)
  then show ?case using accepted_started by (auto split: option.splits)
qed simp

subsection \<open>The stream\<close>

definition calls_distinct :: "(string \<times> string \<times> string) list \<Rightarrow> bool" where
  "calls_distinct cs \<longleftrightarrow> distinct (map (client_id \<circ> fst) cs) \<and> (\<forall>c \<in> set cs. fst c \<noteq> [])"

definition merged :: "bool \<Rightarrow> (server_message \<Rightarrow> event option) \<Rightarrow> chat_event list \<Rightarrow> string" where
  "merged expect tr ces = (if expect then snd else fst) (accept_inputs (chat_inputs tr ces) [])"

abbreviation fresh_anthropic :: "string \<Rightarrow> nat list option \<Rightarrow> anthropic_writer" where
  "fresh_anthropic m r \<equiv> (new_anthropic_stream_writer m r)\<lparr>aw_input_tokens := 0\<rparr>"

text \<open>A stream is a run over client events, then an error frame or the end of the turn.\<close>

lemma stream_anthropic_run:
  assumes "stream_anthropic tr (encode rnd ord) d expect w0 ces = Stream fs"
    and tr: "tr = translate_event pb_value dialect names" and ids: "calls_distinct (chat_calls tr ces)"
  obtains evs body w fin where "fs = body @ fin" "run_writer (encode rnd ord) evs w0 = (body, w)"
    "list_all client_event evs" "started_calls evs = chat_calls tr ces" "events_text evs = merged expect tr ces"
    "body = [] \<longrightarrow> trailer_error ces None = None"
    "case trailer_error ces None of Some s \<Rightarrow> fin = encode_error ''api_error'' (ts_message s)
     | None \<Rightarrow> \<exists>u. fin = fst (encode rnd ord (turn_end u) w)"
proof -
  let ?enc = "encode rnd ord"
  define st where "st = fold (anthropic_step tr ?enc expect) ces (new_anthropic_loop w0)"
  define st' where "st' = (if expect then flush_thinking ?enc st else st)"
  let ?flush = "if expect then flush_events st else []"
  obtain evs t where says: "anthropic_says_all tr expect ces [] = (evs, t)" by (cases "anthropic_says_all tr expect ces []")
  have w: "wrote ?enc (new_anthropic_loop w0) evs t st" "al_trailer_err st = trailer_error ces None"
    using anthropic_loop_wrote [of tr expect ces "new_anthropic_loop w0" evs t ?enc] says
    by (simp_all add: new_anthropic_loop_def st_def)
  have kv: "from_kv_blob m = Some b \<Longrightarrow> tr m = None" for m b using blob_no_event unfolding tr .
  have "snd (accept_inputs (chat_inputs tr ces) []) = t \<and>
    events_text evs = (if expect then [] else fst (accept_inputs (chat_inputs tr ces) [])) \<and>
    started_calls evs = chat_calls tr ces" by (rule anthropic_says_all [OF says]) (rule kv)
  then have said: "snd (accept_inputs (chat_inputs tr ces) []) = t"
    "events_text evs = (if expect then [] else fst (accept_inputs (chat_inputs tr ces) []))"
    "started_calls evs = chat_calls tr ces" by blast+
  have "list_all client_event evs"
    using anthropic_says_client [of pb_value dialect names expect ces "[]" evs t] says ids
    unfolding tr [symmetric] said(3) calls_distinct_def by blast
  then have client: "list_all client_event (evs @ ?flush)" using flush_client by simp
  obtain body w' where run: "run_writer ?enc (evs @ ?flush) w0 = (body, w')" by (cases "run_writer ?enc (evs @ ?flush) w0")
  have "wrote ?enc (new_anthropic_loop w0) (evs @ ?flush) t st'"
    using w(1) flush_wrote [of ?enc st]
    by (cases expect) (auto simp: st'_def wrote_def run_writer_append split: prod.splits)
  with run have st': "al_frames st' = body" "al_writer st' = w'" by (simp_all add: wrote_def new_anthropic_loop_def)
  have err: "al_trailer_err st' = trailer_error ces None" using w(2) flush_wrote [of ?enc st] by (simp add: st'_def)
  have words: "events_text (evs @ ?flush) = merged expect tr ces" "started_calls (evs @ ?flush) = chat_calls tr ces"
    using said w(1) by (simp_all add: merged_def flush_said wrote_def)
  define fin where "fin = (case trailer_error ces None of Some s \<Rightarrow> encode_error ''api_error'' (ts_message s)
     | None \<Rightarrow> fst (?enc (turn_end (apply_to_usage d (al_last_usage st') True)) w'))"
  have "fs = body @ fin \<and> (body = [] \<longrightarrow> trailer_error ces None = None)"
    using assms(1) unfolding stream_anthropic_def finish_anthropic_def Let_def st_def [symmetric]
      st'_def [symmetric] write_anthropic_simps st' err fin_def
    by (auto split: if_split_asm option.splits)
  moreover have "case trailer_error ces None of Some s \<Rightarrow> fin = encode_error ''api_error'' (ts_message s)
     | None \<Rightarrow> \<exists>u. fin = fst (?enc (turn_end u) w')" by (auto simp: fin_def split: option.splits)
  ultimately show thesis using that [of body fin "evs @ ?flush" w'] run client words by blast
qed

lemma hello_distinct: "calls_distinct (chat_calls plain_translation hello_chat)"
  by (simp add: hello_calls calls_distinct_def)

lemma hello_no_blob: "from_kv_blob (Msg_Update u) = None" "from_kv_blob (Msg_Mcp_Exec x) = None"
  by (simp_all add: from_kv_blob_def)

lemma hello_stream:
  obtains fs where "stream_anthropic plain_translation (encode None (\<lambda>x. x)) no_cache False (fresh_anthropic ''m'' None) hello_chat = Stream fs"
proof -
  let ?enc = "encode None (\<lambda>x. x)" and ?w0 = "fresh_anthropic ''m'' None"
  let ?st = "fold (anthropic_step plain_translation ?enc False) hello_chat (new_anthropic_loop ?w0)"
  have written: "fst (encode_text_delta ev w) \<noteq> []" for ev w
    by (simp add: encode_text_delta_def Let_def split: prod.splits)
  have "al_frames ?st \<noteq> []"
    by (simp add: written hello_chat_def anthropic_step_def hello_events hello_no_blob anthropic_event_def accept_delta_def
        new_anthropic_loop_def call_event_def event_of_def encode_def note_trailer_def)
  moreover have "al_trailer_err ?st = None"
    by (simp add: hello_chat_def anthropic_step_def hello_events hello_no_blob anthropic_event_def accept_delta_def
        new_anthropic_loop_def call_event_def event_of_def encode_def note_trailer_def)
  ultimately show thesis by (intro that) (simp add: stream_anthropic_def finish_anthropic_def Let_def)
qed

lemma turn_end_alone:
  assumes "encode rnd ord (turn_end u) w = (fs, w')" and "writer_ok w fresh_protocol" and "\<And>xs. mset (ord xs) = mset xs"
  shows "\<exists>reason usage n. fs = [Message_Delta reason None usage n, Message_Stop]"
proof -
  have "ord [] = ([] :: (string \<times> nat) list)" using assms(3) [of "[]"] by simp
  moreover have "blocks w = []" using assms(2) by (auto simp: writer_ok_def tracks_def fresh_protocol_def split: if_splits)
  then have "\<not> aw_block_open w" "tool_list w = []" "aw_server_blocks w = []"
    by (simp_all add: blocks_def split: if_splits)
  ultimately show ?thesis
    using assms(1) by (auto simp: encode_def encode_turn_ended_def close_orphan_server_tools_def Let_def
        turn_end_def event_of_def)
qed



subsection \<open>Stream and single answer\<close>

text \<open>The single answer stops reading at the end of the turn; nothing is said after it.\<close>

definition tool_use :: "(string \<Rightarrow> string option) \<Rightarrow> string \<times> string \<times> string \<Rightarrow> string \<times> string \<times> json" where
  "tool_use float_text = (\<lambda>(tid, name, a). (tid, name, tool_input float_text a))"

definition says_of_answer :: "(string \<Rightarrow> string option) \<Rightarrow> text_input list \<Rightarrow> (string \<times> string \<times> string) list \<Rightarrow>
    anthropic_answer \<Rightarrow> anthropic_answer \<Rightarrow> bool" where
  "says_of_answer float_text xs cs a a' \<longleftrightarrow> an_text a' = snd (accept_inputs xs (an_text a)) \<and>
     an_tool_uses a' = an_tool_uses a @ map (tool_use float_text) cs"

lemma says_of_answer_append:
  "says_of_answer ft xs cs a b \<Longrightarrow> says_of_answer ft ys ds b c \<Longrightarrow> says_of_answer ft (xs @ ys) (cs @ ds) a c"
  by (simp add: says_of_answer_def accept_inputs_append Let_def split: prod.splits)

lemma answer_blob_says:
  "says_of_answer ft (if be_assistant_text b \<noteq> [] then [Snapshot_Input (be_assistant_text b)] else []) [] a
     (answer_blob expect b a)"
  by (simp add: says_of_answer_def answer_blob_def Let_def split: prod.splits)

lemma answer_event_says:
  "answer_event ft ev a = (a', leave) \<Longrightarrow>
     says_of_answer ft (if ev_kind ev = EventTextDelta then [Text_Input (ev_text ev)] else [])
       (if ev_kind ev = EventToolCallStarted then [(ev_tool_call_id ev, ev_tool_name ev, ev_tool_args_delta ev)] else [])
       a a' \<and> (leave \<longrightarrow> ev_kind ev = EventTurnEnded)"
  by (auto simp: says_of_answer_def answer_event_def tool_use_def accept_delta_def split: if_splits)

lemma collect_says:
  assumes "silent_after_turn tr ces" and kv: "\<And>m b. from_kv_blob m = Some b \<Longrightarrow> tr m = None"
  shows "says_of_answer ft (chat_inputs tr ces) (chat_calls tr ces) a (collect_answer tr ft expect ces a)"
  using assms(1)
proof (induction ces arbitrary: a)
  case (Cons ce ces)
  have c: "chat_inputs tr (ce # ces) = chat_input tr ce @ chat_inputs tr ces"
    "chat_calls tr (ce # ces) = chat_call tr ce @ chat_calls tr ces" by (simp_all add: chat_inputs_def chat_calls_def)
  have rest: "silent_after_turn tr ces" using Cons.prems nothing_said by (auto split: if_splits)
  have next_step: ?case if "collect_answer tr ft expect (ce # ces) a = collect_answer tr ft expect ces a'"
    "says_of_answer ft (chat_input tr ce) (chat_call tr ce) a a'" for a'
    unfolding that(1) c by (rule says_of_answer_append [OF that(2) Cons.IH [OF rest]])
  have same: "says_of_answer ft [] [] a a" by (simp add: says_of_answer_def)
  show ?case
  proof (cases "\<exists>m. ce = Server_Event (Some m)")
    case False
    then show ?thesis
      by (intro next_step [of "case ce of Trailer_Event status \<Rightarrow> a\<lparr>an_trailer_err := note_trailer status (an_trailer_err a)\<rparr> | _ \<Rightarrow> a"])
        (auto simp: says_of_answer_def chat_input_def chat_call_def split: chat_event.splits option.splits)
  next
    case True
    then obtain m where m: "ce = Server_Event (Some m)" by blast
    show ?thesis
    proof (cases "from_kv_blob m")
      case (Some b)
      with kv [OF Some] show ?thesis
        using answer_blob_says [of ft b a expect]
        by (intro next_step [of "answer_blob expect b a"]) (auto simp: m chat_input_def chat_call_def snapshot_of_def)
    next
      case None
      show ?thesis
      proof (cases "tr m")
        case None
        with \<open>from_kv_blob m = None\<close> show ?thesis
          using same by (intro next_step [of a]) (simp_all add: m chat_input_def chat_call_def snapshot_of_def)
      next
        case (Some ev)
        obtain a' leave where e: "answer_event ft ev a = (a', leave)" by (cases "answer_event ft ev a")
        note s = answer_event_says [OF e]
        have now: "says_of_answer ft (chat_input tr ce) (chat_call tr ce) a a'"
          using s None Some by (simp add: m chat_input_def chat_call_def snapshot_of_def)
        show ?thesis
        proof (cases leave)
          case False
          then show ?thesis using now e None Some by (intro next_step [of a']) (simp_all add: m)
        next
          case True
          then have "turn_over tr ce" using s None Some by (simp add: m turn_over_def snapshot_of_def ends_turn_def)
          then have "chat_inputs tr ces = []" "chat_calls tr ces = []"
            using Cons.prems nothing_said by simp_all
          with now True e None Some show ?thesis unfolding c by (simp add: m)
        qed
      qed
    qed
  qed
qed (simp add: says_of_answer_def chat_inputs_def chat_calls_def)

lemma growing_end: "growing xs t \<Longrightarrow> accept_inputs xs t = (d, t') \<Longrightarrow> t' = t @ d"
proof (induction xs t arbitrary: d t' rule: growing.induct)
  case (2 u xs t)
  then show ?case by (auto simp: accept_delta_def Let_def split: prod.splits if_splits)
next
  case (3 f xs t)
  then obtain e where f: "f = t @ e" by (auto simp: has_prefix_iff)
  have "accept_snapshot t f = (e, f)"
    by (auto simp: accept_snapshot_def f has_prefix_iff has_suffix_iff dest: arg_cong [where f = length])
  with 3 f show ?case by (auto simp: Let_def split: prod.splits)
qed simp



text \<open>
  The two answers do not always give the same reason to stop: the single answer never tests for a
  refusal.
\<close>

lemma single_answer_never_refuses:
  "is_refusal_text (an_text a) \<Longrightarrow> an_tool_uses a = [] \<Longrightarrow>
     anthropic_stop_reason (an_text a) False = ''refusal'' \<and> answer_stop_reason a = ''end_turn''"
  by (simp add: answer_stop_reason_def anthropic_stop_reason_def)

end
