(* ===== verification/Responses.thy ===== *)
theory Responses
  imports OpenAI
begin

text \<open>
  Model of \<^verbatim>\<open>translator/openai_responses.go\<close>: the stream writer of the Responses API and the
  accumulator of its non-streaming answer. A frame is its sequence number and a value of
  \<open>rframe\<close>, one constructor per object the code builds; \<open>rframe_event\<close> and \<open>rframe_json\<close> give
  the event name and the object.

  The code draws a unique id exactly when it takes an output index, so the ids are a function
  \<open>uuid\<close> of that index, an argument of the operations. The order in which the map of tool calls is
  iterated at the end of a turn is the argument \<open>ord\<close>.
\<close>

subsection \<open>Items and frames\<close>

datatype item =
    Message_Started string
  | Message_Done string string
  | Call_Item bool string string string string

definition text_part :: "string \<Rightarrow> json" where
  "text_part s = JObj [(''annotations'', JArr []), (''logprobs'', JArr []), (''text'', JStr s),
     (''type'', JStr ''output_text'')]"

fun item_json :: "item \<Rightarrow> json" where
  "item_json (Message_Started mid) = JObj [(''content'', JArr []), (''id'', JStr mid),
     (''role'', JStr ''assistant''), (''status'', JStr ''in_progress''), (''type'', JStr ''message'')]"
| "item_json (Message_Done mid s) = JObj [(''content'', JArr [text_part s]), (''id'', JStr mid),
     (''role'', JStr ''assistant''), (''status'', JStr ''completed''), (''type'', JStr ''message'')]"
| "item_json (Call_Item done i call name args) = JObj [(''arguments'', JStr args),
     (''call_id'', JStr call), (''id'', JStr i), (''name'', JStr name),
     (''status'', JStr (if done then ''completed'' else ''in_progress'')), (''type'', JStr ''function_call'')]"

datatype rframe =
    R_Created
  | R_In_Progress
  | R_Item_Added nat item
  | R_Part_Added string nat
  | R_Text_Delta string nat string
  | R_Text_Done string nat string
  | R_Part_Done string nat string
  | R_Args_Delta string nat string
  | R_Args_Done string nat string
  | R_Item_Done nat item
  | R_Completed "item option list" "usage option"

definition build_responses_usage :: "usage option \<Rightarrow> json" where
  "build_responses_usage u =
     (case u of
        None \<Rightarrow> JObj [(''input_tokens'', json_int 0), (''output_tokens'', json_int 0),
                       (''total_tokens'', json_int 0)]
      | Some v \<Rightarrow>
          let output = normalized_output_tokens u in
          JObj [(''input_tokens'', json_int (u_input v)),
                (''input_tokens_details'', JObj [(''cached_tokens'', json_int (u_cache_read v))]),
                (''output_tokens'', json_int output),
                (''output_tokens_details'', JObj [(''reasoning_tokens'', json_int (u_reasoning v))]),
                (''total_tokens'', json_int (i64 (u_input v + output)))])"

subsection \<open>The stream writer\<close>

record call_state =
  cs_id :: string
  cs_call_id :: string
  cs_name :: string
  cs_index :: nat
  cs_args :: string
  cs_opened :: bool
  cs_closed :: bool

record responses_writer =
  rw_model :: string
  rw_id :: string
  rw_created :: int
  rw_seq :: nat
  rw_message_open :: bool
  rw_message_index :: nat
  rw_message_id :: string
  rw_part_open :: bool
  rw_text :: string
  rw_calls :: "(string \<times> call_state) list"
  rw_next_index :: nat
  rw_completed :: "item option list"
  rw_last_usage :: "usage option"
  rw_completed_emitted :: bool

type_synonym say = "(nat \<times> rframe) list \<times> responses_writer"

definition new_responses_writer :: "string \<Rightarrow> string \<Rightarrow> int \<Rightarrow> responses_writer" where
  "new_responses_writer model uid now =
     \<lparr>rw_model = model, rw_id = ''resp_'' @ uid, rw_created = now, rw_seq = 0,
      rw_message_open = False, rw_message_index = 0, rw_message_id = [], rw_part_open = False,
      rw_text = [], rw_calls = [], rw_next_index = 0, rw_completed = [], rw_last_usage = None,
      rw_completed_emitted = False\<rparr>"

definition response_skeleton :: "responses_writer \<Rightarrow> string \<Rightarrow> json \<Rightarrow> (string \<times> json) list" where
  "response_skeleton w status output =
     [(''background'', JBool False), (''created_at'', json_int (rw_created w)), (''error'', JNull),
      (''id'', JStr (rw_id w)), (''model'', JStr (rw_model w)), (''object'', JStr ''response''),
      (''output'', output), (''status'', JStr status)]"

fun rframe_event :: "rframe \<Rightarrow> string" where
  "rframe_event R_Created = ''response.created''"
| "rframe_event R_In_Progress = ''response.in_progress''"
| "rframe_event (R_Item_Added _ _) = ''response.output_item.added''"
| "rframe_event (R_Part_Added _ _) = ''response.content_part.added''"
| "rframe_event (R_Text_Delta _ _ _) = ''response.output_text.delta''"
| "rframe_event (R_Text_Done _ _ _) = ''response.output_text.done''"
| "rframe_event (R_Part_Done _ _ _) = ''response.content_part.done''"
| "rframe_event (R_Args_Delta _ _ _) = ''response.function_call_arguments.delta''"
| "rframe_event (R_Args_Done _ _ _) = ''response.function_call_arguments.done''"
| "rframe_event (R_Item_Done _ _) = ''response.output_item.done''"
| "rframe_event (R_Completed _ _) = ''response.completed''"

definition index_fields :: "nat \<Rightarrow> (string \<times> json) list" where
  "index_fields i = [(''output_index'', json_int (int i))]"

fun rframe_fields :: "responses_writer \<Rightarrow> rframe \<Rightarrow> (string \<times> json) list" where
  "rframe_fields w R_Created = [(''response'', JObj (response_skeleton w ''in_progress'' (JArr [])))]"
| "rframe_fields w R_In_Progress = [(''response'', JObj (response_skeleton w ''in_progress'' (JArr [])))]"
| "rframe_fields w (R_Item_Added i x) = [(''item'', item_json x)] @ index_fields i"
| "rframe_fields w (R_Part_Added m i) =
     [(''content_index'', json_int 0), (''item_id'', JStr m)] @ index_fields i @ [(''part'', text_part [])]"
| "rframe_fields w (R_Text_Delta m i s) =
     [(''content_index'', json_int 0), (''delta'', JStr s), (''item_id'', JStr m), (''logprobs'', JArr [])]
     @ index_fields i"
| "rframe_fields w (R_Text_Done m i s) =
     [(''content_index'', json_int 0), (''item_id'', JStr m), (''logprobs'', JArr [])] @ index_fields i"
| "rframe_fields w (R_Part_Done m i s) =
     [(''content_index'', json_int 0), (''item_id'', JStr m)] @ index_fields i @ [(''part'', text_part s)]"
| "rframe_fields w (R_Args_Delta c i a) = [(''delta'', JStr a), (''item_id'', JStr c)] @ index_fields i"
| "rframe_fields w (R_Args_Done c i a) = [(''arguments'', JStr a), (''item_id'', JStr c)] @ index_fields i"
| "rframe_fields w (R_Item_Done i x) = [(''item'', item_json x)] @ index_fields i"
| "rframe_fields w (R_Completed xs u) =
     [(''response'', JObj (response_skeleton w ''completed''
         (JArr (map (\<lambda>x. case x of None \<Rightarrow> JNull | Some x \<Rightarrow> item_json x) xs)) @
       (if u \<noteq> None then [(''usage'', build_responses_usage u)] else [])))]"

fun rframe_tail :: "rframe \<Rightarrow> (string \<times> json) list" where
  "rframe_tail (R_Text_Done _ _ s) = [(''text'', JStr s)]"
| "rframe_tail _ = []"

definition rframe_json :: "responses_writer \<Rightarrow> nat \<times> rframe \<Rightarrow> json" where
  "rframe_json w = (\<lambda>(n, f). JObj (rframe_fields w f @ [(''sequence_number'', json_int (int n))] @
     rframe_tail f @ [(''type'', JStr (rframe_event f))]))"

definition rframe_bytes :: "responses_writer \<Rightarrow> nat \<times> rframe \<Rightarrow> string" where
  "rframe_bytes w f = ''event: '' @ rframe_event (snd f) @ ''\<newline>data: '' @ print_json (rframe_json w f)
     @ ''\<newline>\<newline>''"

text \<open>One frame with the next sequence number.\<close>

definition say :: "rframe \<Rightarrow> responses_writer \<Rightarrow> say" where
  "say f w = ([(rw_seq w, f)], w\<lparr>rw_seq := rw_seq w + 1\<rparr>)"

definition initial_frames :: "responses_writer \<Rightarrow> say" where
  "initial_frames w =
     (let (f1, w) = say R_Created w; (f2, w) = say R_In_Progress w in (f1 @ f2, w))"

definition encode_text :: "(nat \<Rightarrow> string) \<Rightarrow> string \<Rightarrow> responses_writer \<Rightarrow> say" where
  "encode_text uuid s w =
     (let (f1, w) =
        (if rw_message_open w then ([], w)
         else let w = w\<lparr>rw_message_open := True, rw_message_id := ''msg_'' @ uuid (rw_next_index w),
                        rw_message_index := rw_next_index w, rw_next_index := rw_next_index w + 1\<rparr>
              in say (R_Item_Added (rw_message_index w) (Message_Started (rw_message_id w))) w);
          (f2, w) =
        (if rw_part_open w then ([], w)
         else say (R_Part_Added (rw_message_id w) (rw_message_index w)) (w\<lparr>rw_part_open := True\<rparr>));
          w = w\<lparr>rw_text := rw_text w @ s\<rparr>;
          (f3, w) = say (R_Text_Delta (rw_message_id w) (rw_message_index w) s) w
      in (f1 @ f2 @ f3, w))"

definition put_call :: "string \<Rightarrow> call_state \<Rightarrow> responses_writer \<Rightarrow> responses_writer" where
  "put_call tid st w = w\<lparr>rw_calls := AList.update tid st (rw_calls w)\<rparr>"

definition add_arguments :: "string \<Rightarrow> call_state \<Rightarrow> string \<Rightarrow> responses_writer \<Rightarrow> say" where
  "add_arguments tid st a w =
     say (R_Args_Delta (cs_id st) (cs_index st) a) (put_call tid (st\<lparr>cs_args := cs_args st @ a\<rparr>) w)"

definition encode_call_start :: "(nat \<Rightarrow> string) \<Rightarrow> event \<Rightarrow> responses_writer \<Rightarrow> say" where
  "encode_call_start uuid ev w =
     (let tid = ev_tool_call_id ev;
          (st, w) =
        (case map_of (rw_calls w) tid of
           Some st \<Rightarrow> (st, w)
         | None \<Rightarrow>
             let st = \<lparr>cs_id = ''fc_'' @ uuid (rw_next_index w), cs_call_id = tid, cs_name = ev_tool_name ev,
                       cs_index = rw_next_index w, cs_args = [], cs_opened = False, cs_closed = False\<rparr>
             in (st, put_call tid st (w\<lparr>rw_next_index := rw_next_index w + 1\<rparr>)));
          (f1, st, w) =
        (if cs_opened st then ([], st, w)
         else let st = st\<lparr>cs_opened := True\<rparr>;
                  (fs, w) = say (R_Item_Added (cs_index st)
                      (Call_Item False (cs_id st) (cs_call_id st) (cs_name st) [])) (put_call tid st w)
              in (fs, st, w));
          (f2, w) = (if ev_tool_args_delta ev \<noteq> [] then add_arguments tid st (ev_tool_args_delta ev) w
                     else ([], w))
      in (f1 @ f2, w))"

definition encode_call_delta :: "event \<Rightarrow> responses_writer \<Rightarrow> say" where
  "encode_call_delta ev w =
     (case map_of (rw_calls w) (ev_tool_call_id ev) of
        None \<Rightarrow> ([], w)
      | Some st \<Rightarrow>
          if ev_tool_args_delta ev = [] then ([], w)
          else add_arguments (ev_tool_call_id ev) st (ev_tool_args_delta ev) w)"

definition done_call :: "call_state \<Rightarrow> item" where
  "done_call st = Call_Item True (cs_id st) (cs_call_id st) (cs_name st) (cs_args st)"

definition close_call :: "string \<Rightarrow> call_state \<Rightarrow> responses_writer \<Rightarrow> say" where
  "close_call tid st w =
     (let w = put_call tid (st\<lparr>cs_closed := True\<rparr>) w;
          (f1, w) = say (R_Args_Done (cs_id st) (cs_index st) (cs_args st)) w;
          (f2, w) = say (R_Item_Done (cs_index st) (done_call st)) w
      in (f1 @ f2, w\<lparr>rw_completed := rw_completed w @ [Some (done_call st)]\<rparr>))"

definition encode_call_completed :: "event \<Rightarrow> responses_writer \<Rightarrow> say" where
  "encode_call_completed ev w =
     (case map_of (rw_calls w) (ev_tool_call_id ev) of
        None \<Rightarrow> ([], w)
      | Some st \<Rightarrow> if cs_closed st then ([], w) else close_call (ev_tool_call_id ev) st w)"

definition insert_at_output_index :: "item option list \<Rightarrow> nat \<Rightarrow> item \<Rightarrow> item option list" where
  "insert_at_output_index items i x = (items @ replicate (Suc i - length items) None)[i := Some x]"

definition build_completed_frame :: "responses_writer \<Rightarrow> say" where
  "build_completed_frame w =
     (let w = w\<lparr>rw_completed_emitted := True\<rparr>;
          output = (if rw_completed w = [] \<and> rw_text w \<noteq> []
                    then [Some (Message_Done (rw_message_id w) (rw_text w))] else rw_completed w)
      in say (R_Completed output (rw_last_usage w)) w)"

definition final_completed_frame :: "responses_writer \<Rightarrow> say" where
  "final_completed_frame w =
     (if rw_completed_emitted w then ([], w) else build_completed_frame w)"

definition finish_message :: "responses_writer \<Rightarrow> say" where
  "finish_message w =
     (if \<not> rw_message_open w then ([], w)
      else let m = rw_message_id w; i = rw_message_index w;
               (f1, w) = (if rw_part_open w
                  then let (g1, w) = say (R_Text_Done m i (rw_text w)) w;
                           (g2, w) = say (R_Part_Done m i (rw_text w)) w
                       in (g1 @ g2, w\<lparr>rw_part_open := False\<rparr>)
                  else ([], w));
               x = Message_Done m (rw_text w);
               (f2, w) = say (R_Item_Done i x) w
           in (f1 @ f2, w\<lparr>rw_completed := insert_at_output_index (rw_completed w) i x,
                          rw_message_open := False\<rparr>))"

fun close_open_calls :: "(string \<times> call_state) list \<Rightarrow> responses_writer \<Rightarrow> say" where
  "close_open_calls [] w = ([], w)"
| "close_open_calls ((tid, st) # rest) w =
     (if \<not> cs_opened st \<or> cs_closed st then close_open_calls rest w
      else let (f1, w) = close_call tid st w; (f2, w) = close_open_calls rest w in (f1 @ f2, w))"

type_synonym call_order = "(string \<times> call_state) list \<Rightarrow> (string \<times> call_state) list"

definition encode_turn :: "call_order \<Rightarrow> responses_writer \<Rightarrow> say" where
  "encode_turn ord w =
     (let (f1, w) = finish_message w;
          (f2, w) = close_open_calls (ord (rw_calls w)) w;
          (f3, w) = build_completed_frame w
      in (f1 @ f2 @ f3, w))"

definition encode_responses :: "(nat \<Rightarrow> string) \<Rightarrow> call_order \<Rightarrow> event \<Rightarrow> responses_writer \<Rightarrow> say" where
  "encode_responses uuid ord ev w =
     (case ev_kind ev of
        EventTextDelta \<Rightarrow> if ev_text ev = [] then ([], w) else encode_text uuid (ev_text ev) w
      | EventToolCallStarted \<Rightarrow> encode_call_start uuid ev w
      | EventToolCallDelta \<Rightarrow> encode_call_delta ev w
      | EventToolCallCompleted \<Rightarrow> encode_call_completed ev w
      | EventTurnEnded \<Rightarrow>
          encode_turn ord (if ev_usage ev \<noteq> None then w\<lparr>rw_last_usage := ev_usage ev\<rparr> else w)
      | _ \<Rightarrow> ([], w))"

subsection \<open>The non-streaming accumulator\<close>

record responses_accumulator =
  ra_model :: string
  ra_text :: string
  ra_calls :: "call_state list"
  ra_usage :: "usage option"

definition new_responses_accumulator :: "string \<Rightarrow> responses_accumulator" where
  "new_responses_accumulator model = \<lparr>ra_model = model, ra_text = [], ra_calls = [], ra_usage = None\<rparr>"

fun append_args :: "string \<Rightarrow> string \<Rightarrow> call_state list \<Rightarrow> call_state list" where
  "append_args tid a [] = []"
| "append_args tid a (c # cs) =
     (if cs_call_id c = tid then c\<lparr>cs_args := cs_args c @ a\<rparr> # cs else c # append_args tid a cs)"

definition consume_responses :: "(nat \<Rightarrow> string) \<Rightarrow> event \<Rightarrow> responses_accumulator \<Rightarrow> responses_accumulator" where
  "consume_responses uuid ev a =
     (case ev_kind ev of
        EventTextDelta \<Rightarrow> a\<lparr>ra_text := ra_text a @ ev_text ev\<rparr>
      | EventToolCallStarted \<Rightarrow>
          a\<lparr>ra_calls := ra_calls a @ [\<lparr>cs_id = ''fc_'' @ uuid (length (ra_calls a)),
             cs_call_id = ev_tool_call_id ev, cs_name = ev_tool_name ev, cs_index = 0,
             cs_args = ev_tool_args_delta ev, cs_opened = False, cs_closed = False\<rparr>]\<rparr>
      | EventToolCallDelta \<Rightarrow>
          if ra_calls a = [] then a
          else a\<lparr>ra_calls := append_args (ev_tool_call_id ev) (ev_tool_args_delta ev) (ra_calls a)\<rparr>
      | EventTurnEnded \<Rightarrow> a\<lparr>ra_usage := ev_usage ev\<rparr>
      | _ \<Rightarrow> a)"

definition has_output :: "responses_accumulator \<Rightarrow> bool" where
  "has_output a \<longleftrightarrow> ra_text a \<noteq> [] \<or> ra_calls a \<noteq> []"

definition response_output :: "string \<Rightarrow> responses_accumulator \<Rightarrow> item list" where
  "response_output muid a =
     (if ra_text a \<noteq> [] then [Message_Done (''msg_'' @ muid) (ra_text a)] else []) @
     map (\<lambda>c. Call_Item True (cs_id c) (cs_call_id c) (cs_name c)
                (if cs_args c = [] then ''{}'' else cs_args c)) (ra_calls a)"

definition responses_response :: "string \<Rightarrow> string \<Rightarrow> int \<Rightarrow> responses_accumulator \<Rightarrow> json" where
  "responses_response muid rid now a =
     JObj [(''background'', JBool False), (''created_at'', json_int now), (''error'', JNull),
       (''id'', JStr rid), (''model'', JStr (ra_model a)), (''object'', JStr ''response''),
       (''output'', JArr (map item_json (response_output muid a))), (''status'', JStr ''completed''),
       (''usage'', build_responses_usage (ra_usage a))]"

end
