(* ===== verification/ResponsesProtocol.thy ===== *)
theory ResponsesProtocol
  imports Responses
begin

text \<open>
  What the Responses stream promises: consecutive sequence numbers, an item protocol (items are
  announced with the next output index, grow while open, and are closed with exactly what was
  streamed for them), and the text contract of theory StreamWriter. The last part shows where
  the aggregated \<^verbatim>\<open>response.completed\<close> object departs from the streamed items.
\<close>

subsection \<open>Sequence numbers\<close>

fun consecutive :: "nat \<Rightarrow> (nat \<times> 'a) list \<Rightarrow> bool" where
  "consecutive n [] = True"
| "consecutive n (f # fs) = (fst f = n \<and> consecutive (Suc n) fs)"

lemma consecutive_append [simp]:
  "consecutive n (fs @ gs) \<longleftrightarrow> consecutive n fs \<and> consecutive (n + length fs) gs"
  by (induction fs arbitrary: n) simp_all

lemma consecutive_upt: "consecutive n fs \<longleftrightarrow> map fst fs = [n ..< n + length fs]"
proof (induction fs arbitrary: n)
  case (Cons f fs)
  have "[n ..< n + length (f # fs)] = n # [Suc n ..< Suc n + length fs]"
    using upt_rec [of n "n + length (f # fs)"] by simp
  with Cons show ?case by auto
qed simp

definition numbered :: "responses_writer \<Rightarrow> say \<Rightarrow> bool" where
  "numbered w r \<longleftrightarrow> consecutive (rw_seq w) (fst r) \<and> rw_seq (snd r) = rw_seq w + length (fst r)"

lemma numbered_nothing: "numbered w ([], w)"
  by (simp add: numbered_def)

lemma numbered_seq: "rw_seq w' = rw_seq w \<Longrightarrow> numbered w' r \<Longrightarrow> numbered w r"
  by (simp add: numbered_def)

lemma numbered_append: "numbered w (f1, w1) \<Longrightarrow> numbered w1 (f2, w2) \<Longrightarrow> numbered w (f1 @ f2, w2)"
  by (simp add: numbered_def)

lemmas say_unfold = say_def Let_def put_call_def add_arguments_def close_call_def
  build_completed_frame_def encode_text_def encode_call_start_def encode_call_delta_def
  encode_call_completed_def finish_message_def initial_frames_def

lemma numbered_parts:
  "numbered w (initial_frames w)"
  "numbered w (encode_text uuid s w)"
  "numbered w (encode_call_start uuid ev w)"
  "numbered w (encode_call_delta ev w)"
  "numbered w (close_call tid st w)"
  "numbered w (encode_call_completed ev w)"
  "numbered w (finish_message w)"
  "numbered w (build_completed_frame w)"
  by (auto simp: numbered_def say_unfold split: option.splits)

lemma numbered_close_calls: "numbered w (close_open_calls xs w)"
proof (induction xs w rule: close_open_calls.induct)
  case (2 tid st rest w)
  obtain f1 w1 where 1: "close_call tid st w = (f1, w1)" by (cases "close_call tid st w")
  obtain f2 w2 where 2: "close_open_calls rest w1 = (f2, w2)" by (cases "close_open_calls rest w1")
  show ?case
    using "2.IH" numbered_parts(5) [of w tid st] 1 2
    by (auto intro: numbered_append)
qed (simp add: numbered_nothing)

lemma numbered_turn: "numbered w (encode_turn ord w)"
proof -
  obtain f1 w1 where 1: "finish_message w = (f1, w1)" by (cases "finish_message w")
  obtain f2 w2 where 2: "close_open_calls (ord (rw_calls w1)) w1 = (f2, w2)"
    by (cases "close_open_calls (ord (rw_calls w1)) w1")
  obtain f3 w3 where 3: "build_completed_frame w2 = (f3, w3)" by (cases "build_completed_frame w2")
  have "numbered w (f1, w1)" "numbered w1 (f2, w2)" "numbered w2 (f3, w3)"
    using numbered_parts(7) [of w] numbered_close_calls [of w1 "ord (rw_calls w1)"]
      numbered_parts(8) [of w2] 1 2 3 by simp_all
  then have "numbered w (f1 @ f2 @ f3, w3)" using numbered_append by blast
  then show ?thesis by (simp add: encode_turn_def 1 2 3)
qed

lemma numbered_encode: "numbered w (encode_responses uuid ord ev w)"
  using numbered_parts numbered_nothing
    numbered_seq [OF _ numbered_turn, where w' = "w\<lparr>rw_last_usage := ev_usage ev\<rparr>" and w = w]
    numbered_turn
  by (simp add: encode_responses_def split: event_kind.splits)

lemma numbered_run: "numbered w (run_writer (encode_responses uuid ord) evs w)"
proof (induction evs arbitrary: w)
  case (Cons ev evs)
  obtain f1 w1 where 1: "encode_responses uuid ord ev w = (f1, w1)" by (cases "encode_responses uuid ord ev w")
  obtain f2 w2 where 2: "run_writer (encode_responses uuid ord) evs w1 = (f2, w2)"
    by (cases "run_writer (encode_responses uuid ord) evs w1")
  show ?case using numbered_append [of w f1 w1 f2 w2] numbered_encode [of w uuid ord ev] Cons.IH [of w1]
    by (simp add: 1 2)
qed (simp add: numbered_nothing)

lemma numbered_final: "numbered w (final_completed_frame w)"
  using numbered_parts(8) by (simp add: final_completed_frame_def numbered_nothing)

definition whole_stream ::
  "(nat \<Rightarrow> string) \<Rightarrow> call_order \<Rightarrow> event list \<Rightarrow> responses_writer \<Rightarrow> say" where
  "whole_stream uuid ord evs w =
     (let (f1, w) = initial_frames w;
          (f2, w) = run_writer (encode_responses uuid ord) evs w;
          (f3, w) = final_completed_frame w
      in (f1 @ f2 @ f3, w))"

lemma whole_stream_numbers:
  "let fs = fst (whole_stream uuid ord evs (new_responses_writer m u t))
   in map fst fs = [0 ..< length fs]"
proof -
  let ?w = "new_responses_writer m u t"
  obtain f1 w1 where 1: "initial_frames ?w = (f1, w1)" by (cases "initial_frames ?w")
  obtain f2 w2 where 2: "run_writer (encode_responses uuid ord) evs w1 = (f2, w2)"
    by (cases "run_writer (encode_responses uuid ord) evs w1")
  obtain f3 w3 where 3: "final_completed_frame w2 = (f3, w3)" by (cases "final_completed_frame w2")
  have "numbered ?w (f1, w1)" "numbered w1 (f2, w2)" "numbered w2 (f3, w3)"
    using numbered_parts(1) [of ?w] numbered_run [of w1 uuid ord evs] numbered_final [of w2] 1 2 3
    by simp_all
  then have "numbered ?w (f1 @ f2 @ f3, w3)" using numbered_append by blast
  then have "consecutive 0 (f1 @ f2 @ f3)" by (simp add: numbered_def new_responses_writer_def)
  then show ?thesis using consecutive_upt [of 0 "f1 @ f2 @ f3"] by (simp add: whole_stream_def 1 2 3)
qed

text \<open>
  Sequence numbers are consecutive. Whatever events arrive, in whatever order, the frames of
  a whole Responses stream (the initial frames, those of the events, the final frame) carry the
  sequence numbers 0, 1, 2, and so on, without a gap or a repetition.
\<close>

theorem responses_sequence_numbers:
  "let fs = fst (whole_stream uuid ord evs (new_responses_writer m u t))
   in map fst fs = [0 ..< length fs]"
  by (rule whole_stream_numbers)

subsection \<open>The item protocol\<close>

text \<open>
  A client's view of the items: \<open>it_next\<close> is the next output index, \<open>it_open\<close> the open items. A
  message is open with its id, whether its part is still open, and its text; a call with its id,
  caller-visible id, name and arguments. None is a frame the protocol forbids.
\<close>

datatype open_item =
    Open_Message string bool string
  | Open_Call string string string string

record items =
  it_next :: nat
  it_open :: "(nat \<times> open_item) list"

definition put_item :: "nat \<Rightarrow> open_item \<Rightarrow> items \<Rightarrow> items" where
  "put_item i x p = p\<lparr>it_open := AList.update i x (it_open p)\<rparr>"

definition add_item :: "nat \<Rightarrow> open_item \<Rightarrow> items \<Rightarrow> items option" where
  "add_item i x p = (if i = it_next p then Some (put_item i x (p\<lparr>it_next := i + 1\<rparr>)) else None)"

definition end_item :: "nat \<Rightarrow> open_item \<Rightarrow> items \<Rightarrow> items option" where
  "end_item i x p =
     (if map_of (it_open p) i = Some x then Some (p\<lparr>it_open := AList.delete i (it_open p)\<rparr>) else None)"

fun item_step :: "rframe \<Rightarrow> items \<Rightarrow> items option" where
  "item_step (R_Item_Added i (Message_Started m)) p = add_item i (Open_Message m False []) p"
| "item_step (R_Item_Added i (Call_Item False c call name args)) p =
     (if args = [] then add_item i (Open_Call c call name []) p else None)"
| "item_step (R_Item_Added _ _) p = None"
| "item_step (R_Part_Added m i) p =
     (case map_of (it_open p) i of
        Some (Open_Message m' False s) \<Rightarrow> if m' = m \<and> s = [] then Some (put_item i (Open_Message m True []) p) else None
      | _ \<Rightarrow> None)"
| "item_step (R_Text_Delta m i t) p =
     (case map_of (it_open p) i of
        Some (Open_Message m' True s) \<Rightarrow> if m' = m then Some (put_item i (Open_Message m True (s @ t)) p) else None
      | _ \<Rightarrow> None)"
| "item_step (R_Text_Done m i t) p =
     (if map_of (it_open p) i = Some (Open_Message m True t) then Some p else None)"
| "item_step (R_Part_Done m i t) p =
     (if map_of (it_open p) i = Some (Open_Message m True t)
      then Some (put_item i (Open_Message m False t) p) else None)"
| "item_step (R_Args_Delta c i a) p =
     (case map_of (it_open p) i of
        Some (Open_Call c' call name b) \<Rightarrow> if c' = c then Some (put_item i (Open_Call c call name (b @ a)) p) else None
      | _ \<Rightarrow> None)"
| "item_step (R_Args_Done c i a) p =
     (case map_of (it_open p) i of
        Some (Open_Call c' call name b) \<Rightarrow> if c' = c \<and> b = a then Some p else None
      | _ \<Rightarrow> None)"
| "item_step (R_Item_Done i (Message_Done m t)) p = end_item i (Open_Message m False t) p"
| "item_step (R_Item_Done i (Call_Item True c call name args)) p = end_item i (Open_Call c call name args) p"
| "item_step (R_Item_Done _ _) p = None"
| "item_step (R_Completed _ _) p = (if it_open p = [] then Some p else None)"
| "item_step _ p = Some p"

fun item_run :: "(nat \<times> rframe) list \<Rightarrow> items \<Rightarrow> items option" where
  "item_run [] p = Some p"
| "item_run (f # fs) p = (case item_step (snd f) p of None \<Rightarrow> None | Some p \<Rightarrow> item_run fs p)"

lemma item_run_append:
  "item_run (fs @ gs) p = (case item_run fs p of None \<Rightarrow> None | Some p \<Rightarrow> item_run gs p)"
  by (induction fs arbitrary: p) (auto split: option.splits)

definition open_message :: "responses_writer \<Rightarrow> (nat \<times> open_item) set" where
  "open_message w = (if rw_message_open w
     then {(rw_message_index w, Open_Message (rw_message_id w) (rw_part_open w) (rw_text w))} else {})"

definition call_item :: "call_state \<Rightarrow> nat \<times> open_item" where
  "call_item st = (cs_index st, Open_Call (cs_id st) (cs_call_id st) (cs_name st) (cs_args st))"

lemma fst_call_item [simp]: "fst (call_item st) = cs_index st"
  by (simp add: call_item_def)

definition open_calls :: "(string \<times> call_state) list \<Rightarrow> (nat \<times> open_item) set" where
  "open_calls cs = {call_item st | tid st. (tid, st) \<in> set cs \<and> \<not> cs_closed st}"

text \<open>Indexes taken so far are below the next one and used by one item each.\<close>

definition calls_indexed :: "(string \<times> call_state) list \<Rightarrow> nat \<Rightarrow> bool" where
  "calls_indexed cs n \<longleftrightarrow> distinct (map fst cs) \<and>
     (\<forall>(tid, st) \<in> set cs. cs_opened st \<and> cs_index st < n \<and>
        (\<forall>(tid', st') \<in> set cs. cs_index st' = cs_index st \<longrightarrow> tid' = tid))"

definition message_ok :: "responses_writer \<Rightarrow> bool" where
  "message_ok w \<longleftrightarrow> rw_part_open w = rw_message_open w \<and>
     (rw_message_open w \<longrightarrow> rw_message_index w < rw_next_index w \<and>
        (\<forall>(tid, st) \<in> set (rw_calls w). cs_index st \<noteq> rw_message_index w))"

definition tracked_by :: "responses_writer \<Rightarrow> items \<Rightarrow> bool" where
  "tracked_by w p \<longleftrightarrow> calls_indexed (rw_calls w) (rw_next_index w) \<and> message_ok w \<and>
     it_next p = rw_next_index w \<and> distinct (map fst (it_open p)) \<and>
     set (it_open p) = open_message w \<union> open_calls (rw_calls w)"

lemma set_update: "distinct (map fst al) \<Longrightarrow>
    set (AList.update k v al) = insert (k, v) {x \<in> set al. fst x \<noteq> k}"
  by (induction al) (auto simp: image_iff)

lemma tracked_lookup:
  "tracked_by w p \<Longrightarrow> (i, x) \<in> open_message w \<union> open_calls (rw_calls w) \<Longrightarrow> map_of (it_open p) i = Some x"
  by (simp add: tracked_by_def)

lemma open_calls_put:
  assumes "distinct (map fst cs)"
  shows "open_calls (AList.update tid st cs) =
    (if cs_closed st then {} else {call_item st}) \<union> open_calls (filter (\<lambda>x. fst x \<noteq> tid) cs)"
  unfolding open_calls_def set_update [OF assms] by auto

text \<open>The calls with a key and without it, when the key is known.\<close>

lemma open_calls_split:
  assumes "calls_indexed cs n" "map_of cs tid = Some st"
  shows "{x \<in> open_calls cs. fst x \<noteq> cs_index st} = open_calls (filter (\<lambda>x. fst x \<noteq> tid) cs)"
proof -
  have m: "(tid, st) \<in> set cs" using assms(2) by (rule map_of_SomeD)
  have "cs_index st' \<noteq> cs_index st \<longleftrightarrow> tid' \<noteq> tid" if "(tid', st') \<in> set cs" for tid' st'
  proof -
    have "distinct (map fst cs)" using assms(1) by (simp add: calls_indexed_def)
    then have "tid' = tid \<Longrightarrow> st' = st" using that m eq_key_imp_eq_value by metis
    moreover have "cs_index st' = cs_index st \<longrightarrow> tid' = tid"
      using that m assms(1) by (auto simp: calls_indexed_def)
    ultimately show ?thesis by blast
  qed
  then show ?thesis unfolding open_calls_def by auto blast
qed

lemma calls_indexed_put:
  assumes "calls_indexed cs n" "map_of cs tid = Some st" "cs_index st' = cs_index st" "cs_opened st'"
  shows "calls_indexed (AList.update tid st' cs) n"
proof -
  have d: "distinct (map fst cs)" using assms(1) by (simp add: calls_indexed_def)
  have m: "(tid, st) \<in> set cs" using assms(2) by (rule map_of_SomeD)
  show ?thesis using assms(1,3,4) m unfolding calls_indexed_def set_update [OF d]
    by (auto simp: distinct_update d)
qed

lemma calls_indexed_new:
  assumes "calls_indexed cs n" "map_of cs tid = None" "cs_index st = n" "cs_opened st"
  shows "calls_indexed (AList.update tid st cs) (Suc n)"
proof -
  have d: "distinct (map fst cs)" using assms(1) by (simp add: calls_indexed_def)
  show ?thesis using assms unfolding calls_indexed_def set_update [OF d]
    by (fastforce simp: distinct_update d map_of_eq_None_iff)
qed

definition emits_items :: "responses_writer \<Rightarrow> (nat \<times> rframe) list \<Rightarrow> responses_writer \<Rightarrow> bool" where
  "emits_items w fs w' \<longleftrightarrow>
     (\<forall>p. tracked_by w p \<longrightarrow> (\<exists>q. item_run fs p = Some q \<and> tracked_by w' q))"

lemma emits_itemsI:
  "(\<And>p. tracked_by w p \<Longrightarrow> \<exists>q. item_run fs p = Some q \<and> tracked_by w' q) \<Longrightarrow> emits_items w fs w'"
  by (simp add: emits_items_def)

lemma emits_items_Nil: "emits_items w [] w"
  by (simp add: emits_items_def)

lemma emits_items_append: "emits_items w fs w' \<Longrightarrow> emits_items w' gs w'' \<Longrightarrow> emits_items w (fs @ gs) w''"
  unfolding emits_items_def item_run_append by fastforce

lemma keys_below: "tracked_by w p \<Longrightarrow> (i, x) \<in> set (it_open p) \<Longrightarrow> i < rw_next_index w"
  by (auto simp: tracked_by_def open_message_def open_calls_def call_item_def calls_indexed_def
      message_ok_def split: if_splits)

lemma call_lookup:
  "tracked_by w p \<Longrightarrow> map_of (rw_calls w) tid = Some st \<Longrightarrow> \<not> cs_closed st \<Longrightarrow>
     map_of (it_open p) (cs_index st) = Some (Open_Call (cs_id st) (cs_call_id st) (cs_name st) (cs_args st))"
  by (erule tracked_lookup) (auto simp: open_calls_def call_item_def dest: map_of_SomeD)

lemma message_apart:
  "message_ok w \<Longrightarrow> map_of (rw_calls w) tid = Some st \<Longrightarrow>
     {x \<in> open_message w. fst x \<noteq> cs_index st} = open_message w"
  by (auto simp: message_ok_def open_message_def dest!: map_of_SomeD)

text \<open>A known open call changes its arguments or closes; nothing else moves.\<close>

lemma put_call_tracked:
  assumes t: "tracked_by w p" and l: "map_of (rw_calls w) tid = Some st"
    and s: "cs_index st' = cs_index st" "cs_opened st'"
    and o: "set o' = {x \<in> set (it_open p). fst x \<noteq> cs_index st} \<union> (if cs_closed st' then {} else {call_item st'})"
    and d: "distinct (map fst o')"
    and w': "rw_calls w' = AList.update tid st' (rw_calls w)" "rw_next_index w' = rw_next_index w"
      "rw_message_open w' = rw_message_open w" "rw_message_index w' = rw_message_index w"
      "rw_message_id w' = rw_message_id w" "rw_part_open w' = rw_part_open w" "rw_text w' = rw_text w"
  shows "tracked_by w' (p\<lparr>it_open := o'\<rparr>)"
proof -
  have ci: "calls_indexed (rw_calls w) (rw_next_index w)" and mo: "message_ok w"
    and so: "set (it_open p) = open_message w \<union> open_calls (rw_calls w)"
    and nx: "it_next p = rw_next_index w"
    using t by (simp_all add: tracked_by_def)
  have dk: "distinct (map fst (rw_calls w))" using ci by (simp add: calls_indexed_def)
  have om: "open_message w' = open_message w" by (simp add: open_message_def w')
  have "{x \<in> set (it_open p). fst x \<noteq> cs_index st} =
      open_message w \<union> open_calls (filter (\<lambda>x. fst x \<noteq> tid) (rw_calls w))"
    using message_apart [OF mo l] open_calls_split [OF ci l] by (auto simp: so)
  then have "set o' = open_message w' \<union> open_calls (rw_calls w')"
    by (auto simp: o om w'(1) open_calls_put [OF dk])
  moreover have "message_ok w'"
    using mo map_of_SomeD [OF l] s(1) unfolding message_ok_def w' set_update [OF dk] by auto
  moreover have "calls_indexed (rw_calls w') (rw_next_index w')"
    unfolding w' using calls_indexed_put [OF ci l s] .
  ultimately show ?thesis using d nx by (simp add: tracked_by_def w')
qed

lemma add_arguments_items:
  assumes "map_of (rw_calls w) tid = Some st" "\<not> cs_closed st" "add_arguments tid st a w = (fs, w')"
  shows "emits_items w fs w'"
proof (rule emits_itemsI)
  fix p assume t: "tracked_by w p"
  then have d: "distinct (map fst (it_open p))" and op: "cs_opened st"
    using assms(1) by (auto simp: tracked_by_def calls_indexed_def dest!: map_of_SomeD)
  let ?st = "st\<lparr>cs_args := cs_args st @ a\<rparr>"
  let ?o = "AList.update (cs_index st) (snd (call_item ?st)) (it_open p)"
  have "tracked_by w' (p\<lparr>it_open := ?o\<rparr>)"
    using assms(2,3) op
    by (intro put_call_tracked [OF t assms(1), of ?st])
      (auto simp: set_update [OF d] distinct_update d call_item_def add_arguments_def say_def put_call_def)
  moreover have "item_run fs p = Some (p\<lparr>it_open := ?o\<rparr>)"
    using call_lookup [OF t assms(1,2)] assms(3)
    by (auto simp: add_arguments_def say_def put_item_def call_item_def)
  ultimately show "\<exists>q. item_run fs p = Some q \<and> tracked_by w' q" by blast
qed

lemma close_call_items:
  assumes "map_of (rw_calls w) tid = Some st" "\<not> cs_closed st" "close_call tid st w = (fs, w')"
  shows "emits_items w fs w'"
proof (rule emits_itemsI)
  fix p assume t: "tracked_by w p"
  then have d: "distinct (map fst (it_open p))" and op: "cs_opened st"
    using assms(1) by (auto simp: tracked_by_def calls_indexed_def dest!: map_of_SomeD)
  let ?o = "AList.delete (cs_index st) (it_open p)"
  have "tracked_by w' (p\<lparr>it_open := ?o\<rparr>)"
    using assms(3) op
    by (intro put_call_tracked [OF t assms(1), of "st\<lparr>cs_closed := True\<rparr>"])
      (auto simp: set_delete distinct_delete d close_call_def say_def put_call_def Let_def)
  moreover have "item_run fs p = Some (p\<lparr>it_open := ?o\<rparr>)"
    using call_lookup [OF t assms(1,2)] assms(3)
    by (auto simp: close_call_def say_def put_call_def Let_def done_call_def end_item_def)
  ultimately show "\<exists>q. item_run fs p = Some q \<and> tracked_by w' q" by blast
qed

definition fresh_text :: "responses_writer \<Rightarrow> bool" where
  "fresh_text w \<longleftrightarrow> \<not> rw_message_open w \<longrightarrow> rw_text w = []"

lemma open_calls_below: "calls_indexed cs n \<Longrightarrow> x \<in> open_calls cs \<Longrightarrow> fst x < n"
  by (auto simp: open_calls_def calls_indexed_def)

lemma open_calls_apart:
  "message_ok w \<Longrightarrow> rw_message_open w \<Longrightarrow> x \<in> open_calls (rw_calls w) \<Longrightarrow> fst x \<noteq> rw_message_index w"
  by (auto simp: open_calls_def message_ok_def)

lemma indexed_mono: "calls_indexed cs n \<Longrightarrow> n \<le> m \<Longrightarrow> calls_indexed cs m"
  by (fastforce simp: calls_indexed_def)

lemma encode_text_items:
  assumes e: "encode_text uuid s w = (fs, w')" and f: "fresh_text w"
  shows "emits_items w fs w' \<and> fresh_text w' \<and> rw_calls w' = rw_calls w"
proof -
  have "\<exists>q. item_run fs p = Some q \<and> tracked_by w' q" if t: "tracked_by w p" for p
  proof -
    have d: "distinct (map fst (it_open p))" and mo: "message_ok w" and nx: "it_next p = rw_next_index w"
      and so: "set (it_open p) = open_message w \<union> open_calls (rw_calls w)"
      and ci: "calls_indexed (rw_calls w) (rw_next_index w)"
      using t by (simp_all add: tracked_by_def)
    show ?thesis
    proof (cases "rw_message_open w")
      case True
      let ?m = "Open_Message (rw_message_id w) True (rw_text w @ s)"
      have po: "rw_part_open w" using mo True by (simp add: message_ok_def)
      have l: "map_of (it_open p) (rw_message_index w) = Some (Open_Message (rw_message_id w) True (rw_text w))"
        by (rule tracked_lookup [OF t]) (simp add: open_message_def True po)
      have "item_run fs p = Some (put_item (rw_message_index w) ?m p)"
        using e True po l by (auto simp: encode_text_def say_def Let_def)
      moreover have "tracked_by w' (put_item (rw_message_index w) ?m p)"
        using e True po mo ci nx open_calls_apart [OF mo True]
        by (auto simp: encode_text_def say_def Let_def tracked_by_def put_item_def set_update [OF d]
            distinct_update d message_ok_def so open_message_def)
      ultimately show ?thesis by blast
    next
      case False
      let ?i = "rw_next_index w" and ?id = "''msg_'' @ uuid (rw_next_index w)"
      let ?p = "put_item ?i (Open_Message ?id True s) (put_item ?i (Open_Message ?id True [])
        (put_item ?i (Open_Message ?id False []) (p\<lparr>it_next := ?i + 1\<rparr>)))"
      have po: "\<not> rw_part_open w" using mo False by (simp add: message_ok_def)
      have w': "rw_calls w' = rw_calls w" "rw_next_index w' = Suc ?i" "rw_message_open w'"
        "rw_message_index w' = ?i" "rw_message_id w' = ?id" "rw_part_open w'" "rw_text w' = s"
        using e False po f by (auto simp: encode_text_def say_def Let_def fresh_text_def)
      have nb: "(?i, b) \<notin> open_calls (rw_calls w)" for b
        using open_calls_below [OF ci, of "(?i, b)"] by auto
      have "message_ok w'" using ci by (auto simp: message_ok_def w' calls_indexed_def)
      moreover have "set (it_open ?p) = open_message w' \<union> open_calls (rw_calls w')"
        using nb by (auto simp: put_item_def set_update distinct_update d so open_message_def w' False)
      moreover have "calls_indexed (rw_calls w') (rw_next_index w')"
        unfolding w' using indexed_mono [OF ci] by simp
      moreover have "item_run fs p = Some ?p"
        using e False po nx by (auto simp: encode_text_def say_def Let_def add_item_def put_item_def update_conv')
      ultimately have "item_run fs p = Some ?p \<and> tracked_by w' ?p"
        by (simp add: tracked_by_def put_item_def distinct_update d w')
      then show ?thesis by blast
    qed
  qed
  moreover have "fresh_text w' \<and> rw_calls w' = rw_calls w"
    using e by (auto simp: encode_text_def say_def Let_def fresh_text_def split: if_splits)
  ultimately show ?thesis by (simp add: emits_items_def)
qed

lemma open_call_items:
  assumes l: "map_of (rw_calls w) tid = None"
    and st: "cs_index st = rw_next_index w" "cs_args st = []" "cs_opened st" "\<not> cs_closed st"
  shows "emits_items w [(n, R_Item_Added (cs_index st) (Call_Item False (cs_id st) (cs_call_id st) (cs_name st) []))]
    (w\<lparr>rw_next_index := Suc (rw_next_index w), rw_calls := AList.update tid st (rw_calls w), rw_seq := k\<rparr>)"
    (is "emits_items w ?fs ?w")
proof (rule emits_itemsI)
  fix p assume t: "tracked_by w p"
  have d: "distinct (map fst (it_open p))" and mo: "message_ok w" and nx: "it_next p = rw_next_index w"
    and so: "set (it_open p) = open_message w \<union> open_calls (rw_calls w)"
    and ci: "calls_indexed (rw_calls w) (rw_next_index w)"
    using t by (simp_all add: tracked_by_def)
  have dk: "distinct (map fst (rw_calls w))" using ci by (simp add: calls_indexed_def)
  have tid: "filter (\<lambda>x. fst x \<noteq> tid) (rw_calls w) = rw_calls w"
    using l by (intro filter_True) (auto simp: map_of_eq_None_iff)
  let ?p = "put_item (cs_index st) (snd (call_item st)) (p\<lparr>it_next := Suc (rw_next_index w)\<rparr>)"
  have om: "open_message ?w = open_message w" by (simp add: open_message_def)
  have "x \<in> set (it_open p) \<Longrightarrow> fst x \<noteq> cs_index st" for x
    using keys_below [OF t, of "fst x" "snd x"] st(1) by auto
  then have "set (it_open ?p) = open_message ?w \<union> open_calls (rw_calls ?w)"
    using open_calls_put [OF dk, of tid st] st(4) so
    by (auto simp: put_item_def set_update [OF d] om tid call_item_def)
  moreover have "message_ok ?w" using mo st(1)
    by (auto simp: message_ok_def set_update [OF dk])
  moreover have "calls_indexed (rw_calls ?w) (rw_next_index ?w)"
    using calls_indexed_new [OF ci l st(1,3)] by simp
  ultimately have "tracked_by ?w ?p"
    by (simp add: tracked_by_def put_item_def distinct_update d)
  moreover have "item_run ?fs p = Some ?p"
    using st by (simp add: add_item_def nx call_item_def)
  ultimately show "\<exists>q. item_run ?fs p = Some q \<and> tracked_by ?w q" by blast
qed

lemma encode_call_start_items:
  assumes e: "encode_call_start uuid ev w = (fs, w')"
    and op: "\<forall>st. map_of (rw_calls w) (ev_tool_call_id ev) = Some st \<longrightarrow>
      cs_opened st \<and> (ev_tool_args_delta ev \<noteq> [] \<longrightarrow> \<not> cs_closed st)"
  shows "emits_items w fs w'"
proof (cases "map_of (rw_calls w) (ev_tool_call_id ev)")
  case (Some st)
  then show ?thesis
    using e op add_arguments_items [OF Some, of "ev_tool_args_delta ev" fs w'] emits_items_Nil
    by (auto simp: encode_call_start_def Let_def split: if_splits)
next
  case None
  let ?tid = "ev_tool_call_id ev" and ?n = "rw_next_index w"
  let ?st = "\<lparr>cs_id = ''fc_'' @ uuid ?n, cs_call_id = ?tid, cs_name = ev_tool_name ev, cs_index = ?n,
    cs_args = [], cs_opened = True, cs_closed = False\<rparr>"
  let ?w1 = "w\<lparr>rw_next_index := Suc ?n, rw_calls := AList.update ?tid ?st (rw_calls w), rw_seq := Suc (rw_seq w)\<rparr>"
  let ?f1 = "[(rw_seq w, R_Item_Added (cs_index ?st) (Call_Item False (cs_id ?st) (cs_call_id ?st) (cs_name ?st) []))]"
  have s1: "emits_items w ?f1 ?w1" by (rule open_call_items [OF None]) simp_all
  have up: "AList.update k v (AList.update k v' al) = AList.update k v al" for k v v' and al :: "(string \<times> call_state) list"
    by (induction al) auto
  have eq: "encode_call_start uuid ev w = (let (f2, w) = (if ev_tool_args_delta ev \<noteq> []
      then add_arguments ?tid ?st (ev_tool_args_delta ev) ?w1 else ([], ?w1)) in (?f1 @ f2, w))"
    by (simp add: encode_call_start_def None Let_def say_def put_call_def up)
  show ?thesis
  proof (cases "ev_tool_args_delta ev = []")
    case True
    with e eq s1 show ?thesis by simp
  next
    case False
    obtain f2 w2 where a: "add_arguments ?tid ?st (ev_tool_args_delta ev) ?w1 = (f2, w2)"
      by (cases "add_arguments ?tid ?st (ev_tool_args_delta ev) ?w1")
    have "emits_items ?w1 f2 w2" by (rule add_arguments_items [OF _ _ a]) (simp_all add: update_conv')
    then have "emits_items w (?f1 @ f2) w2" by (rule emits_items_append [OF s1])
    moreover have "fs = ?f1 @ f2" "w' = w2" using e False a unfolding eq by simp_all
    ultimately show ?thesis by simp
  qed
qed

text \<open>A step keeps the message, and closes at most the call it is about.\<close>

definition closed_ids :: "responses_writer \<Rightarrow> string set" where
  "closed_ids w = {tid. \<exists>st. map_of (rw_calls w) tid = Some st \<and> cs_closed st}"

definition step_ok :: "event \<Rightarrow> responses_writer \<Rightarrow> bool" where
  "step_ok ev w \<longleftrightarrow> ev_kind ev \<noteq> EventTurnEnded \<and>
     (ev_kind ev \<in> {EventToolCallStarted, EventToolCallDelta} \<longrightarrow> ev_tool_args_delta ev \<noteq> [] \<longrightarrow>
        ev_tool_call_id ev \<notin> closed_ids w)"

lemma encode_step_items:
  assumes e: "encode_responses uuid ord ev w = (fs, w')" and f: "fresh_text w" and ok: "step_ok ev w"
    and op: "\<forall>x \<in> set (rw_calls w). cs_opened (snd x)"
  shows "emits_items w fs w'"
proof (cases "ev_kind ev")
  case EventTextDelta
  then show ?thesis using e encode_text_items [OF _ f] emits_items_Nil
    by (auto simp: encode_responses_def split: if_splits)
next
  case EventToolCallStarted
  have "cs_opened st" if "map_of (rw_calls w) (ev_tool_call_id ev) = Some st" for st
    using op map_of_SomeD [OF that] by auto
  with EventToolCallStarted show ?thesis using e ok
    by (intro encode_call_start_items [of uuid ev])
      (auto simp: encode_responses_def step_ok_def closed_ids_def)
next
  case EventToolCallDelta
  then show ?thesis using e ok emits_items_Nil add_arguments_items
    by (auto simp: encode_responses_def encode_call_delta_def step_ok_def closed_ids_def
        split: option.splits if_splits)
next
  case EventToolCallCompleted
  then show ?thesis using e emits_items_Nil close_call_items
    by (auto simp: encode_responses_def encode_call_completed_def split: option.splits if_splits)
qed (use e ok emits_items_Nil in \<open>auto simp: encode_responses_def step_ok_def\<close>)

lemma update_twice: "AList.update k v (AList.update k v' al) = AList.update k v al"
  by (induction al) auto

lemmas call_ops = encode_call_start_def encode_call_delta_def encode_call_completed_def close_call_def
  add_arguments_def put_call_def say_def

lemma call_step:
  assumes "encode_responses uuid ord ev w = (fs, w')"
    "ev_kind ev \<in> {EventToolCallStarted, EventToolCallDelta, EventToolCallCompleted}"
    "\<forall>x \<in> set (rw_calls w). cs_opened (snd x)"
  shows "rw_message_open w' = rw_message_open w \<and> rw_text w' = rw_text w \<and>
    (rw_calls w' = rw_calls w \<or>
     (let st = the (map_of (rw_calls w') (ev_tool_call_id ev))
      in rw_calls w' = AList.update (ev_tool_call_id ev) st (rw_calls w) \<and> cs_opened st \<and>
         (cs_closed st \<longrightarrow> ev_tool_call_id ev \<in> closed_ids w \<or> ev_kind ev = EventToolCallCompleted)))"
proof (cases "map_of (rw_calls w) (ev_tool_call_id ev)")
  case None
  then show ?thesis using assms
    by (auto simp: encode_responses_def call_ops Let_def update_twice update_conv' split: if_splits)
next
  case (Some st)
  then have "cs_opened st" using assms(3) map_of_SomeD [OF Some] by auto
  with Some show ?thesis using assms
    by (auto simp: encode_responses_def call_ops Let_def closed_ids_def update_conv' split: if_splits)
qed

lemma encode_step_keeps:
  assumes "encode_responses uuid ord ev w = (fs, w')" "ev_kind ev \<noteq> EventTurnEnded"
    "\<forall>x \<in> set (rw_calls w). cs_opened (snd x)" "distinct (map fst (rw_calls w))" "fresh_text w"
  shows "(\<forall>x \<in> set (rw_calls w'). cs_opened (snd x)) \<and> distinct (map fst (rw_calls w')) \<and> fresh_text w' \<and>
    closed_ids w' \<subseteq> closed_ids w \<union> (if ev_kind ev = EventToolCallCompleted then {ev_tool_call_id ev} else {})"
proof (cases "ev_kind ev \<in> {EventToolCallStarted, EventToolCallDelta, EventToolCallCompleted}")
  case True
  from call_step [OF assms(1) True assms(3)] consider "rw_calls w' = rw_calls w"
    | st where "rw_calls w' = AList.update (ev_tool_call_id ev) st (rw_calls w)" "cs_opened st"
      "cs_closed st \<longrightarrow> ev_tool_call_id ev \<in> closed_ids w \<or> ev_kind ev = EventToolCallCompleted"
    by (auto simp: Let_def)
  moreover have "fresh_text w'" using call_step [OF assms(1) True assms(3)] assms(5) by (simp add: fresh_text_def)
  ultimately show ?thesis
  proof cases
    case 2
    then show ?thesis using assms(3,4) \<open>fresh_text w'\<close>
      by (auto simp: set_update distinct_update closed_ids_def update_conv' split: if_splits)
  qed (use assms(3,4) in \<open>simp add: closed_ids_def\<close>)
next
  case False
  then have "fs = [] \<and> w' = w \<or> encode_text uuid (ev_text ev) w = (fs, w')"
    using assms(1,2) by (auto simp: encode_responses_def split: event_kind.splits if_splits)
  then show ?thesis
    using assms(3-5) encode_text_items [of uuid "ev_text ev" w fs w'] by (auto simp: closed_ids_def)
qed

text \<open>Arguments never follow the completion of their call; the turn's end is not among the events.\<close>

fun turn_ok :: "string list \<Rightarrow> event list \<Rightarrow> bool" where
  "turn_ok done [] = True"
| "turn_ok done (ev # evs) =
     (ev_kind ev \<noteq> EventTurnEnded \<and>
      \<not> (ev_kind ev \<in> {EventToolCallStarted, EventToolCallDelta} \<and> ev_tool_args_delta ev \<noteq> [] \<and>
         ev_tool_call_id ev \<in> set done) \<and>
      turn_ok (if ev_kind ev = EventToolCallCompleted then ev_tool_call_id ev # done else done) evs)"

lemma run_items:
  "turn_ok done evs \<Longrightarrow> closed_ids w \<subseteq> set done \<Longrightarrow> \<forall>x \<in> set (rw_calls w). cs_opened (snd x) \<Longrightarrow>
   distinct (map fst (rw_calls w)) \<Longrightarrow> fresh_text w \<Longrightarrow>
   run_writer (encode_responses uuid ord) evs w = (fs, w') \<Longrightarrow>
     emits_items w fs w' \<and> (\<forall>x \<in> set (rw_calls w'). cs_opened (snd x))"
proof (induction evs arbitrary: w fs w' "done")
  case (Cons ev evs)
  obtain f1 w1 where 1: "encode_responses uuid ord ev w = (f1, w1)" by (cases "encode_responses uuid ord ev w")
  obtain f2 w2 where 2: "run_writer (encode_responses uuid ord) evs w1 = (f2, w2)"
    by (cases "run_writer (encode_responses uuid ord) evs w1")
  let ?done = "if ev_kind ev = EventToolCallCompleted then ev_tool_call_id ev # done else done"
  have k: "ev_kind ev \<noteq> EventTurnEnded" "step_ok ev w" "turn_ok ?done evs"
    using Cons.prems(1,2) by (auto simp: step_ok_def)
  note keeps = encode_step_keeps [OF 1 k(1) Cons.prems(3,4,5)]
  then have "closed_ids w1 \<subseteq> set ?done" using Cons.prems(2) by (auto split: if_splits)
  with Cons.IH [OF k(3) _ _ _ _ 2] keeps
  have "emits_items w1 f2 w2 \<and> (\<forall>x \<in> set (rw_calls w2). cs_opened (snd x))" by blast
  moreover have "emits_items w f1 w1" by (rule encode_step_items [OF 1 Cons.prems(5) k(2) Cons.prems(3)])
  ultimately show ?case using emits_items_append Cons.prems(6) 1 2 by auto
qed (simp add: emits_items_Nil)

subsection \<open>The end of a turn\<close>

lemma finish_message_items:
  assumes e: "finish_message w = (fs, w')"
  shows "emits_items w fs w' \<and> \<not> rw_message_open w' \<and> rw_calls w' = rw_calls w"
proof -
  have "\<exists>q. item_run fs p = Some q \<and> tracked_by w' q" if t: "tracked_by w p" for p
  proof (cases "rw_message_open w")
    case False
    with e t show ?thesis by (auto simp: finish_message_def)
  next
    case True
    let ?i = "rw_message_index w"
    let ?q = "p\<lparr>it_open := AList.delete ?i (AList.update ?i (Open_Message (rw_message_id w) False (rw_text w)) (it_open p))\<rparr>"
    have d: "distinct (map fst (it_open p))" and mo: "message_ok w" and nx: "it_next p = rw_next_index w"
      and so: "set (it_open p) = open_message w \<union> open_calls (rw_calls w)"
      and ci: "calls_indexed (rw_calls w) (rw_next_index w)"
      using t by (simp_all add: tracked_by_def)
    have po: "rw_part_open w" using mo True by (simp add: message_ok_def)
    have l: "map_of (it_open p) ?i = Some (Open_Message (rw_message_id w) True (rw_text w))"
      by (rule tracked_lookup [OF t]) (simp add: open_message_def True po)
    have "item_run fs p = Some ?q"
      using e True po l by (auto simp: finish_message_def say_def Let_def end_item_def put_item_def update_conv')
    moreover have "tracked_by w' ?q"
      using e True po ci nx open_calls_apart [OF mo True]
      by (auto simp: finish_message_def say_def Let_def tracked_by_def set_update [OF d] set_delete
          distinct_update d distinct_delete message_ok_def so open_message_def)
    ultimately show ?thesis by blast
  qed
  then show ?thesis using e
    by (auto simp: emits_items_def finish_message_def say_def Let_def split: if_splits)
qed

lemma close_open_calls_items:
  "close_open_calls xs w = (fs, w') \<Longrightarrow> distinct (map fst xs) \<Longrightarrow>
   \<forall>(tid, st) \<in> set xs. map_of (rw_calls w) tid = Some st \<and> cs_opened st \<Longrightarrow>
     emits_items w fs w' \<and> rw_message_open w' = rw_message_open w \<and>
     (\<forall>tid st. map_of (rw_calls w') tid = Some st \<longrightarrow>
        (if tid \<in> fst ` set xs then cs_closed st else map_of (rw_calls w) tid = Some st))"
proof (induction xs w arbitrary: fs w' rule: close_open_calls.induct)
  case (2 tid st rest w)
  show ?case
  proof (cases "cs_closed st")
    case True
    then have r: "close_open_calls rest w = (fs, w')" using "2.prems"(1) by simp
    have "distinct (map fst rest)" "\<forall>(t, s) \<in> set rest. map_of (rw_calls w) t = Some s \<and> cs_opened s"
      and l: "map_of (rw_calls w) tid = Some st" "tid \<notin> fst ` set rest"
      using "2.prems"(2,3) by auto
    with "2.IH"(1) [OF _ r] True
    have i: "emits_items w fs w'" "rw_message_open w' = rw_message_open w"
      "\<forall>t s. map_of (rw_calls w') t = Some s \<longrightarrow>
         (if t \<in> fst ` set rest then cs_closed s else map_of (rw_calls w) t = Some s)" by simp_all
    have "if t \<in> fst ` set ((tid, st) # rest) then cs_closed s else map_of (rw_calls w) t = Some s"
      if "map_of (rw_calls w') t = Some s" for t s
      using i(3) that l True by (cases "t = tid") (auto split: if_splits)
    with i show ?thesis by blast
  next
    case False
    obtain f1 w1 where 1: "close_call tid st w = (f1, w1)" by (cases "close_call tid st w")
    obtain f2 w2 where r: "close_open_calls rest w1 = (f2, w2)" by (cases "close_open_calls rest w1")
    have l: "map_of (rw_calls w) tid = Some st" "cs_opened st" "tid \<notin> fst ` set rest"
      using "2.prems" by auto
    have w1: "rw_calls w1 = AList.update tid (st\<lparr>cs_closed := True\<rparr>) (rw_calls w)"
      "rw_message_open w1 = rw_message_open w"
      using 1 by (auto simp: close_call_def say_def put_call_def Let_def)
    have k: "\<not> (\<not> cs_opened st \<or> cs_closed st)" using l(2) False by simp
    have keys: "\<forall>(t, s) \<in> set rest. map_of (rw_calls w1) t = Some s \<and> cs_opened s"
      using "2.prems"(3) l(3) by (force simp: w1 update_conv')
    have "distinct (map fst rest)" using "2.prems"(2) by simp
    from "2.IH"(2) [OF k 1 [symmetric] refl r this keys]
    have i: "emits_items w1 f2 w2" "rw_message_open w2 = rw_message_open w1"
      "\<forall>t s. map_of (rw_calls w2) t = Some s \<longrightarrow>
         (if t \<in> fst ` set rest then cs_closed s else map_of (rw_calls w1) t = Some s)" by simp_all
    have "emits_items w (f1 @ f2) w2"
      using emits_items_append [OF close_call_items [OF l(1) False 1] i(1)] .
    moreover have "fs = f1 @ f2" "w' = w2" using "2.prems"(1) k 1 r by auto
    moreover have "if t \<in> fst ` set ((tid, st) # rest) then cs_closed s else map_of (rw_calls w) t = Some s"
      if "map_of (rw_calls w2) t = Some s" for t s
    proof -
      have "if t \<in> fst ` set rest then cs_closed s else map_of (rw_calls w1) t = Some s"
        using i(3) that by blast
      then show ?thesis using l(3) by (cases "t = tid") (auto simp: w1 update_conv' split: if_splits)
    qed
    ultimately show ?thesis using i(2) w1(2) by blast
  qed
qed (simp add: emits_items_Nil)

lemma encode_turn_items:
  assumes e: "encode_turn ord w = (fs, w')" and t: "tracked_by w p"
    and o: "mset (ord (rw_calls w)) = mset (rw_calls w)" and op: "\<forall>x \<in> set (rw_calls w). cs_opened (snd x)"
  shows "\<exists>q. item_run fs p = Some q \<and> it_open q = [] \<and> rw_completed_emitted w'"
proof -
  obtain f1 w1 where 1: "finish_message w = (f1, w1)" by (cases "finish_message w")
  obtain f2 w2 where 2: "close_open_calls (ord (rw_calls w1)) w1 = (f2, w2)"
    by (cases "close_open_calls (ord (rw_calls w1)) w1")
  obtain f3 w3 where 3: "build_completed_frame w2 = (f3, w3)" by (cases "build_completed_frame w2")
  note m = finish_message_items [OF 1]
  have so: "set (ord (rw_calls w)) = set (rw_calls w)" by (metis o set_mset_mset)
  have d: "distinct (map fst (rw_calls w))" using t by (simp add: tracked_by_def calls_indexed_def)
  have "mset (map fst (ord (rw_calls w))) = mset (map fst (rw_calls w))" using o by simp
  then have do: "distinct (map fst (ord (rw_calls w)))" using d by (metis mset_eq_imp_distinct_iff)
  have "\<forall>(tid, st) \<in> set (ord (rw_calls w1)). map_of (rw_calls w1) tid = Some st \<and> cs_opened st"
    using op d m by (auto simp: so)
  note cl = close_open_calls_items [OF 2 _ this]
  have w1: "rw_calls w1 = rw_calls w" "\<not> rw_message_open w1" using m by simp_all
  from cl do have c: "emits_items w1 f2 w2" "\<not> rw_message_open w2"
    "\<forall>tid st. map_of (rw_calls w2) tid = Some st \<longrightarrow>
       (if tid \<in> fst ` set (rw_calls w) then cs_closed st else map_of (rw_calls w) tid = Some st)"
    unfolding w1 so using w1(2) by simp_all
  obtain p1 where p1: "item_run f1 p = Some p1" "tracked_by w1 p1" using m t by (auto simp: emits_items_def)
  then obtain p2 where p2: "item_run f2 p1 = Some p2" "tracked_by w2 p2" using c(1) by (auto simp: emits_items_def)
  have "cs_closed st" if "(tid, st) \<in> set (rw_calls w2)" for tid st
  proof -
    have "map_of (rw_calls w2) tid = Some st"
      using that p2(2) by (auto simp: tracked_by_def calls_indexed_def)
    with c(3) have "if tid \<in> fst ` set (rw_calls w) then cs_closed st else map_of (rw_calls w) tid = Some st" by blast
    then show ?thesis by (auto split: if_splits simp: map_of_eq_None_iff image_iff dest!: map_of_SomeD)
  qed
  then have "open_calls (rw_calls w2) = {}" by (auto simp: open_calls_def)
  then have "set (it_open p2) = {}" using p2(2) c(2) by (simp add: tracked_by_def open_message_def)
  then have "it_open p2 = []" by simp
  moreover have "rw_completed_emitted w3" "item_run f3 p2 = (if it_open p2 = [] then Some p2 else None)"
    using 3 by (auto simp: build_completed_frame_def say_def Let_def)
  ultimately have "item_run (f1 @ f2 @ f3) p = Some p2" by (simp add: item_run_append p1 p2)
  moreover have "fs = f1 @ f2 @ f3" "w' = w3" using e by (simp_all add: encode_turn_def 1 2 3)
  ultimately show ?thesis using \<open>it_open p2 = []\<close> \<open>rw_completed_emitted w3\<close> by blast
qed

lemma whole_stream_items:
  assumes "turn_ok [] evs" and "\<And>cs. mset (ord cs) = mset cs" and e: "ev_kind e = EventTurnEnded"
  shows "\<exists>p. item_run (fst (whole_stream uuid ord (evs @ [e]) (new_responses_writer m i t)))
      \<lparr>it_next = 0, it_open = []\<rparr> = Some p \<and> it_open p = []"
proof -
  let ?w = "new_responses_writer m i t" and ?p = "\<lparr>it_next = 0, it_open = []\<rparr>"
  let ?up = "\<lambda>w. if ev_usage e \<noteq> None then w\<lparr>rw_last_usage := ev_usage e\<rparr> else w"
  obtain f1 w1 where 1: "initial_frames ?w = (f1, w1)" by (cases "initial_frames ?w")
  have w1: "rw_calls w1 = []" "fresh_text w1" "tracked_by w1 ?p" "item_run f1 ?p = Some ?p"
    using 1 by (auto simp: initial_frames_def say_def Let_def new_responses_writer_def fresh_text_def
        tracked_by_def calls_indexed_def message_ok_def open_message_def open_calls_def)
  obtain f2 w2 where 2: "run_writer (encode_responses uuid ord) evs w1 = (f2, w2)"
    by (cases "run_writer (encode_responses uuid ord) evs w1")
  have r: "emits_items w1 f2 w2" "\<forall>x \<in> set (rw_calls w2). cs_opened (snd x)"
    using run_items [OF assms(1) _ _ _ w1(2) 2] w1(1) by (simp_all add: closed_ids_def)
  then obtain p2 where p2: "item_run f2 ?p = Some p2" "tracked_by w2 p2"
    using w1(3) by (auto simp: emits_items_def)
  obtain f3 w3 where 3: "encode_turn ord (?up w2) = (f3, w3)" by (cases "encode_turn ord (?up w2)")
  have "tracked_by (?up w2) p2" using p2(2) by (simp add: tracked_by_def message_ok_def open_message_def)
  moreover have "\<forall>x \<in> set (rw_calls (?up w2)). cs_opened (snd x)" using r(2) by simp
  ultimately obtain q where q: "item_run f3 p2 = Some q" "it_open q = []" "rw_completed_emitted w3"
    using encode_turn_items [OF 3 _ assms(2)] by blast
  have "encode_responses uuid ord e w2 = (f3, w3)"
    using 3 e by (auto simp: encode_responses_def split: if_splits)
  then have "fst (whole_stream uuid ord (evs @ [e]) ?w) = f1 @ f2 @ f3"
    using q(3) by (simp add: whole_stream_def 1 run_writer_snoc 2 final_completed_frame_def)
  then show ?thesis by (simp add: item_run_append w1(4) p2(1) q)
qed

text \<open>
  C23: The items of a Responses stream are well formed. For every turn in which no arguments
  follow the completion of their call, a client accepts the whole stream: each item is announced
  with the next output index; text and arguments only arrive for open items, under the right id
  and index; the closing frames repeat exactly the text and the arguments that were streamed;
  calls are closed once, whatever the order in which the leftover ones are visited; and the
  completed frame comes when no item is open.
\<close>

theorem responses_item_protocol:
  assumes "turn_ok [] evs" and "\<And>cs. mset (ord cs) = mset cs"
  shows "\<exists>p. item_run (fst (whole_stream uuid ord (evs @ [turn_end u]) (new_responses_writer m i t)))
      \<lparr>it_next = 0, it_open = []\<rparr> = Some p \<and> it_open p = []"
  by (rule whole_stream_items [OF assms]) simp

lemma responses_item_protocol_witness:
  "\<exists>p. item_run (fst (whole_stream (\<lambda>_. ''u'') rev ([call_event EventToolCallStarted ''a'' ''f'' ''x'',
      (event_of EventTextDelta)\<lparr>ev_text := ''hi''\<rparr>] @ [turn_end None]) (new_responses_writer ''m'' ''i'' 0)))
      \<lparr>it_next = 0, it_open = []\<rparr> = Some p \<and> it_open p = []"
  by (rule responses_item_protocol) (simp_all add: call_event_def event_of_def)

subsection \<open>Text\<close>

definition delta_text :: "(nat \<times> rframe) list \<Rightarrow> string" where
  "delta_text fs = concat (map (\<lambda>f. case snd f of R_Text_Delta _ _ s \<Rightarrow> s | _ \<Rightarrow> []) fs)"

lemma delta_text_simps [simp]:
  "delta_text [] = []"
  "delta_text ((n, R_Text_Delta m i s) # fs) = s @ delta_text fs"
  "delta_text (fs @ gs) = delta_text fs @ delta_text gs"
  by (simp_all add: delta_text_def)

lemma delta_text_calls: "delta_text (fst (close_open_calls xs w)) = []"
proof (induction xs w rule: close_open_calls.induct)
  case (2 tid st rest w)
  obtain f1 w1 where 1: "close_call tid st w = (f1, w1)" by (cases "close_call tid st w")
  then have "delta_text f1 = []" by (auto simp: close_call_def say_def Let_def delta_text_def)
  with 2 1 show ?case by (auto split: prod.splits)
qed simp

lemma delta_text_turn: "delta_text (fst (encode_turn ord w)) = []"
proof -
  obtain f1 w1 where 1: "finish_message w = (f1, w1)" by (cases "finish_message w")
  obtain f2 w2 where 2: "close_open_calls (ord (rw_calls w1)) w1 = (f2, w2)"
    by (cases "close_open_calls (ord (rw_calls w1)) w1")
  have "delta_text f1 = []"
    using 1 by (auto simp: finish_message_def say_def Let_def delta_text_def split: if_splits)
  moreover have "delta_text f2 = []" using delta_text_calls [of "ord (rw_calls w1)" w1] 2 by simp
  ultimately show ?thesis
    by (auto simp: encode_turn_def 1 2 build_completed_frame_def say_def Let_def delta_text_def)
qed

interpretation responses_text: text_writer "encode_responses uuid ord" "\<lambda>_. True" delta_text for uuid ord
proof
  fix w ev fs w'
  assume e: "encode_responses uuid ord ev w = (fs, w')"
  show "True \<and> delta_text fs = step_text ev"
  proof (cases "ev_kind ev")
    case EventTextDelta
    with e show ?thesis
      by (auto simp: encode_responses_def encode_text_def say_def Let_def step_text_def delta_text_def split: if_splits)
  next
    case EventTurnEnded
    with e delta_text_turn [of ord] show ?thesis
      by (auto simp: encode_responses_def step_text_def split: if_splits) (metis fst_conv)+
  qed (use e in \<open>auto simp: encode_responses_def step_text_def call_ops Let_def delta_text_def
         split: option.splits if_splits\<close>)
qed simp_all

subsection \<open>The aggregated response\<close>

text \<open>
  The final object of a stream can lose or pad its output. The items of
  \<^verbatim>\<open>response.completed\<close> are collected by two rules that do not fit together: a finished call is
  appended, the message is stored at its output index. If a call completes before the turn ends
  and text came first, the message overwrites the call: the streamed call is missing from the
  final output. If the call came first and is only closed at the end of the turn, its place is
  left as null.
\<close>

definition final_output :: "event list \<Rightarrow> item option list" where
  "final_output evs =
     (let (fs, _) = whole_stream (\<lambda>_. []) (\<lambda>x. x) (evs @ [turn_end None]) (new_responses_writer [] [] 0)
      in concat (map (\<lambda>f. case snd f of R_Completed xs _ \<Rightarrow> xs | _ \<Rightarrow> []) fs))"

theorem responses_completed_output_gap:
  "let said = (event_of EventTextDelta)\<lparr>ev_text := c # s\<rparr>;
       start = call_event EventToolCallStarted tid name args;
       finished = call_event EventToolCallCompleted tid [] [];
       message = Some (Message_Done ''msg_'' (c # s));
       call = Some (Call_Item True ''fc_'' tid name args)
   in final_output [said, start, finished] = [message] \<and>
      final_output [start, said] = [None, message, call] \<and>
      final_output [said, start] = [message, call] \<and>
      final_output [start, finished, said] = [call, message]"
  by (simp add: final_output_def whole_stream_def initial_frames_def say_def Let_def new_responses_writer_def
      encode_responses_def call_event_def event_of_def turn_end_def encode_text_def encode_call_start_def
      encode_call_completed_def put_call_def add_arguments_def close_call_def done_call_def encode_turn_def
      finish_message_def insert_at_output_index_def build_completed_frame_def final_completed_frame_def)

subsection \<open>The non-streaming answer\<close>

definition plain_call :: "call_state \<Rightarrow> string \<times> string \<times> string" where
  "plain_call c = (cs_call_id c, cs_name c, cs_args c)"

lemma append_args_plain:
  "distinct (map cs_call_id cs) \<Longrightarrow>
     map plain_call (append_args tid a cs) =
       map (\<lambda>(t, n, b). if t = tid then (t, n, b @ a) else (t, n, b)) (map plain_call cs) \<and>
     map cs_call_id (append_args tid a cs) = map cs_call_id cs"
  by (induction cs) (auto simp: plain_call_def image_iff intro!: map_idI)

lemma consume_responses_step:
  assumes "distinct (map cs_call_id (ra_calls a))" "call_ok ev (map cs_call_id (ra_calls a))"
  shows "map plain_call (ra_calls (consume_responses uuid ev a)) = add_call ev (map plain_call (ra_calls a)) \<and>
    map cs_call_id (ra_calls (consume_responses uuid ev a)) = next_ids ev (map cs_call_id (ra_calls a)) \<and>
    distinct (next_ids ev (map cs_call_id (ra_calls a))) \<and>
    ra_text (consume_responses uuid ev a) = ra_text a @ step_text ev"
  using assms append_args_plain [OF assms(1)]
  by (auto simp: consume_responses_def add_call_def next_ids_def call_ok_def step_text_def plain_call_def
      split: event_kind.splits)

lemma consume_responses_all:
  "distinct (map cs_call_id (ra_calls a)) \<Longrightarrow> calls_ok (map cs_call_id (ra_calls a)) evs \<Longrightarrow>
     map plain_call (ra_calls (fold (consume_responses uuid) evs a)) = fold add_call evs (map plain_call (ra_calls a)) \<and>
     ra_text (fold (consume_responses uuid) evs a) = ra_text a @ events_text evs"
proof (induction evs arbitrary: a)
  case (Cons ev evs)
  have "call_ok ev (map cs_call_id (ra_calls a))" using Cons.prems(2) by simp
  note s = consume_responses_step [OF Cons.prems(1) this, of uuid]
  show ?case using Cons.IH [of "consume_responses uuid ev a"] s Cons.prems(2) by simp
qed simp

text \<open>
  The single Responses answer carries the same turn as the Chat Completions stream. For every
  turn in which each call is started once and its arguments follow, the accumulator holds the text
  and the calls (id, name, complete arguments, in order of their starts) that a client of the Chat
  Completions stream assembles from the same events.
\<close>

theorem responses_answer_matches_chat_stream:
  assumes "calls_ok [] evs"
  shows "let a = fold (consume_responses uuid) evs (new_responses_accumulator m)
         in \<exists>c. client_run (fst (run_writer encode_openai evs (new_openai_stream_writer m' u t))) fresh_client = Some c \<and>
              map plain_call (ra_calls a) = cl_calls c \<and> ra_text a = cl_text c"
proof -
  have "client_run (fst (run_writer encode_openai evs (new_openai_stream_writer m' u t))) fresh_client =
      Some (fold turn_step evs fresh_client)"
    using openai_stream_client [OF writes_for_new, of evs] assms by (simp add: call_ids_def fresh_client_def)
  moreover have "map plain_call (ra_calls (fold (consume_responses uuid) evs (new_responses_accumulator m))) =
      cl_calls (fold turn_step evs fresh_client)"
    "ra_text (fold (consume_responses uuid) evs (new_responses_accumulator m)) = cl_text (fold turn_step evs fresh_client)"
    using consume_responses_all [of "new_responses_accumulator m" evs uuid] assms
    by (simp_all add: fold_turn_calls fold_turn_text new_responses_accumulator_def fresh_client_def)
  ultimately show ?thesis by (simp add: Let_def)
qed

lemma responses_answer_matches_chat_stream_witness:
  "let evs = [call_event EventToolCallStarted ''a'' ''f'' [], call_event EventToolCallDelta ''a'' [] ''x''];
       a = fold (consume_responses (\<lambda>_. ''u'')) evs (new_responses_accumulator ''m'')
   in (\<exists>c. client_run (fst (run_writer encode_openai evs (new_openai_stream_writer ''m'' ''u'' 0))) fresh_client = Some c \<and>
         map plain_call (ra_calls a) = cl_calls c \<and> ra_text a = cl_text c) \<and>
      map plain_call (ra_calls a) = [(''a'', ''f'', ''x'')]"
proof -
  let ?evs = "[call_event EventToolCallStarted ''a'' ''f'' [], call_event EventToolCallDelta ''a'' [] ''x'']"
  have ok: "calls_ok [] ?evs" by (simp add: call_ok_def next_ids_def call_event_def event_of_def)
  show ?thesis unfolding Let_def
    by (intro conjI responses_answer_matches_chat_stream [OF ok, unfolded Let_def])
      (simp add: consume_responses_def plain_call_def call_event_def event_of_def new_responses_accumulator_def)
qed

end
