(* ===== verification/ResponsesHandler.thy ===== *)
theory ResponsesHandler
  imports ChatDelivery ResponsesProtocol
begin

text \<open>
  \<^verbatim>\<open>streamResponses\<close> and \<^verbatim>\<open>nonStreamResponses\<close> of \<^verbatim>\<open>cmd/cursor-proxy/responses_handler.go\<close>. The stream is
  the loop of ChatLoop over a writer that holds the initial frames back until the first output.
\<close>

subsection \<open>The handlers\<close>

type_synonym held_writer = "(nat \<times> rframe) list \<times> responses_writer"

definition write_held :: "(event \<Rightarrow> responses_writer \<Rightarrow> say) \<Rightarrow> event \<Rightarrow> held_writer \<Rightarrow> (nat \<times> rframe) list \<times> held_writer" where
  "write_held enc ev = (\<lambda>(init, w).
     case enc ev w of (fs, w) \<Rightarrow>
       if ev_kind ev = EventTurnEnded \<or> ev_kind ev = EventTextDelta \<and> ev_text ev = []
       then (fs, init, w) else (init @ fs, [], w))"

definition finish_responses :: "(event \<Rightarrow> responses_writer \<Rightarrow> say) \<Rightarrow> (held_writer, nat \<times> rframe) loop \<Rightarrow>
    (nat \<times> rframe) answer" where
  "finish_responses enc st =
     (case failure write_upstream_openai_error write_empty_upstream_openai_error st of
        Some r \<Rightarrow> Failed r
      | None \<Rightarrow>
          let (init, w) = lp_writer st;
              (f1, w) = (if \<not> lp_saw_turn_end st then enc (turn_end None) w
                         else if \<not> lp_wrote_turn_end st then enc (turn_end (lp_last_usage st)) w else ([], w));
              (f2, w) = final_completed_frame w
          in Stream (lp_frames st @ init @ f1 @ f2))"

definition stream_responses :: "(server_message \<Rightarrow> event option) \<Rightarrow> (event \<Rightarrow> responses_writer \<Rightarrow> say) \<Rightarrow> sim_cache_decision \<Rightarrow>
    responses_writer \<Rightarrow> chat_event list \<Rightarrow> (nat \<times> rframe) answer" where
  "stream_responses tr enc d w ces =
     finish_responses enc (fold (loop_step tr (write_held enc)
       [EventToolCallStarted, EventToolCallDelta, EventToolCallCompleted] d) ces (new_loop (initial_frames w)))"

definition non_stream_responses :: "(server_message \<Rightarrow> event option) \<Rightarrow> (nat \<Rightarrow> string) \<Rightarrow> sim_cache_decision \<Rightarrow>
    string \<Rightarrow> string \<Rightarrow> string \<Rightarrow> int \<Rightarrow> chat_event list \<Rightarrow> answer_or_error" where
  "non_stream_responses tr uuid d model muid rid now ces =
     (case fold (single_step tr (consume_responses uuid)) ces (new_responses_accumulator model, [], None) of (a, _, err) \<Rightarrow>
        if err \<noteq> None \<and> \<not> has_output a then Error_Answer (write_upstream_openai_error err)
        else if is_empty_upstream_response (has_output a) (ra_usage a)
          then Error_Answer write_empty_upstream_openai_error
        else Answer (header_after d (case ra_usage a of None \<Rightarrow> 0 | Some u \<Rightarrow> u_cache_read u))
          (responses_response muid (''resp_'' @ rid) now (a\<lparr>ra_usage := apply_to_usage d (ra_usage a) False\<rparr>)))"

subsection \<open>The stream is one run of the writer\<close>

text \<open>The initial frames come first; before them only steps that write nothing.\<close>

lemma held_run:
  assumes "loop_says_all tr fw d ces (t, out) = (evs, t', out')" and "run_writer enc evs w = (fs, w')"
    and mute: "\<And>ev w. ev_kind ev = EventTextDelta \<Longrightarrow> ev_text ev = [] \<Longrightarrow> enc ev w = ([], w)"
    and "EventTurnEnded \<notin> set fw" "EventTextDelta \<notin> set fw"
  shows "run_writer (write_held enc) evs (if out then [] else init, w) =
    (if out' \<and> \<not> out then init @ fs else fs, if out' then [] else init, w') \<and>
    (out \<longrightarrow> out') \<and> (\<not> out' \<longrightarrow> fs = [] \<and> w' = w)"
  using assms(1,2)
proof (induction ces arbitrary: t out evs w fs)
  case (Cons ce ces)
  obtain e1 t1 o1 where 1: "loop_says tr fw d ce (t, out) = (e1, t1, o1)" by (cases "loop_says tr fw d ce (t, out)")
  obtain e2 where 2: "loop_says_all tr fw d ces (t1, o1) = (e2, t', out')" and e: "evs = e1 @ e2"
    using Cons.prems(1) 1 by (auto split: prod.splits)
  obtain f1 w1 where f1: "run_writer enc e1 w = (f1, w1)" by (cases "run_writer enc e1 w")
  obtain f2 where f2: "run_writer enc e2 w1 = (f2, w')" and f: "fs = f1 @ f2"
    using Cons.prems(2) f1 e by (auto simp: run_writer_append split: prod.splits)
  have s: "run_writer (write_held enc) e1 (if out then [] else init, w) =
      (if o1 \<and> \<not> out then init @ f1 else f1, if o1 then [] else init, w1) \<and>
      (out \<longrightarrow> o1) \<and> (\<not> o1 \<longrightarrow> f1 = [] \<and> w1 = w)"
  proof (cases rule: loop_says_one [OF 1 assms(4,5)])
    case (2 ev)
    with f1 show ?thesis using mute [of ev w] by (cases "ev_text ev = []") (auto simp: write_held_def)
  next
    case (3 ev)
    with f1 show ?thesis by (auto simp: write_held_def)
  next
    case (4 ev)
    then have "ev_kind ev \<noteq> EventTurnEnded" "ev_kind ev \<noteq> EventTextDelta" using assms(4,5) by auto
    moreover have "enc ev w = (f1, w1)" using f1 unfolding 4(1) by (simp split: prod.splits)
    ultimately show ?thesis unfolding 4(1) using 4(3) by (simp add: write_held_def)
  qed (use f1 in auto)
  note ih = Cons.IH [OF 2 f2]
  have "run_writer (write_held enc) evs (if out then [] else init, w) =
      ((if o1 \<and> \<not> out then init @ f1 else f1) @ (if out' \<and> \<not> o1 then init @ f2 else f2), if out' then [] else init, w')"
    by (simp only: e run_writer_append s [THEN conjunct1] ih [THEN conjunct1] Let_def prod.case)
  moreover have "out \<longrightarrow> o1" "\<not> o1 \<longrightarrow> f1 = []" "\<not> o1 \<longrightarrow> w1 = w" using s by blast+
  moreover have "o1 \<longrightarrow> out'" "\<not> out' \<longrightarrow> f2 = []" "\<not> out' \<longrightarrow> w' = w1" using ih by blast+
  ultimately show ?case unfolding f by (cases o1; cases out') auto
qed simp

lemma empty_text_mute: "ev_kind ev = EventTextDelta \<Longrightarrow> ev_text ev = [] \<Longrightarrow> encode_responses uuid ord ev w = ([], w)"
  by (simp add: encode_responses_def)

abbreviation forwarded :: "event_kind list" where
  "forwarded \<equiv> [EventToolCallStarted, EventToolCallDelta, EventToolCallCompleted]"

lemma stream_responses_run:
  assumes "stream_responses tr (encode_responses uuid ord) d w0 ces = Stream fs"
    and says: "loop_says_all tr forwarded d ces ([], False) = (evs, v)"
  shows "\<exists>evs'. fs = fst (whole_stream uuid ord (evs @ evs') w0) \<and>
    (if list_ex ends_turn evs then evs' = [] else \<exists>u. evs' = [turn_end u])"
proof -
  let ?enc = "encode_responses uuid ord"
  obtain init w1 where i: "initial_frames w0 = (init, w1)" by (cases "initial_frames w0")
  define st where "st = fold (loop_step tr (write_held ?enc) forwarded d) ces (new_loop (init, w1))"
  obtain f w2 where f: "run_writer ?enc evs w1 = (f, w2)" by (cases "run_writer ?enc evs w1")
  obtain t out where v: "v = (t, out)" by (cases v)
  have held: "run_writer (write_held ?enc) evs (init, w1) = (if out then init @ f else f, if out then [] else init, w2)"
    "\<not> out \<longrightarrow> f = []"
    using held_run [OF says [unfolded v] f empty_text_mute, of init] by auto
  have st: "lp_frames st = (if out then init @ f else f)" "lp_writer st = (if out then [] else init, w2)"
    using loop_says [of tr forwarded d ces "new_loop (init, w1)" evs v "write_held ?enc"] says held(1) by (simp_all add: st_def)
  have "turn_flags (new_loop (init, w1) :: (held_writer, nat \<times> rframe) loop) = (False, True)"
    by (simp add: turn_flags_def new_loop_def)
  then have flags: "lp_wrote_turn_end st = list_ex ends_turn evs" "lp_wrote_turn_end st \<longrightarrow> lp_saw_turn_end st"
    using loop_flags [of tr forwarded d ces "new_loop (init, w1)" evs v False "write_held ?enc"] says
    by (simp_all add: st_def turn_flags_def)
  let ?tail = "\<lambda>u. init @ f @ fst (?enc (turn_end u) w2) @ fst (final_completed_frame (snd (?enc (turn_end u) w2)))"
  have "finish_responses ?enc st = Stream fs"
    using assms(1) by (simp add: stream_responses_def i st_def)
  then have fin: "fs = (if \<not> lp_saw_turn_end st then ?tail None
      else if \<not> lp_wrote_turn_end st then ?tail (lp_last_usage st)
      else init @ f @ fst (final_completed_frame w2))"
    using held(2) by (auto simp: finish_responses_def st Let_def split: option.splits prod.splits if_splits)
  have whole: "fst (whole_stream uuid ord (evs @ [turn_end u]) w0) = ?tail u" for u
    by (simp add: whole_stream_def i run_writer_snoc f split: prod.splits)
  show ?thesis
  proof (cases "list_ex ends_turn evs")
    case True
    then have "fs = fst (whole_stream uuid ord (evs @ []) w0)"
      using fin flags by (simp add: whole_stream_def i f split: prod.splits)
    with True show ?thesis by auto
  next
    case False
    then have "fs = ?tail None \<or> fs = ?tail (lp_last_usage st)" using fin flags(1) by (auto split: if_splits)
    then have "\<exists>u. fs = fst (whole_stream uuid ord (evs @ [turn_end u]) w0)" using whole by metis
    with False show ?thesis by auto
  qed
qed

lemma delta_text_whole:
  "delta_text (fst (whole_stream uuid ord evs w)) = events_text evs"
proof -
  obtain f1 w1 where 1: "initial_frames w = (f1, w1)" by (cases "initial_frames w")
  obtain f2 w2 where 2: "run_writer (encode_responses uuid ord) evs w1 = (f2, w2)"
    by (cases "run_writer (encode_responses uuid ord) evs w1")
  have "delta_text f1 = []" using 1 by (auto simp: initial_frames_def say_def Let_def delta_text_def)
  moreover obtain f3 w3 where 3: "final_completed_frame w2 = (f3, w3)" by (cases "final_completed_frame w2")
  then have "delta_text f3 = []"
    by (auto simp: final_completed_frame_def build_completed_frame_def say_def Let_def delta_text_def split: if_splits)
  ultimately show ?thesis
    using responses_text.run_text [OF TrueI 2] by (simp add: whole_stream_def 1 2 3)
qed

subsection \<open>The order of calls\<close>

lemma turn_ok_append: "turn_ok ids (xs @ ys) \<longleftrightarrow> turn_ok ids xs \<and>
    turn_ok (rev (map ev_tool_call_id (filter (\<lambda>ev. ev_kind ev = EventToolCallCompleted) xs)) @ ids) ys"
  by (induction xs arbitrary: ids) auto

lemma says_turn_ok:
  assumes "calls_in_order ids tr ces" "loop_says_all tr forwarded d ces st = (evs, st')"
    and "list_all args_with_start evs" and "evs = pre @ post" "list_all (\<lambda>ev. \<not> ends_turn ev) pre"
  shows "turn_ok ids pre"
  using assms
proof (induction ces arbitrary: ids st evs st' pre post)
  case (Cons ce ces)
  obtain t out where st: "st = (t, out)" by (cases st)
  obtain e1 v1 where 1: "loop_says tr forwarded d ce st = (e1, v1)" by (cases "loop_says tr forwarded d ce st")
  obtain e2 v2 where 2: "loop_says_all tr forwarded d ces v1 = (e2, v2)" by (cases "loop_says_all tr forwarded d ces v1")
  have e: "evs = e1 @ e2" using Cons.prems(2) 1 2 by simp
  have order: "list_all (\<lambda>c. fst c \<notin> set ids) (chat_call tr ce)" "calls_in_order (completed_ids tr ce @ ids) tr ces"
    using Cons.prems(1) by simp_all
  consider "e1 = []" "completed_ids tr ce = []"
    | ev where "e1 = [ev]" "ev_kind ev = EventToolCallCompleted" "completed_ids tr ce = [ev_tool_call_id ev]"
    | ev where "e1 = [ev]" "ev_kind ev \<noteq> EventToolCallCompleted" "completed_ids tr ce = []"
        "ev_kind ev = EventToolCallStarted \<longrightarrow> ev_tool_call_id ev \<notin> set ids"
    using 1 order(1)
    by (auto simp: st loop_says_def completed_ids_def chat_call_def
        split: chat_event.splits option.splits prod.splits if_splits)
  then show ?case
  proof cases
    case 1
    with Cons.IH [of ids v1 e2 v2 pre post] order(2) 2 Cons.prems(3-5) e show ?thesis by simp
  next
    case (2 ev)
    show ?thesis
    proof (cases pre)
      case (Cons x xs)
      then have x: "x = ev" "e2 = xs @ post" using Cons.prems(4) e 2(1) by auto
      with Cons.IH [of "ev_tool_call_id ev # ids" v1 e2 v2 xs post] order(2) \<open>loop_says_all tr forwarded d ces v1 = (e2, v2)\<close>
        Cons.prems(3,5) e 2 Cons show ?thesis by (simp add: ends_turn_def)
    qed simp
  next
    case (3 ev)
    show ?thesis
    proof (cases pre)
      case (Cons x xs)
      then have x: "x = ev" "e2 = xs @ post" using Cons.prems(4) e 3(1) by auto
      have "args_with_start ev" using Cons.prems(3) e 3(1) by simp
      with x Cons.IH [of ids v1 e2 v2 xs post] order(2) \<open>loop_says_all tr forwarded d ces v1 = (e2, v2)\<close>
        Cons.prems(3,5) e 3 Cons show ?thesis by (auto simp: ends_turn_def args_with_start_def)
    qed simp
  qed
qed simp

subsection \<open>The answers\<close>

definition no_items :: items where
  "no_items = \<lparr>it_next = 0, it_open = []\<rparr>"



end
