(* ===== verification/Gemini.thy ===== *)
theory Gemini
  imports OpenAI
begin

text \<open>
  Model of \<^verbatim>\<open>translator/gemini.go\<close>: the stream writer of Gemini's native protocol, the
  accumulator of its non-streaming answer and the model list. A frame is a value of \<open>gframe\<close>.
  The map of pending calls is a list of pairs with distinct keys; the order in which it is
  iterated at the end of a turn is the argument \<open>ord\<close>. The arguments of a call are the decoded
  JSON value; that Go prints a decoded value again with sorted members and shortest numbers is
  not modelled.
\<close>

definition gemini_usage :: "usage option \<Rightarrow> json" where
  "gemini_usage u =
     (case u of
        None \<Rightarrow> JObj [(''candidatesTokenCount'', json_int 0), (''promptTokenCount'', json_int 0),
                       (''totalTokenCount'', json_int 0)]
      | Some v \<Rightarrow>
          let output = normalized_output_tokens u; total = i64 (u_input v + output) in
          JObj ((if u_cache_read v > 0 then [(''cachedContentTokenCount'', json_int (u_cache_read v))] else []) @
                [(''candidatesTokenCount'', json_int output), (''promptTokenCount'', json_int (u_input v)),
                 (''totalTokenCount'', json_int total)]))"

datatype gframe =
    G_Text string
  | G_Call string json
  | G_Final "usage option"

record gemini_call =
  gc_name :: string
  gc_args :: string

record gemini_writer =
  gw_model :: string
  gw_sent_any :: bool
  gw_seen_tool_call :: bool
  gw_calls :: "(string \<times> gemini_call) list"
  gw_text :: string
  gw_last_usage :: "usage option"

definition new_gemini_writer :: "string \<Rightarrow> gemini_writer" where
  "new_gemini_writer model = \<lparr>gw_model = model, gw_sent_any = False, gw_seen_tool_call = False,
     gw_calls = [], gw_text = [], gw_last_usage = None\<rparr>"

fun gframe_part :: "gframe \<Rightarrow> json" where
  "gframe_part (G_Text s) = JObj [(''text'', JStr s)]"
| "gframe_part (G_Call n a) = JObj [(''functionCall'', JObj [(''args'', a), (''name'', JStr n)])]"
| "gframe_part (G_Final _) = JNull"

definition final_response :: "string \<Rightarrow> json list \<Rightarrow> usage option \<Rightarrow> json" where
  "final_response model parts u =
     JObj [(''candidates'', JArr [JObj [
              (''content'', JObj [(''parts'', JArr parts), (''role'', JStr ''model'')]),
              (''finishReason'', JStr ''STOP''), (''index'', json_int 0), (''safetyRatings'', JArr [])]]),
           (''modelVersion'', JStr model), (''usageMetadata'', gemini_usage u)]"

fun gframe_json :: "gemini_writer \<Rightarrow> gframe \<Rightarrow> json" where
  "gframe_json w (G_Final u) = final_response (gw_model w) [] u"
| "gframe_json w f = JObj [(''candidates'', JArr [JObj [
      (''content'', JObj [(''parts'', JArr [gframe_part f]), (''role'', JStr ''model'')]),
      (''index'', json_int 0)]]), (''modelVersion'', JStr (gw_model w))]"

definition gframe_bytes :: "gemini_writer \<Rightarrow> gframe \<Rightarrow> string" where
  "gframe_bytes w f = ''data: '' @ print_json (gframe_json w f) @ ''\<newline>\<newline>''"

text \<open>Arguments that do not decode, or decode to null, become an empty object.\<close>

definition call_args :: "string \<Rightarrow> json" where
  "call_args a =
     (if a = [] then JObj []
      else case json_parse a of
        None \<Rightarrow> JObj []
      | Some JNull \<Rightarrow> JObj []
      | Some v \<Rightarrow> v)"

type_synonym gemini_order = "(string \<times> gemini_call) list \<Rightarrow> (string \<times> gemini_call) list"

definition flush_final :: "gemini_order \<Rightarrow> gemini_writer \<Rightarrow> gframe list" where
  "flush_final ord w =
     map (\<lambda>(_, c). G_Call (gc_name c) (call_args (gc_args c))) (ord (gw_calls w)) @ [G_Final (gw_last_usage w)]"

definition encode_gemini :: "gemini_order \<Rightarrow> event \<Rightarrow> gemini_writer \<Rightarrow> gframe list \<times> gemini_writer" where
  "encode_gemini ord ev w =
     (case ev_kind ev of
        EventTextDelta \<Rightarrow>
          if ev_text ev = [] then ([], w)
          else ([G_Text (ev_text ev)], w\<lparr>gw_sent_any := True, gw_text := gw_text w @ ev_text ev\<rparr>)
      | EventToolCallStarted \<Rightarrow>
          let c = (case map_of (gw_calls w) (ev_tool_call_id ev) of
                     Some c \<Rightarrow> c | None \<Rightarrow> \<lparr>gc_name = ev_tool_name ev, gc_args = []\<rparr>);
              c = c\<lparr>gc_args := gc_args c @ ev_tool_args_delta ev\<rparr>
          in ([], w\<lparr>gw_calls := AList.update (ev_tool_call_id ev) c (gw_calls w), gw_seen_tool_call := True\<rparr>)
      | EventToolCallDelta \<Rightarrow>
          (case map_of (gw_calls w) (ev_tool_call_id ev) of
             None \<Rightarrow> ([], w)
           | Some c \<Rightarrow> ([], w\<lparr>gw_calls := AList.update (ev_tool_call_id ev)
                              (c\<lparr>gc_args := gc_args c @ ev_tool_args_delta ev\<rparr>) (gw_calls w)\<rparr>))
      | EventTurnEnded \<Rightarrow>
          let w = (if ev_usage ev \<noteq> None then w\<lparr>gw_last_usage := ev_usage ev\<rparr> else w)
          in (flush_final ord w, w)
      | _ \<Rightarrow> ([], w))"

subsection \<open>The non-streaming accumulator and the model list\<close>

record gemini_accumulator =
  ga_model :: string
  ga_text :: string
  ga_calls :: "gemini_call list"
  ga_usage :: "usage option"

definition new_gemini_accumulator :: "string \<Rightarrow> gemini_accumulator" where
  "new_gemini_accumulator model = \<lparr>ga_model = model, ga_text = [], ga_calls = [], ga_usage = None\<rparr>"

definition consume_gemini :: "event \<Rightarrow> gemini_accumulator \<Rightarrow> gemini_accumulator" where
  "consume_gemini ev a =
     (case ev_kind ev of
        EventTextDelta \<Rightarrow> a\<lparr>ga_text := ga_text a @ ev_text ev\<rparr>
      | EventToolCallStarted \<Rightarrow>
          a\<lparr>ga_calls := ga_calls a @ [\<lparr>gc_name = ev_tool_name ev, gc_args = ev_tool_args_delta ev\<rparr>]\<rparr>
      | EventToolCallDelta \<Rightarrow>
          if ga_calls a = [] then a
          else let n = length (ga_calls a) - 1; c = ga_calls a ! n in
            a\<lparr>ga_calls := (ga_calls a)[n := c\<lparr>gc_args := gc_args c @ ev_tool_args_delta ev\<rparr>]\<rparr>
      | EventTurnEnded \<Rightarrow> a\<lparr>ga_usage := ev_usage ev\<rparr>
      | _ \<Rightarrow> a)"

definition gemini_has_output :: "gemini_accumulator \<Rightarrow> bool" where
  "gemini_has_output a \<longleftrightarrow> ga_text a \<noteq> [] \<or> ga_calls a \<noteq> []"

definition answer_parts :: "gemini_accumulator \<Rightarrow> gframe list" where
  "answer_parts a = (if ga_text a \<noteq> [] then [G_Text (ga_text a)] else []) @
     map (\<lambda>c. G_Call (gc_name c) (call_args (gc_args c))) (ga_calls a)"

definition gemini_response :: "gemini_accumulator \<Rightarrow> json" where
  "gemini_response a = final_response (ga_model a) (map gframe_part (answer_parts a)) (ga_usage a)"

definition build_gemini_models_list :: "string list \<Rightarrow> json" where
  "build_gemini_models_list ids =
     JObj [(''models'', JArr (map (\<lambda>i. JObj [
        (''baseModelId'', JStr i), (''description'', JStr ''Served via cursor-proxy''),
        (''displayName'', JStr i), (''inputTokenLimit'', json_int 1000000), (''name'', JStr (''models/'' @ i)),
        (''outputTokenLimit'', json_int 8192),
        (''supportedGenerationMethods'', JArr [JStr ''generateContent'', JStr ''streamGenerateContent'']),
        (''version'', JStr ''001'')]) ids))]"

definition strip_gemini_model_prefix :: "string \<Rightarrow> string" where
  "strip_gemini_model_prefix name = trim_prefix name ''models/''"

subsection \<open>Text\<close>

definition gemini_text :: "gframe list \<Rightarrow> string" where
  "gemini_text fs = concat (map (\<lambda>f. case f of G_Text s \<Rightarrow> s | _ \<Rightarrow> []) fs)"

lemma gemini_text_append [simp]: "gemini_text (fs @ gs) = gemini_text fs @ gemini_text gs"
  by (simp add: gemini_text_def)

lemma gemini_text_flush: "gemini_text (flush_final ord w) = []"
proof -
  have "gemini_text (map (\<lambda>(_, c). G_Call (gc_name c) (call_args (gc_args c))) cs) = []" for cs :: "(string \<times> gemini_call) list"
    by (induction cs) (auto simp: gemini_text_def)
  then show ?thesis by (simp add: flush_final_def) (simp add: gemini_text_def)
qed

lemma gemini_text_simps [simp]:
  "gemini_text [] = []" "gemini_text [G_Text s] = s"
  by (simp_all add: gemini_text_def)

interpretation gemini_text: text_writer "encode_gemini ord" "\<lambda>_. True" gemini_text for ord
  by unfold_locales
    (auto simp: encode_gemini_def step_text_def Let_def gemini_text_flush
      split: event_kind.splits if_splits option.splits)

subsection \<open>Calls\<close>

definition stored_call :: "string \<times> string \<times> string \<Rightarrow> string \<times> gemini_call" where
  "stored_call = (\<lambda>(t, n, a). (t, \<lparr>gc_name = n, gc_args = a\<rparr>))"

lemma stored_lookup:
  "map_of (map stored_call calls) tid =
     map_option (\<lambda>(n, a). \<lparr>gc_name = n, gc_args = a\<rparr>) (map_of calls tid)"
  by (induction calls) (auto simp: stored_call_def)

lemma args_absent:
  "tid \<notin> fst ` set calls \<Longrightarrow> map (\<lambda>(t, n, b). if t = tid then (t, n, b @ a) else (t, n, b)) calls = calls"
  by (induction calls) (auto split: prod.splits)

lemma stored_update:
  "distinct (map fst calls) \<Longrightarrow> map_of calls tid = Some (n, b) \<Longrightarrow>
     AList.update tid \<lparr>gc_name = n, gc_args = b @ a\<rparr> (map stored_call calls) =
       map stored_call (map (\<lambda>(t, n, b). if t = tid then (t, n, b @ a) else (t, n, b)) calls)"
proof (induction calls)
  case (Cons c calls)
  obtain t m e where c: "c = (t, m, e)" by (cases c)
  show ?case
  proof (cases "t = tid")
    case True
    then have "tid \<notin> fst ` set calls" using Cons.prems(1) by (simp add: c)
    from args_absent [OF this, of a] True Cons.prems(2) show ?thesis by (simp add: c stored_call_def)
  next
    case False
    with Cons show ?thesis by (simp add: c stored_call_def)
  qed
qed simp

lemma stored_absent:
  "map_of calls tid = None \<Longrightarrow> map (\<lambda>(t, n, b). if t = tid then (t, n, b @ a) else (t, n, b)) calls = calls"
  by (rule args_absent) (simp add: map_of_eq_None_iff)

lemma encode_gemini_call:
  assumes "gw_calls w = map stored_call calls" "distinct (map fst calls)" "call_ok ev (map fst calls)"
    "ev_kind ev \<noteq> EventTurnEnded" "encode_gemini ord ev w = (fs, w')"
  shows "gw_calls w' = map stored_call (add_call ev calls) \<and>
    map fst (add_call ev calls) = next_ids ev (map fst calls) \<and> distinct (map fst (add_call ev calls)) \<and>
    (\<forall>n a. G_Call n a \<notin> set fs) \<and> gw_last_usage w' = gw_last_usage w"
proof -
  have ids: "map fst (add_call ev calls) = next_ids ev (map fst calls)"
    by (simp add: add_call_def next_ids_def comp_def case_prod_beta split: event_kind.splits)
  moreover have "distinct (next_ids ev (map fst calls))"
    using assms(2,3) by (auto simp: next_ids_def call_ok_def split: event_kind.splits)
  moreover have "gw_calls w' = map stored_call (add_call ev calls) \<and> (\<forall>n a. G_Call n a \<notin> set fs) \<and>
      gw_last_usage w' = gw_last_usage w"
  proof (cases "ev_kind ev")
    case EventToolCallStarted
    then have "ev_tool_call_id ev \<notin> fst ` set (map stored_call calls)"
      using assms(3) by (auto simp: call_ok_def stored_call_def image_iff)
    moreover from this have "map_of (map stored_call calls) (ev_tool_call_id ev) = None"
      by (simp add: map_of_eq_None_iff)
    ultimately show ?thesis using EventToolCallStarted assms(1,5)
      by (auto simp: encode_gemini_def Let_def add_call_def stored_call_def update_new_key)
  next
    case EventToolCallDelta
    show ?thesis
    proof (cases "map_of calls (ev_tool_call_id ev)")
      case None
      then show ?thesis using EventToolCallDelta assms(1,5)
        by (auto simp: encode_gemini_def add_call_def stored_lookup stored_absent)
    next
      case (Some p)
      obtain n b where p: "p = (n, b)" by (cases p)
      show ?thesis using EventToolCallDelta assms(1,5) Some stored_update [OF assms(2), of "ev_tool_call_id ev" n b]
        by (auto simp: encode_gemini_def add_call_def stored_lookup p)
    qed
  qed (use assms in \<open>auto simp: encode_gemini_def add_call_def split: if_splits\<close>)
  ultimately show ?thesis by simp
qed

lemma run_gemini_calls:
  "gw_calls w = map stored_call calls \<Longrightarrow> distinct (map fst calls) \<Longrightarrow> calls_ok (map fst calls) evs \<Longrightarrow>
   list_all (\<lambda>ev. ev_kind ev \<noteq> EventTurnEnded) evs \<Longrightarrow> run_writer (encode_gemini ord) evs w = (fs, w') \<Longrightarrow>
     gw_calls w' = map stored_call (fold add_call evs calls) \<and> (\<forall>n a. G_Call n a \<notin> set fs) \<and>
     gw_last_usage w' = gw_last_usage w"
proof (induction evs arbitrary: w calls fs w')
  case (Cons ev evs)
  obtain f1 w1 where 1: "encode_gemini ord ev w = (f1, w1)" by (cases "encode_gemini ord ev w")
  obtain f2 w2 where 2: "run_writer (encode_gemini ord) evs w1 = (f2, w2)"
    by (cases "run_writer (encode_gemini ord) evs w1")
  have ok: "call_ok ev (map fst calls)" "ev_kind ev \<noteq> EventTurnEnded" "calls_ok (next_ids ev (map fst calls)) evs"
    "list_all (\<lambda>ev. ev_kind ev \<noteq> EventTurnEnded) evs"
    using Cons.prems by simp_all
  note s = encode_gemini_call [OF Cons.prems(1,2) ok(1,2) 1]
  have "calls_ok (map fst (add_call ev calls)) evs" using s ok(3) by metis
  with Cons.IH [OF _ _ _ ok(4) 2] s Cons.prems(5) 1 2 show ?case by auto
qed simp

text \<open>Every argument chunk belongs to the call that was started last.\<close>

fun args_last :: "string list \<Rightarrow> event list \<Rightarrow> bool" where
  "args_last ids [] = True"
| "args_last ids (ev # evs) =
     ((if ev_kind ev = EventToolCallDelta \<and> ev_tool_args_delta ev \<noteq> []
       then ids \<noteq> [] \<and> last ids = ev_tool_call_id ev else True) \<and>
      args_last (next_ids ev ids) evs)"

lemma update_last:
  assumes "distinct (map fst calls)" "calls \<noteq> []" "fst (last calls) = tid"
  shows "map (\<lambda>(t, n, b). if t = tid then (t, n, b @ a) else (t, n, b)) calls =
    butlast calls @ [(tid, fst (snd (last calls)), snd (snd (last calls)) @ a)]"
proof -
  obtain init c where c: "calls = init @ [c]" using assms(2) by (cases calls rule: rev_cases) auto
  have "map (\<lambda>(t, n, b). if t = tid then (t, n, b @ a) else (t, n, b)) init = init"
    using assms(1,3) by (intro args_absent) (auto simp: c)
  with assms(3) show ?thesis by (auto simp: c split: prod.splits)
qed

definition plain :: "string \<times> string \<times> string \<Rightarrow> gemini_call" where
  "plain = (\<lambda>(t, n, a). \<lparr>gc_name = n, gc_args = a\<rparr>)"

lemma consume_gemini_call:
  assumes "ga_calls a = map plain calls" "distinct (map fst calls)"
    "if ev_kind ev = EventToolCallDelta \<and> ev_tool_args_delta ev \<noteq> []
       then map fst calls \<noteq> [] \<and> last (map fst calls) = ev_tool_call_id ev else True"
  shows "ga_calls (consume_gemini ev a) = map plain (add_call ev calls)"
proof (cases "ev_kind ev = EventToolCallDelta")
  case False
  then show ?thesis using assms(1)
    by (auto simp: consume_gemini_def add_call_def plain_def split: event_kind.splits)
next
  case True
  show ?thesis
  proof (cases "ev_tool_args_delta ev = []")
    case True
    then show ?thesis using assms(1) \<open>ev_kind ev = EventToolCallDelta\<close>
      by (auto simp: consume_gemini_def add_call_def no_args Let_def)
  next
    case False
    with assms(3) True have c: "calls \<noteq> []" "fst (last calls) = ev_tool_call_id ev" by (auto simp: last_map)
    obtain init x where x: "calls = init @ [x]" using c(1) by (cases calls rule: rev_cases) auto
    obtain n b where xb: "x = (ev_tool_call_id ev, n, b)" using c(2) by (cases x) (simp add: x)
    have "add_call ev calls = init @ [(ev_tool_call_id ev, n, b @ ev_tool_args_delta ev)]"
      using True update_last [OF assms(2) c, of "ev_tool_args_delta ev"] by (simp add: add_call_def x xb)
    then show ?thesis using True assms(1)
      by (simp add: consume_gemini_def x xb plain_def Let_def nth_append list_update_append)
  qed
qed

lemma fold_consume_gemini:
  "ga_calls a = map plain calls \<Longrightarrow> distinct (map fst calls) \<Longrightarrow> calls_ok (map fst calls) evs \<Longrightarrow>
   args_last (map fst calls) evs \<Longrightarrow>
     ga_calls (fold consume_gemini evs a) = map plain (fold add_call evs calls)"
proof (induction evs arbitrary: a calls)
  case (Cons ev evs)
  have ids: "map fst (add_call ev calls) = next_ids ev (map fst calls)"
    by (simp add: add_call_def next_ids_def comp_def case_prod_beta split: event_kind.splits)
  have "distinct (next_ids ev (map fst calls))"
    using Cons.prems(2,3) by (auto simp: next_ids_def call_ok_def split: event_kind.splits)
  moreover have "ga_calls (consume_gemini ev a) = map plain (add_call ev calls)"
    using Cons.prems(4) [unfolded args_last.simps]
    by (intro consume_gemini_call [OF Cons.prems(1,2)]) (rule conjunct1)
  ultimately show ?case
    using Cons.IH [of "consume_gemini ev a" "add_call ev calls"] Cons.prems(3,4) ids by simp
qed simp

lemma gemini_text_consumed: "ga_text (fold consume_gemini evs a) = ga_text a @ events_text evs"
  by (induction evs arbitrary: a)
    (auto simp: consume_gemini_def step_text_def Let_def split: event_kind.splits if_splits)

definition is_call :: "gframe \<Rightarrow> bool" where
  "is_call f \<longleftrightarrow> (case f of G_Call _ _ \<Rightarrow> True | _ \<Rightarrow> False)"

definition call_frame :: "string \<times> string \<times> string \<Rightarrow> gframe" where
  "call_frame = (\<lambda>(t, n, a). G_Call n (call_args a))"

lemma call_frame_stored [simp]: "G_Call (gc_name (snd (stored_call c))) (call_args (gc_args (snd (stored_call c)))) = call_frame c"
  "G_Call (gc_name (plain c)) (call_args (gc_args (plain c))) = call_frame c"
  by (cases c; simp add: stored_call_def plain_def call_frame_def)+

lemma answer_calls: "ga_calls a = map plain calls \<Longrightarrow> filter is_call (answer_parts a) = map call_frame calls"
proof -
  assume "ga_calls a = map plain calls"
  then have "map (\<lambda>c. G_Call (gc_name c) (call_args (gc_args c))) (ga_calls a) = map call_frame calls" by simp
  moreover have "filter is_call (map call_frame calls) = map call_frame calls"
    by (induction calls) (auto simp: is_call_def call_frame_def)
  ultimately show ?thesis by (simp add: answer_parts_def is_call_def)
qed

text \<open>What the end of the turn flushes: every call of the turn, then the final frame.\<close>

lemma gemini_run_end:
  assumes "calls_ok [] evs" and "list_all (\<lambda>ev. ev_kind ev \<noteq> EventTurnEnded) evs"
    and "\<And>cs. mset (ord cs) = mset cs" and e: "ev_kind e = EventTurnEnded"
  shows "let fs = fst (run_writer (encode_gemini ord) (evs @ [e]) (new_gemini_writer m))
    in mset (filter is_call fs) = mset (map call_frame (fold add_call evs [])) \<and> last fs = G_Final (ev_usage e)"
proof -
  let ?calls = "fold add_call evs []" and ?call = "\<lambda>(_, c). G_Call (gc_name c) (call_args (gc_args c))"
  obtain f1 w1 where 1: "run_writer (encode_gemini ord) evs (new_gemini_writer m) = (f1, w1)"
    by (cases "run_writer (encode_gemini ord) evs (new_gemini_writer m)")
  have w1: "gw_calls w1 = map stored_call ?calls" "\<forall>n a. G_Call n a \<notin> set f1" "gw_last_usage w1 = None"
    using run_gemini_calls [OF _ _ _ assms(2) 1, of "[]"] assms(1) by (simp_all add: new_gemini_writer_def)
  obtain w2 where 2: "encode_gemini ord e w1 = (flush_final ord w2, w2)"
    and w2: "gw_calls w2 = gw_calls w1" "gw_last_usage w2 = ev_usage e"
    using w1(3) e by (cases "ev_usage e") (auto simp: encode_gemini_def Let_def)
  have none: "filter is_call f1 = []"
    using w1(2) by (auto simp: filter_empty_conv is_call_def split: gframe.splits)
  have "filter is_call (map ?call cs) = map ?call cs" for cs :: "(string \<times> gemini_call) list"
    by (auto intro!: filter_True simp: is_call_def)
  then have "filter is_call (f1 @ flush_final ord w2) = map ?call (ord (gw_calls w1))"
    using none by (simp add: flush_final_def w2) (simp add: is_call_def)
  then have "mset (filter is_call (f1 @ flush_final ord w2)) = mset (map ?call (gw_calls w1))"
    by (simp add: assms(3))
  also have "map ?call (gw_calls w1) = map call_frame ?calls"
    by (simp add: w1(1) case_prod_beta)
  finally have calls: "mset (filter is_call (f1 @ flush_final ord w2)) = mset (map call_frame ?calls)" .
  have "fst (run_writer (encode_gemini ord) (evs @ [e]) (new_gemini_writer m)) = f1 @ flush_final ord w2"
    by (simp add: run_writer_snoc 1 2)
  moreover have "last (f1 @ flush_final ord w2) = G_Final (ev_usage e)" by (simp add: flush_final_def w2)
  ultimately show ?thesis unfolding Let_def using calls by (simp only: simp_thms)
qed

text \<open>
  A Gemini stream and the single answer agree. For every turn in which each call is started
  once and argument chunks belong to the call started last, the stream says the text of the
  answer, emits the same function calls (as a multiset: the writer visits its map in any order)
  with the same decoded arguments, and ends with the final frame and its usage.
\<close>

theorem gemini_stream_matches_answer:
  assumes "calls_ok [] evs" and "args_last [] evs"
    and "list_all (\<lambda>ev. ev_kind ev \<noteq> EventTurnEnded) evs" and "\<And>cs. mset (ord cs) = mset cs"
  shows "let fs = fst (run_writer (encode_gemini ord) (evs @ [turn_end u]) (new_gemini_writer m));
             a = fold consume_gemini (evs @ [turn_end u]) (new_gemini_accumulator m)
         in gemini_text fs = ga_text a \<and> last fs = G_Final u \<and> ga_usage a = u \<and>
            mset (filter is_call fs) = mset (filter is_call (answer_parts a))"
proof -
  let ?fs = "fst (run_writer (encode_gemini ord) (evs @ [turn_end u]) (new_gemini_writer m))"
  let ?a = "fold consume_gemini (evs @ [turn_end u]) (new_gemini_accumulator m)"
  have a: "ga_calls ?a = map plain (fold add_call evs [])" "ga_usage ?a = u"
    using fold_consume_gemini [of "new_gemini_accumulator m" "[]" evs] assms(1,2)
    by (simp_all add: new_gemini_accumulator_def consume_gemini_def)
  have "gemini_text ?fs = events_text (evs @ [turn_end u])"
    using gemini_text.run_text [of ord "evs @ [turn_end u]" "new_gemini_writer m"] by (metis TrueI prod.collapse)
  moreover have "ga_text ?a = events_text (evs @ [turn_end u])"
    by (simp only: gemini_text_consumed) (simp add: new_gemini_accumulator_def)
  moreover have "mset (filter is_call ?fs) = mset (filter is_call (answer_parts ?a))" "last ?fs = G_Final u"
    using gemini_run_end [OF assms(1,3,4), of "turn_end u" m] unfolding answer_calls [OF a(1)] Let_def by simp_all
  ultimately show ?thesis using a(2) unfolding Let_def by simp
qed

lemma gemini_stream_matches_answer_witness:
  "let evs = [call_event EventToolCallStarted ''a'' ''f'' [], call_event EventToolCallDelta ''a'' [] ''1''];
       fs = fst (run_writer (encode_gemini rev) (evs @ [turn_end None]) (new_gemini_writer ''m''));
       a = fold consume_gemini (evs @ [turn_end None]) (new_gemini_accumulator ''m'')
   in gemini_text fs = ga_text a \<and> last fs = G_Final None \<and> ga_usage a = None \<and>
      mset (filter is_call fs) = mset (filter is_call (answer_parts a))"
proof -
  let ?evs = "[call_event EventToolCallStarted ''a'' ''f'' [], call_event EventToolCallDelta ''a'' [] ''1'']"
  have "calls_ok [] ?evs" "args_last [] ?evs" "list_all (\<lambda>ev. ev_kind ev \<noteq> EventTurnEnded) ?evs"
    "\<And>cs :: (string \<times> gemini_call) list. mset (rev cs) = mset cs"
    by (simp_all add: call_ok_def next_ids_def call_event_def event_of_def)
  from gemini_stream_matches_answer [OF this] show ?thesis unfolding Let_def .
qed

text \<open>
  Interleaved arguments go to the wrong call in the single answer. When an argument chunk for
  the first of two calls arrives after the second was started, the stream adds it to the first
  call, the accumulator to the second.
\<close>

theorem gemini_answer_misplaces_arguments:
  "let evs = [call_event EventToolCallStarted t name [], call_event EventToolCallStarted t' name' [],
              call_event EventToolCallDelta t [] args];
       w = snd (run_writer (encode_gemini ord) evs (new_gemini_writer m));
       a = fold consume_gemini evs (new_gemini_accumulator m)
   in map_option gc_args (map_of (gw_calls w) t) = Some args \<and>
      ga_calls a = [\<lparr>gc_name = name, gc_args = []\<rparr>, \<lparr>gc_name = name', gc_args = args\<rparr>]"
  by (simp add: call_event_def event_of_def encode_gemini_def Let_def new_gemini_writer_def
      consume_gemini_def new_gemini_accumulator_def update_conv')

text \<open>A model name and its resource name.\<close>

lemma strip_gemini_prefix: "strip_gemini_model_prefix (''models/'' @ i) = i"
  by (simp add: strip_gemini_model_prefix_def trim_prefix_def has_prefix_def)

end
