(* ===== verification/GeminiHandler.thy ===== *)
theory GeminiHandler
  imports ChatDelivery Gemini
begin

text \<open>
  \<^verbatim>\<open>streamGemini\<close> and \<^verbatim>\<open>nonStreamGemini\<close> of \<^verbatim>\<open>cmd/cursor-proxy/gemini_handler.go\<close>: the loop of ChatLoop
  over a writer that keeps tool calls until the end of the turn.
\<close>

subsection \<open>The handlers\<close>

text \<open>What the writer returns for a tool call event is not sent.\<close>

definition write_buffered :: "gemini_order \<Rightarrow> event \<Rightarrow> gemini_writer \<Rightarrow> gframe list \<times> gemini_writer" where
  "write_buffered ord ev w =
     (case encode_gemini ord ev w of (fs, w) \<Rightarrow>
       if ev_kind ev \<in> {EventToolCallStarted, EventToolCallDelta} then ([], w) else (fs, w))"

definition finish_gemini :: "gemini_order \<Rightarrow> (gemini_writer, gframe) loop \<Rightarrow> gframe answer" where
  "finish_gemini ord st =
     (case failure write_upstream_gemini_error write_empty_upstream_gemini_error st of
        Some r \<Rightarrow> Failed r
      | None \<Rightarrow>
          Stream (lp_frames (if \<not> lp_saw_turn_end st then write_event (encode_gemini ord) (turn_end None) st
                             else if \<not> lp_wrote_turn_end st
                             then write_event (encode_gemini ord) (turn_end (lp_last_usage st)) st else st)))"

definition stream_gemini :: "(server_message \<Rightarrow> event option) \<Rightarrow> gemini_order \<Rightarrow> sim_cache_decision \<Rightarrow> gemini_writer \<Rightarrow>
    chat_event list \<Rightarrow> gframe answer" where
  "stream_gemini tr ord d w ces =
     finish_gemini ord (fold (loop_step tr (write_buffered ord) [EventToolCallStarted, EventToolCallDelta] d) ces (new_loop w))"

definition non_stream_gemini :: "(server_message \<Rightarrow> event option) \<Rightarrow> sim_cache_decision \<Rightarrow> string \<Rightarrow> chat_event list \<Rightarrow>
    answer_or_error" where
  "non_stream_gemini tr d model ces =
     (case fold (single_step tr consume_gemini) ces (new_gemini_accumulator model, [], None) of (a, _, err) \<Rightarrow>
        if err \<noteq> None \<and> \<not> gemini_has_output a then Error_Answer (write_upstream_gemini_error err)
        else if is_empty_upstream_response (gemini_has_output a) (ga_usage a)
          then Error_Answer write_empty_upstream_gemini_error
        else Answer (header_after d (case ga_usage a of None \<Rightarrow> 0 | Some u \<Rightarrow> u_cache_read u))
          (gemini_response (a\<lparr>ga_usage := apply_to_usage d (ga_usage a) False\<rparr>)))"

subsection \<open>The answers\<close>

lemma write_buffered_encode: "write_buffered ord = encode_gemini ord"
  by (rule ext, rule ext)
    (auto simp: write_buffered_def encode_gemini_def Let_def split: event_kind.splits option.splits)

abbreviation gemini_forwarded :: "event_kind list" where
  "gemini_forwarded \<equiv> [EventToolCallStarted, EventToolCallDelta]"

lemma stream_gemini_run:
  assumes "stream_gemini tr ord d w0 ces = Stream fs"
    and says: "loop_says_all tr gemini_forwarded d ces ([], False) = (evs, v)"
  shows "\<exists>evs'. fs = fst (run_writer (encode_gemini ord) (evs @ evs') w0) \<and>
    (if list_ex ends_turn evs then evs' = [] else \<exists>u. evs' = [turn_end u])"
proof -
  let ?enc = "encode_gemini ord"
  define st where "st = fold (loop_step tr ?enc gemini_forwarded d) ces (new_loop w0)"
  have st: "lp_frames st = fst (run_writer ?enc evs w0)" "lp_writer st = snd (run_writer ?enc evs w0)"
    using loop_says [of tr gemini_forwarded d ces "new_loop w0" evs v ?enc] says by (simp_all add: st_def)
  have "turn_flags (new_loop w0 :: (gemini_writer, gframe) loop) = (False, True)"
    by (simp add: turn_flags_def new_loop_def)
  then have flags: "lp_wrote_turn_end st = list_ex ends_turn evs" "lp_wrote_turn_end st \<longrightarrow> lp_saw_turn_end st"
    using loop_flags [of tr gemini_forwarded d ces "new_loop w0" evs v False ?enc] says
    by (simp_all add: st_def turn_flags_def)
  have "finish_gemini ord st = Stream fs"
    using assms(1) by (simp add: stream_gemini_def st_def write_buffered_encode)
  then have fin: "fs = lp_frames (if \<not> lp_saw_turn_end st then write_event ?enc (turn_end None) st
      else if \<not> lp_wrote_turn_end st then write_event ?enc (turn_end (lp_last_usage st)) st else st)"
    by (auto simp: finish_gemini_def simp del: write_event_simps split: option.splits)
  have run: "fst (run_writer ?enc (evs @ [turn_end u]) w0) = lp_frames (write_event ?enc (turn_end u) st)" for u
    by (simp add: st run_writer_fst split: prod.splits)
  show ?thesis
  proof (cases "list_ex ends_turn evs")
    case True
    with fin flags have "fs = fst (run_writer ?enc (evs @ []) w0)" by (simp add: st)
    with True show ?thesis by auto
  next
    case False
    then have "fs = lp_frames (write_event ?enc (turn_end None) st) \<or>
        fs = lp_frames (write_event ?enc (turn_end (lp_last_usage st)) st)"
      using fin flags(1) by (auto split: if_splits)
    then have "\<exists>u. fs = fst (run_writer ?enc (evs @ [turn_end u]) w0)" using run by metis
    with False show ?thesis by auto
  qed
qed

lemma args_last_started: "list_all args_with_start evs \<Longrightarrow> args_last ids evs"
  by (induction evs arbitrary: ids) (auto simp: args_with_start_def)

lemma started_calls_ends: "ends_turn e \<Longrightarrow> started_calls [e] = []"
  by (simp add: ends_turn_def)



end
