(* ===== verification/JsonStruct.thy ===== *)
theory JsonStruct
  imports JsonAny
begin

text \<open>
  \<^verbatim>\<open>json.Unmarshal\<close> into struct targets that keep parts of the text (\<^verbatim>\<open>json.RawMessage\<close>). A decoder
  takes the text of a value and the previous value of its target and gives the new one, None on an
  error: Go reads on after a mismatch and returns the error at the end. A struct is the list of its
  field names and decoders; a name matches up to case, unknown names are skipped, and a later
  member overwrites an earlier one. An element of a slice always starts from the zero value.
\<close>

subsection \<open>The text of elements and members\<close>

definition first_value :: "string \<Rightarrow> (string \<times> string) option" where
  "first_value s =
     (let t = skip_ws s in
      map_option (\<lambda>(_, r). (take (length t - length r) t, r)) (parse_value (json_fuel t) t))"

fun raw_elems :: "nat \<Rightarrow> string \<Rightarrow> string list option" where
  "raw_elems 0 s = None"
| "raw_elems (Suc k) s =
     (case first_value s of
        None \<Rightarrow> None
      | Some (v, t) \<Rightarrow>
          (case skip_ws t of
             c # r \<Rightarrow> if c = CHR '','' then map_option (Cons v) (raw_elems k r)
                      else if c = CHR '']'' then Some [v] else None
           | [] \<Rightarrow> None))"

fun raw_members :: "nat \<Rightarrow> string \<Rightarrow> (string \<times> string) list option" where
  "raw_members 0 s = None"
| "raw_members (Suc k) s =
     (case skip_ws s of
        CHR 0x22 # t \<Rightarrow>
          (case parse_string t of
             None \<Rightarrow> None
           | Some (key, u) \<Rightarrow>
               (case skip_ws u of
                  CHR '':'' # w \<Rightarrow>
                    (case first_value w of
                       None \<Rightarrow> None
                     | Some (v, x) \<Rightarrow>
                         (case skip_ws x of
                            c # r \<Rightarrow>
                              if c = CHR '','' then map_option (Cons (key, v)) (raw_members k r)
                              else if c = CHR ''}'' then Some [(key, v)] else None
                          | [] \<Rightarrow> None))
                | _ \<Rightarrow> None))
      | _ \<Rightarrow> None)"

definition raw_array :: "string \<Rightarrow> string list option" where
  "raw_array raw =
     (case json_parse raw of
        Some (JArr []) \<Rightarrow> Some []
      | Some (JArr _) \<Rightarrow> raw_elems (length raw) (tl (skip_ws raw))
      | _ \<Rightarrow> None)"

definition raw_object :: "string \<Rightarrow> (string \<times> string) list option" where
  "raw_object raw =
     (case json_parse raw of
        Some (JObj []) \<Rightarrow> Some []
      | Some (JObj _) \<Rightarrow> raw_members (length raw) (tl (skip_ws raw))
      | _ \<Rightarrow> None)"

subsection \<open>Decoders\<close>

type_synonym 'a decoder = "string \<Rightarrow> 'a \<Rightarrow> 'a option"

definition dec_string :: "string decoder" where
  "dec_string raw prev = (case json_parse raw of
     Some JNull \<Rightarrow> Some prev | Some (JStr s) \<Rightarrow> Some s | _ \<Rightarrow> None)"

definition dec_bool :: "bool decoder" where
  "dec_bool raw prev = (case json_parse raw of
     Some JNull \<Rightarrow> Some prev | Some (JBool b) \<Rightarrow> Some b | _ \<Rightarrow> None)"

text \<open>An integer literal without fraction or exponent that fits 64 bits.\<close>

definition digits_value :: "string \<Rightarrow> int" where
  "digits_value ds = foldl (\<lambda>n c. 10 * n + (int (byte_of c) - 48)) 0 ds"

definition int_literal :: "string \<Rightarrow> int option" where
  "int_literal n =
     (let (neg, ds) = (case n of CHR ''-'' # t \<Rightarrow> (True, t) | _ \<Rightarrow> (False, n));
          i = (if neg then - digits_value ds else digits_value ds) in
      if ds \<noteq> [] \<and> list_all is_digit ds \<and> in_i64 i then Some i else None)"

definition dec_int :: "int decoder" where
  "dec_int raw prev = (case json_parse raw of
     Some JNull \<Rightarrow> Some prev | Some (JNum n) \<Rightarrow> int_literal n | _ \<Rightarrow> None)"

definition dec_raw :: "string decoder" where
  "dec_raw raw prev = Some raw"

text \<open>An untyped target, None for nil; a map target keeps the members it has.\<close>

definition dec_any :: "(string \<Rightarrow> string option) \<Rightarrow> json option decoder" where
  "dec_any float_text raw prev = (case unmarshal_any float_text raw of
     None \<Rightarrow> None | Some JNull \<Rightarrow> Some None | Some v \<Rightarrow> Some (Some v))"

definition dec_map :: "(string \<Rightarrow> string option) \<Rightarrow> (string \<times> json) list option decoder" where
  "dec_map float_text raw prev = (case unmarshal_any float_text raw of
     Some JNull \<Rightarrow> Some None
   | Some (JObj ms) \<Rightarrow> Some (Some (go_map ((case prev of None \<Rightarrow> [] | Some ps \<Rightarrow> ps) @ ms)))
   | _ \<Rightarrow> None)"

definition dec_list :: "'a decoder \<Rightarrow> 'a \<Rightarrow> 'a list decoder" where
  "dec_list dec zero raw prev = (case json_parse raw of
     Some JNull \<Rightarrow> Some []
   | _ \<Rightarrow> Option.bind (raw_array raw) (\<lambda>rs. those (map (\<lambda>r. dec r zero) rs)))"

definition dec_ptr :: "'a decoder \<Rightarrow> 'a \<Rightarrow> 'a option decoder" where
  "dec_ptr dec zero raw prev = (case json_parse raw of
     Some JNull \<Rightarrow> Some None
   | _ \<Rightarrow> map_option Some (dec raw (case prev of None \<Rightarrow> zero | Some v \<Rightarrow> v)))"

type_synonym 'a field = "string \<times> 'a decoder"

definition struct_field :: "string \<Rightarrow> 'b decoder \<Rightarrow> ('a \<Rightarrow> 'b) \<Rightarrow> (('b \<Rightarrow> 'b) \<Rightarrow> 'a \<Rightarrow> 'a) \<Rightarrow> 'a field" where
  "struct_field name dec get upd = (name, \<lambda>raw v. map_option (\<lambda>x. upd (\<lambda>_. x) v) (dec raw (get v)))"

definition dec_member :: "'a field list \<Rightarrow> string \<times> string \<Rightarrow> 'a option \<Rightarrow> 'a option" where
  "dec_member fs m v =
     (case map_of (map (apfst to_lower) fs) (to_lower (fst m)) of
        None \<Rightarrow> v
      | Some dec \<Rightarrow> Option.bind v (dec (snd m)))"

definition dec_struct :: "'a field list \<Rightarrow> 'a decoder" where
  "dec_struct fs raw v = (case json_parse raw of
     Some JNull \<Rightarrow> Some v
   | _ \<Rightarrow> Option.bind (raw_object raw) (\<lambda>ms. fold (dec_member fs) ms (Some v)))"

subsection \<open>Request bodies\<close>

text \<open>
  \<^verbatim>\<open>decodeJSONRequest\<close> of \<^verbatim>\<open>cmd/cursor-proxy/request_body.go\<close> on a body within its size limit: one
  value, and nothing but white space after it. The text of the library's own errors is left open.
\<close>

datatype decode_error = Bad_Json | Not_One_Value

fun decode_error_text :: "decode_error \<Rightarrow> string option" where
  "decode_error_text Bad_Json = None"
| "decode_error_text Not_One_Value = Some ''request body must contain exactly one JSON value''"

definition decode_json_request :: "'a decoder \<Rightarrow> 'a \<Rightarrow> bool \<Rightarrow> string \<Rightarrow> decode_error + 'a" where
  "decode_json_request dec zero allow_empty body =
     (if skip_ws body = [] then (if allow_empty then Inr zero else Inl Bad_Json)
      else case first_value body of
        None \<Rightarrow> Inl Bad_Json
      | Some (raw, rest) \<Rightarrow>
          (case dec raw zero of
             None \<Rightarrow> Inl Bad_Json
           | Some v \<Rightarrow>
               if skip_ws rest = [] then Inr v
               else if first_value rest \<noteq> None then Inl Not_One_Value
               else Inl Bad_Json))"

end
