(* ===== verification/RequestCommon.thy ===== *)
theory RequestCommon
  imports JsonStruct ClientTools SimCacheWiring
begin

text \<open>
  What the request handlers of \<^verbatim>\<open>cmd/cursor-proxy\<close> share: the request they pass to
  \<^verbatim>\<open>executor.RunChat\<close> (\<^verbatim>\<open>executor/chat.go\<close>), refusals, the instruction for structured output
  (\<^verbatim>\<open>structured_output.go\<close>), tool names, and the prefix they look up in the simulated cache.
\<close>

subsection \<open>The chat request\<close>

record history_turn =
  ht_role :: string
  ht_content :: string

definition turn :: "string \<Rightarrow> string \<Rightarrow> history_turn" where
  "turn role content = \<lparr>ht_role = role, ht_content = content\<rparr>"

lemma turn_simps [simp]:
  "ht_role (turn r c) = r" "ht_content (turn r c) = c" "turn r c = turn r' c' \<longleftrightarrow> r = r' \<and> c = c'"
  by (simp_all add: turn_def)

record attachment =
  at_kind :: string
  at_filename :: string
  at_mime_type :: string
  at_data :: "nat list"

record chat_request =
  cr_model :: string
  cr_user_message :: string
  cr_conversation_id :: string
  cr_workspace_path :: string
  cr_mode :: nat
  cr_history :: "history_turn list"
  cr_system_prompt :: string
  cr_harness :: string
  cr_pure_mode :: bool
  cr_auto_stop_on_turn_end :: bool
  cr_auto_stop_on_tool_call :: bool
  cr_tools :: "tool_definition list"
  cr_web_search :: bool
  cr_web_fetch :: bool
  cr_model_parameters :: "(string \<times> string) list"
  cr_attachments :: "attachment list"
  cr_omit_spliced_history :: bool
  cr_omit_host_context :: bool
  cr_omit_history_wire :: bool
  cr_prepend_user_messages :: "history_turn list"
  cr_send_to_listener :: "bool option"

definition empty_chat_request :: chat_request where
  "empty_chat_request = \<lparr>cr_model = [], cr_user_message = [], cr_conversation_id = [], cr_workspace_path = [], cr_mode = 0,
     cr_history = [], cr_system_prompt = [], cr_harness = [], cr_pure_mode = False, cr_auto_stop_on_turn_end = False,
     cr_auto_stop_on_tool_call = False, cr_tools = [], cr_web_search = False, cr_web_fetch = False,
     cr_model_parameters = [], cr_attachments = [], cr_omit_spliced_history = False, cr_omit_host_context = False,
     cr_omit_history_wire = False, cr_prepend_user_messages = [], cr_send_to_listener = None\<rparr>"

text \<open>The fields that every handler sets.\<close>

definition proxy_chat_request :: "string \<Rightarrow> string \<Rightarrow> string \<Rightarrow> string \<Rightarrow> history_turn list \<Rightarrow> tool_definition list \<Rightarrow>
    chat_request" where
  "proxy_chat_request conversation model system user history tools = empty_chat_request\<lparr>
     cr_model := model, cr_user_message := user, cr_system_prompt := system, cr_history := history,
     cr_conversation_id := conversation, cr_pure_mode := True, cr_auto_stop_on_turn_end := True,
     cr_auto_stop_on_tool_call := tools \<noteq> [], cr_tools := tools\<rparr>"

subsection \<open>Refusals\<close>

text \<open>\<^verbatim>\<open>http.Error\<close> with a status and a text, None for the text of a library's error; or a JSON error body.\<close>

datatype refusal = Text_Refusal nat "string option" | Json_Refusal nat json

definition refuse_body :: "decode_error \<Rightarrow> refusal" where
  "refuse_body e = Text_Refusal 400 (decode_error_text e)"

subsection \<open>Tools\<close>

definition tool_def_names :: "tool_definition list \<Rightarrow> string list" where
  "tool_def_names tools = filter (\<lambda>n. n \<noteq> []) (map td_name tools)"

text \<open>The tools as \<^verbatim>\<open>json.Marshal\<close> prints them; a nil slice is null.\<close>

definition tool_json :: "tool_definition \<Rightarrow> json" where
  "tool_json t = JObj [(''Name'', JStr (td_name t)), (''Description'', JStr (td_description t)),
     (''InputSchema'', case td_input_schema t of None \<Rightarrow> JNull | Some v \<Rightarrow> v)]"

definition tools_json :: "tool_definition list option \<Rightarrow> string" where
  "tools_json tools = print_json (case tools of None \<Rightarrow> JNull | Some ts \<Rightarrow> JArr (map tool_json ts))"

definition tools_of :: "tool_definition list option \<Rightarrow> tool_definition list" where
  "tools_of tools = (case tools of None \<Rightarrow> [] | Some ts \<Rightarrow> ts)"

definition request_prefix :: "string \<Rightarrow> string \<Rightarrow> string \<Rightarrow> tool_definition list option \<Rightarrow> string \<Rightarrow> history_turn list \<Rightarrow>
    string" where
  "request_prefix email protocol model tools system history =
     prefix_for_sim_cache email protocol model (Some (tools_json tools)) (trim_space system)
       (map (\<lambda>t. (ht_role t, ht_content t)) history)"

subsection \<open>Structured output\<close>

text \<open>\<^verbatim>\<open>json.Compact\<close> on valid JSON: white space outside string literals goes.\<close>

fun compact_json :: "string \<Rightarrow> string"
and compact_literal :: "string \<Rightarrow> string" where
  "compact_json [] = []"
| "compact_json (c # s) =
     (if is_ws c then compact_json s
      else if c = CHR 0x22 then c # compact_literal s else c # compact_json s)"
| "compact_literal [] = []"
| "compact_literal [c] = [c]"
| "compact_literal (c # d # s) =
     (if c = CHR 0x22 then c # compact_json (d # s)
      else if c = CHR 0x5C then c # d # compact_literal s else c # compact_literal (d # s))"

record json_schema_format =
  js_name :: string
  js_strict :: bool
  js_schema :: string

record structured_output_format =
  so_type :: string
  so_name :: string
  so_strict :: bool
  so_schema :: string
  so_json_schema :: "json_schema_format option"

definition dec_json_schema :: "json_schema_format decoder" where
  "dec_json_schema = dec_struct [struct_field ''name'' dec_string js_name js_name_update,
     struct_field ''strict'' dec_bool js_strict js_strict_update,
     struct_field ''schema'' dec_raw js_schema js_schema_update]"

definition dec_structured_output :: "structured_output_format decoder" where
  "dec_structured_output = dec_struct [struct_field ''type'' dec_string so_type so_type_update,
     struct_field ''name'' dec_string so_name so_name_update,
     struct_field ''strict'' dec_bool so_strict so_strict_update,
     struct_field ''schema'' dec_raw so_schema so_schema_update,
     struct_field ''json_schema'' (dec_ptr dec_json_schema \<lparr>js_name = [], js_strict = False, js_schema = []\<rparr>)
       so_json_schema so_json_schema_update]"

definition json_only :: string where
  "json_only = ''Return only valid JSON with no markdown fence, commentary, or trailing text.''"

definition structured_instruction :: "structured_output_format \<Rightarrow> string" where
  "structured_instruction f =
     (let schema = (case so_json_schema f of Some js \<Rightarrow> js_schema js | None \<Rightarrow> so_schema f) in
      if schema \<noteq> [] \<and> schema \<noteq> ''null'' \<and> json_valid schema
      then json_only @ '' The JSON must strictly satisfy this schema: '' @ compact_json schema else json_only)"

definition append_structured_output_instruction :: "string \<Rightarrow> string \<Rightarrow> string" where
  "append_structured_output_instruction system raw =
     (if raw = [] \<or> raw = ''null'' then system
      else case dec_structured_output raw
          \<lparr>so_type = [], so_name = [], so_strict = False, so_schema = [], so_json_schema = None\<rparr> of
        None \<Rightarrow> system
      | Some f \<Rightarrow>
          if so_type f \<noteq> ''json_object'' \<and> so_type f \<noteq> ''json_schema'' then system
          else if trim_space system = [] then structured_instruction f
          else trim_space system @ ''\<newline>'' @ structured_instruction f)"

definition append_responses_structured_output_instruction :: "string \<Rightarrow> string \<Rightarrow> string" where
  "append_responses_structured_output_instruction system raw =
     (if raw = [] \<or> raw = ''null'' then system
      else case dec_struct [struct_field ''format'' dec_raw id id] raw [] of
        None \<Rightarrow> system
      | Some format \<Rightarrow> append_structured_output_instruction system format)"

subsection \<open>Lines\<close>

text \<open>A line of text is added to what is there, with a newline between both.\<close>

definition add_line :: "string \<Rightarrow> string \<Rightarrow> string" where
  "add_line acc t = (if acc \<noteq> [] then acc @ ''\<newline>'' @ t else t)"

subsection \<open>The last user turn\<close>

text \<open>The index of the last turn that the test accepts, by the downward loop of the handlers.\<close>

fun last_index :: "('a \<Rightarrow> bool) \<Rightarrow> 'a list \<Rightarrow> nat option" where
  "last_index p [] = None"
| "last_index p (x # xs) = (case last_index p xs of Some i \<Rightarrow> Some (Suc i) | None \<Rightarrow> if p x then Some 0 else None)"

lemma last_index_None: "last_index p xs = None \<longleftrightarrow> \<not> list_ex p xs"
  by (induction xs) (auto split: option.splits)

lemma last_index_Some:
  "last_index p xs = Some i \<Longrightarrow> i < length xs \<and> p (xs ! i) \<and> \<not> list_ex p (drop (Suc i) xs)"
  by (induction xs arbitrary: i) (auto simp: last_index_None split: option.splits if_splits)

lemma last_index_snoc: "p x \<Longrightarrow> last_index p (xs @ [x]) = Some (length xs)"
  by (induction xs) auto

end
