(* ===== verification/ProxyRequests.thy ===== *)
theory ProxyRequests
  imports RequestCommon Base64
begin

text \<open>
  From request bodies to chat requests: the first half of the handlers for Chat Completions and
  Messages (\<^verbatim>\<open>cmd/cursor-proxy/main.go\<close>), Responses (\<^verbatim>\<open>responses_handler.go\<close>), generateContent
  (\<^verbatim>\<open>gemini_handler.go\<close>) and text completions (\<^verbatim>\<open>completions_handler.go\<close>). A handler refuses, or it
  gives the request for \<^verbatim>\<open>RunChat\<close>, the cache prefix and whether to stream. The printing of floats is the
  argument \<open>ft\<close>, the account's email and the conversation header are arguments.
\<close>

subsection \<open>Chat Completions\<close>

record openai_function =
  of_name :: string
  of_description :: string
  of_parameters :: "(string \<times> json) list option"

record openai_tool =
  ot_type :: string
  ot_function :: "openai_function option"

record openai_message =
  om_role :: string
  om_content :: string

record openai_request =
  oq_model :: string
  oq_messages :: "openai_message list"
  oq_stream :: bool
  oq_tools :: "openai_tool list"
  oq_response_format :: string
  oq_stream_options :: "bool option"

definition zero_openai :: openai_request where
  "zero_openai = \<lparr>oq_model = [], oq_messages = [], oq_stream = False, oq_tools = [], oq_response_format = [],
     oq_stream_options = None\<rparr>"

definition dec_openai_message :: "openai_message decoder" where
  "dec_openai_message = dec_struct [struct_field ''role'' dec_string om_role om_role_update,
     struct_field ''content'' dec_string om_content om_content_update]"

definition dec_openai_tool :: "(string \<Rightarrow> string option) \<Rightarrow> openai_tool decoder" where
  "dec_openai_tool ft = dec_struct [struct_field ''type'' dec_string ot_type ot_type_update,
     struct_field ''function'' (dec_ptr (dec_struct [struct_field ''name'' dec_string of_name of_name_update,
         struct_field ''description'' dec_string of_description of_description_update,
         struct_field ''parameters'' (dec_map ft) of_parameters of_parameters_update])
       \<lparr>of_name = [], of_description = [], of_parameters = None\<rparr>) ot_function ot_function_update]"

definition dec_openai_request :: "(string \<Rightarrow> string option) \<Rightarrow> openai_request decoder" where
  "dec_openai_request ft = dec_struct [struct_field ''model'' dec_string oq_model oq_model_update,
     struct_field ''messages'' (dec_list dec_openai_message \<lparr>om_role = [], om_content = []\<rparr>) oq_messages oq_messages_update,
     struct_field ''stream'' dec_bool oq_stream oq_stream_update,
     struct_field ''tools'' (dec_list (dec_openai_tool ft) \<lparr>ot_type = [], ot_function = None\<rparr>) oq_tools oq_tools_update,
     struct_field ''response_format'' dec_raw oq_response_format oq_response_format_update,
     struct_field ''stream_options'' (dec_ptr (dec_struct [struct_field ''include_usage'' dec_bool id id]) False)
       oq_stream_options oq_stream_options_update]"

definition tool_schema :: "(string \<times> json) list option \<Rightarrow> json option" where
  "tool_schema m = map_option JObj m"

definition convert_openai_tools :: "openai_tool list \<Rightarrow> tool_definition list option" where
  "convert_openai_tools ts =
     (if ts = [] then None
      else Some (concat (map (\<lambda>t.
        if ot_type t \<noteq> [] \<and> ot_type t \<noteq> ''function'' then []
        else case ot_function t of
          None \<Rightarrow> []
        | Some f \<Rightarrow> if of_name f = [] then []
            else [\<lparr>td_name = of_name f, td_description = of_description f,
                   td_input_schema = tool_schema (of_parameters f)\<rparr>]) ts)))"

definition openai_tool_names :: "openai_tool list \<Rightarrow> string list" where
  "openai_tool_names ts = concat (map (\<lambda>t. case ot_function t of
     None \<Rightarrow> [] | Some f \<Rightarrow> if trim_space (of_name f) \<noteq> [] then [trim_space (of_name f)] else []) ts)"

definition openai_system :: "openai_message list \<Rightarrow> string" where
  "openai_system ms = fold (\<lambda>m s. if om_role m = ''system'' then add_line s (om_content m) else s) ms []"

definition known_role :: "string \<Rightarrow> bool" where
  "known_role r \<longleftrightarrow> r = ''user'' \<or> r = ''assistant''"

type_synonym prepared = "refusal + chat_request \<times> string \<times> bool"

definition prepare_openai :: "string \<Rightarrow> string \<Rightarrow> openai_request \<Rightarrow> prepared" where
  "prepare_openai email conversation req =
     (let system = append_structured_output_instruction (openai_system (oq_messages req)) (oq_response_format req);
          turns = filter (\<lambda>m. om_role m \<noteq> ''system'') (oq_messages req) in
      case last_index (\<lambda>m. om_role m = ''user'') turns of
        None \<Rightarrow> Inl (Text_Refusal 400 (Some ''no user message''))
      | Some i \<Rightarrow>
          let user = om_content (turns ! i);
              history = map (\<lambda>m. turn (om_role m) (om_content m)) (filter (\<lambda>m. known_role (om_role m)) (take i turns));
              tools = convert_openai_tools (oq_tools req)
          in Inr (proxy_chat_request conversation (oq_model req) system user history (tools_of tools),
               request_prefix email ''openai-chat'' (oq_model req) tools system history, oq_stream req))"

subsection \<open>Messages\<close>

record anthropic_tool =
  aq_type :: string
  aq_name :: string
  aq_description :: string
  aq_input_schema :: "(string \<times> json) list option"

record anthropic_message =
  ap_role :: string
  ap_content :: "json option"

record anthropic_request =
  aq_model :: string
  aq_system :: "json option"
  aq_messages :: "anthropic_message list"
  aq_stream :: bool
  aq_tools :: "anthropic_tool list"
  aq_effort :: "string option"
  aq_thinking :: "(string \<times> int) option"

definition zero_anthropic :: anthropic_request where
  "zero_anthropic = \<lparr>aq_model = [], aq_system = None, aq_messages = [], aq_stream = False, aq_tools = [],
     aq_effort = None, aq_thinking = None\<rparr>"

definition dec_anthropic_request :: "(string \<Rightarrow> string option) \<Rightarrow> anthropic_request decoder" where
  "dec_anthropic_request ft = dec_struct [struct_field ''model'' dec_string aq_model aq_model_update,
     struct_field ''system'' (dec_any ft) aq_system aq_system_update,
     struct_field ''messages'' (dec_list (dec_struct [struct_field ''role'' dec_string ap_role ap_role_update,
         struct_field ''content'' (dec_any ft) ap_content ap_content_update])
       \<lparr>ap_role = [], ap_content = None\<rparr>) aq_messages aq_messages_update,
     struct_field ''stream'' dec_bool aq_stream aq_stream_update,
     struct_field ''tools'' (dec_list (dec_struct [struct_field ''type'' dec_string aq_type aq_type_update,
         struct_field ''name'' dec_string aq_name aq_name_update,
         struct_field ''description'' dec_string aq_description aq_description_update,
         struct_field ''input_schema'' (dec_map ft) aq_input_schema aq_input_schema_update])
       \<lparr>aq_type = [], aq_name = [], aq_description = [], aq_input_schema = None\<rparr>) aq_tools aq_tools_update,
     struct_field ''output_config'' (dec_ptr (dec_struct [struct_field ''effort'' dec_string id id]) [])
       aq_effort aq_effort_update,
     struct_field ''thinking'' (dec_ptr (dec_struct [struct_field ''type'' dec_string fst apfst,
         struct_field ''budget_tokens'' dec_int snd apsnd]) ([], 0)) aq_thinking aq_thinking_update]"

definition is_anthropic_server_tool :: "anthropic_tool \<Rightarrow> bool" where
  "is_anthropic_server_tool t \<longleftrightarrow> aq_type t \<noteq> [] \<and> aq_type t \<noteq> ''custom''"

text \<open>The definitions, whether web search and web fetch are wanted, and the first unsupported type.\<close>

definition anthropic_tool_step :: "anthropic_tool \<Rightarrow> tool_definition list \<times> bool \<times> bool \<times> string \<Rightarrow>
    tool_definition list \<times> bool \<times> bool \<times> string" where
  "anthropic_tool_step t = (\<lambda>(out, search, fetch, bad).
     if is_anthropic_server_tool t then
       (if has_prefix (aq_type t) ''web_search_'' then (out, True, fetch, bad)
        else if has_prefix (aq_type t) ''web_fetch_'' then (out, search, True, bad)
        else if bad = [] then (out, search, fetch, aq_type t) else (out, search, fetch, bad))
     else if aq_name t = [] then (out, search, fetch, bad)
     else (out @ [\<lparr>td_name = aq_name t, td_description = aq_description t,
                    td_input_schema = tool_schema (aq_input_schema t)\<rparr>], search, fetch, bad))"

definition convert_anthropic_tools :: "anthropic_tool list \<Rightarrow> tool_definition list option \<times> bool \<times> bool \<times> string" where
  "convert_anthropic_tools ts =
     (if ts = [] then (None, False, False, [])
      else case fold anthropic_tool_step ts ([], False, False, []) of (out, rest) \<Rightarrow> (Some out, rest))"

definition anthropic_tool_names :: "anthropic_tool list \<Rightarrow> string list" where
  "anthropic_tool_names ts = concat (map (\<lambda>t.
     if is_anthropic_server_tool t then []
     else if trim_space (aq_name t) \<noteq> [] then [trim_space (aq_name t)] else []) ts)"

text \<open>The text of a list of blocks, as of a system prompt or a tool result.\<close>

definition block_texts :: "json list \<Rightarrow> string" where
  "block_texts bs = fold (\<lambda>b out. let t = as_string (map_get (as_map (Some b)) ''text'') in
     if t \<noteq> [] then add_line out t else out) bs []"

definition flatten_anthropic_system :: "json option \<Rightarrow> string" where
  "flatten_anthropic_system s = (case s of Some (JStr t) \<Rightarrow> t | Some (JArr bs) \<Rightarrow> block_texts bs | _ \<Rightarrow> [])"

definition anthropic_attachment_from_block :: "string \<Rightarrow> (string \<times> json) list \<Rightarrow> attachment option" where
  "anthropic_attachment_from_block kind block =
     (case as_map (map_of block ''source'') of
        None \<Rightarrow> None
      | Some source \<Rightarrow>
          let data = as_string (map_of source ''data'');
              decoded = (let k = as_string (map_of source ''type'') in
                 if k = ''base64'' then b64_decode False True data
                 else if k = ''text'' then Some (map byte_of data) else None);
              names = filter (\<lambda>n. n \<noteq> []) (map (\<lambda>k. as_string (map_of block k)) [''filename'', ''title'', ''name'']);
              filename = (case names of n # _ \<Rightarrow> n | [] \<Rightarrow> if kind = ''document'' then ''document.pdf'' else [])
          in if data = [] then None
             else map_option (\<lambda>bytes. \<lparr>at_kind = kind, at_filename = filename,
               at_mime_type = as_string (map_of source ''media_type''), at_data = bytes\<rparr>) decoded)"

definition tool_result_text :: "json option \<Rightarrow> string" where
  "tool_result_text c = (case c of Some (JStr s) \<Rightarrow> s | Some (JArr bs) \<Rightarrow> block_texts bs | _ \<Rightarrow> [])"

text \<open>The line of text a block becomes, if any, and its attachment.\<close>

definition flatten_block :: "(string \<times> json) list \<Rightarrow> string list \<times> attachment list" where
  "flatten_block b =
     (let k = as_string (map_of b ''type'') in
      if k = ''text'' \<or> k = [] then
        (let t = as_string (map_of b ''text'') in (if t \<noteq> [] then [t] else [], []))
      else if k = ''tool_use'' then
        ([''[tool_use id='' @ as_string (map_of b ''id'') @ '' name='' @ as_string (map_of b ''name'') @ '' input='' @
           print_json (case map_of b ''input'' of Some v \<Rightarrow> v | None \<Rightarrow> JNull) @ '']''], [])
      else if k = ''tool_result'' then
        ([''['' @ (if as_bool (map_of b ''is_error'') then ''tool_result_error'' else ''tool_result'') @ '' tool_use_id='' @
           as_string (map_of b ''tool_use_id'') @ '': '' @ tool_result_text (map_of b ''content'') @ '']''], [])
      else if k = ''image'' \<or> k = ''document'' then
        ([], case anthropic_attachment_from_block k b of Some a \<Rightarrow> [a] | None \<Rightarrow> [])
      else ([], []))"

definition flatten_anthropic_content_with_attachments :: "json option \<Rightarrow> string \<times> attachment list" where
  "flatten_anthropic_content_with_attachments c =
     (case c of
        Some (JStr s) \<Rightarrow> (s, [])
      | Some (JArr bs) \<Rightarrow>
          let parts = map (\<lambda>b. case b of JObj m \<Rightarrow> flatten_block m | _ \<Rightarrow> ([], [])) bs
          in (join_str ''\<newline>'' (concat (map fst parts)), concat (map snd parts))
      | _ \<Rightarrow> ([], []))"

definition flatten_anthropic_content :: "json option \<Rightarrow> string" where
  "flatten_anthropic_content c = fst (flatten_anthropic_content_with_attachments c)"

definition write_anthropic_error :: "nat \<Rightarrow> string \<Rightarrow> string \<Rightarrow> refusal" where
  "write_anthropic_error status kind message = Json_Refusal status (JObj
     [(''error'', JObj [(''message'', JStr message), (''type'', JStr kind)]), (''type'', JStr ''error'')])"

definition canonicalize_anthropic_model :: "string \<Rightarrow> string \<Rightarrow> string" where
  "canonicalize_anthropic_model model effort = trim_space model"

definition requested_effort :: "anthropic_request \<Rightarrow> string" where
  "requested_effort req =
     (let effort = (case aq_effort req of Some e \<Rightarrow> to_lower (trim_space e) | None \<Rightarrow> []) in
      if effort = [] \<and> (case aq_thinking req of Some (_, b) \<Rightarrow> b > 0 | None \<Rightarrow> False) then ''high'' else effort)"

definition anthropic_parameters :: "anthropic_request \<Rightarrow> (string \<times> string) list" where
  "anthropic_parameters req =
     (if requested_effort req \<noteq> [] then [(''effort'', requested_effort req)] else []) @
     (if (case aq_thinking req of Some (_, b) \<Rightarrow> b > 0 | None \<Rightarrow> False) then [(''thinking'', ''true'')] else [])"

text \<open>The quotation of the refused type by \<^verbatim>\<open>%q\<close> is the argument \<open>quoted\<close>.\<close>

definition unsupported_tool_message :: "(string \<Rightarrow> string) \<Rightarrow> string \<Rightarrow> string" where
  "unsupported_tool_message quoted t = ''Anthropic server-side tool '' @ quoted t @
     '' is not supported when routed through Cursor. Cursor runs its own agent tools; only client-side custom tools (type='' @
     [CHR 0x22] @ ''custom'' @ [CHR 0x22] @ '' or omitted) are proxied.''"

definition prepare_anthropic :: "(string \<Rightarrow> string) \<Rightarrow> string \<Rightarrow> string \<Rightarrow> anthropic_request \<Rightarrow> prepared" where
  "prepare_anthropic quoted email conversation req =
     (let system = flatten_anthropic_system (aq_system req) in
      case last_index (\<lambda>m. ap_role m = ''user'') (aq_messages req) of
        None \<Rightarrow> Inl (Text_Refusal 400 (Some ''no user message''))
      | Some i \<Rightarrow>
          let (user, attachments) = flatten_anthropic_content_with_attachments (ap_content (aq_messages req ! i));
              history = map (\<lambda>m. turn (ap_role m) (flatten_anthropic_content (ap_content m)))
                (filter (\<lambda>m. known_role (ap_role m)) (take i (aq_messages req)));
              (tools, search, fetch, bad) = convert_anthropic_tools (aq_tools req)
          in if bad \<noteq> [] then Inl (write_anthropic_error 400 ''invalid_request_error'' (unsupported_tool_message quoted bad))
             else Inr ((proxy_chat_request conversation
                   (canonicalize_anthropic_model (aq_model req) (requested_effort req)) system user history (tools_of tools))
                 \<lparr>cr_attachments := attachments, cr_web_search := search, cr_web_fetch := fetch,
                  cr_send_to_listener := (if search \<or> fetch then Some True else None),
                  cr_model_parameters := anthropic_parameters req\<rparr>,
               request_prefix email ''anthropic-messages'' (aq_model req) tools system history, aq_stream req))"

end
