(* ===== verification/CompletionsHandler.thy ===== *)
theory CompletionsHandler
  imports ChatDelivery ProxyRequests
begin

text \<open>
  \<^verbatim>\<open>cmd/cursor-proxy/completions_handler.go\<close>, the legacy text completions: the prompt, the stream of
  chunks, and the single answer. Tool calls are not forwarded, and names are not mapped.
\<close>

subsection \<open>The prompt\<close>

record completions_request =
  lq_model :: string
  lq_prompt :: string
  lq_stream :: bool

definition dec_completions_request :: "completions_request decoder" where
  "dec_completions_request = dec_struct [struct_field ''model'' dec_string lq_model lq_model_update,
     struct_field ''prompt'' dec_raw lq_prompt lq_prompt_update,
     struct_field ''stream'' dec_bool lq_stream lq_stream_update]"

text \<open>A string or an array of strings; None is a decoding error.\<close>

definition flatten_legacy_prompt :: "string \<Rightarrow> string option" where
  "flatten_legacy_prompt raw =
     (if raw = [] \<or> raw = ''null'' then Some []
      else if hd raw = CHR 0x22 then
        (case json_parse raw of Some (JStr s) \<Rightarrow> Some s | _ \<Rightarrow> None)
      else map_option (join_str ''\<newline>\<newline>'') (dec_list dec_string [] raw []))"

definition prepare_completions :: "string \<Rightarrow> string \<Rightarrow> completions_request \<Rightarrow> prepared" where
  "prepare_completions email conversation req =
     (case flatten_legacy_prompt (lq_prompt req) of
        None \<Rightarrow> Inl (Text_Refusal 400 None)
      | Some prompt \<Rightarrow>
          if trim_space prompt = [] then Inl (Text_Refusal 400 (Some ''empty prompt''))
          else Inr (proxy_chat_request conversation (lq_model req) [] prompt [] [],
                 request_prefix email ''openai-completions'' (lq_model req) None [] [], lq_stream req))"

subsection \<open>The stream\<close>

text \<open>A chunk with its text and its finish reason, empty for none, or the end mark.\<close>

datatype legacy_chunk = Legacy_Chunk string string | Legacy_Done

definition legacy_json :: "string \<Rightarrow> int \<Rightarrow> string \<Rightarrow> string \<Rightarrow> string \<Rightarrow> json" where
  "legacy_json uid created model s finish = JObj
     [(''choices'', JArr [JObj [(''finish_reason'', if finish \<noteq> [] then JStr finish else JNull),
         (''index'', JNum (fmt_int 0)), (''text'', JStr s)]]),
      (''created'', JNum (fmt_int created)), (''id'', JStr uid), (''model'', JStr model), (''object'', JStr ''text_completion'')]"

fun legacy_bytes :: "string \<Rightarrow> int \<Rightarrow> string \<Rightarrow> legacy_chunk \<Rightarrow> string" where
  "legacy_bytes uid created model (Legacy_Chunk s finish) =
     ''data: '' @ print_json (legacy_json uid created model s finish) @ ''\<newline>\<newline>''"
| "legacy_bytes uid created model Legacy_Done = ''data: [DONE]\<newline>\<newline>''"

definition encode_legacy :: "event \<Rightarrow> unit \<Rightarrow> legacy_chunk list \<times> unit" where
  "encode_legacy ev u =
     (if ev_kind ev = EventTextDelta then (if ev_text ev \<noteq> [] then [Legacy_Chunk (ev_text ev) []] else [], u)
      else if ev_kind ev = EventTurnEnded then ([Legacy_Chunk [] ''stop''], u)
      else ([], u))"

definition stream_legacy_completions :: "(server_message \<Rightarrow> event option) \<Rightarrow> sim_cache_decision \<Rightarrow> chat_event list \<Rightarrow>
    legacy_chunk answer" where
  "stream_legacy_completions tr d ces =
     (let st = fold (loop_step tr encode_legacy [] d) ces (new_loop ()) in
      case failure write_upstream_openai_error write_empty_upstream_openai_error st of
        Some r \<Rightarrow> Failed r
      | None \<Rightarrow>
          Stream (lp_frames st @ (if lp_saw_turn_end st then [] else [Legacy_Chunk [] ''stop'']) @ [Legacy_Done]))"

subsection \<open>The single answer\<close>

definition legacy_build_usage :: "usage option \<Rightarrow> json" where
  "legacy_build_usage u =
     (let (prompt, completion) = (case u of None \<Rightarrow> (0, 0) | Some u \<Rightarrow> (u_input u, u_output u)) in
      JObj [(''completion_tokens'', JNum (fmt_int completion)), (''prompt_tokens'', JNum (fmt_int prompt)),
        (''total_tokens'', JNum (fmt_int (i64 (prompt + completion))))])"

definition non_stream_legacy_step :: "(server_message \<Rightarrow> event option) \<Rightarrow> chat_event \<Rightarrow>
    string \<times> usage option \<times> trailer_status option \<Rightarrow> string \<times> usage option \<times> trailer_status option" where
  "non_stream_legacy_step tr ce = (\<lambda>(t, u, err).
     case ce of
       Trailer_Event status \<Rightarrow> (t, u, note_trailer status err)
     | Server_Event None \<Rightarrow> (t, u, err)
     | Server_Event (Some m) \<Rightarrow>
         (case snapshot_of m of
            Some full \<Rightarrow> (full, u, err)
          | None \<Rightarrow>
              (case tr m of
                 None \<Rightarrow> (t, u, err)
               | Some ev \<Rightarrow>
                   if ev_kind ev = EventTextDelta then (t @ ev_text ev, u, err)
                   else if ev_kind ev = EventTurnEnded then (t, ev_usage ev, err)
                   else (t, u, err))))"

definition legacy_response :: "string \<Rightarrow> int \<Rightarrow> string \<Rightarrow> string \<Rightarrow> usage option \<Rightarrow> json" where
  "legacy_response uuid now model t u = JObj
     [(''choices'', JArr [JObj [(''finish_reason'', JStr ''stop''), (''index'', JNum (fmt_int 0)),
         (''logprobs'', JNull), (''text'', JStr t)]]),
      (''created'', JNum (fmt_int now)), (''id'', JStr (''cmpl-'' @ uuid)), (''model'', JStr model),
      (''object'', JStr ''text_completion''), (''usage'', legacy_build_usage u)]"

definition non_stream_legacy_completions :: "(server_message \<Rightarrow> event option) \<Rightarrow> sim_cache_decision \<Rightarrow> string \<Rightarrow> string \<Rightarrow>
    int \<Rightarrow> chat_event list \<Rightarrow> answer_or_error" where
  "non_stream_legacy_completions tr d model uuid now ces =
     (case fold (non_stream_legacy_step tr) ces ([], None, None) of (t, u, err) \<Rightarrow>
        if err \<noteq> None \<and> t = [] then Error_Answer (write_upstream_openai_error err)
        else if is_empty_upstream_response (t \<noteq> []) u then Error_Answer write_empty_upstream_openai_error
        else Answer (header_after d (case u of None \<Rightarrow> 0 | Some u \<Rightarrow> u_cache_read u))
          (legacy_response uuid now model t (apply_to_usage d u False)))"

subsection \<open>The answers agree\<close>

definition legacy_text :: "legacy_chunk list \<Rightarrow> string" where
  "legacy_text fs = concat (map (\<lambda>f. case f of Legacy_Chunk s _ \<Rightarrow> s | Legacy_Done \<Rightarrow> []) fs)"

lemma legacy_text_simps [simp]:
  "legacy_text [] = []" "legacy_text (f # fs) = (case f of Legacy_Chunk s _ \<Rightarrow> s | Legacy_Done \<Rightarrow> []) @ legacy_text fs"
  "legacy_text (fs @ gs) = legacy_text fs @ legacy_text gs"
  by (simp_all add: legacy_text_def)

interpretation legacy_text: text_writer encode_legacy "\<lambda>_. True" legacy_text
  by unfold_locales (auto simp: encode_legacy_def step_text_def split: if_splits)

lemma legacy_step_text:
  "non_stream_legacy_step tr ce (t, u, err) = (t', u', err') \<Longrightarrow> t' = last_text (chat_input tr ce) t"
  by (auto simp: non_stream_legacy_step_def chat_input_def split: chat_event.splits option.splits if_splits)

lemma legacy_fold_text:
  "fold (non_stream_legacy_step tr) ces (t, u, err) = (t', u', err') \<Longrightarrow> t' = last_text (chat_inputs tr ces) t"
proof (induction ces arbitrary: t u err)
  case (Cons ce ces)
  obtain t1 u1 e1 where 1: "non_stream_legacy_step tr ce (t, u, err) = (t1, u1, e1)"
    by (cases "non_stream_legacy_step tr ce (t, u, err)")
  from legacy_step_text [OF 1] Cons.IH [of t1 u1 e1] Cons.prems 1 show ?case
    by (simp add: chat_inputs_def last_text_append)
qed (simp add: chat_inputs_def)

text \<open>
  C12: A text completion says what the upstream said, streamed or not. For any upstream messages, the
  text of the chunks is the merged text and the end mark comes last and once; the text of the single
  answer is the merged text too if every snapshot extends the text before it.
\<close>

theorem completion_answered:
  assumes "stream_legacy_completions tr d ces = Stream fs"
    and "non_stream_legacy_completions tr d model uuid now ces = Answer h body"
  shows "legacy_text fs = fst (accept_inputs (chat_inputs tr ces) []) \<and>
    (\<exists>cs. fs = cs @ [Legacy_Done] \<and> Legacy_Done \<notin> set cs) \<and>
    (\<exists>t u. body = legacy_response uuid now model t u \<and> t = last_text (chat_inputs tr ces) [] \<and>
       (growing (chat_inputs tr ces) [] \<longrightarrow> t = legacy_text fs))"
proof -
  obtain evs v where says: "loop_says_all tr [] d ces ([], False) = (evs, v)" by (cases "loop_says_all tr [] d ces ([], False)")
  let ?st = "fold (loop_step tr encode_legacy [] d) ces (new_loop ())"
  have st: "lp_frames ?st = fst (run_writer encode_legacy evs ())"
    using loop_says [of tr "[]" d ces "new_loop ()" evs v encode_legacy] says by simp
  have fs: "fs = lp_frames ?st @ (if lp_saw_turn_end ?st then [] else [Legacy_Chunk [] ''stop'']) @ [Legacy_Done]"
    using assms(1) by (auto simp: stream_legacy_completions_def Let_def split: option.splits if_splits)
  have "legacy_text (lp_frames ?st) = events_text evs"
    using legacy_text.run_text [of evs "()"] unfolding st by (metis TrueI prod.collapse)
  then have said: "legacy_text fs = fst (accept_inputs (chat_inputs tr ces) [])"
    using loop_says_text [of tr "[]" d ces "[]" False evs] says by (cases v) (simp add: fs)
  have "Legacy_Done \<notin> set (fst (run_writer encode_legacy evs ()))"
    by (induction evs) (auto simp: encode_legacy_def split: prod.splits)
  then have ended: "\<exists>cs. fs = cs @ [Legacy_Done] \<and> Legacy_Done \<notin> set cs"
    using fs by (intro exI [of _ "butlast fs"]) (simp add: st butlast_append)
  obtain t u err where f: "fold (non_stream_legacy_step tr) ces ([], None, None) = (t, u, err)"
    by (cases "fold (non_stream_legacy_step tr) ces ([], None, None)")
  have t: "t = last_text (chat_inputs tr ces) []" using legacy_fold_text [OF f] .
  moreover have "body = legacy_response uuid now model t (apply_to_usage d u False)"
    using assms(2) f by (simp add: non_stream_legacy_completions_def split: if_splits)
  moreover have "growing (chat_inputs tr ces) [] \<longrightarrow> t = legacy_text fs"
    using growing_text [of "chat_inputs tr ces" "[]"] unfolding said t
    by (cases "accept_inputs (chat_inputs tr ces) []") auto
  ultimately show ?thesis using said ended by blast
qed

theorem completion_answered_witness:
  "\<exists>fs h body. stream_legacy_completions plain_translation no_cache hello_chat = Stream fs \<and>
     non_stream_legacy_completions plain_translation no_cache ''m'' ''u'' 0 hello_chat = Answer h body \<and>
     legacy_text fs = ''Hi''"
proof -
  have "fst (encode_legacy ev ()) \<noteq> []" if "ev_kind ev = EventTextDelta" "ev_text ev \<noteq> []" for ev
    using that by (simp add: encode_legacy_def)
  from failure_written [OF hello_written [where enc = encode_legacy and w = "()", OF this]]
  obtain fs where s: "stream_legacy_completions plain_translation no_cache hello_chat = Stream fs"
    by (simp add: stream_legacy_completions_def Let_def)
  obtain h body where n: "non_stream_legacy_completions plain_translation no_cache ''m'' ''u'' 0 hello_chat = Answer h body"
    by (auto simp: non_stream_legacy_completions_def hello_chat_def non_stream_legacy_step_def hello_events
        call_event_def event_of_def is_empty_upstream_response_def note_trailer_def)
  have "legacy_text fs = ''Hi''"
    using conjunct1 [OF completion_answered [OF s n]] by (simp add: hello_inputs accept_delta_def)
  with s n show ?thesis by blast
qed

text \<open>A turn that ended with usage and no output is answered by the end mark alone, without a finish reason.\<close>

lemma silent_completion_unfinished:
  "stream_legacy_completions plain_translation no_cache
     [Server_Event (Some (Msg_Update (Upd_Turn_Ended 5 2 0 0 0)))] = Stream [Legacy_Done]"
proof -
  let ?ev = "turn_end (Some \<lparr>u_input = 5, u_output = 2, u_cache_read = 0, u_cache_write = 0, u_reasoning = 0,
     u_observed = 0, u_truncated = 0\<rparr>)"
  let ?st = "loop_step plain_translation encode_legacy [] no_cache
     (Server_Event (Some (Msg_Update (Upd_Turn_Ended 5 2 0 0 0)))) (new_loop ())"
  have "?st = loop_event encode_legacy [] no_cache ?ev (new_loop ())"
    by (simp only: loop_step_def hello_events chat_event.case option.case)
  then have "?st = (new_loop ())\<lparr>lp_saw_turn_end := True, lp_last_usage := ev_usage ?ev\<rparr>"
    by (simp add: loop_event_def turn_end_def event_of_def new_loop_def apply_to_usage_def no_cache_def Let_def)
  then have "lp_frames ?st = []" "lp_saw_turn_end ?st"
    "failure write_upstream_openai_error write_empty_upstream_openai_error ?st = None"
    by (simp_all add: new_loop_def failure_def is_empty_upstream_response_def turn_end_def event_of_def)
  then show ?thesis by (simp add: stream_legacy_completions_def Let_def)
qed

end
