(* ===== verification/ResponsesRequest.thy ===== *)
theory ResponsesRequest
  imports ProxyRequests
begin

text \<open>
  Request translation of \<^verbatim>\<open>cmd/cursor-proxy/responses_handler.go\<close>: the input of a Responses request is a
  string or a list of items, which become the system prompt, the history and the user's text.
\<close>

record responses_tool =
  rt_type :: string
  rt_name :: string
  rt_description :: string
  rt_parameters :: "(string \<times> json) list option"

record responses_item =
  ri_type :: string
  ri_role :: string
  ri_content :: string
  ri_call_id :: string
  ri_name :: string
  ri_arguments :: string
  ri_output :: string

record responses_request =
  rq_model :: string
  rq_instructions :: string
  rq_input :: string
  rq_tools :: "responses_tool list"
  rq_text :: string
  rq_stream :: bool

definition zero_item :: responses_item where
  "zero_item = \<lparr>ri_type = [], ri_role = [], ri_content = [], ri_call_id = [], ri_name = [], ri_arguments = [],
     ri_output = []\<rparr>"

definition zero_responses :: responses_request where
  "zero_responses = \<lparr>rq_model = [], rq_instructions = [], rq_input = [], rq_tools = [], rq_text = [], rq_stream = False\<rparr>"

definition dec_responses_item :: "responses_item decoder" where
  "dec_responses_item = dec_struct [struct_field ''type'' dec_string ri_type ri_type_update,
     struct_field ''role'' dec_string ri_role ri_role_update,
     struct_field ''content'' dec_raw ri_content ri_content_update,
     struct_field ''call_id'' dec_string ri_call_id ri_call_id_update,
     struct_field ''name'' dec_string ri_name ri_name_update,
     struct_field ''arguments'' dec_string ri_arguments ri_arguments_update,
     struct_field ''output'' dec_string ri_output ri_output_update]"

definition dec_responses_request :: "(string \<Rightarrow> string option) \<Rightarrow> responses_request decoder" where
  "dec_responses_request ft = dec_struct [struct_field ''model'' dec_string rq_model rq_model_update,
     struct_field ''instructions'' dec_string rq_instructions rq_instructions_update,
     struct_field ''input'' dec_raw rq_input rq_input_update,
     struct_field ''tools'' (dec_list (dec_struct [struct_field ''type'' dec_string rt_type rt_type_update,
         struct_field ''name'' dec_string rt_name rt_name_update,
         struct_field ''description'' dec_string rt_description rt_description_update,
         struct_field ''parameters'' (dec_map ft) rt_parameters rt_parameters_update])
       \<lparr>rt_type = [], rt_name = [], rt_description = [], rt_parameters = None\<rparr>) rq_tools rq_tools_update,
     struct_field ''text'' dec_raw rq_text rq_text_update,
     struct_field ''stream'' dec_bool rq_stream rq_stream_update]"

definition convert_responses_tools :: "responses_tool list \<Rightarrow> tool_definition list option" where
  "convert_responses_tools ts =
     (if ts = [] then None
      else Some (map (\<lambda>t. \<lparr>td_name = rt_name t, td_description = rt_description t,
          td_input_schema = tool_schema (rt_parameters t)\<rparr>)
        (filter (\<lambda>t. (rt_type t = [] \<or> rt_type t = ''function'') \<and> rt_name t \<noteq> []) ts)))"

text \<open>A string, or the texts of a list of parts; anything else has no text.\<close>

definition flatten_responses_content :: "(string \<Rightarrow> string option) \<Rightarrow> string \<Rightarrow> string" where
  "flatten_responses_content ft raw =
     (if raw = [] then []
      else case (if hd raw = CHR 0x22 then json_parse raw else None) of
        Some (JStr s) \<Rightarrow> s
      | _ \<Rightarrow>
          (case unmarshal_any ft raw of
             Some (JArr ps) \<Rightarrow>
               if list_all (\<lambda>p. case p of JObj _ \<Rightarrow> True | JNull \<Rightarrow> True | _ \<Rightarrow> False) ps then block_texts ps else []
           | _ \<Rightarrow> []))"

definition is_message :: "responses_item \<Rightarrow> bool" where
  "is_message it \<longleftrightarrow> ri_type it = [] \<or> ri_type it = ''message''"

definition is_user_message :: "responses_item \<Rightarrow> bool" where
  "is_user_message it \<longleftrightarrow> is_message it \<and> ri_role it = ''user''"

text \<open>One item: the system prompt, the history built so far and the trailing user text.\<close>

definition responses_item_step :: "(string \<Rightarrow> string option) \<Rightarrow> nat option \<Rightarrow> nat \<times> responses_item \<Rightarrow>
    string \<times> history_turn list \<times> string \<Rightarrow> string \<times> history_turn list \<times> string" where
  "responses_item_step ft last_user = (\<lambda>(i, it) (system, built, user).
     if is_message it then
       (let text = flatten_responses_content ft (ri_content it) in
        if ri_role it = ''system'' then (if text \<noteq> [] then add_line system text else system, built, user)
        else if ri_role it = ''user'' then
          (if last_user = Some i then (system, built, text)
           else if text \<noteq> [] then (system, built @ [turn ''user'' text], user) else (system, built, user))
        else if ri_role it = ''assistant'' then
          (system, if text \<noteq> [] then built @ [turn ''assistant'' text] else built, user)
        else (system, built, user))
     else if ri_type it = ''function_call'' then
       (system, built @ [turn ''assistant''
          (''[tool_call name='' @ ri_name it @ '' arguments='' @ ri_arguments it @ '']'')], user)
     else if ri_type it = ''function_call_output'' then
       (system, built @ [turn ''user''
          (''[tool_result call_id='' @ ri_call_id it @ '' output='' @ ri_output it @ '']'')], user)
     else (system, built, user))"

text \<open>None is a decoding error.\<close>

definition parse_responses_input :: "(string \<Rightarrow> string option) \<Rightarrow> responses_request \<Rightarrow>
    (string \<times> history_turn list \<times> string) option" where
  "parse_responses_input ft req =
     (let system = trim_space (rq_instructions req); raw = rq_input req in
      if raw \<noteq> [] \<and> hd raw = CHR 0x22 then
        (case json_parse raw of Some (JStr s) \<Rightarrow> Some (system, [], s) | _ \<Rightarrow> None)
      else if raw = [] \<or> raw = ''null'' then Some (system, [], [])
      else map_option (\<lambda>items. fold (responses_item_step ft (last_index is_user_message items))
             (enumerate 0 items) (system, [], []))
           (dec_list dec_responses_item zero_item raw []))"

definition prepare_responses :: "(string \<Rightarrow> string option) \<Rightarrow> string \<Rightarrow> string \<Rightarrow> responses_request \<Rightarrow> prepared" where
  "prepare_responses ft email conversation req =
     (let tools = convert_responses_tools (rq_tools req) in
      case parse_responses_input ft req of
        None \<Rightarrow> Inl (Text_Refusal 400 None)
      | Some (system, history, user) \<Rightarrow>
          if user = [] then Inl (Text_Refusal 400 (Some ''no user input''))
          else
            let system = append_responses_structured_output_instruction system (rq_text req)
            in Inr (proxy_chat_request conversation (rq_model req) system user history (tools_of tools),
                 request_prefix email ''openai-responses'' (rq_model req) tools system history, rq_stream req))"

end
