(* ===== verification/GeminiRequest.thy ===== *)
theory GeminiRequest
  imports ProxyRequests Gemini
begin

text \<open>
  Request translation of \<^verbatim>\<open>cmd/cursor-proxy/gemini_handler.go\<close>, with the router that takes model and
  method from the path, and the token estimate of \<^verbatim>\<open>count_tokens_handler.go\<close>.
\<close>

subsection \<open>generateContent\<close>

record gemini_part =
  gp_text :: string
  gp_function_call :: string
  gp_function_resp :: string

record gemini_content =
  gq_role :: string
  gq_parts :: "gemini_part list"

record gemini_function =
  gf_name :: string
  gf_description :: string
  gf_parameters :: "(string \<times> json) list option"

record gemini_request =
  gr_contents :: "gemini_content list"
  gr_system :: "gemini_content option"
  gr_tools :: "gemini_function list list"
  gr_config :: "(string \<times> json) list option"

definition zero_gemini :: gemini_request where
  "zero_gemini = \<lparr>gr_contents = [], gr_system = None, gr_tools = [], gr_config = None\<rparr>"

definition dec_gemini_content :: "gemini_content decoder" where
  "dec_gemini_content = dec_struct [struct_field ''role'' dec_string gq_role gq_role_update,
     struct_field ''parts'' (dec_list (dec_struct [struct_field ''text'' dec_string gp_text gp_text_update,
         struct_field ''functionCall'' dec_raw gp_function_call gp_function_call_update,
         struct_field ''functionResponse'' dec_raw gp_function_resp gp_function_resp_update])
       \<lparr>gp_text = [], gp_function_call = [], gp_function_resp = []\<rparr>) gq_parts gq_parts_update]"

definition dec_gemini_function :: "(string \<Rightarrow> string option) \<Rightarrow> gemini_function decoder" where
  "dec_gemini_function ft = dec_struct [struct_field ''name'' dec_string gf_name gf_name_update,
     struct_field ''description'' dec_string gf_description gf_description_update,
     struct_field ''parameters'' (dec_map ft) gf_parameters gf_parameters_update]"

definition dec_gemini_request :: "(string \<Rightarrow> string option) \<Rightarrow> gemini_request decoder" where
  "dec_gemini_request ft = dec_struct [
     struct_field ''contents'' (dec_list dec_gemini_content \<lparr>gq_role = [], gq_parts = []\<rparr>) gr_contents gr_contents_update,
     struct_field ''systemInstruction'' (dec_ptr dec_gemini_content \<lparr>gq_role = [], gq_parts = []\<rparr>) gr_system gr_system_update,
     struct_field ''tools'' (dec_list (dec_struct [struct_field ''functionDeclarations''
         (dec_list (dec_gemini_function ft) \<lparr>gf_name = [], gf_description = [], gf_parameters = None\<rparr>) id id]) [])
       gr_tools gr_tools_update,
     struct_field ''generationConfig'' (dec_map ft) gr_config gr_config_update]"

definition flatten_gemini_parts :: "gemini_part list \<Rightarrow> string" where
  "flatten_gemini_parts ps = fold (\<lambda>p out.
     if gp_text p \<noteq> [] then add_line out (gp_text p)
     else if gp_function_call p \<noteq> [] then add_line out (''[functionCall '' @ gp_function_call p @ '']'')
     else if gp_function_resp p \<noteq> [] then add_line out (''[functionResponse '' @ gp_function_resp p @ '']'')
     else out) ps []"

definition gemini_role :: "string \<Rightarrow> string" where
  "gemini_role r = (if r = [] then ''user'' else if r = ''model'' then ''assistant'' else r)"

definition gemini_content_step :: "nat option \<Rightarrow> nat \<times> gemini_content \<Rightarrow> history_turn list \<times> string \<Rightarrow>
    history_turn list \<times> string" where
  "gemini_content_step last_user = (\<lambda>(i, c) (built, user).
     let text = flatten_gemini_parts (gq_parts c); role = gemini_role (gq_role c) in
     if last_user = Some i \<and> role = ''user'' then (built, text)
     else if text = [] \<or> \<not> known_role role then (built, user)
     else (built @ [turn role text], user))"

definition parse_gemini_input :: "gemini_request \<Rightarrow> string \<times> history_turn list \<times> string" where
  "parse_gemini_input req =
     (let system = (case gr_system req of Some c \<Rightarrow> flatten_gemini_parts (gq_parts c) | None \<Rightarrow> []);
          last_user = last_index (\<lambda>c. gq_role c = ''user'' \<or> gq_role c = []) (gr_contents req);
          (built, user) = fold (gemini_content_step last_user) (enumerate 0 (gr_contents req)) ([], [])
      in (system, built, user))"

definition convert_gemini_tools :: "gemini_function list list \<Rightarrow> tool_definition list option" where
  "convert_gemini_tools groups =
     (let fs = filter (\<lambda>f. gf_name f \<noteq> []) (concat groups) in
      if fs = [] then None
      else Some (map (\<lambda>f. \<lparr>td_name = gf_name f, td_description = gf_description f,
             td_input_schema = tool_schema (gf_parameters f)\<rparr>) fs))"

definition prepare_gemini :: "string \<Rightarrow> string \<Rightarrow> string \<Rightarrow> bool \<Rightarrow> gemini_request \<Rightarrow> prepared" where
  "prepare_gemini email conversation model streaming req =
     (let tools = convert_gemini_tools (gr_tools req); (system, history, user) = parse_gemini_input req in
      if model = [] then Inl (Text_Refusal 400 (Some ''missing model''))
      else if user = [] then Inl (Text_Refusal 400 (Some ''no user content''))
      else Inr (proxy_chat_request conversation model system user history (tools_of tools),
             request_prefix email ''gemini-generate-content'' model tools system history, streaming))"

text \<open>The path after \<^verbatim>\<open>/v1beta/models/\<close> gives the model and whether to stream.\<close>

definition gemini_route :: "string \<Rightarrow> refusal + string \<times> bool" where
  "gemini_route tail =
     (if tail = [] then Inl (Text_Refusal 400 (Some ''missing model path''))
      else case index_byte tail CHR '':'' of
        None \<Rightarrow> Inl (Text_Refusal 400 (Some ''expected models/{model}:{method}''))
      | Some i \<Rightarrow>
          let model = strip_gemini_model_prefix (take i tail); verb = drop (Suc i) tail in
          if verb = ''generateContent'' then Inr (model, False)
          else if verb = ''streamGenerateContent'' then Inr (model, True)
          else Inl (Text_Refusal 404 (Some (''unknown method: '' @ verb))))"

subsection \<open>Token counts\<close>

text \<open>The runes over 3.5, rounded up; the division is exact enough in \<^verbatim>\<open>float64\<close> below \<open>2 ^ 53\<close> runes.\<close>

definition estimate_prompt_tokens :: "string \<Rightarrow> nat" where
  "estimate_prompt_tokens s = (if s = [] then 0 else max 1 ((2 * rune_count s + 6) div 7))"

definition counted_text :: "anthropic_request \<Rightarrow> string" where
  "counted_text req =
     (let sys = trim_space (flatten_anthropic_system (aq_system req)) in
      (if sys \<noteq> [] then sys @ ''\<newline>'' else []) @
      concat (map (\<lambda>m. let t = flatten_anthropic_content (ap_content m) in
        if t = [] then [] else ap_role m @ '': '' @ t @ ''\<newline>'') (aq_messages req)))"

definition count_tokens :: "anthropic_request \<Rightarrow> nat" where
  "count_tokens req = estimate_prompt_tokens (counted_text req)"

end
