(* ===== verification/Conversations.thy ===== *)
theory Conversations
  imports ResponsesRequest GeminiRequest
begin

text \<open>
  What of a request reaches the upstream: which turns become history and which the user's text, for
  each of the four protocols, and that a plain conversation is the same request in all of them.
\<close>

subsection \<open>Turns after the last user message\<close>

lemma last_index_split:
  assumes "last_index p xs = Some i"
  obtains a x b where "xs = a @ x # b" "take i xs = a" "xs ! i = x" "p x" "list_all (\<lambda>y. \<not> p y) b"
proof
  have "i < length xs" "p (xs ! i)" "\<not> list_ex p (drop (Suc i) xs)" using last_index_Some [OF assms] by auto
  then show "xs = take i xs @ xs ! i # drop (Suc i) xs" "p (xs ! i)" "list_all (\<lambda>y. \<not> p y) (drop (Suc i) xs)"
    by (auto simp: id_take_nth_drop list_ex_iff list_all_iff)
qed auto

text \<open>
  C16: Chat Completions and Messages send the turns before the last user message as history, that
  message as the user's text, and nothing of what follows it. For every request that is accepted,
  the messages (without system messages, for Chat Completions) split at the last message with the role
  user; of the part before it exactly the user and assistant turns are sent, in their order.
\<close>

theorem history_before_last_user:
  "(prepare_openai email conv r1 = Inr (q1, p1, s1) \<longrightarrow>
     (\<exists>pre u post. filter (\<lambda>m. om_role m \<noteq> ''system'') (oq_messages r1) = pre @ u # post \<and>
        om_role u = ''user'' \<and> list_all (\<lambda>m. om_role m \<noteq> ''user'') post \<and> cr_user_message q1 = om_content u \<and>
        cr_history q1 = map (\<lambda>m. turn (om_role m) (om_content m)) (filter (\<lambda>m. known_role (om_role m)) pre))) \<and>
   (prepare_anthropic quoted email conv r2 = Inr (q2, p2, s2) \<longrightarrow>
     (\<exists>pre u post. aq_messages r2 = pre @ u # post \<and>
        ap_role u = ''user'' \<and> list_all (\<lambda>m. ap_role m \<noteq> ''user'') post \<and>
        cr_user_message q2 = flatten_anthropic_content (ap_content u) \<and>
        cr_history q2 = map (\<lambda>m. turn (ap_role m) (flatten_anthropic_content (ap_content m)))
          (filter (\<lambda>m. known_role (ap_role m)) pre)))"
proof (intro conjI impI)
  assume a: "prepare_openai email conv r1 = Inr (q1, p1, s1)"
  let ?turns = "filter (\<lambda>m. om_role m \<noteq> ''system'') (oq_messages r1)"
  obtain i where i: "last_index (\<lambda>m. om_role m = ''user'') ?turns = Some i"
    using a by (auto simp: prepare_openai_def Let_def split: option.splits)
  obtain pre u post where s: "?turns = pre @ u # post" "take i ?turns = pre"
    "?turns ! i = u" "om_role u = ''user''" "list_all (\<lambda>m. om_role m \<noteq> ''user'') post" by (rule last_index_split [OF i])
  have "cr_user_message q1 = om_content u \<and>
      cr_history q1 = map (\<lambda>m. turn (om_role m) (om_content m)) (filter (\<lambda>m. known_role (om_role m)) pre)"
    using a i s(2,3) by (auto simp: prepare_openai_def proxy_chat_request_def Let_def)
  with s show "\<exists>pre u post. ?turns = pre @ u # post \<and> om_role u = ''user'' \<and>
      list_all (\<lambda>m. om_role m \<noteq> ''user'') post \<and> cr_user_message q1 = om_content u \<and>
      cr_history q1 = map (\<lambda>m. turn (om_role m) (om_content m)) (filter (\<lambda>m. known_role (om_role m)) pre)"
    by blast
next
  assume a: "prepare_anthropic quoted email conv r2 = Inr (q2, p2, s2)"
  obtain i where i: "last_index (\<lambda>m. ap_role m = ''user'') (aq_messages r2) = Some i"
    using a by (auto simp: prepare_anthropic_def Let_def split: option.splits)
  obtain pre u post where s: "aq_messages r2 = pre @ u # post"
    "take i (aq_messages r2) = pre" "aq_messages r2 ! i = u" "ap_role u = ''user''"
    "list_all (\<lambda>m. ap_role m \<noteq> ''user'') post" by (rule last_index_split [OF i])
  have "cr_user_message q2 = flatten_anthropic_content (ap_content u) \<and>
      cr_history q2 = map (\<lambda>m. turn (ap_role m) (flatten_anthropic_content (ap_content m)))
        (filter (\<lambda>m. known_role (ap_role m)) pre)"
    using a i s(2,3) by (auto simp: prepare_anthropic_def proxy_chat_request_def flatten_anthropic_content_def Let_def
        split: prod.splits if_splits)
  with s show "\<exists>pre u post. aq_messages r2 = pre @ u # post \<and> ap_role u = ''user'' \<and>
      list_all (\<lambda>m. ap_role m \<noteq> ''user'') post \<and> cr_user_message q2 = flatten_anthropic_content (ap_content u) \<and>
      cr_history q2 = map (\<lambda>m. turn (ap_role m) (flatten_anthropic_content (ap_content m)))
        (filter (\<lambda>m. known_role (ap_role m)) pre)"
    by blast
qed

text \<open>
  So the result of a tool call that answers the last assistant turn is not sent by Chat Completions.
\<close>

lemma openai_tool_result_dropped:
  "prepare_openai email conv (zero_openai\<lparr>oq_messages := ms @ [\<lparr>om_role = ''user'', om_content = t\<rparr>]\<rparr>) =
   prepare_openai email conv (zero_openai\<lparr>oq_messages := ms @ [\<lparr>om_role = ''user'', om_content = t\<rparr>,
     \<lparr>om_role = ''assistant'', om_content = c\<rparr>, \<lparr>om_role = ''tool'', om_content = result\<rparr>]\<rparr>)"
proof -
  let ?u = "\<lparr>om_role = ''user'', om_content = t\<rparr>"
  let ?p = "\<lambda>m. om_role m = ''user''"
  have l: "last_index ?p (xs @ [?u, \<lparr>om_role = ''assistant'', om_content = c\<rparr>, \<lparr>om_role = ''tool'', om_content = result\<rparr>])
      = Some (length xs)" "last_index ?p (xs @ [?u]) = Some (length xs)" for xs
    by (induction xs) auto
  show ?thesis
    by (simp add: prepare_openai_def l zero_openai_def openai_system_def Let_def nth_append)
qed

subsection \<open>Inputs that keep every turn\<close>

definition item_turns :: "(string \<Rightarrow> string option) \<Rightarrow> responses_item \<Rightarrow> history_turn list" where
  "item_turns ft it =
     (if is_message it then
        (let text = flatten_responses_content ft (ri_content it) in
         if known_role (ri_role it) \<and> text \<noteq> [] then [turn (ri_role it) text] else [])
      else if ri_type it = ''function_call'' then
        [turn ''assistant'' (''[tool_call name='' @ ri_name it @ '' arguments='' @ ri_arguments it @ '']'')]
      else if ri_type it = ''function_call_output'' then
        [turn ''user'' (''[tool_result call_id='' @ ri_call_id it @ '' output='' @ ri_output it @ '']'')]
      else [])"

definition item_system :: "(string \<Rightarrow> string option) \<Rightarrow> responses_item \<Rightarrow> string \<Rightarrow> string" where
  "item_system ft it s =
     (let text = flatten_responses_content ft (ri_content it) in
      if is_message it \<and> ri_role it = ''system'' \<and> text \<noteq> [] then add_line s text else s)"

lemma responses_other_step:
  "last_user \<noteq> Some i \<or> \<not> is_user_message it \<Longrightarrow>
     responses_item_step ft last_user (i, it) (s, h, u) = (item_system ft it s, h @ item_turns ft it, u)"
  by (auto simp: responses_item_step_def item_system_def item_turns_def is_user_message_def known_role_def
      is_message_def Let_def)

lemma responses_other_fold:
  "\<forall>j. last_user = Some j \<longrightarrow> j < i \<or> i + length its \<le> j \<Longrightarrow>
     fold (responses_item_step ft last_user) (enumerate i its) (s, h, u) =
       (fold (item_system ft) its s, h @ concat (map (item_turns ft) its), u)"
proof (induction its arbitrary: i s h)
  case (Cons it its)
  have "last_user \<noteq> Some i" using Cons.prems by auto
  moreover have "\<forall>j. last_user = Some j \<longrightarrow> j < Suc i \<or> Suc i + length its \<le> j"
    using Cons.prems by auto
  ultimately show ?case using Cons.IH by (simp add: responses_other_step)
qed simp

definition content_turns :: "gemini_content \<Rightarrow> history_turn list" where
  "content_turns c =
     (let text = flatten_gemini_parts (gq_parts c); role = gemini_role (gq_role c) in
      if text = [] \<or> \<not> known_role role then [] else [turn role text])"

lemma gemini_other_fold:
  "\<forall>j. last_user = Some j \<longrightarrow> j < i \<or> i + length cs \<le> j \<Longrightarrow>
     fold (gemini_content_step last_user) (enumerate i cs) (h, u) = (h @ concat (map content_turns cs), u)"
proof (induction cs arbitrary: i h)
  case (Cons c cs)
  have "last_user \<noteq> Some i" using Cons.prems by auto
  then have "gemini_content_step last_user (i, c) (h, u) = (h @ content_turns c, u)"
    by (auto simp: gemini_content_step_def content_turns_def Let_def)
  moreover have "\<forall>j. last_user = Some j \<longrightarrow> j < Suc i \<or> Suc i + length cs \<le> j"
    using Cons.prems by auto
  ultimately show ?case using Cons.IH by simp
qed simp

lemma split_fold:
  assumes "xs = a @ x # b"
  shows "enumerate 0 xs = enumerate 0 a @ (length a, x) # enumerate (Suc (length a)) b"
  using assms by (simp add: enumerate_append_eq)

lemma responses_fold_split:
  assumes "its = pre @ it # post" "is_user_message it" "list_all (\<lambda>j. \<not> is_user_message j) post"
  shows "fold (responses_item_step ft (last_index is_user_message its)) (enumerate 0 its) (s, [], []) =
    (fold (item_system ft) (pre @ post) s, concat (map (item_turns ft) (pre @ post)),
     flatten_responses_content ft (ri_content it))"
proof -
  have l: "last_index is_user_message its = Some (length pre)"
  proof -
    have "last_index is_user_message post = None"
      using assms(3) by (simp add: last_index_None list_ex_iff list_all_iff)
    then show ?thesis unfolding assms(1) using assms(2) by (induction pre) auto
  qed
  have st: "responses_item_step ft (Some (length pre)) (length pre, it) (s', h, u) =
      (s', h, flatten_responses_content ft (ri_content it))" for s' h u
    using assms(2) by (auto simp: responses_item_step_def is_user_message_def Let_def)
  show ?thesis unfolding l split_fold [OF assms(1)]
    by (simp add: responses_other_fold st)
qed

lemma gemini_fold_split:
  assumes "cs = pre @ c # post" "gq_role c = ''user'' \<or> gq_role c = []"
    "list_all (\<lambda>j. \<not> (gq_role j = ''user'' \<or> gq_role j = [])) post"
  shows "fold (gemini_content_step (last_index (\<lambda>c. gq_role c = ''user'' \<or> gq_role c = []) cs)) (enumerate 0 cs) ([], []) =
    (concat (map content_turns (pre @ post)), flatten_gemini_parts (gq_parts c))"
proof -
  let ?p = "\<lambda>c. gq_role c = ''user'' \<or> gq_role c = []"
  have l: "last_index ?p cs = Some (length pre)"
  proof -
    have "last_index ?p post = None" using assms(3) by (simp add: last_index_None list_ex_iff list_all_iff)
    then show ?thesis unfolding assms(1) using assms(2) by (induction pre) auto
  qed
  have st: "gemini_content_step (Some (length pre)) (length pre, c) (h, u) = (h, flatten_gemini_parts (gq_parts c))" for h u
    using assms(2) by (auto simp: gemini_content_step_def gemini_role_def Let_def)
  show ?thesis unfolding l split_fold [OF assms(1)]
    by (simp add: gemini_other_fold st)
qed


lemma zero_item_fields: "ri_type zero_item = []" "ri_role zero_item = []"
  by (simp_all add: zero_item_def)

lemma singleton_split: "[x] = pre @ u # post \<longleftrightarrow> pre = [] \<and> u = x \<and> post = []"
  by (cases pre) auto

text \<open>A small request body for each protocol.\<close>

definition small_input :: string where
  "small_input = ''['' @ print_json (JObj [(''role'', JStr ''user''), (''content'', JStr ''hi'')]) @ '']''"

lemma small_input:
  "small_input \<noteq> []" "hd small_input = CHR ''[''" "small_input \<noteq> ''null''"
  "dec_list dec_responses_item zero_item small_input [] =
     Some [zero_item\<lparr>ri_role := ''user'', ri_content := [CHR 0x22, CHR ''h'', CHR ''i'', CHR 0x22]\<rparr>]"
  "flatten_responses_content ft [CHR 0x22, CHR ''h'', CHR ''i'', CHR 0x22] = ''hi''"
proof -
  show "dec_list dec_responses_item zero_item small_input [] =
     Some [zero_item\<lparr>ri_role := ''user'', ri_content := [CHR 0x22, CHR ''h'', CHR ''i'', CHR 0x22]\<rparr>]"
    by code_simp
  have "json_parse [CHR 0x22, CHR ''h'', CHR ''i'', CHR 0x22] = Some (JStr ''hi'')" by code_simp
  then show "flatten_responses_content ft [CHR 0x22, CHR ''h'', CHR ''i'', CHR 0x22] = ''hi''"
    by (simp add: flatten_responses_content_def)
qed (simp_all add: small_input_def)

theorem history_before_last_user_witness:
  "\<exists>q1 p1 s1 q2 p2 s2.
     prepare_openai [] [] (zero_openai\<lparr>oq_messages := [\<lparr>om_role = ''user'', om_content = ''hi''\<rparr>]\<rparr>) = Inr (q1, p1, s1) \<and>
     prepare_anthropic id [] [] (zero_anthropic\<lparr>aq_messages := [\<lparr>ap_role = ''user'', ap_content = Some (JStr ''hi'')\<rparr>]\<rparr>) =
       Inr (q2, p2, s2) \<and>
     cr_user_message q1 = ''hi'' \<and> cr_user_message q2 = ''hi'' \<and> cr_history q1 = [] \<and> cr_history q2 = []"
proof -
  let ?r1 = "zero_openai\<lparr>oq_messages := [\<lparr>om_role = ''user'', om_content = ''hi''\<rparr>]\<rparr>"
  let ?r2 = "zero_anthropic\<lparr>aq_messages := [\<lparr>ap_role = ''user'', ap_content = Some (JStr ''hi'')\<rparr>]\<rparr>"
  obtain q1 p1 s1 where 1: "prepare_openai [] [] ?r1 = Inr (q1, p1, s1)"
    by (auto simp: prepare_openai_def zero_openai_def append_structured_output_instruction_def Let_def)
  obtain q2 p2 s2 where 2: "prepare_anthropic id [] [] ?r2 = Inr (q2, p2, s2)"
    by (auto simp: prepare_anthropic_def zero_anthropic_def convert_anthropic_tools_def
        flatten_anthropic_content_with_attachments_def Let_def)
  from history_before_last_user [of "[]" "[]" ?r1 q1 p1 s1 id ?r2 q2 p2 s2] 1 2
  show ?thesis
    by (auto simp: zero_openai_def zero_anthropic_def singleton_split flatten_anthropic_content_def
        flatten_anthropic_content_with_attachments_def)
qed


subsection \<open>One conversation in four protocols\<close>

record conversation =
  cv_system :: string
  cv_turns :: "history_turn list"
  cv_user :: string

definition plain_conversation :: "conversation \<Rightarrow> bool" where
  "plain_conversation c \<longleftrightarrow> trim_space (cv_system c) = cv_system c \<and> cv_user c \<noteq> [] \<and>
     list_all (\<lambda>t. known_role (ht_role t) \<and> ht_content t \<noteq> []) (cv_turns c)"

definition as_openai :: "string \<Rightarrow> conversation \<Rightarrow> openai_request" where
  "as_openai model c = zero_openai\<lparr>oq_model := model, oq_messages :=
     (if cv_system c = [] then [] else [\<lparr>om_role = ''system'', om_content = cv_system c\<rparr>]) @
     map (\<lambda>t. \<lparr>om_role = ht_role t, om_content = ht_content t\<rparr>) (cv_turns c) @
     [\<lparr>om_role = ''user'', om_content = cv_user c\<rparr>]\<rparr>"

definition as_anthropic :: "string \<Rightarrow> conversation \<Rightarrow> anthropic_request" where
  "as_anthropic model c = zero_anthropic\<lparr>aq_model := model, aq_system := Some (JStr (cv_system c)), aq_messages :=
     map (\<lambda>t. \<lparr>ap_role = ht_role t, ap_content = Some (JStr (ht_content t))\<rparr>) (cv_turns c) @
     [\<lparr>ap_role = ''user'', ap_content = Some (JStr (cv_user c))\<rparr>]\<rparr>"

definition text_content :: "string \<Rightarrow> string \<Rightarrow> gemini_content" where
  "text_content role t = \<lparr>gq_role = (if role = ''assistant'' then ''model'' else role),
     gq_parts = [\<lparr>gp_text = t, gp_function_call = [], gp_function_resp = []\<rparr>]\<rparr>"

definition as_gemini :: "conversation \<Rightarrow> gemini_request" where
  "as_gemini c = zero_gemini\<lparr>gr_system := Some (text_content [] (cv_system c)), gr_contents :=
     map (\<lambda>t. text_content (ht_role t) (ht_content t)) (cv_turns c) @ [text_content ''user'' (cv_user c)]\<rparr>"

text \<open>The items of a Responses request; their contents are printed strings.\<close>

definition text_item :: "string \<Rightarrow> string \<Rightarrow> responses_item" where
  "text_item role t = zero_item\<lparr>ri_type := ''message'', ri_role := role, ri_content := print_string t\<rparr>"

definition response_items :: "conversation \<Rightarrow> responses_item list" where
  "response_items c = map (\<lambda>t. text_item (ht_role t) (ht_content t)) (cv_turns c) @ [text_item ''user'' (cv_user c)]"

lemma printed_content: "valid_utf8 t \<Longrightarrow> flatten_responses_content ft (print_string t) = t"
  using json_parse_print [of "JStr t"] by (simp add: flatten_responses_content_def valid_utf8_def print_string_def)

lemma openai_system_conversation:
  "list_all (\<lambda>t. known_role (ht_role t)) ts \<Longrightarrow>
     fold (\<lambda>m s. if om_role m = ''system'' then add_line s (om_content m) else s)
       (map (\<lambda>t. \<lparr>om_role = ht_role t, om_content = ht_content t\<rparr>) ts) s = s"
  by (induction ts) (auto simp: known_role_def)

lemma turns_of_conversation:
  "list_all (\<lambda>t. known_role (ht_role t) \<and> ht_content t \<noteq> []) ts \<Longrightarrow>
     map (\<lambda>t. turn (ht_role t) (ht_content t)) ts = ts"
  "list_all (\<lambda>t. known_role (ht_role t) \<and> ht_content t \<noteq> []) ts \<Longrightarrow> filter (\<lambda>t. known_role (ht_role t)) ts = ts"
  "list_all (\<lambda>t. known_role (ht_role t) \<and> ht_content t \<noteq> []) ts \<Longrightarrow> filter (\<lambda>t. ht_role t \<noteq> ''system'') ts = ts"
  by (induction ts) (auto simp: turn_def known_role_def)

definition conversation_request :: "string \<Rightarrow> string \<Rightarrow> conversation \<Rightarrow> chat_request" where
  "conversation_request conv model c = proxy_chat_request conv model (cv_system c) (cv_user c) (cv_turns c) []"

definition conversation_prefix :: "string \<Rightarrow> string \<Rightarrow> conversation \<Rightarrow> string \<Rightarrow> string" where
  "conversation_prefix email model c protocol = request_prefix email protocol model None (cv_system c) (cv_turns c)"

text \<open>
  C13: The same plain conversation is the same upstream request in every protocol. For a conversation
  with a system prompt, earlier turns and the user's text, written as a Chat Completions, a Messages,
  a generateContent and a Responses request, the four handlers call \<^verbatim>\<open>RunChat\<close> with equal requests:
  the system prompt, exactly the turns as history, and the user's text. Only the cache prefixes
  differ, by the protocol's name.
\<close>

theorem same_conversation:
  assumes c: "plain_conversation c" and model: "trim_space model = model" "model \<noteq> []"
    and items: "dec_list dec_responses_item zero_item (rq_input r) [] = Some (response_items c)"
      "hd (rq_input r) = CHR ''[''"
    and r: "rq_model r = model" "rq_instructions r = cv_system c" "rq_tools r = []" "rq_text r = []"
    and utf8: "valid_utf8 (cv_user c)" "list_all (\<lambda>t. valid_utf8 (ht_content t)) (cv_turns c)"
  shows "prepare_openai email conv (as_openai model c) = Inr (conversation_request conv model c, conversation_prefix email model c ''openai-chat'', False) \<and>
    prepare_anthropic quoted email conv (as_anthropic model c) = Inr (conversation_request conv model c, conversation_prefix email model c ''anthropic-messages'', False) \<and>
    prepare_gemini email conv model streaming (as_gemini c) = Inr (conversation_request conv model c, conversation_prefix email model c ''gemini-generate-content'', streaming) \<and>
    prepare_responses ft email conv r = Inr (conversation_request conv model c, conversation_prefix email model c ''openai-responses'', rq_stream r)"
proof (intro conjI)
  have sys: "trim_space (cv_system c) = cv_system c" and user: "cv_user c \<noteq> []"
    and ts: "list_all (\<lambda>t. known_role (ht_role t) \<and> ht_content t \<noteq> []) (cv_turns c)"
    using c by (simp_all add: plain_conversation_def)
  have roles: "list_all (\<lambda>t. known_role (ht_role t)) (cv_turns c)" using ts by (simp add: list_all_iff)
  note ts' = turns_of_conversation [OF ts]
  let ?om = "\<lambda>t. \<lparr>om_role = ht_role t, om_content = ht_content t\<rparr>"
  show "prepare_openai email conv (as_openai model c) = Inr (conversation_request conv model c, conversation_prefix email model c ''openai-chat'', False)"
  proof -
    let ?ms = "map ?om (cv_turns c) @ [\<lparr>om_role = ''user'', om_content = cv_user c\<rparr>]"
    have f: "filter (\<lambda>m. om_role m \<noteq> ''system'') (oq_messages (as_openai model c)) = ?ms"
      using ts'(3) by (simp add: as_openai_def filter_map comp_def)
    have l: "last_index (\<lambda>m. om_role m = ''user'') ?ms = Some (length (map ?om (cv_turns c)))"
      by (rule last_index_snoc) simp
    have s: "openai_system (oq_messages (as_openai model c)) = cv_system c"
      using openai_system_conversation [OF roles] by (auto simp: openai_system_def as_openai_def add_line_def)
    have k: "filter (\<lambda>m. known_role (om_role m)) (map ?om (cv_turns c)) = map ?om (cv_turns c)"
      using ts'(2) by (simp add: filter_map comp_def)
    show ?thesis
      unfolding prepare_openai_def s f Let_def l
      by (simp add: as_openai_def zero_openai_def append_structured_output_instruction_def nth_append k ts'(1) comp_def
          conversation_request_def conversation_prefix_def convert_openai_tools_def tools_of_def Let_def)
  qed
  let ?ap = "\<lambda>t. \<lparr>ap_role = ht_role t, ap_content = Some (JStr (ht_content t))\<rparr>"
  show "prepare_anthropic quoted email conv (as_anthropic model c) = Inr (conversation_request conv model c, conversation_prefix email model c ''anthropic-messages'', False)"
  proof -
    let ?ms = "map ?ap (cv_turns c) @ [\<lparr>ap_role = ''user'', ap_content = Some (JStr (cv_user c))\<rparr>]"
    have l: "last_index (\<lambda>m. ap_role m = ''user'') ?ms = Some (length (map ?ap (cv_turns c)))"
      by (rule last_index_snoc) simp
    have k: "filter (\<lambda>m. known_role (ap_role m)) (map ?ap (cv_turns c)) = map ?ap (cv_turns c)"
      using ts'(2) by (simp add: filter_map comp_def)
    have m: "aq_messages (as_anthropic model c) = ?ms" by (simp add: as_anthropic_def)
    show ?thesis
      unfolding prepare_anthropic_def m Let_def l
      by (simp add: as_anthropic_def zero_anthropic_def flatten_anthropic_system_def nth_append k ts'(1) comp_def
          flatten_anthropic_content_def flatten_anthropic_content_with_attachments_def canonicalize_anthropic_model_def
          anthropic_parameters_def requested_effort_def model conversation_request_def conversation_prefix_def convert_anthropic_tools_def tools_of_def
          proxy_chat_request_def empty_chat_request_def Let_def)
  qed
  have flat: "flatten_gemini_parts (gq_parts (text_content role t)) = t" for role t
    by (simp add: text_content_def flatten_gemini_parts_def add_line_def)
  have role: "known_role r \<Longrightarrow> gemini_role (gq_role (text_content r t)) = r" for r t
    by (auto simp: known_role_def gemini_role_def text_content_def)
  show "prepare_gemini email conv model streaming (as_gemini c) = Inr (conversation_request conv model c, conversation_prefix email model c ''gemini-generate-content'', streaming)"
  proof -
    let ?cs = "map (\<lambda>t. text_content (ht_role t) (ht_content t)) (cv_turns c)"
    have all: "concat (map content_turns (map (\<lambda>t. text_content (ht_role t) (ht_content t)) ts)) = ts"
      if "list_all (\<lambda>t. known_role (ht_role t) \<and> ht_content t \<noteq> []) ts" for ts
      using that by (induction ts) (auto simp: content_turns_def flat role turn_def)
    have "fold (gemini_content_step (last_index (\<lambda>c. gq_role c = ''user'' \<or> gq_role c = []) (?cs @ [text_content ''user'' (cv_user c)])))
        (enumerate 0 (?cs @ [text_content ''user'' (cv_user c)])) ([], []) = (cv_turns c, cv_user c)"
      using all [OF ts] gemini_fold_split [of "?cs @ [text_content ''user'' (cv_user c)]" ?cs "text_content ''user'' (cv_user c)" "[]"]
      by (simp add: flat) (simp add: text_content_def)
    then show ?thesis using user model
      by (simp add: prepare_gemini_def parse_gemini_input_def as_gemini_def zero_gemini_def flat conversation_request_def conversation_prefix_def
          convert_gemini_tools_def tools_of_def Let_def)
  qed
  show "prepare_responses ft email conv r = Inr (conversation_request conv model c, conversation_prefix email model c ''openai-responses'', rq_stream r)"
  proof -
    let ?its = "map (\<lambda>t. text_item (ht_role t) (ht_content t)) (cv_turns c)"
    have all: "concat (map (item_turns ft) (map (\<lambda>t. text_item (ht_role t) (ht_content t)) ts)) = ts \<and>
        fold (item_system ft) (map (\<lambda>t. text_item (ht_role t) (ht_content t)) ts) s = s"
      if "list_all (\<lambda>t. known_role (ht_role t) \<and> ht_content t \<noteq> []) ts" "list_all (\<lambda>t. valid_utf8 (ht_content t)) ts" for s ts
      using that by (induction ts) (auto simp: item_turns_def item_system_def text_item_def zero_item_def is_message_def printed_content turn_def
          known_role_def)
    have "is_user_message (text_item ''user'' (cv_user c))"
      by (simp add: is_user_message_def is_message_def text_item_def zero_item_def)
    moreover have "flatten_responses_content ft (ri_content (text_item ''user'' (cv_user c))) = cv_user c"
      using utf8(1) by (simp add: text_item_def zero_item_def printed_content)
    ultimately have "fold (responses_item_step ft (last_index is_user_message (response_items c)))
        (enumerate 0 (response_items c)) (cv_system c, [], []) = (cv_system c, cv_turns c, cv_user c)"
      using all [OF ts utf8(2)] responses_fold_split [of "response_items c" ?its "text_item ''user'' (cv_user c)" "[]" ft "cv_system c"]
      by (simp add: response_items_def)
    moreover have "dec_list dec_responses_item zero_item [] [] = None" by code_simp
    then have "rq_input r \<noteq> []" using items(1) by auto
    moreover have "rq_input r \<noteq> ''null''" using items(2) by auto
    ultimately show ?thesis using items sys user
      by (simp add: prepare_responses_def parse_responses_input_def r conversation_request_def conversation_prefix_def convert_responses_tools_def
          tools_of_def append_responses_structured_output_instruction_def Let_def)
  qed
qed

theorem same_conversation_witness:
  "\<exists>c r. prepare_openai [] [] (as_openai ''m'' c) = Inr (conversation_request [] ''m'' c,
       conversation_prefix [] ''m'' c ''openai-chat'', False) \<and>
     prepare_responses (\<lambda>_. None) [] [] r = Inr (conversation_request [] ''m'' c,
       conversation_prefix [] ''m'' c ''openai-responses'', False) \<and> cv_user c = ''hi''"
proof -
  let ?c = "\<lparr>cv_system = ''s'', cv_turns = [], cv_user = ''hi''\<rparr>"
  let ?raw = "print_json (JArr [JObj [(''type'', JStr ''message''), (''role'', JStr ''user''), (''content'', JStr ''hi'')]])"
  let ?r = "zero_responses\<lparr>rq_model := ''m'', rq_instructions := ''s'', rq_input := ?raw\<rparr>"
  have raw: "dec_list dec_responses_item zero_item ?raw [] = Some [text_item ''user'' ''hi'']" by code_simp
  have m: "trim_space ''s'' = ''s''" "trim_space ''m'' = ''m''" by code_simp+
  have "valid_utf8 ''hi''" by code_simp
  then have "prepare_openai [] [] (as_openai ''m'' ?c) = Inr (conversation_request [] ''m'' ?c,
       conversation_prefix [] ''m'' ?c ''openai-chat'', False) \<and>
     prepare_responses (\<lambda>_. None) [] [] ?r = Inr (conversation_request [] ''m'' ?c,
       conversation_prefix [] ''m'' ?c ''openai-responses'', rq_stream ?r)"
    using same_conversation [of ?c "''m''" ?r "[]" "[]" id True "\<lambda>_. None"] raw m
    by (simp add: plain_conversation_def response_items_def zero_responses_def)
  then show ?thesis
    by (intro exI [of _ ?c] exI [of _ ?r]) (simp add: zero_responses_def)
qed

end
