(* ===== verification/Attachments.thy ===== *)
theory Attachments
  imports RequestCommon
begin

text \<open>
  \<^verbatim>\<open>executor/documents.go\<close> and \<^verbatim>\<open>executor/images.go\<close>: documents become text in the user's message, tiny
  images are enlarged. Reading a PDF (a third-party package, None where it fails; the text as
  \<^verbatim>\<open>io.LimitReader\<close> cuts it), decoding and encoding an image, and Go's \<^verbatim>\<open>%q\<close> are arguments.
\<close>

subsection \<open>Documents\<close>

definition max_inlined_document_text :: nat where
  "max_inlined_document_text = 500000"

definition rune_start :: "char \<Rightarrow> bool" where
  "rune_start c \<longleftrightarrow> byte_of c < 0x80 \<or> 0xC0 \<le> byte_of c"

fun back_to_rune :: "string \<Rightarrow> nat \<Rightarrow> nat" where
  "back_to_rune s 0 = 0"
| "back_to_rune s (Suc n) = (if rune_start (s ! Suc n) then Suc n else back_to_rune s n)"

definition truncate_utf8_by_bytes :: "string \<Rightarrow> nat \<Rightarrow> string" where
  "truncate_utf8_by_bytes s n = (if n = 0 then [] else if length s \<le> n then s else take (back_to_rune s n) s)"

definition document_filename :: "attachment \<Rightarrow> string" where
  "document_filename a = (let n = trim_space (at_filename a) in if n \<noteq> [] then n else ''document'')"

text \<open>\<^verbatim>\<open>utf8.Valid\<close>: every rune decodes.\<close>

definition non_blank :: "string \<Rightarrow> string option" where
  "non_blank s = (let t = trim_space s in if t \<noteq> [] then Some t else None)"

definition extract_document_text :: "(nat list \<Rightarrow> string option) \<Rightarrow> (string \<Rightarrow> bool) \<Rightarrow> attachment \<Rightarrow> string option" where
  "extract_document_text pdf_text valid a =
     (let mime = to_lower (trim_space (at_mime_type a)) in
      if mime = ''application/pdf'' \<or> has_suffix (to_lower (at_filename a)) ''.pdf''
        then Option.bind (pdf_text (at_data a)) (\<lambda>t. non_blank (take (max_inlined_document_text + 1) t))
      else if has_prefix mime ''text/'' \<or> mime = ''application/json'' \<or> mime = ''application/xml''
        then (let s = map char_of (at_data a) in if valid s then non_blank s else None)
      else None)"

fun html_escape_char :: "char \<Rightarrow> string" where
  "html_escape_char c =
     (if c = CHR ''<'' then ''&lt;'' else if c = CHR ''>'' then ''&gt;'' else if c = CHR ''&'' then ''&amp;''
      else if c = CHR 0x27 then ''&#39;'' else if c = CHR 0x22 then ''&#34;'' else [c])"

definition html_escape :: "string \<Rightarrow> string" where
  "html_escape s = concat (map html_escape_char s)"

definition document_block :: "(string \<Rightarrow> string) \<Rightarrow> (nat list \<Rightarrow> string option) \<Rightarrow> (string \<Rightarrow> bool) \<Rightarrow> attachment \<Rightarrow> string" where
  "document_block quoted pdf_text valid a =
     (case extract_document_text pdf_text valid a of
        None \<Rightarrow> ''<document filename='' @ quoted (document_filename a) @ '' media_type='' @ quoted (at_mime_type a) @
          ''>\<newline>[binary document that could not be converted to text]\<newline></document>''
      | Some t \<Rightarrow> ''<document filename='' @ [CHR 0x22] @ html_escape (document_filename a) @ [CHR 0x22] @ ''>\<newline>'' @
          (if length t > max_inlined_document_text
           then truncate_utf8_by_bytes t max_inlined_document_text @ ''\<newline>[document truncated]'' else t) @
          ''\<newline></document>'')"

definition is_document :: "attachment \<Rightarrow> bool" where
  "is_document a \<longleftrightarrow> at_kind a = ''document''"

definition prepare_document_attachments :: "(string \<Rightarrow> string) \<Rightarrow> (nat list \<Rightarrow> string option) \<Rightarrow> (string \<Rightarrow> bool) \<Rightarrow>
    string \<Rightarrow> attachment list \<Rightarrow> string \<times> attachment list" where
  "prepare_document_attachments quoted pdf_text valid user as =
     (let documents = map (document_block quoted pdf_text valid) (filter is_document as);
          kept = filter (\<lambda>a. \<not> is_document a) as in
      if documents = [] then (user, kept)
      else (join_str ''\<newline>\<newline>'' ((if trim_space user \<noteq> [] then [user] else []) @ documents), kept))"

subsection \<open>Images\<close>

text \<open>A picture is its size and its pixels.\<close>

record 'p picture =
  pc_width :: nat
  pc_height :: nat
  pc_pixel :: "nat \<Rightarrow> nat \<Rightarrow> 'p"

definition min_image_edge :: nat where
  "min_image_edge = 8"

function scale_factor :: "nat \<Rightarrow> nat \<Rightarrow> nat \<Rightarrow> nat" where
  "scale_factor w h f =
     (if w = 0 \<or> h = 0 then f
      else if w * f < min_image_edge \<or> h * f < min_image_edge then scale_factor w h (Suc f) else f)"
  by pat_completeness auto
termination
proof (relation "measure (\<lambda>(w, h, f). min_image_edge - f)", goal_cases)
  case (2 w h f)
  then have "f < min_image_edge"
    by (metis leI less_le_trans less_nat_zero_code mult_le_mono2 mult_less_cancel2 nat_less_le nat_neq_iff
        mult.commute mult_1_right not_less_eq less_one linorder_not_less)
  then show ?case by simp
qed auto

declare scale_factor.simps [simp del]

definition upscale_tiny_image :: "'p picture \<Rightarrow> 'p picture option" where
  "upscale_tiny_image img =
     (let w = pc_width img; h = pc_height img in
      if w = 0 \<or> h = 0 then None
      else if w \<ge> min_image_edge \<and> h \<ge> min_image_edge then None
      else let f = scale_factor w h 1 in
        Some \<lparr>pc_width = w * f, pc_height = h * f, pc_pixel = (\<lambda>x y. pc_pixel img (x div f) (y div f))\<rparr>)"

definition normalize_image :: "(string \<Rightarrow> nat list \<Rightarrow> 'p picture option) \<Rightarrow> ('p picture \<Rightarrow> nat list option) \<Rightarrow> attachment \<Rightarrow>
    attachment" where
  "normalize_image decode encode a =
     (if at_kind a \<noteq> ''image'' \<or> at_data a = [] then a
      else case Option.bind (decode (to_lower (trim_space (at_mime_type a))) (at_data a))
          (\<lambda>img. Option.bind (upscale_tiny_image img) encode) of
        None \<Rightarrow> a
      | Some bytes \<Rightarrow> a\<lparr>at_data := bytes, at_mime_type := ''image/png''\<rparr>)"

definition normalize_image_attachments :: "(string \<Rightarrow> nat list \<Rightarrow> 'p picture option) \<Rightarrow> ('p picture \<Rightarrow> nat list option) \<Rightarrow>
    attachment list \<Rightarrow> attachment list" where
  "normalize_image_attachments decode encode as = map (normalize_image decode encode) as"

lemma scale_factor_spec:
  assumes "0 < w" "0 < h" "\<forall>g < f. w * g < min_image_edge \<or> h * g < min_image_edge" "f \<le> min_image_edge"
  shows "min_image_edge \<le> w * scale_factor w h f \<and> min_image_edge \<le> h * scale_factor w h f \<and>
    (\<forall>g < scale_factor w h f. w * g < min_image_edge \<or> h * g < min_image_edge) \<and> scale_factor w h f \<le> min_image_edge"
  using assms
proof (induction w h f rule: scale_factor.induct)
  case (1 w h f)
  show ?case
  proof (cases "w * f < min_image_edge \<or> h * f < min_image_edge")
    case True
    have "f \<noteq> min_image_edge" using True 1(2,3) by (cases w; cases h) auto
    then have "Suc f \<le> min_image_edge" using 1(5) by simp
    moreover have "\<forall>g < Suc f. w * g < min_image_edge \<or> h * g < min_image_edge"
      using True 1(4) by (auto simp: less_Suc_eq)
    ultimately show ?thesis using 1(1) [OF _ True] 1(2,3) True by (simp add: scale_factor.simps [of w h f])
  next
    case False
    with 1 show ?thesis by (simp add: scale_factor.simps [of w h f])
  qed
qed

text \<open>
  C40: A tiny image is enlarged just enough. The factor is the least one that makes both edges at
  least eight pixels, at most eight, and every pixel becomes a square block of copies of itself.
\<close>

theorem tiny_images_enlarged:
  "upscale_tiny_image img =
     (if pc_width img = 0 \<or> pc_height img = 0 \<or> (8 \<le> pc_width img \<and> 8 \<le> pc_height img) then None
      else (let f = LEAST f. 8 \<le> pc_width img * f \<and> 8 \<le> pc_height img * f in
        Some \<lparr>pc_width = pc_width img * f, pc_height = pc_height img * f,
          pc_pixel = (\<lambda>x y. pc_pixel img (x div f) (y div f))\<rparr>)) \<and>
   (LEAST f. 8 \<le> Suc w * f \<and> 8 \<le> Suc h * f) \<in> {1..8}"
proof -
  have least: "scale_factor w h 1 = (LEAST f. 8 \<le> w * f \<and> 8 \<le> h * f) \<and> scale_factor w h 1 \<in> {1..8}"
    if "0 < w" "0 < h" for w h
  proof -
    have "\<forall>g < 1. w * g < min_image_edge \<or> h * g < min_image_edge" "1 \<le> min_image_edge"
      by (simp_all add: min_image_edge_def)
    note s = scale_factor_spec [OF that this]
    have "(LEAST f. 8 \<le> w * f \<and> 8 \<le> h * f) = scale_factor w h 1"
    proof (rule Least_equality)
      fix f assume f: "8 \<le> w * f \<and> 8 \<le> h * f"
      show "scale_factor w h 1 \<le> f"
      proof (rule ccontr)
        assume "\<not> scale_factor w h 1 \<le> f"
        with s have "w * f < min_image_edge \<or> h * f < min_image_edge" by simp
        with f show False by (auto simp: min_image_edge_def)
      qed
    qed (use s in \<open>simp add: min_image_edge_def\<close>)
    moreover have "scale_factor w h 1 \<noteq> 0" using s by (intro notI) (simp add: min_image_edge_def)
    ultimately show ?thesis using s by (simp add: min_image_edge_def)
  qed
  show ?thesis using least [of "pc_width img" "pc_height img"] least [of "Suc w" "Suc h"]
    by (auto simp: upscale_tiny_image_def min_image_edge_def Let_def)
qed

end
