(* ===== verification/Checksum.thy ===== *)
theory Checksum
  imports JsonStruct Base64 "HOL-Library.Word"
begin

text \<open>
  \<^verbatim>\<open>auth/checksum.go\<close>, the \<^verbatim>\<open>x-cursor-checksum\<close> header, and \<^verbatim>\<open>auth/jwt.go\<close>, the claims read from a token.
  Bytes are 8-bit words, the truncated clock is a 32-bit word. A time is its seconds since the epoch,
  None for the zero time.
\<close>

unbundle bit_operations_syntax

subsection \<open>The checksum\<close>

definition clock_word :: "int \<Rightarrow> 32 word" where
  "clock_word unix_milli = word_of_int (go_div unix_milli 1000000)"

definition clock_bytes :: "32 word \<Rightarrow> 8 word list" where
  "clock_bytes e = [ucast (drop_bit 8 e AND 0xFF), ucast (e AND 0xFF), ucast (drop_bit 24 e AND 0xFF),
     ucast (drop_bit 16 e AND 0xFF), ucast (drop_bit 8 e AND 0xFF), ucast (e AND 0xFF)]"

fun obfuscate :: "nat \<Rightarrow> 8 word \<Rightarrow> 8 word list \<Rightarrow> 8 word list" where
  "obfuscate n t [] = []"
| "obfuscate n t (b # bs) = (let o' = (b XOR t) + of_nat n in o' # obfuscate (Suc n) o' bs)"

definition strip_padding :: "string \<Rightarrow> string" where
  "strip_padding s = rev (dropWhile (\<lambda>c. c = CHR ''='') (rev s))"

definition generate_checksum :: "int \<Rightarrow> string \<Rightarrow> string \<Rightarrow> string" where
  "generate_checksum unix_milli machine_id mac =
     (let b64 = strip_padding (b64_encode False True (map unat (obfuscate 0 165 (clock_bytes (clock_word unix_milli))))) in
      if mac = [] then b64 @ machine_id else b64 @ machine_id @ ''/'' @ mac)"

text \<open>The reading of the header: the obfuscation undone, and the clock from its last four bytes.\<close>

fun clear_bytes :: "nat \<Rightarrow> 8 word \<Rightarrow> 8 word list \<Rightarrow> 8 word list" where
  "clear_bytes n t [] = []"
| "clear_bytes n t (b # bs) = ((b - of_nat n) XOR t) # clear_bytes (Suc n) b bs"

fun clock_of :: "8 word list \<Rightarrow> 32 word" where
  "clock_of [_, _, a, b, c, d] = push_bit 24 (ucast a) OR push_bit 16 (ucast b) OR push_bit 8 (ucast c) OR ucast d"
| "clock_of _ = 0"

definition read_checksum :: "string \<Rightarrow> (32 word \<times> string) option" where
  "read_checksum s = map_option (\<lambda>bytes. (clock_of (clear_bytes 0 165 (map of_nat bytes)), drop 8 s))
     (b64_decode False True (take 8 s))"

lemma clear_obfuscate: "clear_bytes n t (obfuscate n t bs) = bs"
  by (induction bs arbitrary: n t) (simp_all add: Let_def xor.assoc)

lemma low_byte: "(0xFF :: 32 word) = mask 8"
  by (simp add: mask_eq_exp_minus_1)

lemma clock_of_bytes: "clock_of (clock_bytes e) = e"
proof (rule bit_word_eqI)
  fix n assume "n < LENGTH(32)"
  then have n: "n < 32" by simp
  have c: "clock_of (clock_bytes e) =
      push_bit 24 (ucast (ucast (drop_bit 24 e AND mask 8) :: 8 word)) OR push_bit 16 (ucast (ucast (drop_bit 16 e AND mask 8) :: 8 word)) OR
      push_bit 8 (ucast (ucast (drop_bit 8 e AND mask 8) :: 8 word)) OR ucast (ucast (e AND mask 8) :: 8 word)"
    by (simp only: clock_of.simps clock_bytes_def low_byte)
  have b: "bit (push_bit m (ucast (ucast (w AND mask 8) :: 8 word)) :: 32 word) n \<longleftrightarrow> m \<le> n \<and> n - m < 8 \<and> bit w (n - m)"
    for m and w :: "32 word"
    using n by (auto simp only: bit_push_bit_iff bit_unsigned_iff bit_and_iff bit_mask_iff min_less_iff_conj possible_bit_word len_num1) simp_all
  have b0: "bit (ucast (ucast (w AND mask 8) :: 8 word) :: 32 word) n \<longleftrightarrow> n < 8 \<and> bit w n" for w :: "32 word"
    using b [of 0 w] by simp
  consider "n < 8" | "8 \<le> n" "n < 16" | "16 \<le> n" "n < 24" | "24 \<le> n" by linarith
  then show "bit (clock_of (clock_bytes e)) n \<longleftrightarrow> bit e n"
    by cases (use n in \<open>auto simp only: c bit_or_iff b b0 bit_drop_bit_eq comp_def\<close>, simp_all)
qed

lemma six_bytes: "obfuscate 0 165 (clock_bytes e) = bs \<Longrightarrow> \<exists>a b c d e f. bs = [a, b, c, d, e, f]"
  by (auto simp: clock_bytes_def Let_def)

lemma encoded_clock:
  fixes bs :: "8 word list"
  assumes "bs = [a, b, c, d, e, f]"
  defines "s \<equiv> b64_encode False True (map unat bs)"
  shows "length s = 8 \<and> strip_padding s = s \<and> b64_decode False True s = Some (map unat bs)"
proof -
  have small: "unat x < 256" for x :: "8 word" using unsigned_less [of x] by simp
  have "b64_char False (unat f mod 64) \<noteq> CHR ''=''" by (rule b64_char_facts) simp
  then have "length s = 8" "hd (rev s) \<noteq> CHR ''=''" "s \<noteq> []"
    unfolding s_def assms(1) by simp_all
  then have "strip_padding s = s"
    unfolding strip_padding_def by (cases "rev s") auto
  moreover have "b64_decode False True s = Some (map unat bs)"
    unfolding s_def by (rule b64_decode_encode) (auto simp: small)
  ultimately show ?thesis using \<open>length s = 8\<close> by blast
qed

text \<open>
  C34: The checksum header carries the session clock and the two machine ids. For any clock and ids, a
  reader that undoes the obfuscation gets back the clock's kiloseconds modulo \<open>2 ^ 32\<close> and the ids,
  with a slash before the second exactly if there is one.
\<close>

theorem checksum_roundtrip:
  "read_checksum (generate_checksum ms machine_id mac) =
     Some (clock_word ms, machine_id @ (if mac = [] then [] else ''/'' @ mac))"
proof -
  let ?bs = "obfuscate 0 165 (clock_bytes (clock_word ms))"
  let ?s = "b64_encode False True (map unat ?bs)"
  obtain a b c d e f where "?bs = [a, b, c, d, e, f]" using six_bytes [OF refl] by blast
  from encoded_clock [OF this]
  have s: "length ?s = 8" "strip_padding ?s = ?s" "b64_decode False True ?s = Some (map unat ?bs)" by blast+
  have m: "map of_nat (map unat ?bs) = ?bs" by (simp add: comp_def)
  have "read_checksum (?s @ t) = Some (clock_word ms, t)" for t
    by (simp only: read_checksum_def take_append drop_append s(1) diff_self_eq_0 take_0 drop_0 append_Nil2 order_refl take_all
        drop_all append_Nil s(3) option.map m clear_obfuscate clock_of_bytes)
  then show ?thesis by (simp add: generate_checksum_def Let_def s(2))
qed

subsection \<open>Token claims\<close>

record jwt_claims =
  jc_sub :: string
  jc_type :: string
  jc_iat :: int
  jc_nbf :: int
  jc_exp :: int
  jc_session :: string

definition dec_jwt_claims :: "jwt_claims decoder" where
  "dec_jwt_claims = dec_struct [struct_field ''sub'' dec_string jc_sub jc_sub_update,
     struct_field ''type'' dec_string jc_type jc_type_update,
     struct_field ''iat'' dec_int jc_iat jc_iat_update,
     struct_field ''nbf'' dec_int jc_nbf jc_nbf_update,
     struct_field ''exp'' dec_int jc_exp jc_exp_update,
     struct_field ''workosSessionId'' dec_string jc_session jc_session_update]"

definition decode_segment :: "string \<Rightarrow> string option" where
  "decode_segment seg =
     (let p = length seg mod 4; seg = (if p \<noteq> 0 then seg @ replicate (4 - p) CHR ''='' else seg) in
      map_option (map char_of)
        (case b64_decode True True seg of Some bs \<Rightarrow> Some bs | None \<Rightarrow> b64_decode True False (strip_padding seg)))"

definition decode_jwt_claims :: "string \<Rightarrow> jwt_claims option" where
  "decode_jwt_claims token =
     (case split_on CHR ''.'' (trim_space token) of
        _ # seg # _ \<Rightarrow> Option.bind (decode_segment seg) (\<lambda>raw. dec_jwt_claims raw
          \<lparr>jc_sub = [], jc_type = [], jc_iat = 0, jc_nbf = 0, jc_exp = 0, jc_session = []\<rparr>)
      | _ \<Rightarrow> None)"

definition token_type :: "string \<Rightarrow> string" where
  "token_type token = (case decode_jwt_claims token of Some c \<Rightarrow> to_lower (trim_space (jc_type c)) | None \<Rightarrow> [])"

definition issued_at_from_jwt :: "string \<Rightarrow> int option" where
  "issued_at_from_jwt token = (case decode_jwt_claims token of None \<Rightarrow> None
     | Some c \<Rightarrow> if jc_iat c > 0 then Some (jc_iat c) else if jc_nbf c > 0 then Some (jc_nbf c) else None)"

definition expires_at_from_jwt :: "string \<Rightarrow> int option" where
  "expires_at_from_jwt token = (case decode_jwt_claims token of None \<Rightarrow> None
     | Some c \<Rightarrow> if jc_exp c > 0 then Some (jc_exp c) else None)"

text \<open>Padded or not, a payload is decoded.\<close>

lemma b64_padding:
  "b64_encode url True bs = b64_encode url False bs @
     replicate (if length (b64_encode url False bs) mod 4 = 0 then 0 else 4 - length (b64_encode url False bs) mod 4) CHR ''=''"
  "length (b64_encode url True bs) mod 4 = 0"
  by (induction url True bs rule: b64_encode.induct) (auto simp: numeral_2_eq_2)

lemma decode_segment_encoded:
  assumes "\<forall>x \<in> set bs. x < 256"
  shows "decode_segment (b64_encode True pad bs) = Some (map char_of bs)"
proof -
  let ?s = "b64_encode True pad bs"
  have "(if length ?s mod 4 \<noteq> 0 then ?s @ replicate (4 - length ?s mod 4) CHR ''='' else ?s) = b64_encode True True bs"
    using b64_padding [of True bs] by (cases pad) auto
  then show ?thesis using b64_decode_encode [OF assms, of True True] by (simp add: decode_segment_def Let_def)
qed

lemma split_on_first: "c \<notin> set a \<Longrightarrow> split_on c (a @ c # s) = a # split_on c s"
  by (induction a) auto

lemma b64_url_no_dot: "\<forall>x \<in> set bs. x < 256 \<Longrightarrow> CHR ''.'' \<notin> set (b64_encode True pad bs)"
proof -
  have "b64_char True n \<noteq> CHR ''.''" if "n < 64" for n
  proof
    assume "b64_char True n = CHR ''.''"
    then have "b64_value True CHR ''.'' = Some n" using b64_char_facts(1) [OF that, of True] by simp
    then show False by (simp add: b64_value_def byte_of_def Let_def split: if_splits)
  qed
  then show "\<forall>x \<in> set bs. x < 256 \<Longrightarrow> CHR ''.'' \<notin> set (b64_encode True pad bs)"
    by (induction True pad bs rule: b64_encode.induct) (auto simp: sextet_bounds dest!: sym [of "CHR ''.''"])
qed

text \<open>
  The claims of a token are those of its payload. For any payload bytes, encoded with the URL
  alphabet with or without padding, between a header without a dot and any signature, the decoded
  claims are what the JSON decoder reads from the bytes.
\<close>

theorem jwt_claims_roundtrip:
  assumes "\<forall>x \<in> set bs. x < 256" "CHR ''.'' \<notin> set h"
    and "trim_space (h @ ''.'' @ b64_encode True pad bs @ ''.'' @ sig) = h @ ''.'' @ b64_encode True pad bs @ ''.'' @ sig"
  shows "decode_jwt_claims (h @ ''.'' @ b64_encode True pad bs @ ''.'' @ sig) =
    dec_jwt_claims (map char_of bs) \<lparr>jc_sub = [], jc_type = [], jc_iat = 0, jc_nbf = 0, jc_exp = 0, jc_session = []\<rparr>"
proof -
  have "split_on CHR ''.'' (h @ ''.'' @ b64_encode True pad bs @ ''.'' @ sig) =
      h # b64_encode True pad bs # split_on CHR ''.'' sig"
    using split_on_first [OF assms(2)] split_on_first [OF b64_url_no_dot [OF assms(1)]] by simp
  then show ?thesis
    unfolding decode_jwt_claims_def assms(3) by (simp add: decode_segment_encoded [OF assms(1)])
qed

theorem jwt_claims_roundtrip_witness:
  "decode_jwt_claims (''h'' @ ''.'' @ b64_encode True False (map byte_of ''{}'') @ ''.'' @ ''s'') =
     Some \<lparr>jc_sub = [], jc_type = [], jc_iat = 0, jc_nbf = 0, jc_exp = 0, jc_session = []\<rparr>"
proof -
  let ?bs = "map byte_of ''{}''"
  have "trim_space (''h'' @ ''.'' @ b64_encode True False ?bs @ ''.'' @ ''s'') = ''h'' @ ''.'' @ b64_encode True False ?bs @ ''.'' @ ''s''"
    by code_simp
  moreover have "dec_jwt_claims (map char_of ?bs)
      \<lparr>jc_sub = [], jc_type = [], jc_iat = 0, jc_nbf = 0, jc_exp = 0, jc_session = []\<rparr> =
    Some \<lparr>jc_sub = [], jc_type = [], jc_iat = 0, jc_nbf = 0, jc_exp = 0, jc_session = []\<rparr>" by code_simp
  ultimately show ?thesis using jwt_claims_roundtrip [of ?bs "''h''" False "''s''"] by simp
qed

text \<open>Two segments are enough, although the source's comment asks for three.\<close>

lemma two_segments_accepted: "decode_jwt_claims ''h.e30'' \<noteq> None"
  by code_simp

end
