(* ===== verification/Platform.thy ===== *)
theory Platform
  imports Checksum
begin

text \<open>
  The account of \<^verbatim>\<open>auth/account.go\<close> with its session defaults, the client platform of
  \<^verbatim>\<open>executor/platform.go\<close> and the request headers of \<^verbatim>\<open>executor/headers.go\<close>. The environment, the
  build's operating system and architecture, fresh identifiers and the local time zone are
  arguments. Headers are pairs of a lower-case name and a value; a name occurs once.
\<close>

subsection \<open>Accounts\<close>

record account =
  ac_email :: string
  ac_user_id :: string
  ac_access_token :: string
  ac_refresh_token :: string
  ac_auth_id :: string
  ac_auth_type :: string
  ac_team_id :: string
  ac_privacy_mode :: int
  ac_internal_user :: bool
  ac_issued_at :: "int option"
  ac_expires_at :: "int option"
  ac_machine_id :: string
  ac_mac_machine_id :: string
  ac_checksum_machine_id :: string
  ac_client_os :: string
  ac_client_os_version :: string
  ac_client_arch :: string
  ac_client_version :: string
  ac_client_commit :: string
  ac_release_hash :: string
  ac_client_type :: string
  ac_client_layout :: string
  ac_client_shell :: string
  ac_workspace_path :: string
  ac_proxy_url :: string
  ac_refreshable :: bool
  ac_refresh_lead :: int
  ac_session_id :: string
  ac_config_version :: string
  ac_client_key :: string
  ac_checksum_session :: string
  ac_relay_url :: string
  ac_box_token :: string
  ac_network_token :: string
  ac_box_minted_at_ms :: int

definition zero_account :: account where
  "zero_account = \<lparr>ac_email = [], ac_user_id = [], ac_access_token = [], ac_refresh_token = [], ac_auth_id = [],
     ac_auth_type = [], ac_team_id = [], ac_privacy_mode = 0, ac_internal_user = False, ac_issued_at = None,
     ac_expires_at = None, ac_machine_id = [], ac_mac_machine_id = [], ac_checksum_machine_id = [], ac_client_os = [],
     ac_client_os_version = [], ac_client_arch = [], ac_client_version = [], ac_client_commit = [],
     ac_release_hash = [], ac_client_type = [], ac_client_layout = [], ac_client_shell = [], ac_workspace_path = [],
     ac_proxy_url = [], ac_refreshable = False, ac_refresh_lead = 0, ac_session_id = [], ac_config_version = [],
     ac_client_key = [], ac_checksum_session = [], ac_relay_url = [], ac_box_token = [], ac_network_token = [],
     ac_box_minted_at_ms = 0\<rparr>"

definition known_checksum_machine_id :: string where
  "known_checksum_machine_id = ''4071c661bcb367c518becc7b3d4d57cbd69d2291d8b302c558d79080f8fd4f75''"

definition known_release_hash_for :: "string \<Rightarrow> string" where
  "known_release_hash_for version = (case map_of
     [(''3.10.20'', ''4071c661bcb367c518becc7b3d4d57cbd69d2291d8b302c558d79080f8fd4f75''),
      (''3.11.19'', ''bf249e6efb5b097f23d7e21d7283429f0760b74a''),
      (''3.15.19'', ''de07bee81cefe43461ebf4f40c3d2d78d15052aa''),
      (''3.16.17'', ''6b2afae0257df2bb5e1835f15165dc2f0de056b2''),
      (''3.19.7'', ''90de2327392570a5f5f625c656c6749d228e6437'')] version of Some h \<Rightarrow> h | None \<Rightarrow> [])"

definition or_else :: "string \<Rightarrow> string \<Rightarrow> string" where
  "or_else s d = (if s = [] then d else s)"

text \<open>The fresh session id, config version and client key are arguments; \<open>now\<close> is in milliseconds. The times of
  an account are nanoseconds since the epoch, None for the zero time.\<close>

definition fill_session_defaults :: "string \<Rightarrow> string \<Rightarrow> string \<Rightarrow> int \<Rightarrow> account \<Rightarrow> account" where
  "fill_session_defaults sid config key now a = a\<lparr>
     ac_session_id := or_else (ac_session_id a) sid, ac_config_version := or_else (ac_config_version a) config,
     ac_client_key := or_else (ac_client_key a) key,
     ac_checksum_session := or_else (ac_checksum_session a)
       (generate_checksum now (or_else (or_else (ac_checksum_machine_id a) (ac_release_hash a)) known_checksum_machine_id)
         (ac_mac_machine_id a))\<rparr>"

definition extract_user_id :: "string \<Rightarrow> string" where
  "extract_user_id auth_id = (case index_byte auth_id CHR ''|'' of Some i \<Rightarrow> drop (Suc i) auth_id | None \<Rightarrow> auth_id)"

fun safe_char :: "char \<Rightarrow> string" where
  "safe_char c = (if c = CHR 0x40 then ''_at_'' else if c \<in> {CHR ''/'', CHR 0x5C, CHR '' '', CHR '':''} then ''_'' else [c])"

definition sanitize_email :: "string \<Rightarrow> string" where
  "sanitize_email email = concat (map safe_char (to_lower email))"

definition account_file_name :: "string \<Rightarrow> string" where
  "account_file_name email = ''cursor-'' @ sanitize_email email @ ''.json''"

subsection \<open>The client platform\<close>

record client_platform =
  cp_os :: string
  cp_os_version :: string
  cp_arch :: string
  cp_shell :: string
  cp_workspace :: string

definition normalize_client_os :: "string \<Rightarrow> string" where
  "normalize_client_os v = (let s = to_lower (trim_space v) in
     if s \<in> {''darwin'', ''mac'', ''macos''} then ''darwin''
     else if s \<in> {''win32'', ''windows''} then ''win32''
     else if s = ''linux'' then ''linux'' else [])"

definition normalize_client_arch :: "string \<Rightarrow> string" where
  "normalize_client_arch v = (let s = to_lower (trim_space v) in
     if s \<in> {''amd64'', ''x86_64'', ''x64''} then ''x64''
     else if s \<in> {''aarch64'', ''arm64''} then ''arm64'' else [])"

definition first_non_empty :: "string list \<Rightarrow> string" where
  "first_non_empty vs = (case filter (\<lambda>v. v \<noteq> []) (map trim_space vs) of v # _ \<Rightarrow> v | [] \<Rightarrow> [])"

record host =
  h_goos :: string
  h_goarch :: string
  h_shell :: string
  h_comspec :: string
  h_timezone :: string

definition default_client_arch :: "host \<Rightarrow> string" where
  "default_client_arch h = or_else (normalize_client_arch (h_goarch h)) ''x64''"

definition default_client_platform_for_os :: "host \<Rightarrow> string \<Rightarrow> client_platform" where
  "default_client_platform_for_os h os =
     (if os = ''darwin'' then \<lparr>cp_os = ''darwin'', cp_os_version = ''24.6.0'', cp_arch = default_client_arch h,
        cp_shell = first_non_empty [h_shell h, ''/bin/zsh''], cp_workspace = ''/Users/Shared/Cursor''\<rparr>
      else if os = ''win32'' then \<lparr>cp_os = ''win32'', cp_os_version = ''10.0.22631'', cp_arch = default_client_arch h,
        cp_shell = first_non_empty [h_comspec h, ''C:'' @ [CHR 0x5C] @ ''Windows'' @ [CHR 0x5C] @ ''System32'' @ [CHR 0x5C] @
          ''WindowsPowerShell'' @ [CHR 0x5C] @ ''v1.0'' @ [CHR 0x5C] @ ''powershell.exe''],
        cp_workspace = ''C:'' @ [CHR 0x5C] @ ''Users'' @ [CHR 0x5C] @ ''Public'' @ [CHR 0x5C] @ ''Cursor''\<rparr>
      else \<lparr>cp_os = ''linux'', cp_os_version = ''6.6.0'', cp_arch = default_client_arch h,
        cp_shell = first_non_empty [h_shell h, ''/bin/bash''], cp_workspace = ''/tmp/cursor''\<rparr>)"

definition default_client_platform :: "host \<Rightarrow> client_platform" where
  "default_client_platform h = default_client_platform_for_os h (normalize_client_os (h_goos h))"

definition resolve_client_platform :: "host \<Rightarrow> account option \<Rightarrow> client_platform" where
  "resolve_client_platform h acc =
     (case acc of
        None \<Rightarrow> default_client_platform h
      | Some a \<Rightarrow>
          let p = (if normalize_client_os (ac_client_os a) \<noteq> []
                   then default_client_platform_for_os h (normalize_client_os (ac_client_os a))
                   else default_client_platform h)
          in p\<lparr>cp_os_version := or_else (trim_space (ac_client_os_version a)) (cp_os_version p),
               cp_arch := or_else (normalize_client_arch (ac_client_arch a)) (cp_arch p),
               cp_shell := or_else (trim_space (ac_client_shell a)) (cp_shell p),
               cp_workspace := or_else (trim_space (ac_workspace_path a)) (cp_workspace p)\<rparr>)"

subsection \<open>Headers\<close>

type_synonym headers = "(string \<times> string) list"

definition cursor_client_version :: string where
  "cursor_client_version = ''3.19.7''"

definition cursor_client_commit :: string where
  "cursor_client_commit = ''90de2327392570a5f5f625c656c6749d228e6430''"

definition sand_client_version :: string where
  "sand_client_version = ''0.46.0''"

text \<open>The version up to its second dot.\<close>

definition cursor_line :: "string \<Rightarrow> string" where
  "cursor_line v = (case split_on CHR ''.'' v of a # b # _ # _ \<Rightarrow> a @ ''.'' @ b | _ \<Rightarrow> v)"

definition client_version :: "account \<Rightarrow> string" where
  "client_version a = or_else (trim_space (ac_client_version a)) cursor_client_version"

definition client_commit :: "account \<Rightarrow> string" where
  "client_commit a = or_else (trim_space (ac_client_commit a)) cursor_client_commit"

definition is_sand :: "string \<Rightarrow> bool" where
  "is_sand t \<longleftrightarrow> equal_fold (trim_space t) ''sand''"

definition apply_client_type_headers :: "string \<Rightarrow> headers \<Rightarrow> headers" where
  "apply_client_type_headers t hs =
     (if is_sand t
      then AList.update ''x-sand-box-namespace'' ''prod''
        (AList.update ''x-cursor-client-version'' sand_client_version (AList.delete ''x-cursor-client-source'' hs))
      else AList.delete ''x-sand-box-namespace'' hs)"

definition resolve_client_surface :: "account \<Rightarrow> string \<times> string" where
  "resolve_client_surface a =
     (or_else (trim_space (ac_client_type a)) ''ide'', or_else (trim_space (ac_client_layout a)) ''unifiedAgent'')"

definition set_all :: "headers \<Rightarrow> headers \<Rightarrow> headers" where
  "set_all kvs hs = fold (\<lambda>(k, v). AList.update k v) kvs hs"

definition bool_string :: "bool \<Rightarrow> string" where
  "bool_string b = (if b then ''true'' else ''false'')"

text \<open>The trace parent is random and an argument.\<close>

definition apply_common_headers :: "host \<Rightarrow> string \<Rightarrow> account \<Rightarrow> string \<Rightarrow> headers \<Rightarrow> headers" where
  "apply_common_headers h traceparent a request_id hs =
     (let p = resolve_client_platform h (Some a); (ctype, layout) = resolve_client_surface a in
      set_all ([(''x-cursor-timezone'', h_timezone h)] @
          (if trim_space (ac_team_id a) \<noteq> [] then [(''x-cursor-team-id'', trim_space (ac_team_id a))] else []) @
          [(''x-cursor-config-version'', ac_config_version a), (''x-session-id'', ac_session_id a),
           (''x-request-id'', request_id), (''x-amzn-trace-id'', ''Root='' @ request_id), (''traceparent'', traceparent),
           (''x-client-key'', ac_client_key a), (''x-ghost-mode'', bool_string (ac_privacy_mode a \<noteq> 0)),
           (''x-new-onboarding-completed'', ''false'')])
        (apply_client_type_headers ctype
          (set_all ([(''authorization'', ''Bearer '' @ ac_access_token a), (''connect-protocol-version'', ''1''),
              (''user-agent'', ''connect-es/1.6.1''), (''accept-encoding'', ''gzip''),
              (''x-cursor-checksum'', ac_checksum_session a), (''x-cursor-client-version'', client_version a)] @
            (if ac_internal_user a then [(''x-cursor-client-commit'', client_commit a)] else []) @
            [(''x-cursor-client-type'', ctype), (''x-cursor-client-os'', cp_os p)] @
            (if ac_internal_user a \<and> cp_os_version p \<noteq> [] then [(''x-cursor-client-os-version'', cp_os_version p)] else []) @
            [(''x-cursor-client-arch'', cp_arch p), (''x-cursor-client-device-type'', ''desktop''),
             (''x-cursor-client-layout'', layout)]) hs)))"

definition apply_common_headers_with_client_type :: "host \<Rightarrow> string \<Rightarrow> account \<Rightarrow> string \<Rightarrow> string \<Rightarrow> headers \<Rightarrow> headers" where
  "apply_common_headers_with_client_type h traceparent a request_id over hs =
     (let hs = apply_common_headers h traceparent a request_id hs; t = trim_space over in
      if t = [] then hs
      else let hs = apply_client_type_headers t (AList.update ''x-cursor-client-type'' t hs) in
        if \<not> equal_fold t ''sand'' then AList.update ''x-cursor-client-version'' (client_version a) hs else hs)"

lemma set_all_map: "map_of (set_all kvs hs) k = (case map_of (rev kvs) k of Some v \<Rightarrow> Some v | None \<Rightarrow> map_of hs k)"
proof (induction kvs arbitrary: hs)
  case (Cons kv kvs)
  then show ?case
    by (cases kv) (auto simp: set_all_def update_conv' map_add_def split: option.splits)
qed (simp add: set_all_def)

lemma type_headers_map:
  "map_of (apply_client_type_headers t hs) ''x-sand-box-namespace'' = (if is_sand t then Some ''prod'' else None)"
  "map_of (apply_client_type_headers t hs) ''x-cursor-client-version'' =
     (if is_sand t then Some sand_client_version else map_of hs ''x-cursor-client-version'')"
  "k \<notin> {''x-sand-box-namespace'', ''x-cursor-client-version'', ''x-cursor-client-source''} \<Longrightarrow>
     map_of (apply_client_type_headers t hs) k = map_of hs k"
  by (auto simp: apply_client_type_headers_def update_conv' delete_conv')

text \<open>
  C33: The client surface a request shows is consistent. With an override, the type is the override,
  otherwise the account's (or the IDE); the sandbox namespace is sent exactly with the type sand,
  whatever the headers before; the version is the bot's for sand and the account's (or the built-in)
  for every other type. The bearer token and the checksum are always the account's.
\<close>

theorem client_surface_consistent:
  "let t = or_else (trim_space over) (fst (resolve_client_surface a));
       hs' = apply_common_headers_with_client_type h traceparent a rid over hs in
   map_of hs' ''x-cursor-client-type'' = Some t \<and>
   map_of hs' ''x-sand-box-namespace'' = (if is_sand t then Some ''prod'' else None) \<and>
   map_of hs' ''x-cursor-client-version'' = Some (if is_sand t then sand_client_version else client_version a) \<and>
   map_of hs' ''authorization'' = Some (''Bearer '' @ ac_access_token a) \<and>
   map_of hs' ''x-cursor-checksum'' = Some (ac_checksum_session a)"
proof -
  let ?t = "fst (resolve_client_surface a)"
  let ?c = "apply_common_headers h traceparent a rid hs"
  have c: "map_of ?c ''x-cursor-client-type'' = Some ?t"
    "map_of ?c ''x-sand-box-namespace'' = (if is_sand ?t then Some ''prod'' else None)"
    "map_of ?c ''x-cursor-client-version'' = Some (if is_sand ?t then sand_client_version else client_version a)"
    "map_of ?c ''authorization'' = Some (''Bearer '' @ ac_access_token a)"
    "map_of ?c ''x-cursor-checksum'' = Some (ac_checksum_session a)"
    by (cases "resolve_client_surface a";
        simp add: apply_common_headers_def set_all_map type_headers_map Let_def)+
  have "is_sand (trim_space over) \<longleftrightarrow> equal_fold (trim_space over) ''sand''" by (simp add: is_sand_def)
  then show ?thesis
    by (simp add: apply_common_headers_with_client_type_def c Let_def or_else_def update_conv' type_headers_map)
qed

end
