(* ===== verification/AuthFiles.thy ===== *)
theory AuthFiles
  imports Platform
begin

text \<open>
  \<^verbatim>\<open>sdk/cpaformat\<close>: the credential file of a provider (\<^verbatim>\<open>cpaformat.go\<close>) and its conversion from and to
  an account (\<^verbatim>\<open>convert.go\<close>). Printing and reading of RFC 3339 times, to the second, are arguments.
\<close>

subsection \<open>The file\<close>

record auth_file =
  af_type :: string
  af_access_token :: string
  af_refresh_token :: string
  af_email :: string
  af_user_id :: string
  af_auth_id :: string
  af_auth_kind :: string
  af_team_id :: string
  af_privacy_mode :: int
  af_internal_user :: bool
  af_machine_id :: string
  af_mac_machine_id :: string
  af_checksum_machine_id :: string
  af_session_id :: string
  af_config_version :: string
  af_client_key :: string
  af_client_os :: string
  af_client_os_version :: string
  af_client_arch :: string
  af_client_type :: string
  af_client_layout :: string
  af_client_shell :: string
  af_workspace_path :: string
  af_issued_at :: string
  af_last_refresh :: string
  af_expired :: string
  af_refreshable :: bool
  af_refresh_lead_nanos :: int
  af_relay_url :: string
  af_box_token :: string
  af_network_token :: string
  af_box_minted_at_ms :: int
  af_prefix :: string
  af_proxy_url :: string
  af_disabled :: bool
  af_priority :: int
  af_note :: string
  af_excluded_models :: "string list"
  af_disable_cooling :: bool
  af_request_retry :: int

definition provider_type :: string where
  "provider_type = ''cursor''"

definition file_email :: "string \<Rightarrow> string" where
  "file_email email = concat (map safe_char (to_lower (trim_space email)))"

definition file_name_for_email :: "string \<Rightarrow> string" where
  "file_name_for_email email = ''cursor-'' @ file_email (or_else (trim_space email) ''unknown'') @ ''.json''"

text \<open>The errors; the type that was found is quoted by \<^verbatim>\<open>%q\<close> in the source.\<close>

datatype file_error = Bad_Type string | No_Access_Token | Empty_Access_Token | Bad_Issued_At | Bad_Expired

definition validate_file :: "auth_file \<Rightarrow> file_error option" where
  "validate_file f =
     (if af_type f \<noteq> provider_type then Some (Bad_Type (af_type f))
      else if trim_space (af_access_token f) = [] then Some No_Access_Token else None)"

definition format_time :: "(int \<Rightarrow> string) \<Rightarrow> int option \<Rightarrow> string" where
  "format_time rfc3339 t = (case t of None \<Rightarrow> [] | Some ns \<Rightarrow> rfc3339 (ns div 1000000000))"

text \<open>The outer None is a parse error.\<close>

definition parse_time :: "(string \<Rightarrow> int option) \<Rightarrow> string \<Rightarrow> int option option" where
  "parse_time of_rfc3339 s =
     (let s = trim_space s in
      if s = [] then Some None else map_option (\<lambda>sec. Some (sec * 1000000000)) (of_rfc3339 s))"

subsection \<open>Conversion\<close>

definition from_account :: "(int \<Rightarrow> string) \<Rightarrow> account \<Rightarrow> file_error + auth_file" where
  "from_account rfc3339 a =
     (if trim_space (ac_access_token a) = [] then Inl Empty_Access_Token
      else Inr \<lparr>af_type = provider_type, af_access_token = ac_access_token a, af_refresh_token = ac_refresh_token a,
        af_email = ac_email a, af_user_id = ac_user_id a, af_auth_id = ac_auth_id a, af_auth_kind = ac_auth_type a,
        af_team_id = ac_team_id a, af_privacy_mode = ac_privacy_mode a, af_internal_user = ac_internal_user a,
        af_machine_id = ac_machine_id a, af_mac_machine_id = ac_mac_machine_id a,
        af_checksum_machine_id = ac_checksum_machine_id a, af_session_id = ac_session_id a,
        af_config_version = ac_config_version a, af_client_key = ac_client_key a, af_client_os = ac_client_os a,
        af_client_os_version = ac_client_os_version a, af_client_arch = ac_client_arch a,
        af_client_type = ac_client_type a, af_client_layout = ac_client_layout a, af_client_shell = ac_client_shell a,
        af_workspace_path = ac_workspace_path a, af_issued_at = format_time rfc3339 (ac_issued_at a),
        af_last_refresh = format_time rfc3339 (ac_issued_at a), af_expired = format_time rfc3339 (ac_expires_at a),
        af_refreshable = ac_refreshable a, af_refresh_lead_nanos = ac_refresh_lead a, af_relay_url = ac_relay_url a,
        af_box_token = ac_box_token a, af_network_token = ac_network_token a,
        af_box_minted_at_ms = ac_box_minted_at_ms a, af_prefix = [], af_proxy_url = ac_proxy_url a,
        af_disabled = False, af_priority = 0, af_note = [], af_excluded_models = [], af_disable_cooling = False,
        af_request_retry = 0\<rparr>)"

definition to_account :: "(string \<Rightarrow> int option) \<Rightarrow> auth_file \<Rightarrow> file_error + account" where
  "to_account of_rfc3339 f =
     (case validate_file f of
        Some e \<Rightarrow> Inl e
      | None \<Rightarrow>
          (case parse_time of_rfc3339 (af_issued_at f) of
             None \<Rightarrow> Inl Bad_Issued_At
           | Some issued \<Rightarrow>
               (case parse_time of_rfc3339 (af_expired f) of
                  None \<Rightarrow> Inl Bad_Expired
                | Some expires \<Rightarrow> Inr (zero_account\<lparr>ac_email := af_email f, ac_user_id := af_user_id f,
                    ac_access_token := af_access_token f, ac_refresh_token := af_refresh_token f,
                    ac_auth_id := af_auth_id f, ac_auth_type := af_auth_kind f, ac_team_id := af_team_id f,
                    ac_privacy_mode := af_privacy_mode f, ac_internal_user := af_internal_user f,
                    ac_issued_at := issued, ac_expires_at := expires, ac_machine_id := af_machine_id f,
                    ac_mac_machine_id := af_mac_machine_id f, ac_checksum_machine_id := af_checksum_machine_id f,
                    ac_session_id := af_session_id f, ac_config_version := af_config_version f,
                    ac_client_key := af_client_key f, ac_client_os := af_client_os f,
                    ac_client_os_version := af_client_os_version f, ac_client_arch := af_client_arch f,
                    ac_client_type := af_client_type f, ac_client_layout := af_client_layout f,
                    ac_client_shell := af_client_shell f, ac_workspace_path := af_workspace_path f,
                    ac_proxy_url := af_proxy_url f, ac_refreshable := af_refreshable f,
                    ac_refresh_lead := af_refresh_lead_nanos f, ac_relay_url := af_relay_url f,
                    ac_box_token := af_box_token f, ac_network_token := af_network_token f,
                    ac_box_minted_at_ms := af_box_minted_at_ms f\<rparr>))))"

subsection \<open>Round trip\<close>

definition whole_second :: "int option \<Rightarrow> int option" where
  "whole_second t = map_option (\<lambda>ns. ns div 1000000000 * 1000000000) t"


text \<open>A printing of times that satisfies the hypotheses: the sign and the digits in unary.\<close>

definition tally_time :: "int \<Rightarrow> string" where
  "tally_time s = (if s < 0 then CHR ''-'' else CHR ''+'') # replicate (nat \<bar>s\<bar>) CHR ''1''"

definition read_tally :: "string \<Rightarrow> int option" where
  "read_tally t = (case t of [] \<Rightarrow> None | c # ds \<Rightarrow> Some (if c = CHR ''-'' then - int (length ds) else int (length ds)))"


end
