(* ===== verification/AccountPool.thy ===== *)
theory AccountPool
  imports AuthFiles RequestCommon Upstream
begin

text \<open>
  \<^verbatim>\<open>sdk/batch\<close>: rows of an import file and the accounts made of them (\<^verbatim>\<open>batch.go\<close>), and the view of a pool
  of accounts (\<^verbatim>\<open>pool.go\<close>). The records of a CSV file, the lines of a text file, what is in a directory
  and the clock are arguments. A duration is in nanoseconds; the rounding of \<^verbatim>\<open>Hours\<close> and
  \<^verbatim>\<open>Minutes\<close> to \<^verbatim>\<open>float64\<close> is taken as exact.
\<close>

subsection \<open>Rows\<close>

record input_row =
  ir_email :: string
  ir_access_token :: string
  ir_refresh_token :: string
  ir_user_id :: string
  ir_auth_id :: string
  ir_auth_type :: string

definition zero_row :: input_row where
  "zero_row = \<lparr>ir_email = [], ir_access_token = [], ir_refresh_token = [], ir_user_id = [], ir_auth_id = [], ir_auth_type = []\<rparr>"

definition read_json_rows :: "string \<Rightarrow> input_row list option" where
  "read_json_rows buf = dec_list (dec_struct [struct_field ''email'' dec_string ir_email ir_email_update,
     struct_field ''access_token'' dec_string ir_access_token ir_access_token_update,
     struct_field ''refresh_token'' dec_string ir_refresh_token ir_refresh_token_update,
     struct_field ''user_id'' dec_string ir_user_id ir_user_id_update,
     struct_field ''auth_id'' dec_string ir_auth_id ir_auth_id_update,
     struct_field ''auth_type'' dec_string ir_auth_type ir_auth_type_update]) zero_row buf []"

text \<open>The position of a column; of two columns with one name the later counts.\<close>

definition column_index :: "string list \<Rightarrow> string \<Rightarrow> nat option" where
  "column_index header k = last_index (\<lambda>h. to_lower (trim_space h) = k) header"

definition column :: "string list \<Rightarrow> string list \<Rightarrow> string list \<Rightarrow> string" where
  "column header rec keys =
     (case List.find (\<lambda>k. case column_index header k of Some i \<Rightarrow> i < length rec | None \<Rightarrow> False) keys of
        Some k \<Rightarrow> trim_space (rec ! the (column_index header k))
      | None \<Rightarrow> [])"

definition all_empty :: "string list \<Rightarrow> bool" where
  "all_empty rec = list_all (\<lambda>c. trim_space c = []) rec"

definition csv_rows :: "string list list \<Rightarrow> input_row list" where
  "csv_rows records =
     (case records of
        [] \<Rightarrow> []
      | header # recs \<Rightarrow> map (\<lambda>r. let col = column header r in
          \<lparr>ir_email = col [''email'', ''e-mail''], ir_access_token = col [''access_token'', ''accesstoken'', ''token''],
           ir_refresh_token = col [''refresh_token'', ''refreshtoken''], ir_user_id = col [''user_id'', ''userid''],
           ir_auth_id = col [''auth_id'', ''authid''], ir_auth_type = col [''auth_type'', ''authtype'', ''auth_kind'']\<rparr>)
        (filter (\<lambda>r. \<not> all_empty r) recs))"

definition emails_of_lines :: "string list \<Rightarrow> string list" where
  "emails_of_lines ls = filter (\<lambda>l. l \<noteq> [] \<and> \<not> has_prefix l ''#'') (map trim_space ls)"

subsection \<open>Accounts of rows\<close>

datatype row_error = Email_Required | Token_Required string | Web_Token string

definition account_from_row :: "int \<Rightarrow> input_row \<Rightarrow> string \<Rightarrow> string \<Rightarrow> row_error + account" where
  "account_from_row now row machine_id mac =
     (if trim_space (ir_email row) = [] then Inl Email_Required
      else if trim_space (ir_access_token row) = [] then Inl (Token_Required (ir_email row))
      else if token_type (ir_access_token row) = ''web'' then Inl (Web_Token (ir_email row))
      else Inr (zero_account\<lparr>ac_email := trim_space (ir_email row),
        ac_user_id := (if trim_space (ir_user_id row) = [] \<and> ir_auth_id row \<noteq> []
          then (case index_byte (ir_auth_id row) CHR ''|'' of Some i \<Rightarrow> drop (Suc i) (ir_auth_id row) | None \<Rightarrow> [])
          else trim_space (ir_user_id row)),
        ac_access_token := trim_space (ir_access_token row), ac_refresh_token := trim_space (ir_refresh_token row),
        ac_auth_id := trim_space (ir_auth_id row), ac_auth_type := trim_space (ir_auth_type row),
        ac_issued_at := Some (case issued_at_from_jwt (ir_access_token row) of Some t \<Rightarrow> t * 1000000000 | None \<Rightarrow> now),
        ac_expires_at := map_option (\<lambda>t. t * 1000000000) (expires_at_from_jwt (ir_access_token row)),
        ac_machine_id := machine_id, ac_mac_machine_id := mac,
        ac_refreshable := trim_space (ir_refresh_token row) \<noteq> [], ac_refresh_lead := 1800000000000\<rparr>))"

subsection \<open>The pool\<close>

text \<open>The part of a usage snapshot that the pool looks at.\<close>

record pool_usage =
  pu_hard_limit :: int
  pu_limit :: int
  pu_fetched_me :: bool
  pu_fetched_period :: bool
  pu_fetched_hard_limit :: bool
  pu_fetched_slow_pool :: bool
  pu_in_slow_pool :: bool
  pu_no_usage_based :: bool

record pool_entry =
  pe_path :: string
  pe_account :: "account option"
  pe_usage :: "pool_usage option"
  pe_error :: string
  pe_alive :: bool
  pe_last_use :: "int option"

text \<open>
  A directory entry: its name, whether it is a directory, what loading it gives (an error or an
  account) and its modification time. Entries with equal keys keep the directory's order here.
\<close>

definition email_key :: "pool_entry \<Rightarrow> string" where
  "email_key pe = (case pe_account pe of None \<Rightarrow> pe_path pe | Some a \<Rightarrow> to_lower (ac_email a))"

definition file_ext :: "string \<Rightarrow> string" where
  "file_ext n = (case last_index_byte n CHR ''.'' of Some i \<Rightarrow> drop i n | None \<Rightarrow> [])"

definition pool_entry_of :: "string \<Rightarrow> string \<Rightarrow> string + account \<Rightarrow> int option \<Rightarrow> pool_entry" where
  "pool_entry_of dir name loaded mtime =
     (case loaded of
        Inl e \<Rightarrow> \<lparr>pe_path = dir @ ''/'' @ name, pe_account = None, pe_usage = None, pe_error = e, pe_alive = False, pe_last_use = None\<rparr>
      | Inr a \<Rightarrow> \<lparr>pe_path = dir @ ''/'' @ name, pe_account = Some a, pe_usage = None, pe_error = [], pe_alive = False, pe_last_use = mtime\<rparr>)"

definition load_pool :: "string \<Rightarrow> (string \<times> bool \<times> (string + account) \<times> int option) list \<Rightarrow> pool_entry list" where
  "load_pool dir files = sort_key email_key (map (\<lambda>(name, _, loaded, mtime). pool_entry_of dir name loaded mtime)
     (filter (\<lambda>(name, is_dir, _). \<not> is_dir \<and> file_ext name = ''.json'') files))"

text \<open>The result of fetching the usage of an account: an error, or a snapshot that may be nil.\<close>

definition verify_entry :: "(account \<Rightarrow> string + pool_usage option) \<Rightarrow> pool_entry \<Rightarrow> pool_entry" where
  "verify_entry fetch pe =
     (case pe_account pe of
        None \<Rightarrow> pe
      | Some a \<Rightarrow>
          (case fetch a of
             Inl e \<Rightarrow> pe\<lparr>pe_error := e, pe_alive := False\<rparr>
           | Inr u \<Rightarrow> pe\<lparr>pe_usage := u, pe_alive := (case u of None \<Rightarrow> False | Some u \<Rightarrow>
               pu_fetched_me u \<or> pu_fetched_period u \<or> pu_fetched_hard_limit u \<or> pu_fetched_slow_pool u)\<rparr>))"

definition tier :: "pool_entry \<Rightarrow> string" where
  "tier pe = (case pe_usage pe of None \<Rightarrow> ''?'' | Some u \<Rightarrow>
     if pu_hard_limit u > 0 \<or> pu_limit u > 0 then ''Pro'' else if pu_fetched_me u then ''Free'' else ''?'')"

definition two_digits :: "int \<Rightarrow> string" where
  "two_digits n = (if n < 10 then ''0'' @ fmt_int n else fmt_int n)"

definition minute :: int where "minute = 60 * 1000000000"
definition hour :: int where "hour = 60 * minute"

definition human_duration :: "int \<Rightarrow> string" where
  "human_duration d =
     (if d < minute then ''<1m''
      else let days = d div hour div 24; hours = d div hour mod 24; mins = d div minute mod 60 in
        if days > 0 then fmt_int days @ ''d '' @ two_digits hours @ ''h''
        else if hours > 0 then fmt_int hours @ ''h '' @ two_digits mins @ ''m''
        else fmt_int (d div minute) @ ''m'')"

definition human_duration_ago :: "int \<Rightarrow> string" where
  "human_duration_ago d =
     (if d < 2 * minute then ''just now''
      else if d < hour then fmt_int (d div minute) @ ''m ago''
      else if d < 24 * hour then fmt_int (d div hour) @ ''h ago''
      else fmt_int (d div hour div 24) @ ''d ago'')"

definition expires_in :: "pool_entry \<Rightarrow> int \<Rightarrow> string" where
  "expires_in pe now =
     (case pe_account pe of
        None \<Rightarrow> ''unknown''
      | Some a \<Rightarrow>
          (case (case ac_expires_at a of Some t \<Rightarrow> Some t
                 | None \<Rightarrow> map_option (\<lambda>t. t * 1000000000) (expires_at_from_jwt (ac_access_token a))) of
             None \<Rightarrow> ''unknown''
           | Some t \<Rightarrow> if t < now then ''expired'' else human_duration (t - now)))"

text \<open>A time in the future is shown as its date, by the argument \<open>date\<close>.\<close>

definition last_use_string :: "(int \<Rightarrow> string) \<Rightarrow> int option \<Rightarrow> int \<Rightarrow> string" where
  "last_use_string date t now = (case t of None \<Rightarrow> ''never''
     | Some t \<Rightarrow> if now - t < 0 then date t else human_duration_ago (now - t))"

definition entry_notes :: "pool_entry \<Rightarrow> string" where
  "entry_notes pe = join_str '','' (
     (case pe_account pe of Some a \<Rightarrow> if \<not> ac_refreshable a \<and> ac_refresh_token a = [] then [''no_refresh''] else [] | None \<Rightarrow> []) @
     (case pe_usage pe of Some u \<Rightarrow> (if pu_in_slow_pool u then [''slow_pool''] else []) @
        (if pu_no_usage_based u then [''no_ubp''] else []) | None \<Rightarrow> []) @
     (if pe_error pe \<noteq> [] then [''error''] else []))"

lemma row_accepted:
  assumes "account_from_row now row mid mac = Inr a"
  shows "trim_space (ir_email row) \<noteq> []" "trim_space (ir_access_token row) \<noteq> []" "token_type (ir_access_token row) \<noteq> ''web''"
    and "ac_access_token a = trim_space (ir_access_token row)" "ac_refresh_token a = trim_space (ir_refresh_token row)"
    and "ac_refreshable a \<longleftrightarrow> trim_space (ir_refresh_token row) \<noteq> []"
    and "ac_expires_at a = map_option (\<lambda>t. t * 1000000000) (expires_at_from_jwt (ir_access_token row))"
proof -
  have ok: "trim_space (ir_email row) \<noteq> [] \<and> trim_space (ir_access_token row) \<noteq> [] \<and> token_type (ir_access_token row) \<noteq> ''web''"
    using assms unfolding account_from_row_def by (metis Inl_Inr_False)
  then show "trim_space (ir_email row) \<noteq> []" "trim_space (ir_access_token row) \<noteq> []" "token_type (ir_access_token row) \<noteq> ''web''"
    by simp_all
  note a = assms [unfolded account_from_row_def, simplified ok [THEN conjunct1] ok [THEN conjunct2, THEN conjunct1]
      ok [THEN conjunct2, THEN conjunct2] if_False, THEN sum.inject(2) [THEN iffD1], symmetric]
  show "ac_access_token a = trim_space (ir_access_token row)" "ac_refresh_token a = trim_space (ir_refresh_token row)"
    "ac_refreshable a \<longleftrightarrow> trim_space (ir_refresh_token row) \<noteq> []"
    "ac_expires_at a = map_option (\<lambda>t. t * 1000000000) (expires_at_from_jwt (ir_access_token row))"
    unfolding a by simp_all
qed

lemma usable_account_validates:
  "trim_space (ac_access_token a) \<noteq> [] \<Longrightarrow> \<exists>f. from_account rfc3339 a = Inr f \<and> validate_file f = None"
  by (simp add: from_account_def validate_file_def)


end
