(* ===== verification/ChatStream.thy ===== *)
theory ChatStream
  imports ChatLoop
begin

text \<open>
  The upstream side of \<^verbatim>\<open>executor/chat.go\<close>: the frames of the event stream that \<^verbatim>\<open>readSSEStream\<close> reads, the
  decisions it takes on each message, and the protobuf fields that the file writes by hand. The body
  is the list of the chunks that its reads return; a closed body, whoever closes it, is the end of this
  list. Timers are not run, the model says which are set and for how long. Decoding a message is an
  argument and gives the message with the id of its interaction query.
\<close>

subsection \<open>Fields written by hand\<close>

lemma seven_bits_less: "0x80 \<le> v \<Longrightarrow> unat (drop_bit 7 v) < unat v" for v :: "64 word"
proof -
  assume "0x80 \<le> v"
  then have "unat v div 128 < unat v" by (intro div_less_dividend) (auto simp: word_le_nat_alt)
  then show ?thesis by (simp add: drop_bit_eq_div unat_div)
qed

function append_varint :: "byte list \<Rightarrow> 64 word \<Rightarrow> byte list" where
  "append_varint buf v =
     (if 0x80 \<le> v then append_varint (buf @ [ucast v OR 0x80]) (drop_bit 7 v) else buf @ [ucast v])"
  by pat_completeness auto
termination
  by (relation "measure (\<lambda>(buf, v). unat v)") (simp_all add: seven_bits_less)

declare append_varint.simps [simp del]

definition append_tag :: "byte list \<Rightarrow> 64 word \<Rightarrow> 64 word \<Rightarrow> byte list" where
  "append_tag buf field wire = append_varint buf (push_bit 3 field OR wire)"

text \<open>\<^verbatim>\<open>appendStringField\<close>, \<^verbatim>\<open>appendMessageField\<close> and \<^verbatim>\<open>appendBytesField\<close> are the same text.\<close>

definition append_message_field :: "byte list \<Rightarrow> 64 word \<Rightarrow> byte list \<Rightarrow> byte list" where
  "append_message_field buf field msg = append_varint (append_tag buf field 2) (of_nat (length msg)) @ msg"

definition append_varint_field :: "byte list \<Rightarrow> 64 word \<Rightarrow> 64 word \<Rightarrow> byte list" where
  "append_varint_field buf field v = append_varint (append_tag buf field 0) v"

definition hex_digit :: "byte \<Rightarrow> byte" where
  "hex_digit n = (if n < 10 then 48 + n else 87 + n)"

definition hex_encode :: "byte list \<Rightarrow> byte list" where
  "hex_encode bs = concat (map (\<lambda>b. [hex_digit (drop_bit 4 b), hex_digit (b AND 0xF)]) bs)"

definition encode_bidi_append_request :: "byte list \<Rightarrow> byte list \<Rightarrow> 64 word \<Rightarrow> byte list" where
  "encode_bidi_append_request payload request_id seq =
     append_varint_field (append_message_field (append_message_field [] 1 (hex_encode payload))
       2 (append_message_field [] 1 request_id)) 3 seq"

definition build_interaction_response_approved :: "64 word \<Rightarrow> interaction_query \<Rightarrow> byte list" where
  "build_interaction_response_approved qid query =
     (let answer = (\<lambda>response_field.
        append_message_field [] 6 (append_message_field (if qid \<noteq> 0 then append_varint_field [] 1 qid else [])
          response_field (append_message_field [] 1 [])))
      in case query of
        Query_Web_Search _ \<Rightarrow> answer 2
      | Query_Web_Fetch _ \<Rightarrow> answer 9
      | Query_Other \<Rightarrow> [])"

subsection \<open>Connect frames\<close>

definition big_endian :: "nat \<Rightarrow> byte list" where
  "big_endian n = map (\<lambda>k. of_nat (n div 256 ^ k)) [3, 2, 1, 0]"

fun of_big_endian :: "byte list \<Rightarrow> nat" where
  "of_big_endian [a, b, c, d] = ((unat a * 256 + unat b) * 256 + unat c) * 256 + unat d"
| "of_big_endian _ = 0"

definition add_connect_envelope :: "byte list \<Rightarrow> bool \<Rightarrow> byte list" where
  "add_connect_envelope data compressed = (if compressed then 1 else 0) # big_endian (length data) @ data"

definition split_connect_frame :: "byte list \<Rightarrow> (byte list \<times> bool \<times> byte list) option" where
  "split_connect_frame buf =
     (if length buf < 5 then None
      else let flags = hd buf; n = of_big_endian (take 4 (tl buf)) in
        if length buf - 5 < n then None
        else Some (take n (drop 5 buf), flags AND 0x80 \<noteq> 0 \<or> flags AND 0x02 \<noteq> 0, drop n (drop 5 buf)))"

subsection \<open>Reading the stream\<close>

text \<open>The search of \<^verbatim>\<open>bytesContains\<close>, from every position in turn.\<close>

fun bytes_contains :: "string \<Rightarrow> string \<Rightarrow> bool" where
  "bytes_contains [] needle \<longleftrightarrow> needle = []"
| "bytes_contains (c # s) needle \<longleftrightarrow> has_prefix (c # s) needle \<or> bytes_contains s needle"

definition assistant_mark :: string where
  "assistant_mark = [CHR 0x22] @ ''role'' @ [CHR 0x22] @ '':'' @ [CHR 0x22] @ ''assistant'' @ [CHR 0x22]"

definition sniff_assistant_blob :: "server_message \<Rightarrow> bool" where
  "sniff_assistant_blob m = (case m of
     Msg_Kv d \<Rightarrow> d \<noteq> [] \<and> length d \<le> 200000 \<and> bytes_contains d assistant_mark | _ \<Rightarrow> False)"

definition is_server_web_tool_call :: "server_message \<Rightarrow> bool" where
  "is_server_web_tool_call m = (case m of
     Msg_Update (Upd_Call_Started _ (Some tc)) \<Rightarrow>
       (case tc_tool tc of Some (Web_Search_Tool _ _) \<Rightarrow> True | Some (Web_Fetch_Tool _ _) \<Rightarrow> True | _ \<Rightarrow> False)
   | _ \<Rightarrow> False)"

definition is_web_query :: "server_message \<Rightarrow> bool" where
  "is_web_query m = (case m of
     Msg_Query (Query_Web_Search _) \<Rightarrow> True | Msg_Query (Query_Web_Fetch _) \<Rightarrow> True | _ \<Rightarrow> False)"

definition starts_tool_call :: "server_message \<Rightarrow> bool" where
  "starts_tool_call m = (case m of Msg_Mcp_Exec _ \<Rightarrow> True | Msg_Update (Upd_Call_Started _ _) \<Rightarrow> True | _ \<Rightarrow> False)"

definition is_turn_end :: "server_message \<Rightarrow> bool" where
  "is_turn_end m = (case m of Msg_Update (Upd_Turn_Ended _ _ _ _ _) \<Rightarrow> True | _ \<Rightarrow> False)"

text \<open>An event of the channel: \<^verbatim>\<open>Trailer\<close>, \<^verbatim>\<open>Status\<close> and \<^verbatim>\<open>Server\<close>.\<close>

record sse_event =
  se_trailer :: bool
  se_status :: "trailer_status option"
  se_server :: "server_message option"

text \<open>What the handlers look at.\<close>

definition chat_event_of :: "sse_event \<Rightarrow> chat_event" where
  "chat_event_of e = (if se_trailer e then Trailer_Event (se_status e) else Server_Event (se_server e))"

text \<open>
  The options of a read: the two automatic stops, whether server tools stay open, the unmarshalling of
  trailers and messages, the wait for server tools (0 for none), and the error that the \<open>n\<close>-th approval
  of a query meets, if any.
\<close>

record sse_options =
  so_stop_on_turn_end :: bool
  so_stop_on_tool_call :: bool
  so_keep_server_tools :: bool
  so_status :: "byte list \<Rightarrow> trailer_status option"
  so_message :: "byte list \<Rightarrow> (server_message \<times> 64 word) option"
  so_server_tool_wait :: nat
  so_append_error :: "nat \<Rightarrow> string option"

text \<open>Times in milliseconds.\<close>

definition post_assistant_grace :: nat where "post_assistant_grace = 1000"
definition heartbeat_deadline :: nat where "heartbeat_deadline = 60000"

record reading =
  rd_buf :: "byte list"
  rd_events :: "sse_event list"
  rd_turn_ended :: bool
  rd_saw_assistant :: bool
  rd_deadline :: "nat option"
  rd_server_tool_timer :: bool
  rd_sent :: "byte list list"
  rd_returned :: bool

definition set_deadline :: "nat \<Rightarrow> reading \<Rightarrow> reading" where
  "set_deadline d r = (if rd_deadline r \<noteq> None then r else r\<lparr>rd_deadline := Some d\<rparr>)"

definition arm_server_tool_timeout :: "sse_options \<Rightarrow> reading \<Rightarrow> reading" where
  "arm_server_tool_timeout o' r = (if so_server_tool_wait o' > 0 then r\<lparr>rd_server_tool_timer := True\<rparr> else r)"

text \<open>The approval of a query, sent under the next sequence number; the error of sending it.\<close>

definition approve_interaction :: "sse_options \<Rightarrow> 64 word \<Rightarrow> server_message \<Rightarrow> reading \<Rightarrow> string option \<times> reading" where
  "approve_interaction o' qid m r =
     (case m of
        Msg_Query q \<Rightarrow> let payload = build_interaction_response_approved qid q in
          if payload = [] then (None, r)
          else (so_append_error o' (length (rd_sent r)), r\<lparr>rd_sent := rd_sent r @ [payload]\<rparr>)
      | _ \<Rightarrow> (None, r))"

definition handle_query :: "sse_options \<Rightarrow> 64 word \<Rightarrow> server_message \<Rightarrow> reading \<Rightarrow> string option \<times> reading" where
  "handle_query o' qid m r =
     (if is_web_query m \<and> so_keep_server_tools o'
      then (case approve_interaction o' qid m r of
          (Some e, r) \<Rightarrow> (Some e, r)
        | (None, r) \<Rightarrow> (None, arm_server_tool_timeout o' r))
      else if is_web_query m \<and> so_stop_on_tool_call o' then (None, set_deadline post_assistant_grace r)
      else (None, r))"

definition watch_turn_end :: "sse_options \<Rightarrow> server_message \<Rightarrow> reading \<Rightarrow> reading" where
  "watch_turn_end o' m r =
     (let r = (if is_turn_end m then r\<lparr>rd_turn_ended := True\<rparr> else r);
          r = (if so_stop_on_turn_end o' \<and> sniff_assistant_blob m then r\<lparr>rd_saw_assistant := True\<rparr> else r) in
      if so_stop_on_turn_end o' \<and> rd_turn_ended r \<and> rd_saw_assistant r then set_deadline post_assistant_grace r
      else if so_stop_on_turn_end o' \<and> rd_turn_ended r \<and> rd_deadline r = None then set_deadline (heartbeat_deadline div 6) r
      else r)"

definition watch_tool_call :: "sse_options \<Rightarrow> server_message \<Rightarrow> reading \<Rightarrow> reading" where
  "watch_tool_call o' m r =
     (let server_call = so_keep_server_tools o' \<and> is_server_web_tool_call m;
          r = (if server_call then arm_server_tool_timeout o' r else r) in
      if so_stop_on_tool_call o' \<and> \<not> server_call \<and> starts_tool_call m then set_deadline post_assistant_grace r else r)"

definition put_event :: "sse_event \<Rightarrow> reading \<Rightarrow> reading" where
  "put_event e r = r\<lparr>rd_events := rd_events r @ [e]\<rparr>"

definition handle_frame :: "sse_options \<Rightarrow> byte list \<times> bool \<Rightarrow> reading \<Rightarrow> reading" where
  "handle_frame o' = (\<lambda>(payload, trailer) r.
     if trailer then put_event \<lparr>se_trailer = True, se_status = so_status o' payload, se_server = None\<rparr> (r\<lparr>rd_returned := True\<rparr>)
     else case so_message o' payload of
       None \<Rightarrow> put_event \<lparr>se_trailer = False, se_status = None, se_server = None\<rparr> r
     | Some (m, qid) \<Rightarrow>
         (case handle_query o' qid m r of
            (Some e, r) \<Rightarrow> put_event \<lparr>se_trailer = False,
                se_status = Some (empty_status\<lparr>ts_code := 13, ts_message := e\<rparr>), se_server = Some m\<rparr> (r\<lparr>rd_returned := True\<rparr>)
          | (None, r) \<Rightarrow> put_event \<lparr>se_trailer = False, se_status = None, se_server = Some m\<rparr>
              (watch_tool_call o' m (watch_turn_end o' m r))))"

lemma split_shorter: "split_connect_frame buf = Some (p, t, rest) \<Longrightarrow> length rest < length buf"
  by (auto simp: split_connect_frame_def Let_def split: if_splits)

lemma set_deadline_fields [simp]: "rd_buf (set_deadline d r) = rd_buf r" "rd_returned (set_deadline d r) = rd_returned r"
    "rd_events (set_deadline d r) = rd_events r"
  by (simp_all add: set_deadline_def)

lemma arm_fields [simp]: "rd_buf (arm_server_tool_timeout o' r) = rd_buf r" "rd_returned (arm_server_tool_timeout o' r) = rd_returned r"
    "rd_events (arm_server_tool_timeout o' r) = rd_events r"
  by (simp_all add: arm_server_tool_timeout_def)

lemma watch_turn_end_fields [simp]: "rd_buf (watch_turn_end o' m r) = rd_buf r" "rd_returned (watch_turn_end o' m r) = rd_returned r"
    "rd_events (watch_turn_end o' m r) = rd_events r"
  by (simp_all add: watch_turn_end_def Let_def)

lemma watch_tool_call_fields [simp]: "rd_buf (watch_tool_call o' m r) = rd_buf r" "rd_returned (watch_tool_call o' m r) = rd_returned r"
    "rd_events (watch_tool_call o' m r) = rd_events r"
  by (simp_all add: watch_tool_call_def Let_def)

lemma approve_fields [simp]: "rd_buf (snd (approve_interaction o' qid m r)) = rd_buf r"
    "rd_returned (snd (approve_interaction o' qid m r)) = rd_returned r" "rd_events (snd (approve_interaction o' qid m r)) = rd_events r"
  by (cases m; simp add: approve_interaction_def Let_def)+

lemma handle_query_fields [simp]: "rd_buf (snd (handle_query o' qid m r)) = rd_buf r"
    "rd_returned (snd (handle_query o' qid m r)) = rd_returned r" "rd_events (snd (handle_query o' qid m r)) = rd_events r"
  using approve_fields [of o' qid m r] unfolding handle_query_def
  by (cases "approve_interaction o' qid m r"; cases "fst (approve_interaction o' qid m r)"; simp)+

lemma put_event_fields [simp]: "rd_buf (put_event e r) = rd_buf r" "rd_returned (put_event e r) = rd_returned r"
    "rd_events (put_event e r) = rd_events r @ [e]"
  by (simp_all add: put_event_def)

lemma handle_keeps_buf [simp]: "rd_buf (handle_frame o' f r) = rd_buf r"
proof (cases f)
  case (Pair payload trailer)
  show ?thesis
  proof (cases "so_message o' payload")
    case (Some mq)
    then show ?thesis using handle_query_fields(1) [of o' "snd mq" "fst mq" r]
      by (cases mq; cases "handle_query o' (snd mq) (fst mq) r"; cases "fst (handle_query o' (snd mq) (fst mq) r)")
        (simp_all add: Pair handle_frame_def)
  qed (simp add: Pair handle_frame_def)
qed

function read_frames :: "sse_options \<Rightarrow> reading \<Rightarrow> reading" where
  "read_frames o' r =
     (case split_connect_frame (rd_buf r) of
        None \<Rightarrow> r
      | Some (payload, trailer, rest) \<Rightarrow>
          let r = handle_frame o' (payload, trailer) (r\<lparr>rd_buf := rest\<rparr>) in
          if rd_returned r then r else read_frames o' r)"
  by pat_completeness auto
termination
  by (relation "measure (\<lambda>(o', r). length (rd_buf r))") (auto dest: split_shorter)

declare read_frames.simps [simp del]

definition read_chunk :: "sse_options \<Rightarrow> byte list \<Rightarrow> reading \<Rightarrow> reading" where
  "read_chunk o' chunk r = (if rd_returned r then r else read_frames o' (r\<lparr>rd_buf := rd_buf r @ chunk\<rparr>))"

definition new_reading :: reading where
  "new_reading = \<lparr>rd_buf = [], rd_events = [], rd_turn_ended = False, rd_saw_assistant = False, rd_deadline = None,
     rd_server_tool_timer = False, rd_sent = [], rd_returned = False\<rparr>"

definition read_sse_stream :: "sse_options \<Rightarrow> byte list list \<Rightarrow> reading" where
  "read_sse_stream o' chunks = fold (read_chunk o') chunks new_reading"

subsection \<open>The bytes are read back\<close>

function varint :: "64 word \<Rightarrow> byte list" where
  "varint v = (if 0x80 \<le> v then (ucast v OR 0x80) # varint (drop_bit 7 v) else [ucast v])"
  by pat_completeness auto
termination
  by (relation "measure unat") (simp_all add: seven_bits_less)

declare varint.simps [simp del]

lemma append_varint_eq: "append_varint buf v = buf @ varint v"
  by (induction buf v rule: append_varint.induct) (simp add: append_varint.simps varint.simps [of v for v])

lemma seven_bit_mask: "(0x7F :: 'a :: len word) = mask 7"
  by (simp add: mask_eq_exp_minus_1)

lemma eighth_bit: "bit (0x80 :: 'a :: len word) n \<longleftrightarrow> n = 7 \<and> 7 < LENGTH('a)"
proof -
  have e: "(0x80 :: 'a word) = 2 ^ 7" by simp
  show ?thesis unfolding e bit_exp_iff by auto
qed

lemma eighth_bit_int: "bit (0x80 :: int) n \<longleftrightarrow> n = 7"
proof -
  have e: "(0x80 :: int) = 2 ^ 7" by simp
  show ?thesis unfolding e bit_exp_iff by auto
qed

lemma small_word_bit: "w < 0x80 \<Longrightarrow> 7 \<le> n \<Longrightarrow> \<not> bit w n" for w :: "'a :: len word"
proof -
  assume w: "w < 0x80" "7 \<le> n"
  have "unat (0x80 :: 'a word) \<le> 0x80" by (simp only: unsigned_numeral of_nat_id take_bit_nat_less_eq_self)
  with unat_mono [OF w(1)] have "unat w < 0x80" by (rule less_le_trans)
  then have "unat w < 2 ^ 7" by simp
  then have "take_bit 7 (unat w) = unat w" by (simp add: take_bit_nat_eq_self)
  then have "\<not> bit (unat w) n" using w(2) by (metis bit_take_bit_iff linorder_not_less)
  then show "\<not> bit w n" by (simp add: bit_unsigned_iff)
qed

lemma continued_byte: "\<not> (ucast v OR 0x80 :: byte) < 0x80" for v :: "64 word"
  using small_word_bit [of "ucast v OR 0x80 :: byte" 7] by (auto simp: bit_simps eighth_bit)

lemma low_bits: "ucast ((ucast w OR 0x80 :: byte) AND 0x7F) = w AND 0x7F" for w :: "64 word"
  unfolding seven_bit_mask by (rule bit_eqI) (auto simp: bit_simps eighth_bit eighth_bit_int)

lemma last_bits: "w < 0x80 \<Longrightarrow> ucast (ucast w AND 0x7F :: byte) = w" "w < 0x80 \<Longrightarrow> (ucast w :: byte) < 0x80" for w :: "64 word"
proof -
  assume w: "w < 0x80"
  show "ucast (ucast w AND 0x7F :: byte) = w"
    unfolding seven_bit_mask using small_word_bit [OF w] by (intro bit_eqI) (auto simp: bit_simps not_le [symmetric])
  show "(ucast w :: byte) < 0x80" 
  proof -
    have "unat (ucast w :: byte) \<le> unat w" by (simp add: unsigned_ucast_eq)
    then show ?thesis using w by (simp add: word_less_nat_alt)
  qed
qed

lemma read_varint_from_varint:
  "s < 64 \<Longrightarrow> unat v < 2 ^ (64 - s) \<Longrightarrow>
     read_varint_from acc s i (varint v @ rest) = (acc OR push_bit s v, i + length (varint v))"
proof (induction v arbitrary: acc s i rule: varint.induct)
  case (1 v)
  show ?case
  proof (cases "0x80 \<le> v")
    case True
    have "2 ^ 7 \<le> unat v" using True by (simp add: word_le_nat_alt)
    have s: "s + 7 < 64"
    proof (rule ccontr)
      assume "\<not> s + 7 < 64"
      then have "(2 :: nat) ^ (64 - s) \<le> 2 ^ 7" by (intro power_increasing) auto
      with \<open>2 ^ 7 \<le> unat v\<close> 1(3) show False by simp
    qed
    have "unat (drop_bit 7 v) < 2 ^ (64 - (s + 7))"
    proof -
      have "64 - s = (64 - (s + 7)) + 7" using s by simp
      then have "unat v < 2 ^ (64 - (s + 7)) * 2 ^ 7" using 1(3) by (metis power_add)
      then show ?thesis by (simp add: drop_bit_eq_div unat_div less_mult_imp_div_less)
    qed
    note ih = 1(1) [OF True s this]
    have "(acc OR push_bit s (v AND 0x7F)) OR push_bit (s + 7) (drop_bit 7 v) = acc OR push_bit s v"
      unfolding seven_bit_mask
    proof (rule bit_eqI)
      fix n
      have "7 + (n - (s + 7)) = n - s" if "\<not> n - s < 7" using that by simp
      then show "bit ((acc OR push_bit s (v AND mask 7)) OR push_bit (s + 7) (drop_bit 7 v)) n = bit (acc OR push_bit s v) n"
        by (cases "n - s < 7") (auto simp: bit_simps)
    qed
    then show ?thesis using True s ih by (simp add: varint.simps [of v] continued_byte low_bits Let_def)
  next
    case False
    then have "v < 0x80" by simp
    from last_bits [OF this] False show ?thesis by (simp add: varint.simps [of v] Let_def)
  qed
qed

lemma read_varint_varint: "read_varint (varint v @ rest) = (v, length (varint v))"
proof -
  have "unat v < 2 ^ (64 - 0)" using unsigned_less [of v] by simp
  from read_varint_from_varint [where s = 0 and acc = 0 and i = 0 and rest = rest, OF _ this]
  show ?thesis by (simp add: read_varint_def)
qed


text \<open>The fields of a message: numbers and byte strings, as any protobuf reader reads them.\<close>

datatype field_value = Number "64 word" | Bytes "byte list"

definition read_field :: "byte list \<Rightarrow> ((64 word \<times> field_value) \<times> byte list) option" where
  "read_field buf =
     (case read_varint buf of (tag, n) \<Rightarrow>
        if n = 0 then None
        else case read_varint (drop n buf) of (v, m) \<Rightarrow>
          if m = 0 then None
          else if tag AND 7 = 0 then Some ((drop_bit 3 tag, Number v), drop (n + m) buf)
          else if tag AND 7 = 2 \<and> unat v \<le> length buf - (n + m)
            then Some ((drop_bit 3 tag, Bytes (take (unat v) (drop (n + m) buf))), drop (n + m + unat v) buf)
          else None)"

function read_fields :: "byte list \<Rightarrow> (64 word \<times> field_value) list option" where
  "read_fields buf =
     (if buf = [] then Some []
      else case read_field buf of
        None \<Rightarrow> None
      | Some (f, rest) \<Rightarrow> if length rest < length buf then map_option ((#) f) (read_fields rest) else None)"
  by pat_completeness auto
termination
  by (relation "measure length") auto

declare read_fields.simps [simp del]

definition number_field :: "64 word \<Rightarrow> 64 word \<Rightarrow> byte list" where
  "number_field field v = varint (push_bit 3 field) @ varint v"

definition bytes_field :: "64 word \<Rightarrow> byte list \<Rightarrow> byte list" where
  "bytes_field field msg = varint (push_bit 3 field OR 2) @ varint (of_nat (length msg)) @ msg"

lemma appended_fields:
  "append_varint_field buf field v = buf @ number_field field v"
  "append_message_field buf field msg = buf @ bytes_field field msg"
  by (simp_all add: append_varint_field_def append_message_field_def append_tag_def append_varint_eq number_field_def bytes_field_def)

lemma varint_Nil [simp]: "varint v \<noteq> []"
  by (simp add: varint.simps)

lemma tag_parts:
  fixes field w :: "64 word"
  assumes "unat field < 2 ^ 61"
  shows "drop_bit 3 (push_bit 3 field OR w) = field OR drop_bit 3 w" "(push_bit 3 field OR w) AND 7 = w AND 7"
proof -
  have "\<not> bit field n" if "61 \<le> n" for n
  proof -
    have "take_bit 61 (unat field) = unat field" using assms by (simp add: take_bit_nat_eq_self)
    then have "\<not> bit (unat field) n" using that by (metis bit_take_bit_iff linorder_not_less)
    then show ?thesis by (simp add: bit_unsigned_iff)
  qed
  then have "bit field n \<Longrightarrow> n < 61" for n by (meson not_le)
  then show "drop_bit 3 (push_bit 3 field OR w) = field OR drop_bit 3 w"
    by (intro bit_eqI) (fastforce simp: bit_simps)
  have e: "(7 :: 64 word) = mask 3" by (simp add: mask_eq_exp_minus_1)
  show "(push_bit 3 field OR w) AND 7 = w AND 7"
    unfolding e by (rule bit_eqI) (auto simp: bit_simps)
qed

lemma read_number_field:
  "unat field < 2 ^ 61 \<Longrightarrow> read_field (number_field field v @ rest) = Some ((field, Number v), rest)"
  using tag_parts [of field 0] by (simp add: read_field_def number_field_def read_varint_varint)

lemma read_bytes_field:
  assumes "unat field < 2 ^ 61" "length msg < 2 ^ 64"
  shows "read_field (bytes_field field msg @ rest) = Some ((field, Bytes msg), rest)"
proof -
  have "unat (of_nat (length msg) :: 64 word) = length msg" using assms(2) by (simp add: unsigned_of_nat take_bit_nat_eq_self)
  then show ?thesis using tag_parts [OF assms(1), of 2]
    by (simp add: read_field_def bytes_field_def read_varint_varint)
qed

lemma read_fields_step:
  "read_field buf = Some (f, rest) \<Longrightarrow> length rest < length buf \<Longrightarrow> read_fields buf = map_option ((#) f) (read_fields rest)"
  by (subst read_fields.simps) (auto simp: read_field_def)

lemma read_fields_Nil: "read_fields [] = Some []"
  by (simp add: read_fields.simps)

text \<open>Hexadecimal.\<close>

definition digit_value :: "byte \<Rightarrow> byte" where
  "digit_value c = (if c < 58 then c - 48 else c - 87)"

fun hex_decode :: "byte list \<Rightarrow> byte list" where
  "hex_decode (a # b # cs) = (push_bit 4 (digit_value a) OR digit_value b) # hex_decode cs"
| "hex_decode _ = []"

lemma hex_byte: "push_bit 4 (digit_value (hex_digit (drop_bit 4 b))) OR digit_value (hex_digit (b AND 0xF)) = b"
proof -
  have digit: "digit_value (hex_digit n) = n" if "n < 16" for n
  proof -
    have "unat n < 16" using that by (simp add: word_less_nat_alt)
    then show ?thesis
      by (auto simp: digit_value_def hex_digit_def word_less_nat_alt unat_word_ariths)
  qed
  have "b AND 0xF < 16"
  proof -
    have "b AND 0xF = take_bit 4 b" by (simp add: take_bit_eq_mask mask_eq_exp_minus_1)
    then show ?thesis using take_bit_nat_less_exp [of 4 "unat b"] by (simp add: word_less_nat_alt unsigned_take_bit_eq)
  qed
  moreover have "drop_bit 4 b < 16"
  proof -
    have "unat b < 256" by (rule order_less_le_trans [OF unsigned_less]) simp
    then show ?thesis by (simp add: word_less_nat_alt drop_bit_eq_div unat_div)
  qed
  moreover have "push_bit 4 (drop_bit 4 b) OR (b AND 0xF) = b"
  proof -
    have e: "(0xF :: byte) = mask 4" by (simp add: mask_eq_exp_minus_1)
    show ?thesis unfolding e by (rule bit_eqI) (auto simp: bit_simps)
  qed
  ultimately show ?thesis by (simp add: digit)
qed

lemma hex_decode_encode: "hex_decode (hex_encode bs) = bs"
  by (induction bs) (simp_all add: hex_encode_def hex_byte)


lemma length_hex_encode: "length (hex_encode bs) = 2 * length bs"
  by (induction bs) (simp_all add: hex_encode_def)

lemma length_varint: "length (varint v) \<le> 10"
proof -
  have "unat v < 2 ^ (7 * k) \<Longrightarrow> length (varint v) \<le> k" if "0 < k" for k
    using that
  proof (induction v arbitrary: k rule: varint.induct)
    case (1 v)
    show ?case
    proof (cases "0x80 \<le> v")
      case True
      then have "2 ^ 7 \<le> unat v" by (simp add: word_le_nat_alt)
      then have "(2 :: nat) ^ 7 < 2 ^ (7 * k)" using 1(2) by simp
      then have "7 < 7 * k" by (simp only: power_strict_increasing_iff)
      then obtain j where j: "k = Suc j" "0 < j" by (cases k) auto
      have "7 * k = 7 * j + 7" using j by simp
      then have "unat v < 2 ^ (7 * j) * 2 ^ 7" using 1(2) by (metis power_add)
      then have "unat (drop_bit 7 v) < 2 ^ (7 * j)" by (simp add: drop_bit_eq_div unat_div less_mult_imp_div_less)
      then show ?thesis using 1(1) [OF True _ j(2)] j True by (simp add: varint.simps [of v])
    qed (use 1(3) in \<open>simp add: varint.simps [of v]\<close>)
  qed
  moreover have "unat v < 2 ^ (7 * 10)" by (rule order_less_le_trans [OF unsigned_less]) simp
  ultimately show ?thesis by simp
qed

lemma one_number_field: "unat field < 2 ^ 61 \<Longrightarrow> read_fields (number_field field v @ rest) = map_option ((#) (field, Number v)) (read_fields rest)"
  by (rule read_fields_step [OF read_number_field]) (simp_all add: number_field_def)

lemma one_bytes_field:
  "unat field < 2 ^ 61 \<Longrightarrow> length msg < 2 ^ 64 \<Longrightarrow>
     read_fields (bytes_field field msg @ rest) = map_option ((#) (field, Bytes msg)) (read_fields rest)"
  by (rule read_fields_step [OF read_bytes_field]) (simp_all add: bytes_field_def)

text \<open>
  C29: What the file writes by hand is read back by any protobuf reader. The approval of a web search or
  fetch is one field 6 that holds the id of the query, unless it is zero, and under 2 or 9 an approved
  answer; an append request carries the payload in hexadecimal, the request id in a message of its own,
  and the sequence number.
\<close>

theorem wire_messages_roundtrip:
  assumes "length payload < 2 ^ 62" "length request_id < 2 ^ 62"
  shows "(\<exists>hex inner. read_fields (encode_bidi_append_request payload request_id seq) =
        Some [(1, Bytes hex), (2, Bytes inner), (3, Number seq)] \<and>
      hex_decode hex = payload \<and> read_fields inner = Some [(1, Bytes request_id)]) \<and>
    (case query of Query_Other \<Rightarrow> build_interaction_response_approved qid query = []
     | _ \<Rightarrow> (\<exists>interaction approved. read_fields (build_interaction_response_approved qid query) = Some [(6, Bytes interaction)] \<and>
         read_fields interaction = Some ((if qid = 0 then [] else [(1, Number qid)]) @
           [(case query of Query_Web_Search _ \<Rightarrow> 2 | _ \<Rightarrow> 9, Bytes approved)]) \<and>
         read_fields approved = Some [(1, Bytes [])]))"
proof (rule conjI)
  have inner: "length (bytes_field 1 request_id) < 2 ^ 64"
    using length_varint [of "push_bit 3 1 OR 2"] length_varint [of "of_nat (length request_id)"] assms(2) by (simp add: bytes_field_def)
  have "read_fields (bytes_field 1 request_id) = Some [(1, Bytes request_id)]"
    using one_bytes_field [of 1 request_id "[]"] assms(2) by (simp add: read_fields_Nil)
  moreover have "read_fields (encode_bidi_append_request payload request_id seq) =
      Some [(1, Bytes (hex_encode payload)), (2, Bytes (bytes_field 1 request_id)), (3, Number seq)]"
    using assms(1) inner
    by (simp add: encode_bidi_append_request_def appended_fields one_bytes_field length_hex_encode
        one_number_field [of 3 seq "[]", simplified] read_fields_Nil)
  ultimately show "\<exists>hex inner. read_fields (encode_bidi_append_request payload request_id seq) =
        Some [(1, Bytes hex), (2, Bytes inner), (3, Number seq)] \<and>
      hex_decode hex = payload \<and> read_fields inner = Some [(1, Bytes request_id)]"
    using hex_decode_encode by blast
next
  define approved where "approved = bytes_field 1 []"
  define interaction where "interaction f = (if qid \<noteq> 0 then number_field 1 qid else []) @ bytes_field f approved" for f
  have len: "length approved < 2 ^ 64" "length (interaction f) < 2 ^ 64" for f
    using length_varint [of "push_bit 3 1 OR 2"] length_varint [of 0] length_varint [of "push_bit 3 f OR 2"]
      length_varint [of "of_nat (length approved)"] length_varint [of qid] length_varint [of "push_bit 3 1"]
    by (auto simp: approved_def interaction_def bytes_field_def number_field_def)
  have answer: "build_interaction_response_approved qid query = bytes_field 6 (interaction f)"
    if "query = Query_Web_Search a \<and> f = 2 \<or> query = Query_Web_Fetch b \<and> f = 9" for f a b
    using that by (auto simp: build_interaction_response_approved_def appended_fields interaction_def approved_def)
  have "read_fields (bytes_field 6 (interaction f)) = Some [(6, Bytes (interaction f))]" for f
    using one_bytes_field [of 6 "interaction f" "[]"] len(2) by (simp add: read_fields_Nil)
  moreover have "read_fields (interaction f) = Some ((if qid = 0 then [] else [(1, Number qid)]) @ [(f, Bytes approved)])"
    if "unat f < 2 ^ 61" for f
    using that one_bytes_field [of f approved "[]"] len(1) by (simp add: interaction_def one_number_field read_fields_Nil)
  moreover have "read_fields approved = Some [(1, Bytes [])]"
    using one_bytes_field [of 1 "[]" "[]"] by (simp add: approved_def read_fields_Nil)
  ultimately show "case query of Query_Other \<Rightarrow> build_interaction_response_approved qid query = []
     | _ \<Rightarrow> (\<exists>interaction approved. read_fields (build_interaction_response_approved qid query) = Some [(6, Bytes interaction)] \<and>
         read_fields interaction = Some ((if qid = 0 then [] else [(1, Number qid)]) @
           [(case query of Query_Web_Search _ \<Rightarrow> 2 | _ \<Rightarrow> 9, Bytes approved)]) \<and>
         read_fields approved = Some [(1, Bytes [])])"
    using answer [of _ 2] answer [of _ 9] by (cases query) (auto simp: build_interaction_response_approved_def)
qed

theorem wire_messages_roundtrip_witness:
  "\<exists>hex inner. read_fields (encode_bidi_append_request [1, 255] [97] 5) = Some [(1, Bytes hex), (2, Bytes inner), (3, Number 5)] \<and>
    hex_decode hex = [1, 255] \<and> read_fields inner = Some [(1, Bytes [97])]"
  using wire_messages_roundtrip [where payload = "[1, 255]" and request_id = "[97]" and seq = 5 and query = Query_Other] by simp

subsection \<open>Frames arrive whole, however the body is cut\<close>

definition connect_frame :: "byte \<times> byte list \<Rightarrow> byte list" where
  "connect_frame = (\<lambda>(flags, payload). flags # big_endian (length payload) @ payload)"

definition is_trailer_flag :: "byte \<Rightarrow> bool" where
  "is_trailer_flag flags \<longleftrightarrow> flags AND 0x80 \<noteq> 0 \<or> flags AND 0x02 \<noteq> 0"

text \<open>The frames handled one by one, up to the one at which the reader returns.\<close>

fun deliver :: "sse_options \<Rightarrow> (byte list \<times> bool) list \<Rightarrow> reading \<Rightarrow> reading" where
  "deliver o' [] r = r"
| "deliver o' (f # fs) r = (let r = handle_frame o' f r in if rd_returned r then r else deliver o' fs r)"

lemma big_endian_back: "n < 2 ^ 32 \<Longrightarrow> of_big_endian (big_endian n) = n"
proof -
  assume n: "n < 2 ^ 32"
  have "unat (of_nat k :: byte) = k mod 256" for k by (simp add: unsigned_of_nat take_bit_eq_mod)
  then have "of_big_endian (big_endian n) = ((n div 256 div 256 div 256 mod 256 * 256 + n div 256 div 256 mod 256) * 256 + n div 256 mod 256) * 256 + n mod 256"
    by (simp add: big_endian_def numeral_3_eq_3 numeral_2_eq_2 div_mult2_eq [symmetric] mult.commute)
  also have "n div 256 div 256 div 256 mod 256 = n div 256 div 256 div 256"
    using n by (simp add: div_mult2_eq [symmetric] less_mult_imp_div_less)
  finally show ?thesis by (metis div_mult_mod_eq)
qed

lemma split_frame:
  "length p < 2 ^ 32 \<Longrightarrow> split_connect_frame (connect_frame (flags, p) @ rest) = Some (p, is_trailer_flag flags, rest)"
  using big_endian_back [of "length p"]
  by (simp add: split_connect_frame_def connect_frame_def is_trailer_flag_def big_endian_def Let_def)

lemma split_append:
  "split_connect_frame buf = Some (p, t, rest) \<Longrightarrow> split_connect_frame (buf @ more') = Some (p, t, rest @ more')"
  by (cases buf) (auto simp: split_connect_frame_def Let_def split: if_splits)

text \<open>Handling a frame does not look at the buffer.\<close>

lemma set_deadline_buf: "set_deadline d (r\<lparr>rd_buf := b\<rparr>) = (set_deadline d r)\<lparr>rd_buf := b\<rparr>"
  by (simp add: set_deadline_def)

lemma arm_buf: "arm_server_tool_timeout o' (r\<lparr>rd_buf := b\<rparr>) = (arm_server_tool_timeout o' r)\<lparr>rd_buf := b\<rparr>"
  by (simp add: arm_server_tool_timeout_def)

lemma watch_turn_end_buf: "watch_turn_end o' m (r\<lparr>rd_buf := b\<rparr>) = (watch_turn_end o' m r)\<lparr>rd_buf := b\<rparr>"
  by (simp add: watch_turn_end_def Let_def set_deadline_def)

lemma watch_tool_call_buf: "watch_tool_call o' m (r\<lparr>rd_buf := b\<rparr>) = (watch_tool_call o' m r)\<lparr>rd_buf := b\<rparr>"
  by (cases "so_keep_server_tools o' \<and> is_server_web_tool_call m") (auto simp: watch_tool_call_def set_deadline_buf arm_buf)

lemma approve_buf:
  "approve_interaction o' q m (r\<lparr>rd_buf := b\<rparr>) = map_prod id (rd_buf_update (\<lambda>_. b)) (approve_interaction o' q m r)"
  by (cases m) (simp_all add: approve_interaction_def Let_def)

lemma handle_query_buf: "handle_query o' q m (r\<lparr>rd_buf := b\<rparr>) = map_prod id (rd_buf_update (\<lambda>_. b)) (handle_query o' q m r)"
  by (cases "approve_interaction o' q m r"; cases "fst (approve_interaction o' q m r)")
    (simp_all add: handle_query_def approve_buf set_deadline_buf arm_buf)

lemma put_event_buf: "put_event e (r\<lparr>rd_buf := b\<rparr>) = (put_event e r)\<lparr>rd_buf := b\<rparr>"
  by (simp add: put_event_def)

lemma handle_frame_buf: "handle_frame o' f (r\<lparr>rd_buf := b\<rparr>) = (handle_frame o' f r)\<lparr>rd_buf := b\<rparr>"
proof (cases f)
  case (Pair payload trailer)
  show ?thesis
  proof (cases "so_message o' payload")
    case None
    then show ?thesis by (simp add: Pair handle_frame_def put_event_def)
  next
    case (Some mq)
    obtain m q where mq: "mq = (m, q)" by (cases mq)
    obtain e r' where h: "handle_query o' q m r = (e, r')" by (cases "handle_query o' q m r")
    show ?thesis using Some h
      by (cases e) (simp_all add: Pair mq handle_frame_def handle_query_buf put_event_def watch_turn_end_buf watch_tool_call_buf)
  qed
qed

definition core :: "reading \<Rightarrow> reading" where
  "core r = r\<lparr>rd_buf := []\<rparr>"

lemma read_frames_append:
  "\<not> rd_returned r \<Longrightarrow>
   (if rd_returned (read_frames o' r) then core (read_frames o' (r\<lparr>rd_buf := rd_buf r @ b\<rparr>)) = core (read_frames o' r)
    else read_frames o' ((read_frames o' r)\<lparr>rd_buf := rd_buf (read_frames o' r) @ b\<rparr>) = read_frames o' (r\<lparr>rd_buf := rd_buf r @ b\<rparr>))"
proof (induction o' r rule: read_frames.induct)
  case (1 o' r)
  show ?case
  proof (cases "split_connect_frame (rd_buf r)")
    case None
    then have "read_frames o' r = r" by (simp add: read_frames.simps [of o' r])
    then show ?thesis using 1(2) by simp
  next
    case (Some ptr)
    obtain p t rest where ptr: "ptr = (p, t, rest)" by (cases ptr)
    let ?r = "handle_frame o' (p, t) (r\<lparr>rd_buf := rest\<rparr>)"
    have whole: "read_frames o' (r\<lparr>rd_buf := rd_buf r @ b\<rparr>) =
        (if rd_returned ?r then ?r\<lparr>rd_buf := rest @ b\<rparr> else read_frames o' (?r\<lparr>rd_buf := rest @ b\<rparr>))"
      using split_append [of "rd_buf r" p t rest b] Some ptr
      by (simp add: read_frames.simps [of o' "r\<lparr>rd_buf := rd_buf r @ b\<rparr>"] handle_frame_buf Let_def)
    have part: "read_frames o' r = (if rd_returned ?r then ?r else read_frames o' ?r)"
      using Some ptr by (simp add: read_frames.simps [of o' r] Let_def)
    show ?thesis
    proof (cases "rd_returned ?r")
      case True
      then show ?thesis by (simp add: whole part core_def)
    next
      case False
      have "rd_buf ?r = rest" by (simp add: handle_frame_buf)
      with 1(1) [OF Some ptr [symmetric] refl refl False False] False show ?thesis by (auto simp: whole part ptr)
    qed
  qed
qed

lemma read_chunks:
  "\<not> rd_returned r \<Longrightarrow> split_connect_frame (rd_buf r) = None \<Longrightarrow>
     core (fold (read_chunk o') chunks r) = core (read_frames o' (r\<lparr>rd_buf := rd_buf r @ concat chunks\<rparr>))"
proof (induction chunks arbitrary: r)
  case Nil
  then show ?case by (simp add: read_frames.simps [of o' r])
next
  case (Cons c chunks)
  let ?r = "r\<lparr>rd_buf := rd_buf r @ c\<rparr>"
  have first: "fold (read_chunk o') (c # chunks) r = fold (read_chunk o') chunks (read_frames o' ?r)"
    using Cons.prems(1) by (simp add: read_chunk_def)
  have returned: "fold (read_chunk o') cs q = q" if "rd_returned q" for cs q
    using that by (induction cs) (simp_all add: read_chunk_def)
  have stuck: "split_connect_frame (rd_buf (read_frames o' q)) = None" if "\<not> rd_returned (read_frames o' q)" for q
    using that
  proof (induction o' q rule: read_frames.induct)
    case (1 o' q)
    then show ?case by (subst read_frames.simps) (auto simp: read_frames.simps [of o' q] Let_def split: option.splits prod.splits if_splits)
  qed
  note app = read_frames_append [of ?r o' "concat chunks"]
  show ?case
  proof (cases "rd_returned (read_frames o' ?r)")
    case True
    then show ?thesis using app Cons.prems(1) by (simp only: first returned) simp
  next
    case False
    then show ?thesis using app Cons.prems(1) Cons.IH [OF False stuck [OF False]] by (simp only: first) simp
  qed
qed

lemma read_frames_deliver:
  "\<not> rd_returned r \<Longrightarrow> list_all (\<lambda>f. length (snd f) < 2 ^ 32) fs \<Longrightarrow> split_connect_frame tail = None \<Longrightarrow>
     core (read_frames o' (r\<lparr>rd_buf := concat (map connect_frame fs) @ tail\<rparr>)) =
     core (deliver o' (map (\<lambda>(flags, p). (p, is_trailer_flag flags)) fs) r)"
proof (induction fs arbitrary: r)
  case Nil
  then show ?case by (simp add: read_frames.simps [of o' "r\<lparr>rd_buf := tail\<rparr>"] core_def)
next
  case (Cons f fs)
  obtain flags p where f: "f = (flags, p)" by (cases f)
  let ?rest = "concat (map connect_frame fs) @ tail"
  let ?r = "handle_frame o' (p, is_trailer_flag flags) r"
  have "read_frames o' (r\<lparr>rd_buf := concat (map connect_frame (f # fs)) @ tail\<rparr>) =
      (if rd_returned ?r then ?r\<lparr>rd_buf := ?rest\<rparr> else read_frames o' (?r\<lparr>rd_buf := ?rest\<rparr>))"
    using split_frame [of p flags ?rest] Cons.prems(2) f
    by (simp add: read_frames.simps [of o' "r\<lparr>rd_buf := _ @ _\<rparr>"] handle_frame_buf Let_def)
  then show ?case using Cons.IH [of ?r] Cons.prems f by (auto simp: Let_def core_def)
qed

lemma deliver_trailer_last:
  "list_all (\<lambda>e. \<not> se_trailer e) (rd_events r) \<Longrightarrow> list_all (\<lambda>e. \<not> se_trailer e) (butlast (rd_events (deliver o' fs r)))"
proof (induction fs arbitrary: r)
  case (Cons f fs)
  obtain payload trailer where f: "f = (payload, trailer)" by (cases f)
  obtain e where e: "rd_events (handle_frame o' f r) = rd_events r @ [e]" "\<not> rd_returned (handle_frame o' f r) \<Longrightarrow> \<not> se_trailer e"
  proof (cases "so_message o' payload")
    case (Some mq)
    obtain m q where mq: "mq = (m, q)" by (cases mq)
    obtain x r' where h: "handle_query o' q m r = (x, r')" by (cases "handle_query o' q m r")
    then have "rd_events r' = rd_events r" using handle_query_fields(3) [of o' q m r] by simp
    then show ?thesis using that Some h by (cases trailer; cases x) (auto simp: f mq handle_frame_def)
  qed (use that in \<open>cases trailer; auto simp: f handle_frame_def\<close>)
  show ?case
  proof (cases "rd_returned (handle_frame o' f r)")
    case True
    then show ?thesis using Cons.prems e(1) by (simp add: Let_def)
  next
    case False
    then show ?thesis using Cons.IH [of "handle_frame o' f r"] Cons.prems e by (simp add: Let_def)
  qed
qed (auto simp: list_all_iff dest: in_set_butlastD)

text \<open>
  C15: The reader sees the frames the service sent, however the network cuts them. For any frames shorter
  than \<open>2 ^ 32\<close> bytes, followed by an incomplete one, and any chunks that add up to these bytes, the
  reader does what it does on the frames one by one: the same events, approvals and timers. It
  returns at the first trailer, so that no event but the last is one.
\<close>

theorem sse_frames_delivered:
  assumes "list_all (\<lambda>f. length (snd f) < 2 ^ 32) fs" "split_connect_frame tail = None"
    and "concat chunks = concat (map connect_frame fs) @ tail"
  shows "core (read_sse_stream o' chunks) = core (deliver o' (map (\<lambda>(flags, p). (p, is_trailer_flag flags)) fs) new_reading) \<and>
    list_all (\<lambda>e. \<not> se_trailer e) (butlast (rd_events (read_sse_stream o' chunks)))"
proof -
  have "split_connect_frame (rd_buf new_reading) = None" "\<not> rd_returned new_reading" "rd_buf new_reading = []"
    by (simp_all add: new_reading_def split_connect_frame_def)
  then have "core (read_sse_stream o' chunks) = core (read_frames o' (new_reading\<lparr>rd_buf := concat chunks\<rparr>))"
    using read_chunks [of new_reading o' chunks] by (simp add: read_sse_stream_def)
  also have "\<dots> = core (deliver o' (map (\<lambda>(flags, p). (p, is_trailer_flag flags)) fs) new_reading)"
    using read_frames_deliver [OF _ assms(1,2), of new_reading o'] \<open>\<not> rd_returned new_reading\<close> by (simp add: assms(3))
  finally have c: "core (read_sse_stream o' chunks) = core (deliver o' (map (\<lambda>(flags, p). (p, is_trailer_flag flags)) fs) new_reading)" .
  have "rd_events (core q) = rd_events q" for q by (simp add: core_def)
  then have "rd_events (read_sse_stream o' chunks) = rd_events (deliver o' (map (\<lambda>(flags, p). (p, is_trailer_flag flags)) fs) new_reading)"
    by (metis c)
  then show ?thesis using c deliver_trailer_last [of new_reading o'] by (simp add: new_reading_def)
qed

definition plain_options :: sse_options where
  "plain_options = \<lparr>so_stop_on_turn_end = True, so_stop_on_tool_call = False, so_keep_server_tools = True,
     so_status = (\<lambda>_. None), so_message = (\<lambda>b. Some (Msg_Other, 0)), so_server_tool_wait = 0, so_append_error = (\<lambda>_. None)\<rparr>"

theorem sse_frames_delivered_witness:
  "map se_trailer (rd_events (read_sse_stream plain_options [[0, 0, 0], [0, 1, 7, 0x80, 0], [0, 0, 0, 0, 0]])) = [False, True]"
proof -
  let ?fs = "[(0, [7]), (0x80, [])] :: (byte \<times> byte list) list" and ?chunks = "[[0, 0, 0], [0, 1, 7, 0x80, 0], [0, 0, 0, 0, 0]] :: byte list list"
  have "concat ?chunks = concat (map connect_frame ?fs) @ [0, 0]" "split_connect_frame [0, 0] = None"
    by (simp_all add: connect_frame_def big_endian_def split_connect_frame_def)
  then have "core (read_sse_stream plain_options ?chunks) = core (deliver plain_options (map (\<lambda>(flags, p). (p, is_trailer_flag flags)) ?fs) new_reading)"
    using sse_frames_delivered [of ?fs "[0, 0]" ?chunks plain_options] by simp
  from arg_cong [OF this, of rd_events] have "rd_events (read_sse_stream plain_options ?chunks) =
      rd_events (deliver plain_options (map (\<lambda>(flags, p). (p, is_trailer_flag flags)) ?fs) new_reading)"
    by (simp add: core_def)
  then show ?thesis
    by (simp add: is_trailer_flag_def handle_frame_def plain_options_def new_reading_def put_event_def handle_query_def
        is_web_query_def watch_turn_end_def watch_tool_call_def is_turn_end_def sniff_assistant_blob_def
        is_server_web_tool_call_def starts_tool_call_def)
qed

subsection \<open>Where the reader does not do what it says\<close>

text \<open>
  Both signs of a finished turn close the stream after the grace of a second, but only if the blob comes
  first: after the end of the turn the longer window is set, and a timer is set once.
\<close>

lemma late_blob_waits:
  assumes "so_stop_on_turn_end o'" "rd_deadline r = None" "\<not> rd_saw_assistant r" "\<not> rd_turn_ended r"
    and "sniff_assistant_blob blob" "is_turn_end fin"
  shows "rd_deadline (watch_turn_end o' blob (watch_turn_end o' fin r)) = Some 10000"
    and "rd_deadline (watch_turn_end o' fin (watch_turn_end o' blob r)) = Some 1000"
proof -
  have "\<not> sniff_assistant_blob fin" "\<not> is_turn_end blob"
    using assms(5,6) by (auto simp: sniff_assistant_blob_def is_turn_end_def split: server_message.splits interaction_update.splits)
  then show "rd_deadline (watch_turn_end o' blob (watch_turn_end o' fin r)) = Some 10000"
    "rd_deadline (watch_turn_end o' fin (watch_turn_end o' blob r)) = Some 1000"
    using assms by (simp_all add: watch_turn_end_def set_deadline_def heartbeat_deadline_def post_assistant_grace_def)
qed

text \<open>
  If the approval of a web query cannot be sent, the stream ends with the error as the status of the
  query's own event, which is not a trailer, so that a handler sees the query and then the end.
\<close>

lemma approval_error_hidden:
  assumes "so_keep_server_tools o'" "so_message o' payload = Some (m, qid)" "m = Msg_Query (Query_Web_Search a)"
    and "so_append_error o' (length (rd_sent r)) = Some e"
  shows "\<exists>ev. rd_events (handle_frame o' (payload, False) r) = rd_events r @ [ev] \<and> se_status ev \<noteq> None \<and>
    chat_event_of ev = Server_Event (Some m) \<and> rd_returned (handle_frame o' (payload, False) r)"
proof -
  have "build_interaction_response_approved qid (Query_Web_Search a) \<noteq> []"
    by (simp add: build_interaction_response_approved_def appended_fields bytes_field_def)
  then show ?thesis using assms
    by (simp add: handle_frame_def handle_query_def is_web_query_def approve_interaction_def Let_def chat_event_of_def)
qed

end
