(* ===== verification/Introspection.thy ===== *)
theory Introspection
  imports RequestCommon "HOL-Library.Product_Lexorder"
begin

text \<open>
  What the proxy remembers of the tools its clients declared: the ring buffer of
  \<^verbatim>\<open>cmd/cursor-proxy/introspect.go\<close> and the reports over it in \<^verbatim>\<open>observability.go\<close>. Times are
  nanoseconds. The locale \<open>recent_log\<close> is what the reports need of the buffer: a list of the newest
  observations. \<^verbatim>\<open>time.ParseDuration\<close> is an argument.
\<close>

subsection \<open>Observations\<close>

datatype tool_kind = Kind_Custom | Kind_MCP

record observation =
  ob_name :: string
  ob_kind :: tool_kind
  ob_server :: string
  ob_seen_at :: int

definition classify_tool :: "string \<Rightarrow> tool_kind \<times> string" where
  "classify_tool name =
     (if has_prefix name ''mcp__'' then
        (let rest = drop 5 name in
         case index_str rest ''__'' of
           Some i \<Rightarrow> if i > 0 then (Kind_MCP, take i rest) else (Kind_MCP, rest)
         | None \<Rightarrow> (Kind_MCP, rest))
      else if has_prefix name ''mcp_'' then
        (let rest = drop 4 name in
         case index_str rest ''_'' of
           Some i \<Rightarrow> if i > 0 \<and> \<not> list_ex (\<lambda>c. c \<in> {CHR ''.'', CHR ''/'', CHR 0x5C}) (take i rest)
             then (Kind_MCP, take i rest) else (Kind_Custom, [])
         | None \<Rightarrow> (Kind_Custom, []))
      else (Kind_Custom, []))"

definition observe :: "int \<Rightarrow> string \<Rightarrow> observation" where
  "observe t name = (case classify_tool name of (k, server) \<Rightarrow>
     \<lparr>ob_name = name, ob_kind = k, ob_server = server, ob_seen_at = t\<rparr>)"

subsection \<open>The ring buffer\<close>

record tool_ring =
  rg_buf :: "observation list"
  rg_head :: nat
  rg_full :: bool

definition zero_observation :: observation where
  "zero_observation = \<lparr>ob_name = [], ob_kind = Kind_Custom, ob_server = [], ob_seen_at = 0\<rparr>"

definition new_tool_ring :: "int \<Rightarrow> tool_ring" where
  "new_tool_ring n = \<lparr>rg_buf = replicate (if n \<le> 0 then 4096 else nat n) zero_observation, rg_head = 0, rg_full = False\<rparr>"

definition ring_put :: "observation \<Rightarrow> tool_ring \<Rightarrow> tool_ring" where
  "ring_put ob r =
     (let buf = (rg_buf r)[rg_head r := ob]; head = rg_head r + 1 in
      if head \<ge> length buf then \<lparr>rg_buf = buf, rg_head = 0, rg_full = True\<rparr>
      else \<lparr>rg_buf = buf, rg_head = head, rg_full = rg_full r\<rparr>)"

definition record_tools :: "string list \<Rightarrow> int \<Rightarrow> tool_ring \<Rightarrow> tool_ring" where
  "record_tools names at_time r =
     (if names = [] then r
      else fold (\<lambda>n r. let n = trim_space n in if n = [] then r else ring_put (observe at_time n) r) names r)"

text \<open>The walk from the newest entry back, over \<open>count\<close> entries at most.\<close>

fun walk_back :: "int \<Rightarrow> observation list \<Rightarrow> nat \<Rightarrow> int \<Rightarrow> observation list" where
  "walk_back cutoff buf 0 i = []"
| "walk_back cutoff buf (Suc count) i =
     (let ob = buf ! nat i in
      if ob_seen_at ob < cutoff then []
      else ob # walk_back cutoff buf count (if i - 1 < 0 then i - 1 + int (length buf) else i - 1))"

definition snapshot_since :: "int \<Rightarrow> tool_ring \<Rightarrow> observation list" where
  "snapshot_since cutoff r =
     (let n = length (rg_buf r); start = int (rg_head r) - 1 in
      walk_back cutoff (rg_buf r) (if rg_full r then n else rg_head r) (if start < 0 then start + int n else start))"

subsection \<open>Reports\<close>

definition parse_since :: "(string \<Rightarrow> int option) \<Rightarrow> (string \<Rightarrow> int option) \<Rightarrow> string \<Rightarrow> int \<Rightarrow> int" where
  "parse_since parse_duration read_int raw otherwise =
     (let raw = trim_space raw in
      if raw = [] then otherwise
      else case parse_duration raw of
        Some d \<Rightarrow> if d > 0 then d else
          (case read_int raw of Some n \<Rightarrow> if n > 0 then i64 (n * 1000000000) else otherwise | None \<Rightarrow> otherwise)
      | None \<Rightarrow> (case read_int raw of Some n \<Rightarrow> if n > 0 then i64 (n * 1000000000) else otherwise | None \<Rightarrow> otherwise))"

record recent_tool =
  rt_name :: string
  rt_requests :: nat
  rt_kind :: tool_kind
  rt_server :: string

definition count_tool :: "observation \<Rightarrow> recent_tool list \<Rightarrow> recent_tool list" where
  "count_tool ob ts =
     (if list_ex (\<lambda>t. rt_name t = ob_name ob) ts
      then map (\<lambda>t. if rt_name t = ob_name ob then t\<lparr>rt_requests := rt_requests t + 1\<rparr> else t) ts
      else ts @ [\<lparr>rt_name = ob_name ob, rt_requests = 1, rt_kind = ob_kind ob, rt_server = ob_server ob\<rparr>])"

definition recent_tools :: "observation list \<Rightarrow> recent_tool list" where
  "recent_tools obs = sort_key (\<lambda>t. (- int (rt_requests t), rt_name t)) (fold count_tool obs [])"

record recent_server =
  rs_server :: string
  rs_requests :: nat
  rs_tool_names :: "string list"

definition count_server :: "observation \<Rightarrow> recent_server list \<Rightarrow> recent_server list" where
  "count_server ob ss =
     (if ob_kind ob \<noteq> Kind_MCP \<or> ob_server ob = [] then ss
      else if list_ex (\<lambda>s. rs_server s = ob_server ob) ss
      then map (\<lambda>s. if rs_server s = ob_server ob
        then s\<lparr>rs_requests := rs_requests s + 1, rs_tool_names := List.insert (ob_name ob) (rs_tool_names s)\<rparr> else s) ss
      else ss @ [\<lparr>rs_server = ob_server ob, rs_requests = 1, rs_tool_names = [ob_name ob]\<rparr>])"

definition recent_servers :: "observation list \<Rightarrow> recent_server list" where
  "recent_servers obs = sort_key (\<lambda>s. (- int (rs_requests s), rs_server s))
     (map (\<lambda>s. s\<lparr>rs_tool_names := sort (rs_tool_names s)\<rparr>) (fold count_server obs []))"

text \<open>The age of the oldest observation in nanoseconds, which the report gives in seconds.\<close>

definition oldest_age :: "int \<Rightarrow> observation list \<Rightarrow> int" where
  "oldest_age now obs = (if obs = [] then 0 else now - ob_seen_at (last obs))"

subsection \<open>The buffer is a log of bounded length\<close>

lemma take_append_take: "take n (xs @ take n ys) = take n (xs @ ys)"
  by simp

locale recent_log =
  fixes entries_of :: "'r \<Rightarrow> 'a list" and put :: "'a \<Rightarrow> 'r \<Rightarrow> 'r" and sound :: "'r \<Rightarrow> bool" and room :: "'r \<Rightarrow> nat"
  assumes put_sound: "sound r \<Longrightarrow> sound (put x r)"
    and put_room: "sound r \<Longrightarrow> room (put x r) = room r"
    and put_entries: "sound r \<Longrightarrow> entries_of (put x r) = take (room r) (x # entries_of r)"
begin

lemma puts_sound: "sound r \<Longrightarrow> sound (fold put xs r) \<and> room (fold put xs r) = room r"
  by (induction xs arbitrary: r) (simp_all add: put_sound put_room)

lemma puts_entries: "sound r \<Longrightarrow> length (entries_of r) \<le> room r \<Longrightarrow> entries_of (fold put xs r) = take (room r) (rev xs @ entries_of r)"
proof (induction xs arbitrary: r)
  case (Cons x xs)
  then have "entries_of (fold put (x # xs) r) = take (room r) (rev xs @ take (room r) (x # entries_of r))"
    by (simp add: put_sound put_room put_entries)
  also have "\<dots> = take (room r) (rev xs @ x # entries_of r)"
    by (rule take_append_take)
  finally show ?case by simp
qed simp

end

definition ring_sound :: "tool_ring \<Rightarrow> bool" where
  "ring_sound r \<longleftrightarrow> rg_head r < length (rg_buf r)"

definition ring_count :: "tool_ring \<Rightarrow> nat" where
  "ring_count r = (if rg_full r then length (rg_buf r) else rg_head r)"

definition ring_entries :: "tool_ring \<Rightarrow> observation list" where
  "ring_entries r = map (\<lambda>i. rg_buf r ! ((rg_head r + length (rg_buf r) - 1 - i) mod length (rg_buf r))) [0..<ring_count r]"

lemma length_ring_put [simp]: "length (rg_buf (ring_put x r)) = length (rg_buf r)"
  by (simp add: ring_put_def Let_def)

lemma ring_put_sound: "ring_sound r \<Longrightarrow> ring_sound (ring_put x r)"
  by (auto simp: ring_sound_def ring_put_def Let_def simp flip: length_greater_0_conv)

lemma back_index:
  fixes h n i :: nat
  assumes "h < n" "i < n"
  shows "(h + n - 1 - i) mod n = (if i < h then h - 1 - i else h + n - 1 - i)"
proof (cases "i < h")
  case True
  then have e: "h + n - 1 - i = (h - 1 - i) + n" using assms by arith
  have "(h + n - 1 - i) mod n = (h - 1 - i) mod n" unfolding e by simp
  then show ?thesis using True assms by simp
qed (use assms in simp)

lemma ring_put_entries:
  assumes "ring_sound r"
  shows "ring_entries (ring_put x r) = take (length (rg_buf r)) (x # ring_entries r)"
proof (rule nth_equalityI)
  let ?n = "length (rg_buf r)" and ?h = "rg_head r"
  have h: "?h < ?n" using assms by (simp add: ring_sound_def)
  show len: "length (ring_entries (ring_put x r)) = length (take ?n (x # ring_entries r))"
    using h by (auto simp: ring_entries_def ring_count_def ring_put_def Let_def)
  fix i assume "i < length (ring_entries (ring_put x r))"
  then have i: "i < ring_count (ring_put x r)" "i < ?n" "i < Suc (ring_count r)"
    using len by (auto simp: ring_entries_def)
  let ?h' = "if ?h + 1 \<ge> ?n then 0 else ?h + 1"
  have head: "rg_head (ring_put x r) = ?h'" "rg_buf (ring_put x r) = (rg_buf r)[?h := x]"
    by (simp_all add: ring_put_def Let_def)
  have new: "ring_entries (ring_put x r) ! i = (rg_buf r)[?h := x] ! ((?h' + ?n - 1 - i) mod ?n)"
    using i(1) by (simp add: ring_entries_def head)
  show "ring_entries (ring_put x r) ! i = take ?n (x # ring_entries r) ! i"
  proof (cases i)
    case 0
    have "(?h' + ?n - 1 - i) mod ?n = ?h" using h 0 by auto
    then have "ring_entries (ring_put x r) ! i = (rg_buf r)[?h := x] ! ?h" by (simp only: new)
    then show ?thesis using h 0 i(2) by simp
  next
    case (Suc j)
    have j: "j < ?n" using i(2) Suc by simp
    have same: "(?h' + ?n - 1 - i) mod ?n = (?h + ?n - 1 - j) mod ?n"
    proof (cases "?h + 1 \<ge> ?n")
      case True
      then have "?h' = 0" "?h = ?n - 1" using h by simp_all
      then show ?thesis using Suc i(2) back_index [OF h j] by auto
    next
      case False
      then show ?thesis using Suc i(2) by simp
    qed
    have "(?h + ?n - 1 - j) mod ?n \<noteq> ?h" using back_index [OF h j] Suc i(2) h by auto
    then have "(rg_buf r)[?h := x] ! ((?h + ?n - 1 - j) mod ?n) = rg_buf r ! ((?h + ?n - 1 - j) mod ?n)" by simp
    then have "ring_entries (ring_put x r) ! i = rg_buf r ! ((?h + ?n - 1 - j) mod ?n)" by (simp only: new same)
    then show ?thesis using i(3) Suc i(2) by (simp add: ring_entries_def)
  qed
qed

interpretation log: recent_log ring_entries ring_put ring_sound "\<lambda>r. length (rg_buf r)"
  by unfold_locales (simp_all add: ring_put_sound ring_put_entries)

lemma record_tools_puts:
  "record_tools names t r = fold ring_put (map (observe t) (filter (\<lambda>n. n \<noteq> []) (map trim_space names))) r"
proof -
  have "fold (\<lambda>n r. let n = trim_space n in if n = [] then r else ring_put (observe t n) r) names r =
      fold ring_put (map (observe t) (filter (\<lambda>n. n \<noteq> []) (map trim_space names))) r"
    by (induction names arbitrary: r) (simp_all add: Let_def)
  then show ?thesis by (simp add: record_tools_def)
qed

lemma walk_back_eq:
  assumes "0 < length buf" "i < length buf" "count \<le> length buf"
  shows "walk_back cutoff buf count (int i) =
    takeWhile (\<lambda>ob. cutoff \<le> ob_seen_at ob) (map (\<lambda>j. buf ! ((i + length buf - j) mod length buf)) [0..<count])"
  using assms(2,3)
proof (induction count arbitrary: i)
  case (Suc count)
  let ?n = "length buf"
  define i' where "i' = (if i = 0 then ?n - 1 else i - 1)"
  have next_int: "(if int i - 1 < 0 then int i - 1 + int ?n else int i - 1) = int i'"
    using assms(1) by (cases "i = 0") (auto simp: i'_def of_nat_diff Suc_le_eq)
  have i': "i' < ?n" using Suc.prems(1) by (auto simp: i'_def)
  have "map (\<lambda>j. buf ! ((i + ?n - j) mod ?n)) [0..<Suc count] = buf ! i # map (\<lambda>j. buf ! ((i' + ?n - j) mod ?n)) [0..<count]"
  proof -
    have "(i + ?n - Suc j) mod ?n = (i' + ?n - j) mod ?n" if "j < count" for j
    proof (cases "i = 0")
      case True
      have "i' + ?n - j = (?n - Suc j) + ?n" using True that Suc.prems(2) by (simp add: i'_def)
      then show ?thesis using True by simp
    next
      case False
      then have "i + ?n - Suc j = i' + ?n - j" by (simp add: i'_def)
      then show ?thesis by simp
    qed
    then show ?thesis using Suc.prems(1) by (simp add: upt_conv_Cons map_Suc_upt [symmetric] del: upt_Suc)
  qed
  moreover have "walk_back cutoff buf (Suc count) (int i) =
      (if ob_seen_at (buf ! i) < cutoff then [] else buf ! i # walk_back cutoff buf count (int i'))"
    by (simp only: walk_back.simps Let_def nat_int next_int)
  ultimately show ?case using Suc.IH [OF i'] Suc.prems by (simp del: upt_Suc walk_back.simps)
qed simp

lemma snapshot_entries:
  assumes "ring_sound r"
  shows "snapshot_since cutoff r = takeWhile (\<lambda>ob. cutoff \<le> ob_seen_at ob) (ring_entries r)"
proof -
  let ?n = "length (rg_buf r)" and ?h = "rg_head r"
  have h: "?h < ?n" using assms by (simp add: ring_sound_def)
  define i where "i = (if ?h = 0 then ?n - 1 else ?h - 1)"
  have start: "(if int ?h - 1 < 0 then int ?h - 1 + int ?n else int ?h - 1) = int i"
    using h by (cases "?h = 0") (auto simp: i_def of_nat_diff Suc_le_eq)
  have i: "i < ?n" using h by (auto simp: i_def)
  have "(i + ?n - j) mod ?n = (?h + ?n - 1 - j) mod ?n" if "j < ring_count r" for j
  proof (cases "?h = 0")
    case True
    have "j < ?n" using that h by (auto simp: ring_count_def split: if_splits)
    then have "i + ?n - j = (?n - 1 - j) + ?n" using True by (simp add: i_def)
    then show ?thesis using True by simp
  qed (simp add: i_def)
  then have "map (\<lambda>j. rg_buf r ! ((i + ?n - j) mod ?n)) [0..<ring_count r] = ring_entries r"
    by (simp add: ring_entries_def)
  moreover have "ring_count r \<le> ?n" using h by (simp add: ring_count_def)
  ultimately show ?thesis using walk_back_eq [OF _ i, of "ring_count r" cutoff] h
    by (simp only: snapshot_since_def Let_def start ring_count_def [symmetric])
qed

definition batch_log :: "(string list \<times> int) list \<Rightarrow> observation list" where
  "batch_log bs = concat (map (\<lambda>(names, t). map (observe t) (filter (\<lambda>n. n \<noteq> []) (map trim_space names))) bs)"

lemma batches_puts:
  "fold (\<lambda>(names, t). record_tools names t) bs r = fold ring_put (batch_log bs) r"
  by (induction bs arbitrary: r) (auto simp: batch_log_def record_tools_puts)

text \<open>
  C30: The ring buffer is the list of the newest observations. After any requests recorded into a new
  buffer, a snapshot is, from the newest back, the stretch of observations no older than the cutoff,
  among the last ones that the buffer has room for: one for each name that is not blank, trimmed and
  classified.
\<close>

theorem snapshot_is_recent_log:
  "snapshot_since cutoff (fold (\<lambda>(names, t). record_tools names t) bs (new_tool_ring n)) =
     takeWhile (\<lambda>ob. cutoff \<le> ob_seen_at ob) (take (if n \<le> 0 then 4096 else nat n) (rev (batch_log bs)))"
proof -
  have new: "ring_sound (new_tool_ring n)" "ring_entries (new_tool_ring n) = []"
      "length (rg_buf (new_tool_ring n)) = (if n \<le> 0 then 4096 else nat n)"
    by (simp_all add: ring_sound_def new_tool_ring_def ring_entries_def ring_count_def)
  then show ?thesis
    using log.puts_sound [OF new(1), of "batch_log bs"] log.puts_entries [OF new(1), of "batch_log bs"]
    by (simp add: batches_puts snapshot_entries)
qed

end
