(* ===== verification/ChatBuild.thy ===== *)
theory ChatBuild
  imports SystemPrompt Attachments ModelCatalog Platform
begin

text \<open>
  \<^verbatim>\<open>executor/chat_build.go\<close> and \<^verbatim>\<open>prepareChatRequest\<close> of \<^verbatim>\<open>executor/chat.go\<close>: the agent run request that is
  built for a chat request. A protobuf message that only wraps others is left out, so that the
  request is one record with the fields the code sets. Random ids are arguments: \<open>fresh n\<close> is the
  \<open>n\<close>-th id drawn for the history. The pointers to tool calls that \<^verbatim>\<open>fillEmptyHistoryToolIDs\<close> keeps are
  places, a message and a part of it.
\<close>

subsection \<open>History messages\<close>

datatype history_part = Text_Part string | Call_Part string string string

datatype history_message =
    User_Message string
  | Assistant_Message "history_part list"
  | Tool_Message string string bool string

definition flush_user :: "string \<Rightarrow> history_message list" where
  "flush_user t = (if t = [] then [] else [User_Message t])"

fun user_messages :: "content_fragment list \<Rightarrow> string \<Rightarrow> history_message list" where
  "user_messages [] t = flush_user t"
| "user_messages (f # fs) t =
     (if fr_kind f = ''tool_result''
      then flush_user t @ Tool_Message (fr_tool_id f) (fr_tool_name f) (fr_is_error f)
             (if fr_result f = [] then fr_text f else fr_result f) # user_messages fs []
      else user_messages fs (add_line t (transcript f)))"

definition conversation_history_from_user :: "(string \<Rightarrow> string option) \<Rightarrow> string \<Rightarrow> history_message list" where
  "conversation_history_from_user ft content =
     (let fs = parse_content_fragments ft content in
      if fs = [] then [User_Message content] else user_messages fs [])"

definition assistant_part :: "content_fragment \<Rightarrow> history_part option" where
  "assistant_part f =
     (if fr_kind f = ''tool_use'' then Some (Call_Part (fr_tool_id f) (fr_tool_name f) (fr_args_json f))
      else if fr_text f = [] then None else Some (Text_Part (fr_text f)))"

definition conversation_history_from_assistant :: "(string \<Rightarrow> string option) \<Rightarrow> string \<Rightarrow> history_message" where
  "conversation_history_from_assistant ft content =
     (let fs = parse_content_fragments ft content in
      if fs = [] then Assistant_Message [Text_Part content]
      else let parts = List.map_filter assistant_part fs in
        if parts = [] then Assistant_Message [Text_Part content] else Assistant_Message parts)"

subsection \<open>Ids for calls that came without one\<close>

type_synonym place = "nat \<times> nat"

fun blank_call :: "history_part \<Rightarrow> bool" where
  "blank_call (Call_Part i _ _) \<longleftrightarrow> trim_space i = []"
| "blank_call (Text_Part _) \<longleftrightarrow> False"

fun part_id :: "history_part \<Rightarrow> string" where
  "part_id (Call_Part i _ _) = i"
| "part_id (Text_Part _) = []"

fun with_id :: "string \<Rightarrow> history_part \<Rightarrow> history_part" where
  "with_id i (Call_Part _ n a) = Call_Part i n a"
| "with_id i (Text_Part t) = Text_Part t"

fun message_parts :: "history_message \<Rightarrow> history_part list" where
  "message_parts (Assistant_Message ps) = ps"
| "message_parts _ = []"

fun set_parts :: "history_part list \<Rightarrow> history_message \<Rightarrow> history_message" where
  "set_parts ps (Assistant_Message _) = Assistant_Message ps"
| "set_parts _ m = m"

definition blank_calls :: "nat \<Rightarrow> history_message \<Rightarrow> place list" where
  "blank_calls i m = map (Pair i) (filter (\<lambda>q. blank_call (message_parts m ! q)) [0..<length (message_parts m)])"

definition call_id_at :: "history_message list \<Rightarrow> place \<Rightarrow> string" where
  "call_id_at ms p = part_id (message_parts (ms ! fst p) ! snd p)"

definition set_call_id :: "place \<Rightarrow> string \<Rightarrow> history_message list \<Rightarrow> history_message list" where
  "set_call_id p i ms = (let ps = message_parts (ms ! fst p) in
     ms[fst p := set_parts (ps[snd p := with_id i (ps ! snd p)]) (ms ! fst p)])"

type_synonym filling = "history_message list \<times> place list \<times> nat"

definition fill_step :: "(nat \<Rightarrow> string) \<Rightarrow> nat \<Rightarrow> filling \<Rightarrow> filling" where
  "fill_step fresh k = (\<lambda>(ms, pending, n).
     let pending = pending @ blank_calls k (ms ! k) in
     case ms ! k of
       Tool_Message tid name err t \<Rightarrow>
         (case pending of
            [] \<Rightarrow> (ms, pending, n)
          | p # rest \<Rightarrow>
              let own = trim_space (call_id_at ms p);
                  known = (if trim_space tid = [] then own else trim_space tid);
                  (i, n) = (if known = [] then (fresh n, Suc n) else (known, n));
                  ms = (if own = [] then set_call_id p i ms else ms);
                  ms = (if trim_space tid = [] then ms[k := Tool_Message i name err t] else ms)
              in (ms, rest, n))
     | _ \<Rightarrow> (ms, pending, n))"

definition fill_rest :: "(nat \<Rightarrow> string) \<Rightarrow> place \<Rightarrow> history_message list \<times> nat \<Rightarrow> history_message list \<times> nat" where
  "fill_rest fresh p = (\<lambda>(ms, n).
     if trim_space (call_id_at ms p) = [] then (set_call_id p (fresh n) ms, Suc n) else (ms, n))"

definition fill_empty_history_tool_ids :: "(nat \<Rightarrow> string) \<Rightarrow> history_message list \<Rightarrow> history_message list" where
  "fill_empty_history_tool_ids fresh ms =
     (let (ms, pending, n) = fold (fill_step fresh) [0..<length ms] (ms, [], 0)
      in fst (fold (fill_rest fresh) pending (ms, n)))"

definition turn_messages :: "(string \<Rightarrow> string option) \<Rightarrow> history_turn \<Rightarrow> history_message list" where
  "turn_messages ft t =
     (if ht_content t = [] then []
      else if ht_role t = ''user'' then conversation_history_from_user ft (ht_content t)
      else if ht_role t = ''assistant'' then [conversation_history_from_assistant ft (ht_content t)]
      else [])"

definition build_conversation_history :: "(string \<Rightarrow> string option) \<Rightarrow> (nat \<Rightarrow> string) \<Rightarrow> history_turn list \<Rightarrow>
    history_message list option" where
  "build_conversation_history ft fresh turns =
     (let ms = concat (map (turn_messages ft) turns) in
      if turns = [] \<or> ms = [] then None else Some (fill_empty_history_tool_ids fresh ms))"

definition build_prepend_user_messages :: "history_turn list \<Rightarrow> string list" where
  "build_prepend_user_messages turns =
     map (\<lambda>t. if ht_role t = ''assistant'' then ''[ASSISTANT]: '' @ ht_content t else ht_content t)
       (filter (\<lambda>t. ht_content t \<noteq> []) turns)"

subsection \<open>The agent run request\<close>

record selected_context =
  sc_images :: "(string \<times> nat list) list"
  sc_documents :: "(string \<times> string \<times> nat list) list"

definition build_selected_context :: "attachment list \<Rightarrow> selected_context option" where
  "build_selected_context as =
     (let as = filter (\<lambda>a. at_data a \<noteq> []) as;
          s = \<lparr>sc_images = map (\<lambda>a. (at_mime_type a, at_data a)) (filter (\<lambda>a. at_kind a = ''image'') as),
               sc_documents = map (\<lambda>a. (at_filename a, at_mime_type a, at_data a)) (filter (\<lambda>a. at_kind a = ''document'') as)\<rparr>
      in if sc_images s = [] \<and> sc_documents s = [] then None else Some s)"

record request_env =
  re_os_version :: string
  re_workspace_paths :: "string list"
  re_shell :: string
  re_time_zone :: string
  re_project_folder :: string

record agent_run_request =
  ar_env :: request_env
  ar_web_search :: bool
  ar_web_fetch :: bool
  ar_context_tools :: "mcp_tool_definition list"
  ar_instructions :: "mcp_instructions option"
  ar_text :: string
  ar_message_id :: string
  ar_mode :: nat
  ar_selected :: "selected_context option"
  ar_history :: "history_message list option"
  ar_prepend :: "string list"
  ar_send_to_listener :: "bool option"
  ar_conversation_id :: string
  ar_run_id :: string
  ar_model :: "string + requested_model"
  ar_harness :: string
  ar_mcp_tools :: "mcp_tool_definition list"

definition request_env_of :: "client_platform \<Rightarrow> string \<Rightarrow> chat_request \<Rightarrow> request_env" where
  "request_env_of p zone req =
     (if \<not> cr_pure_mode req
      then let w = (if cr_workspace_path req = [] then cp_workspace p else cr_workspace_path req) in
        \<lparr>re_os_version = cp_os_version p, re_workspace_paths = [w], re_shell = cp_shell p, re_time_zone = zone,
         re_project_folder = w\<rparr>
      else \<lparr>re_os_version = cp_os_version p, re_workspace_paths = [], re_shell = [], re_time_zone = zone, re_project_folder = []\<rparr>)"

text \<open>The fields that are constant, and the flags that are always true, are left out.\<close>

definition build_agent_run_request :: "(json \<Rightarrow> string + 'v) \<Rightarrow> ('v \<Rightarrow> string + string) \<Rightarrow> (string \<Rightarrow> string option) \<Rightarrow>
    (nat \<Rightarrow> string) \<Rightarrow> host \<Rightarrow> account option \<Rightarrow> chat_request \<Rightarrow> string \<Rightarrow> string \<Rightarrow> requested_model option \<Rightarrow>
    tool_error + agent_run_request" where
  "build_agent_run_request new_struct marshal ft fresh h acc req message_id run_id resolved =
     (case build_mcp_tool_definitions new_struct marshal (cr_tools req) of
        Inl e \<Rightarrow> Inl e
      | Inr defs \<Rightarrow> Inr
          \<lparr>ar_env = request_env_of (resolve_client_platform h acc) (h_timezone h) req,
           ar_web_search = cr_web_search req, ar_web_fetch = cr_web_fetch req, ar_context_tools = defs,
           ar_instructions = (if defs \<noteq> [] then build_mcp_instructions (cr_tools req) else None),
           ar_text = cr_user_message req, ar_message_id = message_id,
           ar_mode = (if cr_mode req = 0 then 1 else cr_mode req),
           ar_selected = build_selected_context (cr_attachments req),
           ar_history = (if cr_omit_history_wire req then None else build_conversation_history ft fresh (cr_history req)),
           ar_prepend = build_prepend_user_messages (cr_prepend_user_messages req),
           ar_send_to_listener = cr_send_to_listener req, ar_conversation_id = cr_conversation_id req, ar_run_id = run_id,
           ar_model = (case resolved of Some m \<Rightarrow> Inr m | None \<Rightarrow> Inl (cr_model req)),
           ar_harness = cr_harness req, ar_mcp_tools = defs\<rparr>)"

subsection \<open>Preparing a request\<close>

text \<open>
  What the preparation draws and calls: the ids of request, run, session and message, the resolution of
  the model (\<^verbatim>\<open>resolveRequestedModel\<close>), Go's \<^verbatim>\<open>%q\<close>, the text of a PDF, the test for UTF-8, and the
  decoding and encoding of images.
\<close>

record 'p chat_surroundings =
  cs_request_id :: string
  cs_run_id :: string
  cs_session_id :: string
  cs_message_id :: string
  cs_resolve :: "string \<Rightarrow> (string \<times> string) list \<Rightarrow> string + requested_model option"
  cs_quoted :: "string \<Rightarrow> string"
  cs_pdf_text :: "nat list \<Rightarrow> string option"
  cs_valid :: "string \<Rightarrow> bool"
  cs_decode_image :: "string \<Rightarrow> nat list \<Rightarrow> 'p picture option"
  cs_encode_image :: "'p picture \<Rightarrow> nat list option"

datatype prepare_error = Catalog_Error string | Tools_Error tool_error

definition default_model :: string where
  "default_model = ''claude-4.5-sonnet''"

definition fill_request :: "'p chat_surroundings \<Rightarrow> chat_request \<Rightarrow> chat_request" where
  "fill_request cs req = req\<lparr>
     cr_model := (if cr_model req = [] then default_model else cr_model req),
     cr_conversation_id := (if cr_conversation_id req = [] then cs_session_id cs else cr_conversation_id req)\<rparr>"

definition assemble_message :: "'p chat_surroundings \<Rightarrow> (string \<Rightarrow> string option) \<Rightarrow> chat_request \<Rightarrow> chat_request" where
  "assemble_message cs ft req =
     (let (user, kept) = prepare_document_attachments (cs_quoted cs) (cs_pdf_text cs) (cs_valid cs) (cr_user_message req) (cr_attachments req);
          images = normalize_image_attachments (cs_decode_image cs) (cs_encode_image cs) kept;
          user = (if cr_system_prompt req \<noteq> [] then splice_system_prompt (cr_system_prompt req) user else user);
          user = (if cr_history req \<noteq> [] \<and> \<not> cr_omit_spliced_history req then splice_history ft (cr_history req) user else user);
          user = (if \<not> cr_omit_host_context req then splice_host_context_notice user else user)
      in req\<lparr>cr_user_message := user, cr_attachments := images\<rparr>)"

definition prepare_chat_request :: "(json \<Rightarrow> string + 'v) \<Rightarrow> ('v \<Rightarrow> string + string) \<Rightarrow> (string \<Rightarrow> string option) \<Rightarrow>
    (nat \<Rightarrow> string) \<Rightarrow> host \<Rightarrow> account option \<Rightarrow> 'p chat_surroundings \<Rightarrow> chat_request \<Rightarrow>
    prepare_error + chat_request \<times> agent_run_request" where
  "prepare_chat_request new_struct marshal ft fresh h acc cs req =
     (let req = fill_request cs req in
      case cs_resolve cs (cr_model req) (cr_model_parameters req) of
        Inl e \<Rightarrow> Inl (Catalog_Error e)
      | Inr resolved \<Rightarrow>
          let req = assemble_message cs ft req in
          case build_agent_run_request new_struct marshal ft fresh h acc req (cs_message_id cs) (cs_run_id cs) resolved of
            Inl e \<Rightarrow> Inl (Tools_Error e)
          | Inr run \<Rightarrow> Inr (req, run))"

subsection \<open>Every call of the history has an id\<close>

fun keeps_part :: "history_part \<Rightarrow> history_part \<Rightarrow> bool" where
  "keeps_part (Text_Part t) (Text_Part t') \<longleftrightarrow> t' = t"
| "keeps_part (Call_Part i n a) (Call_Part i' n' a') \<longleftrightarrow> (trim_space i \<noteq> [] \<longrightarrow> i' = i) \<and> n' = n \<and> a' = a"
| "keeps_part _ _ \<longleftrightarrow> False"

fun keeps_message :: "history_message \<Rightarrow> history_message \<Rightarrow> bool" where
  "keeps_message (User_Message t) (User_Message t') \<longleftrightarrow> t' = t"
| "keeps_message (Assistant_Message ps) (Assistant_Message ps') \<longleftrightarrow> list_all2 keeps_part ps ps'"
| "keeps_message (Tool_Message i n e t) (Tool_Message i' n' e' t') \<longleftrightarrow> (trim_space i \<noteq> [] \<longrightarrow> i' = i) \<and> n' = n \<and> e' = e \<and> t' = t"
| "keeps_message _ _ \<longleftrightarrow> False"

definition blank_places :: "history_message list \<Rightarrow> place list" where
  "blank_places ms = concat (map (\<lambda>k. blank_calls k (ms ! k)) [0..<length ms])"

lemma keeps_part_refl: "keeps_part p p"
  by (cases p) auto

lemma keeps_message_refl: "keeps_message m m"
  by (cases m) (auto simp: list_all2_same keeps_part_refl)

lemma keeps_part_trans: "keeps_part p q \<Longrightarrow> keeps_part q r \<Longrightarrow> keeps_part p r"
  by (cases p; cases q; cases r) auto

lemma keeps_message_trans: "keeps_message p q \<Longrightarrow> keeps_message q r \<Longrightarrow> keeps_message p r"
  by (cases p; cases q; cases r) (auto elim: list_all2_trans [rotated 1, of keeps_part] intro: keeps_part_trans)

lemma set_blank_calls: "p \<in> set (blank_calls k m) \<longleftrightarrow>
    fst p = k \<and> snd p < length (message_parts m) \<and> blank_call (message_parts m ! snd p)"
  by (cases p) (auto simp: blank_calls_def)

lemma set_blank_places: "p \<in> set (blank_places ms) \<longleftrightarrow>
    fst p < length ms \<and> snd p < length (message_parts (ms ! fst p)) \<and> blank_call (message_parts (ms ! fst p) ! snd p)"
  by (auto simp: blank_places_def set_blank_calls)

lemma blank_call_id: "blank_call p \<Longrightarrow> trim_space (part_id p) = []"
  by (cases p) auto

text \<open>Setting the id of a blank call keeps everything else, and makes exactly this call no longer blank.\<close>

lemma message_parts_set: "message_parts (set_parts ps m) = (case m of Assistant_Message _ \<Rightarrow> ps | _ \<Rightarrow> [])"
  by (cases m) auto

lemma set_call_id_spec:
  assumes p: "p \<in> set (blank_places ms)" and i: "trim_space i \<noteq> []"
  shows "list_all2 keeps_message ms (set_call_id p i ms)"
    and "set (blank_places (set_call_id p i ms)) = set (blank_places ms) - {p}"
proof -
  obtain ps where m: "ms ! fst p = Assistant_Message ps" and q: "snd p < length ps" "blank_call (ps ! snd p)" and k: "fst p < length ms"
    using p by (cases "ms ! fst p") (auto simp: set_blank_places)
  have part: "keeps_part (ps ! snd p) (with_id i (ps ! snd p))" and unblank: "\<not> blank_call (with_id i (ps ! snd p))"
    using q i by (cases "ps ! snd p"; simp)+
  have "list_all2 keeps_part ps (ps[snd p := with_id i (ps ! snd p)])"
    using part q by (auto simp: list_all2_conv_all_nth nth_list_update keeps_part_refl)
  then show "list_all2 keeps_message ms (set_call_id p i ms)"
    using m k by (auto simp: set_call_id_def list_all2_conv_all_nth nth_list_update keeps_message_refl)
  show "set (blank_places (set_call_id p i ms)) = set (blank_places ms) - {p}"
    using m q k unblank
    by (auto simp: set_blank_places set_call_id_def nth_list_update message_parts_set prod_eq_iff split: if_splits)
qed

definition filled :: "history_message list \<Rightarrow> nat \<Rightarrow> filling \<Rightarrow> bool" where
  "filled ms0 k = (\<lambda>(ms, pending, n). list_all2 keeps_message ms0 ms \<and> drop k ms = drop k ms0 \<and> distinct pending \<and>
     set pending = {p \<in> set (blank_places ms). fst p < k})"

lemma tool_message_update:
  assumes k: "k < length ms" "ms ! k = Tool_Message tid name err t" and i: "trim_space tid = []"
  shows "list_all2 keeps_message ms (ms[k := Tool_Message i name err t])"
    and "set (blank_places (ms[k := Tool_Message i name err t])) = set (blank_places ms)"
  using assms
  by (auto simp: list_all2_conv_all_nth nth_list_update keeps_message_refl set_blank_places split: if_splits)

lemma set_call_id_elsewhere:
  "fst p < k \<Longrightarrow> drop k (set_call_id p i ms) = drop k ms" "fst p < k \<Longrightarrow> set_call_id p i ms ! k = ms ! k"
  "length (set_call_id p i ms) = length ms"
  by (simp_all add: set_call_id_def Let_def)

lemma keeps_trans_list: "list_all2 keeps_message xs ys \<Longrightarrow> list_all2 keeps_message ys zs \<Longrightarrow> list_all2 keeps_message xs zs"
  by (rule list_all2_trans [of keeps_message keeps_message keeps_message]) (auto intro: keeps_message_trans)

lemma blank_at_place: "p \<in> set (blank_places ms) \<Longrightarrow> trim_space (call_id_at ms p) = []"
  by (auto simp: set_blank_places call_id_at_def blank_call_id)

text \<open>A tool result takes the call that waits longest, and gives it its own id if it has one.\<close>

lemma fill_step_tool:
  assumes fresh: "\<And>n. trim_space (fresh n) \<noteq> []" and k: "k < length ms" "ms ! k = Tool_Message tid name err t"
    and p: "p \<in> set (blank_places ms)" "fst p < k"
  obtains ms2 n2 where "fill_step fresh k (ms, p # later, n) = (ms2, later, n2)"
    and "list_all2 keeps_message ms ms2" "set (blank_places ms2) = set (blank_places ms) - {p}"
    and "drop (Suc k) ms2 = drop (Suc k) ms"
    and "trim_space tid \<noteq> [] \<Longrightarrow> call_id_at ms2 p = trim_space tid"
proof -
  define i where "i = (if trim_space tid = [] then fresh n else trim_space tid)"
  have i: "trim_space i \<noteq> []" using fresh by (simp add: i_def)
  define ms1 where "ms1 = set_call_id p i ms"
  define ms2 where "ms2 = (if trim_space tid = [] then ms1[k := Tool_Message i name err t] else ms1)"
  have no_own: "blank_calls k (ms ! k) = []" using k by (simp add: blank_calls_def)
  have step: "fill_step fresh k (ms, p # later, n) = (ms2, later, if trim_space tid = [] then Suc n else n)"
    using k no_own blank_at_place [OF p(1)] by (simp add: fill_step_def ms2_def ms1_def i_def Let_def split: prod.splits)
  note c = set_call_id_spec [OF p(1) i, folded ms1_def]
  have at_k: "ms1 ! k = Tool_Message tid name err t" "k < length ms1"
    using p(2) k by (simp_all add: ms1_def set_call_id_elsewhere)
  have u: "list_all2 keeps_message ms1 ms2 \<and> set (blank_places ms2) = set (blank_places ms1)"
    using tool_message_update [OF at_k(2,1), of i] by (simp add: ms2_def list_all2_same keeps_message_refl)
  obtain ps where m: "ms ! fst p = Assistant_Message ps" and q: "snd p < length ps" "blank_call (ps ! snd p)"
    using p by (cases "ms ! fst p") (auto simp: set_blank_places)
  have "call_id_at ms2 p = i" if "trim_space tid \<noteq> []"
    using that m q p k by (cases "ps ! snd p") (auto simp: ms2_def ms1_def call_id_at_def set_call_id_def)
  then show ?thesis using that [OF step] keeps_trans_list [OF c(1)] u c(2) p(2)
    by (auto simp: i_def ms2_def ms1_def set_call_id_elsewhere)
qed

fun is_tool :: "history_message \<Rightarrow> bool" where
  "is_tool (Tool_Message _ _ _ _) \<longleftrightarrow> True"
| "is_tool _ \<longleftrightarrow> False"

lemma fill_step_other:
  "\<not> is_tool (ms ! k) \<Longrightarrow> fill_step fresh k (ms, pending, n) = (ms, pending @ blank_calls k (ms ! k), n)"
  by (cases "ms ! k") (simp_all add: fill_step_def)

lemma fill_step_filled:
  assumes fresh: "\<And>n. trim_space (fresh n) \<noteq> []" and k: "k < length ms0" and f: "filled ms0 k s"
  shows "filled ms0 (Suc k) (fill_step fresh k s)"
proof -
  obtain ms pending n where s: "s = (ms, pending, n)" by (cases s)
  from f have keep: "list_all2 keeps_message ms0 ms" and tail: "drop k ms = drop k ms0" and dist: "distinct pending"
    and pend: "set pending = {p \<in> set (blank_places ms). fst p < k}" by (auto simp: filled_def s)
  have len: "length ms = length ms0" using keep by (simp add: list_all2_lengthD)
  have rest: "drop (Suc k) ms = drop (Suc k) ms0" using tail by (metis drop_Suc tl_drop)
  let ?p = "pending @ blank_calls k (ms ! k)"
  have dist': "distinct ?p" using dist pend by (auto simp: set_blank_calls blank_calls_def distinct_map inj_on_def)
  have pend': "set ?p = {p \<in> set (blank_places ms). fst p < Suc k}"
    using k len by (auto simp: pend set_blank_calls set_blank_places less_Suc_eq)
  have idle: "filled ms0 (Suc k) (ms, ?p, n)" using keep rest dist' pend' by (simp add: filled_def)
  show ?thesis
  proof (cases "is_tool (ms ! k)")
    case True
    then obtain tid name err t where m: "ms ! k = Tool_Message tid name err t" by (cases "ms ! k") auto
    then have no_own: "blank_calls k (ms ! k) = []" by (simp add: blank_calls_def)
    show ?thesis
    proof (cases pending)
      case Nil
      then show ?thesis using idle m no_own by (simp add: fill_step_def s)
    next
      case (Cons p later)
      then have p: "p \<in> set (blank_places ms)" "fst p < k" using pend by auto
      obtain ms2 n2 where step: "fill_step fresh k (ms, p # later, n) = (ms2, later, n2)"
        and kept: "list_all2 keeps_message ms ms2" "set (blank_places ms2) = set (blank_places ms) - {p}"
          "drop (Suc k) ms2 = drop (Suc k) ms"
        using fill_step_tool [of fresh k ms, OF fresh _ m p] k len by metis
      have "set later = {q \<in> set (blank_places ms2). fst q < Suc k}"
        using pend' dist' Cons kept(2) no_own by auto
      then show ?thesis using keeps_trans_list [OF keep kept(1)] kept(3) rest dist' Cons by (simp add: s step filled_def)
    qed
  qed (use idle in \<open>simp add: s fill_step_other\<close>)
qed

lemma fill_steps_filled:
  assumes "\<And>n. trim_space (fresh n) \<noteq> []" "k \<le> length ms0"
  shows "filled ms0 k (fold (fill_step fresh) [0..<k] (ms0, [], 0))"
  using assms(2)
proof (induction k)
  case 0
  show ?case by (simp add: filled_def list_all2_same keeps_message_refl)
next
  case (Suc k)
  then show ?case using fill_step_filled [OF assms(1)] by simp
qed

lemma fill_rest_filled:
  assumes fresh: "\<And>n. trim_space (fresh n) \<noteq> []" and "list_all2 keeps_message ms0 ms" "distinct pending"
    "set pending = set (blank_places ms)"
  shows "list_all2 keeps_message ms0 (fst (fold (fill_rest fresh) pending (ms, n))) \<and>
    blank_places (fst (fold (fill_rest fresh) pending (ms, n))) = []"
  using assms(2-)
proof (induction pending arbitrary: ms n)
  case (Cons p pending)
  then have p: "p \<in> set (blank_places ms)" by auto
  note c = set_call_id_spec [OF p fresh [of n]]
  have "list_all2 keeps_message ms0 (set_call_id p (fresh n) ms)" using Cons.prems(1) c(1) by (rule keeps_trans_list)
  moreover have "distinct pending" "set pending = set (blank_places (set_call_id p (fresh n) ms))"
    using Cons.prems(2,3) c(2) by auto
  ultimately show ?case using Cons.IH by (simp add: fill_rest_def blank_at_place [OF p])
qed simp

lemma fill_empty_spec:
  assumes fresh: "\<And>n. trim_space (fresh n) \<noteq> []"
  shows "list_all2 keeps_message ms (fill_empty_history_tool_ids fresh ms)"
    and "blank_places (fill_empty_history_tool_ids fresh ms) = []"
proof -
  obtain ms' pending n where s: "fold (fill_step fresh) [0..<length ms] (ms, [], 0) = (ms', pending, n)"
    by (cases "fold (fill_step fresh) [0..<length ms] (ms, [], 0)")
  have "filled ms (length ms) (ms', pending, n)"
    using fill_steps_filled [of fresh "length ms" ms, OF fresh] by (simp add: s)
  then have f: "list_all2 keeps_message ms ms'" "distinct pending"
    and pend: "set pending = {p \<in> set (blank_places ms'). fst p < length ms}" by (simp_all add: filled_def)
  have "fst p < length ms" if "p \<in> set (blank_places ms')" for p
    using that list_all2_lengthD [OF f(1)] by (simp add: set_blank_places)
  with pend have all: "set pending = set (blank_places ms')" by blast
  show "list_all2 keeps_message ms (fill_empty_history_tool_ids fresh ms)"
    "blank_places (fill_empty_history_tool_ids fresh ms) = []"
    using fill_rest_filled [of fresh, OF fresh f all] by (simp_all add: fill_empty_history_tool_ids_def s)
qed

subsection \<open>Results are paired with the calls they answer\<close>

fun tool_id :: "history_message \<Rightarrow> string list" where
  "tool_id (Tool_Message i _ _ _) = [i]"
| "tool_id _ = []"

definition tool_ids :: "history_message list \<Rightarrow> string list" where
  "tool_ids ms = concat (map tool_id ms)"

text \<open>Every result stands after a call without id that no earlier result answers.\<close>

fun in_order :: "nat \<Rightarrow> history_message list \<Rightarrow> bool" where
  "in_order n [] \<longleftrightarrow> True"
| "in_order n (m # ms) \<longleftrightarrow>
     (if is_tool m then 0 < n \<and> in_order (n - 1) ms
      else in_order (n + length (filter blank_call (message_parts m))) ms)"

definition calls_before :: "history_message list \<Rightarrow> nat \<Rightarrow> place list" where
  "calls_before ms k = concat (map (\<lambda>i. blank_calls i (ms ! i)) [0..<k])"

lemma calls_before_Suc: "calls_before ms (Suc k) = calls_before ms k @ blank_calls k (ms ! k)"
  by (simp add: calls_before_def)

lemma calls_before_all: "calls_before ms (length ms) = blank_places ms"
  by (simp add: calls_before_def blank_places_def)

lemma calls_before_prefix: "k \<le> n \<Longrightarrow> \<exists>rest. calls_before ms n = calls_before ms k @ rest"
proof (induction n)
  case (Suc n)
  then show ?case by (cases "k = Suc n") (auto simp: calls_before_Suc)
qed simp

lemma length_blank_calls: "length (blank_calls k m) = length (filter blank_call (message_parts m))"
proof -
  have "filter blank_call xs = map ((!) xs) (filter (blank_call \<circ> (!) xs) [0..<length xs])" for xs
    by (metis filter_map map_nth)
  then have "length (filter blank_call xs) = length (filter (\<lambda>q. blank_call (xs ! q)) [0..<length xs])" for xs
    by (metis (no_types, lifting) comp_apply filter_cong length_map)
  then show ?thesis by (simp add: blank_calls_def)
qed

lemma keeps_call_id:
  assumes "list_all2 keeps_message ms ms'" "fst p < length ms" "snd p < length (message_parts (ms ! fst p))"
    "trim_space (call_id_at ms p) \<noteq> []"
  shows "call_id_at ms' p = call_id_at ms p"
proof -
  have m: "keeps_message (ms ! fst p) (ms' ! fst p)" using assms(1,2) by (simp add: list_all2_conv_all_nth)
  show ?thesis
  proof (cases "ms ! fst p")
    case (Assistant_Message ps)
    then obtain ps' where m': "ms' ! fst p = Assistant_Message ps'" "list_all2 keeps_part ps ps'" using m by (cases "ms' ! fst p") auto
    then have "keeps_part (ps ! snd p) (ps' ! snd p)" using assms(3) Assistant_Message by (simp add: list_all2_conv_all_nth)
    then show ?thesis using assms(4) Assistant_Message m' by (cases "ps ! snd p"; cases "ps' ! snd p") (auto simp: call_id_at_def)
  qed (use assms(3) in simp_all)
qed

lemma keeps_place:
  assumes "list_all2 keeps_message ms ms'" "p \<in> set (blank_places ms)"
  shows "fst p < length ms' \<and> snd p < length (message_parts (ms' ! fst p))"
proof -
  have "keeps_message (ms ! fst p) (ms' ! fst p)" "fst p < length ms" "snd p < length (message_parts (ms ! fst p))"
    using assms by (auto simp: list_all2_conv_all_nth set_blank_places)
  then show ?thesis using list_all2_lengthD [OF assms(1)]
    by (cases "ms ! fst p"; cases "ms' ! fst p") (auto dest: list_all2_lengthD)
qed

definition paired :: "history_message list \<Rightarrow> nat \<Rightarrow> filling \<Rightarrow> bool" where
  "paired ms0 k = (\<lambda>(ms, pending, n).
     let calls = calls_before ms0 k; r = length (tool_ids (take k ms0)) in
     filled ms0 k (ms, pending, n) \<and> r \<le> length calls \<and> pending = drop r calls \<and> in_order (length calls - r) (drop k ms0) \<and>
     (\<forall>j < r. trim_space (tool_ids ms0 ! j) \<noteq> [] \<longrightarrow> call_id_at ms (calls ! j) = trim_space (tool_ids ms0 ! j)))"

lemma fill_step_paired:
  assumes fresh: "\<And>n. trim_space (fresh n) \<noteq> []" and k: "k < length ms0" and f: "paired ms0 k s"
  shows "paired ms0 (Suc k) (fill_step fresh k s)"
proof -
  obtain ms pending n where s: "s = (ms, pending, n)" by (cases s)
  define calls where "calls = calls_before ms0 k"
  define r where "r = length (tool_ids (take k ms0))"
  from f have fill: "filled ms0 k s" and r: "r \<le> length calls" "pending = drop r calls" "in_order (length calls - r) (drop k ms0)"
    and ids: "\<And>j. j < r \<Longrightarrow> trim_space (tool_ids ms0 ! j) \<noteq> [] \<Longrightarrow> call_id_at ms (calls ! j) = trim_space (tool_ids ms0 ! j)"
    unfolding paired_def s calls_def r_def Let_def by (simp_all only: case_prod_conv) blast+
  from fill have keep: "list_all2 keeps_message ms0 ms" and tail: "drop k ms = drop k ms0"
    and pend: "set pending = {p \<in> set (blank_places ms). fst p < k}" by (simp_all add: filled_def s)
  have len: "length ms = length ms0" using keep by (simp add: list_all2_lengthD)
  have at_k: "ms ! k = ms0 ! k" using tail k len by (metis Cons_nth_drop_Suc list.inject)
  have drop_k: "drop k ms0 = ms0 ! k # drop (Suc k) ms0" using k by (simp add: Cons_nth_drop_Suc)
  have ids_Suc: "tool_ids (take (Suc k) ms0) = tool_ids (take k ms0) @ tool_id (ms0 ! k)"
    using k by (simp add: take_Suc_conv_app_nth tool_ids_def)
  have ids_split: "tool_ids ms0 = tool_ids (take k ms0) @ tool_id (ms0 ! k) @ tool_ids (drop (Suc k) ms0)"
    using id_take_nth_drop [OF k] by (metis append.assoc concat_append map_append tool_ids_def concat.simps(2) list.simps(9))
  note next_filled = fill_step_filled [of fresh k ms0 s, OF fresh k fill]
  show ?thesis
  proof (cases "is_tool (ms0 ! k)")
    case False
    then have t: "tool_id (ms0 ! k) = []" by (cases "ms0 ! k") auto
    have step: "fill_step fresh k s = (ms, pending @ blank_calls k (ms0 ! k), n)"
      using False at_k by (simp add: s fill_step_other)
    show ?thesis using next_filled r ids False t unfolding step
      by (simp add: paired_def Let_def calls_before_Suc ids_Suc drop_k length_blank_calls
          calls_def [symmetric] r_def [symmetric] nth_append)
  next
    case True
    then obtain tid name err t where m: "ms0 ! k = Tool_Message tid name err t" by (cases "ms0 ! k") auto
    then have no_own: "blank_calls k (ms0 ! k) = []" by (simp add: blank_calls_def)
    have room: "r < length calls" and order: "in_order (length calls - Suc r) (drop (Suc k) ms0)"
      using r(3) True by (simp_all add: drop_k)
    let ?p = "calls ! r" and ?later = "drop (Suc r) calls"
    have pending: "pending = ?p # ?later" using r(2) room by (simp add: Cons_nth_drop_Suc)
    then have p: "?p \<in> set (blank_places ms)" "fst ?p < k" using pend by auto
    have m': "ms ! k = Tool_Message tid name err t" "k < length ms" using m at_k k len by simp_all
    obtain ms2 n2 where step: "fill_step fresh k (ms, ?p # ?later, n) = (ms2, ?later, n2)"
      and kept: "list_all2 keeps_message ms ms2" and new: "trim_space tid \<noteq> [] \<Longrightarrow> call_id_at ms2 ?p = trim_space tid"
      using fill_step_tool [of fresh k ms tid name err t ?p ?later n, OF fresh m'(2,1) p] by metis
    have last: "tool_ids ms0 ! r = tid" by (subst ids_split) (simp add: r_def m nth_append)
    have "call_id_at ms2 (calls ! j) = trim_space (tool_ids ms0 ! j)"
      if j: "j < Suc r" and nb: "trim_space (tool_ids ms0 ! j) \<noteq> []" for j
    proof (cases "j = r")
      case True
      then show ?thesis using new nb last by simp
    next
      case False
      then have j: "j < r" using j by simp
      obtain rest where "blank_places ms0 = calls @ rest"
        using calls_before_prefix [of k "length ms0" ms0] k calls_before_all [of ms0] by (auto simp: calls_def)
      then have "calls ! j \<in> set (blank_places ms0)" using j room by simp
      then have "fst (calls ! j) < length ms \<and> snd (calls ! j) < length (message_parts (ms ! fst (calls ! j)))"
        by (rule keeps_place [OF keep])
      then show ?thesis using keeps_call_id [OF kept] ids [OF j nb] nb by simp
    qed
    then show ?thesis using next_filled room order step m
      by (simp add: paired_def Let_def s pending calls_before_Suc no_own [unfolded m] ids_Suc
          calls_def [symmetric] r_def [symmetric])
  qed
qed

lemma fill_steps_paired:
  assumes "\<And>n. trim_space (fresh n) \<noteq> []" "in_order 0 ms0" "k \<le> length ms0"
  shows "paired ms0 k (fold (fill_step fresh) [0..<k] (ms0, [], 0))"
  using assms(3)
proof (induction k)
  case 0
  show ?case using assms(2)
    by (simp add: paired_def filled_def list_all2_same keeps_message_refl calls_before_def tool_ids_def)
next
  case (Suc k)
  then show ?case using fill_step_paired [of fresh, OF assms(1)] by simp
qed

lemma fill_rest_keeps:
  assumes "\<And>n. trim_space (fresh n) \<noteq> []" "filled ms0 (length ms0) (ms, pending, n)"
  shows "list_all2 keeps_message ms (fst (fold (fill_rest fresh) pending (ms, n)))"
proof -
  have "list_all2 keeps_message ms0 ms" and pend: "distinct pending" "set pending = {p \<in> set (blank_places ms). fst p < length ms0}"
    using assms(2) by (simp_all add: filled_def)
  then have "length ms = length ms0" by (simp add: list_all2_lengthD)
  then have "fst p < length ms0" if "p \<in> set (blank_places ms)" for p using that by (simp add: set_blank_places)
  then have "set pending = set (blank_places ms)" using pend(2) by blast
  then show ?thesis
    using fill_rest_filled [of fresh ms ms pending n, OF assms(1)] pend(1) by (simp add: list_all2_same keeps_message_refl)
qed


definition two_calls :: "history_message list" where
  "two_calls = [Assistant_Message [Text_Part ''x'', Call_Part [] ''f'' ''{}'', Call_Part '' '' ''g'' ''{}''],
     Tool_Message ''a'' ''f'' False ''1'', Tool_Message ''b'' ''g'' False ''2'']"


text \<open>
  Without that condition a result can be given away: of two calls only the second has an id, and the
  result for it names the first call, so that two calls have the same id.
\<close>

lemma result_given_to_other_call:
  "fill_empty_history_tool_ids (\<lambda>_. ''n'')
     [Assistant_Message [Call_Part [] ''f'' ''{}'', Call_Part ''b'' ''g'' ''{}''], Tool_Message ''b'' ''g'' False ''2''] =
   [Assistant_Message [Call_Part ''b'' ''f'' ''{}'', Call_Part ''b'' ''g'' ''{}''], Tool_Message ''b'' ''g'' False ''2'']"
  by code_simp

subsection \<open>What is sent\<close>

lemma no_blank_call:
  "blank_places ms = [] \<longleftrightarrow> (\<forall>m \<in> set ms. \<forall>p \<in> set (message_parts m). \<not> blank_call p)"
proof -
  have "(\<forall>m \<in> set ms. \<forall>p \<in> set (message_parts m). \<not> blank_call p) \<longleftrightarrow>
      (\<forall>i < length ms. \<forall>q < length (message_parts (ms ! i)). \<not> blank_call (message_parts (ms ! i) ! q))"
    by (simp add: all_set_conv_all_nth)
  also have "\<dots> \<longleftrightarrow> (\<forall>p. p \<notin> set (blank_places ms))" unfolding set_blank_places by (simp add: split_paired_all) blast
  also have "\<dots> \<longleftrightarrow> blank_places ms = []" by (metis list.set_intros(1) neq_Nil_conv empty_iff empty_set)
  finally show ?thesis by blast
qed

lemma history_calls_identified:
  assumes "\<And>n. trim_space (fresh n) \<noteq> []" "build_conversation_history ft fresh turns = Some ms"
  shows "list_all2 keeps_message (concat (map (turn_messages ft) turns)) ms"
    "\<forall>m \<in> set ms. \<forall>p \<in> set (message_parts m). \<not> blank_call p"
proof -
  have "ms = fill_empty_history_tool_ids fresh (concat (map (turn_messages ft) turns))"
    using assms(2) by (simp add: build_conversation_history_def Let_def split: if_splits)
  then show "list_all2 keeps_message (concat (map (turn_messages ft) turns)) ms"
    "\<forall>m \<in> set ms. \<forall>p \<in> set (message_parts m). \<not> blank_call p"
    using fill_empty_spec [of fresh, OF assms(1)] by (simp_all add: no_blank_call)
qed

lemma splice_history_before: "splice_history ft ts user = splice_history ft ts [] @ user"
  by (simp add: splice_history_def)

lemma assembled_text:
  assumes "prepare_document_attachments (cs_quoted cs) (cs_pdf_text cs) (cs_valid cs) (cr_user_message req) (cr_attachments req) = (body, kept)"
  shows "cr_user_message (assemble_message cs ft req) =
    (if cr_omit_host_context req then [] else host_context_notice @ ''\<newline>\<newline>'') @
    (if cr_omit_spliced_history req then [] else splice_history ft (cr_history req) []) @
    splice_system_prompt (cr_system_prompt req) body"
proof -
  have sys: "(if cr_system_prompt req \<noteq> [] then splice_system_prompt (cr_system_prompt req) body else body) =
      splice_system_prompt (cr_system_prompt req) body"
    by (simp add: splice_system_prompt_def)
  have hist: "(if cr_history req \<noteq> [] \<and> \<not> cr_omit_spliced_history req then splice_history ft (cr_history req) u else u) =
      (if cr_omit_spliced_history req then [] else splice_history ft (cr_history req) []) @ u" for u
    using splice_history_before [of ft "cr_history req" u] by (simp add: splice_history_def)
  show ?thesis unfolding assemble_message_def assms Let_def case_prod_conv sys hist
    by (simp add: splice_host_context_notice_def)
qed

lemma assembled_attachments:
  assumes "prepare_document_attachments (cs_quoted cs) (cs_pdf_text cs) (cs_valid cs) (cr_user_message req) (cr_attachments req) = (body, kept)"
  shows "case build_selected_context (cr_attachments (assemble_message cs ft req)) of None \<Rightarrow> True | Some s \<Rightarrow> sc_documents s = [] \<and>
    sc_images s = map (\<lambda>a. (at_mime_type a, at_data a)) (filter (\<lambda>a. at_kind a = ''image'' \<and> at_data a \<noteq> [])
      (normalize_image_attachments (cs_decode_image cs) (cs_encode_image cs) kept))"
proof -
  let ?as = "normalize_image_attachments (cs_decode_image cs) (cs_encode_image cs) kept"
  have as: "cr_attachments (assemble_message cs ft req) = ?as" using assms by (simp add: assemble_message_def Let_def)
  have "\<forall>a \<in> set kept. at_kind a \<noteq> ''document''"
    using assms by (auto simp: prepare_document_attachments_def Let_def is_document_def split: if_splits)
  moreover have "at_kind (normalize_image d e a) = at_kind a" for d and e :: "'a picture \<Rightarrow> nat list option" and a
    by (simp add: normalize_image_def split: option.split)
  ultimately have "filter (\<lambda>a. at_kind a = ''document'') (filter (\<lambda>a. at_data a \<noteq> []) ?as) = []"
    by (auto simp: normalize_image_attachments_def filter_empty_conv)
  then show ?thesis by (auto simp: as build_selected_context_def Let_def filter_filter conj_commute split: option.split)
qed


definition quiet_surroundings :: "unit chat_surroundings" where
  "quiet_surroundings = \<lparr>cs_request_id = ''q'', cs_run_id = ''r'', cs_session_id = ''s'', cs_message_id = ''m'',
     cs_resolve = (\<lambda>_ _. Inr None), cs_quoted = id, cs_pdf_text = (\<lambda>_. None), cs_valid = (\<lambda>_. True),
     cs_decode_image = (\<lambda>_ _. None), cs_encode_image = (\<lambda>_. None)\<rparr>"

definition plain_host :: host where
  "plain_host = \<lparr>h_goos = ''linux'', h_goarch = ''amd64'', h_shell = [], h_comspec = [], h_timezone = ''UTC''\<rparr>"


end
