(* ===== verification/ToolIds.thy ===== *)
theory ToolIds
  imports JsonAny
begin

text \<open>
  \<^verbatim>\<open>executor/claude_tool_ids.go\<close>: ids for the tool calls of a Messages request that arrive without one.
  A place is the position of a message and of a part of its content; \<open>fresh n\<close> is the \<open>n\<close>-th new id.
\<close>

definition put_member :: "string \<Rightarrow> json \<Rightarrow> (string \<times> json) list \<Rightarrow> (string \<times> json) list" where
  "put_member k v ms = go_map (ms @ [(k, v)])"

definition content_parts :: "json \<Rightarrow> json list option" where
  "content_parts m = (case map_get (as_map (Some m)) ''content'' of Some (JArr ps) \<Rightarrow> Some ps | _ \<Rightarrow> None)"

definition part_at :: "json list \<Rightarrow> nat \<times> nat \<Rightarrow> (string \<times> json) list option" where
  "part_at ms p =
     (if fst p < length ms
      then (case content_parts (ms ! fst p) of
          Some ps \<Rightarrow> if snd p < length ps then as_map (Some (ps ! snd p)) else None
        | None \<Rightarrow> None)
      else None)"

text \<open>Setting a member of the part at a place; None where there is no such part.\<close>

definition set_part_member :: "json list \<Rightarrow> nat \<times> nat \<Rightarrow> string \<Rightarrow> string \<Rightarrow> json list option" where
  "set_part_member ms p k v =
     (case part_at ms p of
        None \<Rightarrow> None
      | Some b \<Rightarrow>
          (case as_map (Some (ms ! fst p)) of
             None \<Rightarrow> None
           | Some m \<Rightarrow> Some (ms[fst p := JObj (put_member ''content''
               (JArr ((the (content_parts (ms ! fst p)))[snd p := JObj (put_member k (JStr v) b)])) m)])))"

definition set_message_part_id :: "json list \<Rightarrow> nat \<times> nat \<Rightarrow> string \<Rightarrow> json list option" where
  "set_message_part_id ms p i = set_part_member ms p ''id'' i"

record repair =
  rp_messages :: "json list"
  rp_pending :: "(nat \<times> nat) list"
  rp_drawn :: nat
  rp_changed :: bool

definition write_id :: "nat \<times> nat \<Rightarrow> string \<Rightarrow> repair \<Rightarrow> repair" where
  "write_id p i r = (case set_message_part_id (rp_messages r) p i of
     Some ms \<Rightarrow> r\<lparr>rp_messages := ms, rp_changed := True\<rparr> | None \<Rightarrow> r)"

text \<open>A result without an id gets a new one.\<close>

definition result_id :: "(nat \<Rightarrow> string) \<Rightarrow> nat \<times> nat \<Rightarrow> (string \<times> json) list \<Rightarrow> repair \<Rightarrow> string \<times> repair" where
  "result_id fresh p b r =
     (let i = trim_space (as_string (map_of b ''tool_use_id'')) in
      if i \<noteq> [] then (i, r)
      else (fresh (rp_drawn r), r\<lparr>rp_messages := the (set_part_member (rp_messages r) p ''tool_use_id'' (fresh (rp_drawn r))),
             rp_drawn := Suc (rp_drawn r), rp_changed := True\<rparr>))"

definition repair_part :: "(nat \<Rightarrow> string) \<Rightarrow> string \<Rightarrow> nat \<times> nat \<Rightarrow> repair \<Rightarrow> repair" where
  "repair_part fresh role p r =
     (case part_at (rp_messages r) p of
        None \<Rightarrow> r
      | Some b \<Rightarrow>
          if map_of b ''type'' = Some (JStr ''tool_use'') then
            (if role = ''assistant'' \<and> trim_space (as_string (map_of b ''id'')) = []
             then r\<lparr>rp_pending := rp_pending r @ [p]\<rparr> else r)
          else if map_of b ''type'' = Some (JStr ''tool_result'') then
            (case rp_pending r of
               [] \<Rightarrow> r
             | use # rest \<Rightarrow> (let (i, r) = result_id fresh p b (r\<lparr>rp_pending := rest\<rparr>) in write_id use i r))
          else r)"

definition repair_message :: "(nat \<Rightarrow> string) \<Rightarrow> nat \<Rightarrow> repair \<Rightarrow> repair" where
  "repair_message fresh k r =
     (let m = rp_messages r ! k in
      case content_parts m of
        None \<Rightarrow> r
      | Some ps \<Rightarrow> fold (\<lambda>q. repair_part fresh (as_string (map_get (as_map (Some m)) ''role'')) (k, q)) [0..<length ps] r)"

definition repair_rest :: "(nat \<Rightarrow> string) \<Rightarrow> nat \<times> nat \<Rightarrow> repair \<Rightarrow> repair" where
  "repair_rest fresh p r = write_id p (fresh (rp_drawn r)) (r\<lparr>rp_drawn := Suc (rp_drawn r)\<rparr>)"

definition repair_messages :: "(nat \<Rightarrow> string) \<Rightarrow> json list \<Rightarrow> repair" where
  "repair_messages fresh ms =
     (let r = fold (repair_message fresh) [0..<length ms]
            \<lparr>rp_messages = ms, rp_pending = [], rp_drawn = 0, rp_changed = False\<rparr>
      in fold (repair_rest fresh) (rp_pending r) r)"

definition repair_claude_messages_json :: "(string \<Rightarrow> string option) \<Rightarrow> (nat \<Rightarrow> string) \<Rightarrow> string \<Rightarrow> string" where
  "repair_claude_messages_json ft fresh raw =
     (case unmarshal_any ft raw of
        Some (JObj req) \<Rightarrow>
          (case map_of req ''messages'' of
             Some (JArr ms) \<Rightarrow>
               (let r = repair_messages fresh ms in
                if rp_changed r then print_json (JObj (put_member ''messages'' (JArr (rp_messages r)) req)) else raw)
           | _ \<Rightarrow> raw)
      | _ \<Rightarrow> raw)"

subsection \<open>A request that needs no repair is left as it is\<close>

definition needs_id :: "json list \<Rightarrow> nat \<times> nat \<Rightarrow> bool" where
  "needs_id ms p \<longleftrightarrow> as_string (map_get (as_map (Some (ms ! fst p))) ''role'') = ''assistant'' \<and>
     (case part_at ms p of None \<Rightarrow> False | Some b \<Rightarrow> map_of b ''type'' = Some (JStr ''tool_use'') \<and>
        trim_space (as_string (map_of b ''id'')) = [])"

lemma repair_part_idle:
  "\<not> needs_id (rp_messages r) p \<Longrightarrow> rp_pending r = [] \<Longrightarrow>
     repair_part fresh (as_string (map_get (as_map (Some (rp_messages r ! fst p))) ''role'')) p r = r"
  by (auto simp: repair_part_def needs_id_def split: option.split)

lemma repair_parts_idle:
  "\<forall>q. \<not> needs_id (rp_messages r) (k, q) \<Longrightarrow> rp_pending r = [] \<Longrightarrow>
     fold (\<lambda>q. repair_part fresh (as_string (map_get (as_map (Some (rp_messages r ! k))) ''role'')) (k, q)) qs r = r"
proof (induction qs)
  case (Cons q qs)
  then show ?case using repair_part_idle [of r "(k, q)" fresh] by simp
qed simp

lemma repair_message_idle:
  "\<forall>q. \<not> needs_id (rp_messages r) (k, q) \<Longrightarrow> rp_pending r = [] \<Longrightarrow> repair_message fresh k r = r"
  using repair_parts_idle [of r k fresh] by (auto simp: repair_message_def Let_def split: option.split)

text \<open>If every call of an assistant message has an id, the request is returned byte for byte.\<close>

lemma complete_request_untouched:
  assumes "unmarshal_any ft raw = Some (JObj req)" "map_of req ''messages'' = Some (JArr ms)" "\<forall>p. \<not> needs_id ms p"
  shows "repair_claude_messages_json ft fresh raw = raw"
proof -
  let ?r = "\<lparr>rp_messages = ms, rp_pending = [], rp_drawn = 0, rp_changed = False\<rparr>"
  have "fold (repair_message fresh) ks ?r = ?r" for ks
    by (induction ks) (simp_all add: repair_message_idle assms(3))
  then show ?thesis using assms(1,2) by (simp add: repair_claude_messages_json_def repair_messages_def)
qed

end
