(* ===== verification/PluginRequest.thy ===== *)
theory PluginRequest
  imports ChatBuild ToolIds ProxyRequests
begin

text \<open>
  The request side of the plugin, \<^verbatim>\<open>plugin/cursor/kernel/executor.go\<close>: an OpenAI or Claude payload is
  parsed into a \<^verbatim>\<open>chatShape\<close>, which becomes the request for \<^verbatim>\<open>RunChat\<close>. The printing of floats is the
  argument \<open>ft\<close>, and \<open>fresh n\<close> is the \<open>n\<close>-th new tool call id.
\<close>

subsection \<open>Excluded models\<close>

fun match_parts :: "string list \<Rightarrow> string \<Rightarrow> bool" where
  "match_parts [] model \<longleftrightarrow> True"
| "match_parts (part # parts) model \<longleftrightarrow>
     (if part = [] then match_parts parts model
      else case index_str model part of
        None \<Rightarrow> False
      | Some i \<Rightarrow> match_parts parts (drop (i + length part) model))"

definition wildcard_model_match :: "string \<Rightarrow> string \<Rightarrow> bool" where
  "wildcard_model_match pattern model \<longleftrightarrow>
     (if pattern = [] then False
      else if pattern = ''*'' then True
      else let parts = split_on CHR ''*'' pattern in
        if length parts = 1 then pattern = model
        else if hd parts \<noteq> [] \<and> \<not> has_prefix model (hd parts) then False
        else let model = drop (length (hd parts)) model in
          if last parts \<noteq> [] \<and> \<not> has_suffix model (last parts) then False
          else match_parts (butlast (tl parts)) (take (length model - length (last parts)) model))"

definition excludes_model :: "string list \<Rightarrow> string \<Rightarrow> bool" where
  "excludes_model excluded model =
     list_ex (\<lambda>p. wildcard_model_match (to_lower (trim_space p)) (to_lower (trim_space model))) excluded"

subsection \<open>The shape of a chat\<close>

record chat_shape =
  sh_model :: string
  sh_system_prompt :: string
  sh_history :: "history_turn list"
  sh_user_message :: string
  sh_tools :: "tool_definition list"
  sh_stream :: bool
  sh_include_usage :: bool
  sh_effort :: string
  sh_thinking :: bool
  sh_json_schema :: string
  sh_attachments :: "attachment list"
  sh_web_search :: bool
  sh_web_fetch :: bool
  sh_force_tool :: string
  sh_max_tokens :: int
  sh_stop_sequences :: "string list"

definition zero_shape :: chat_shape where
  "zero_shape = \<lparr>sh_model = [], sh_system_prompt = [], sh_history = [], sh_user_message = [], sh_tools = [],
     sh_stream = False, sh_include_usage = False, sh_effort = [], sh_thinking = False, sh_json_schema = [],
     sh_attachments = [], sh_web_search = False, sh_web_fetch = False, sh_force_tool = [], sh_max_tokens = 0,
     sh_stop_sequences = []\<rparr>"

text \<open>A string, or what stands for one: null is the empty string.\<close>

definition as_plain_string :: "string \<Rightarrow> string option" where
  "as_plain_string raw = dec_string raw []"

definition join_non_empty :: "string list \<Rightarrow> string" where
  "join_non_empty parts = join_str ''\<newline>'' (filter (\<lambda>p. trim_space p \<noteq> []) parts)"

definition join_texts :: "string list \<Rightarrow> string" where
  "join_texts ts = fold (\<lambda>t out. if t = [] then out else add_line out t) ts []"

subsection \<open>Forced tools and structured output\<close>

record tool_choice =
  tch_type :: string
  tch_name :: string
  tch_function :: "string option"

definition parse_tool_choice :: "string \<Rightarrow> string" where
  "parse_tool_choice raw =
     (if raw = [] then []
      else case as_plain_string raw of
        Some s \<Rightarrow> if to_lower (trim_space s) = ''required'' \<or> to_lower (trim_space s) = ''any'' then ''*'' else []
      | None \<Rightarrow>
          (case dec_struct [struct_field ''type'' dec_string tch_type tch_type_update,
               struct_field ''name'' dec_string tch_name tch_name_update,
               struct_field ''function'' (dec_ptr (dec_struct [struct_field ''name'' dec_string id id]) []) tch_function tch_function_update]
             raw \<lparr>tch_type = [], tch_name = [], tch_function = None\<rparr> of
             None \<Rightarrow> []
           | Some c \<Rightarrow> let k = to_lower (trim_space (tch_type c)) in
               if k = ''tool'' then trim_space (tch_name c)
               else if k = ''function'' then (case tch_function c of Some n \<Rightarrow> trim_space n | None \<Rightarrow> [])
               else if k = ''any'' \<or> k = ''required'' then ''*'' else []))"

definition forced_tool_instruction :: "string \<Rightarrow> string" where
  "forced_tool_instruction name =
     (let name = trim_space name in
      if name = [] then []
      else if name = ''*'' then ''You MUST call one of the provided tools on this turn. Never reply with only text; if arguments are ambiguous, pick a reasonable default and call the tool anyway.''
      else ''You MUST call the `'' @ name @ ''` tool on this turn. Do not reply with only text and do not ask for clarification; if any argument is missing, pick a reasonable default value and call the tool anyway.'')"

definition compact_schema :: "string \<Rightarrow> string" where
  "compact_schema schema = (if json_valid schema then compact_json schema else schema)"

record schema_format =
  sf_type :: string
  sf_schema :: string
  sf_json_schema :: string

text \<open>The empty string is the nil schema, no constraint.\<close>

definition extract_json_schema :: "string \<Rightarrow> string" where
  "extract_json_schema format =
     (if format = [] then []
      else case dec_struct [struct_field ''type'' dec_string sf_type sf_type_update,
          struct_field ''schema'' dec_raw sf_schema sf_schema_update,
          struct_field ''json_schema'' dec_raw sf_json_schema sf_json_schema_update]
        format \<lparr>sf_type = [], sf_schema = [], sf_json_schema = []\<rparr> of
        None \<Rightarrow> []
      | Some p \<Rightarrow>
          let kind = to_lower (trim_space (sf_type p)) in
          if sf_schema p \<noteq> [] \<and> (kind = ''json_schema'' \<or> kind = []) then compact_schema (sf_schema p)
          else if sf_json_schema p \<noteq> [] then
            (case dec_struct [struct_field ''schema'' dec_raw id id] (sf_json_schema p) [] of
               Some (c # s) \<Rightarrow> compact_schema (c # s)
             | _ \<Rightarrow> compact_schema (sf_json_schema p))
          else if kind = ''json_object'' then ''{}'' else [])"

subsection \<open>Tool calls without an id\<close>

definition rewrite_line :: "(string \<Rightarrow> string option) \<Rightarrow> (nat \<Rightarrow> string) \<Rightarrow> string list \<Rightarrow> string \<Rightarrow> nat \<times> nat \<Rightarrow>
    string \<times> nat \<times> nat" where
  "rewrite_line ft fresh ids line = (\<lambda>(used, drawn).
     case line_block ft line of
       None \<Rightarrow> (line, used, drawn)
     | Some b \<Rightarrow>
         if map_of b ''type'' \<noteq> Some (JStr ''tool_use'') \<or> trim_space (as_string (map_of b ''id'')) \<noteq> []
         then (line, used, drawn)
         else if used < length ids
           then (print_json (JObj (put_member ''id'' (JStr (ids ! used)) b)), Suc used, drawn)
         else (print_json (JObj (put_member ''id'' (JStr (fresh drawn)) b)), used, Suc drawn))"

fun rewrite_lines :: "(string \<Rightarrow> string option) \<Rightarrow> (nat \<Rightarrow> string) \<Rightarrow> string list \<Rightarrow> string list \<Rightarrow> nat \<times> nat \<Rightarrow>
    string list \<times> nat \<times> nat" where
  "rewrite_lines ft fresh ids [] st = ([], st)"
| "rewrite_lines ft fresh ids (l # ls) st =
     (let (l, st) = rewrite_line ft fresh ids l st; (ls, st) = rewrite_lines ft fresh ids ls st in (l # ls, st))"

definition rewrite_empty_tool_use_ids :: "(string \<Rightarrow> string option) \<Rightarrow> (nat \<Rightarrow> string) \<Rightarrow> string list \<Rightarrow> string \<Rightarrow> nat \<times> nat \<Rightarrow>
    string \<times> nat \<times> nat" where
  "rewrite_empty_tool_use_ids ft fresh ids content st =
     (if content = [] then (content, st)
      else let (ls, st) = rewrite_lines ft fresh ids (split_on CHR 0x0A content) st in (join_str ''\<newline>'' ls, st))"

fun rewrite_history :: "(string \<Rightarrow> string option) \<Rightarrow> (nat \<Rightarrow> string) \<Rightarrow> string list \<Rightarrow> history_turn list \<Rightarrow> nat \<times> nat \<Rightarrow>
    history_turn list" where
  "rewrite_history ft fresh ids [] st = []"
| "rewrite_history ft fresh ids (t # ts) st =
     (if ht_role t \<noteq> ''assistant'' then t # rewrite_history ft fresh ids ts st
      else let (c, st) = rewrite_empty_tool_use_ids ft fresh ids (ht_content t) st
        in t\<lparr>ht_content := c\<rparr> # rewrite_history ft fresh ids ts st)"

definition result_ids :: "(string \<Rightarrow> string option) \<Rightarrow> string \<Rightarrow> string list" where
  "result_ids ft flat = map fr_tool_id (filter (\<lambda>f. fr_kind f = ''tool_result'' \<and> trim_space (fr_tool_id f) \<noteq> [])
     (parse_content_fragments ft flat))"

text \<open>\<open>drawn\<close> ids have been drawn before.\<close>

definition pair_empty_tool_use_ids :: "(string \<Rightarrow> string option) \<Rightarrow> (nat \<Rightarrow> string) \<Rightarrow> nat \<Rightarrow> string \<Rightarrow> chat_shape \<Rightarrow> chat_shape" where
  "pair_empty_tool_use_ids ft fresh drawn flat shape =
     shape\<lparr>sh_history := rewrite_history ft fresh (result_ids ft flat) (sh_history shape) (0, drawn)\<rparr>"

subsection \<open>OpenAI payloads\<close>

record plugin_call =
  pc_id :: string
  pc_type :: string
  pc_function :: "(string \<times> string) option"

record plugin_message =
  pm_role :: string
  pm_content :: string
  pm_tool_call_id :: string
  pm_tool_calls :: "plugin_call list"

record plugin_openai =
  po_model :: string
  po_messages :: "plugin_message list"
  po_stream :: bool
  po_stream_options :: "bool option"
  po_tool_choice :: string
  po_tools :: "openai_tool list"

definition dec_plugin_call :: "plugin_call decoder" where
  "dec_plugin_call = dec_struct [struct_field ''id'' dec_string pc_id pc_id_update,
     struct_field ''type'' dec_string pc_type pc_type_update,
     struct_field ''function'' (dec_ptr (dec_struct [struct_field ''name'' dec_string fst apfst,
         struct_field ''arguments'' dec_string snd apsnd]) ([], [])) pc_function pc_function_update]"

definition dec_plugin_message :: "plugin_message decoder" where
  "dec_plugin_message = dec_struct [struct_field ''role'' dec_string pm_role pm_role_update,
     struct_field ''content'' dec_raw pm_content pm_content_update,
     struct_field ''tool_call_id'' dec_string pm_tool_call_id pm_tool_call_id_update,
     struct_field ''tool_calls'' (dec_list dec_plugin_call \<lparr>pc_id = [], pc_type = [], pc_function = None\<rparr>)
       pm_tool_calls pm_tool_calls_update]"

definition dec_plugin_openai :: "(string \<Rightarrow> string option) \<Rightarrow> plugin_openai decoder" where
  "dec_plugin_openai ft = dec_struct [struct_field ''model'' dec_string po_model po_model_update,
     struct_field ''messages'' (dec_list dec_plugin_message \<lparr>pm_role = [], pm_content = [], pm_tool_call_id = [], pm_tool_calls = []\<rparr>)
       po_messages po_messages_update,
     struct_field ''stream'' dec_bool po_stream po_stream_update,
     struct_field ''stream_options'' (dec_ptr (dec_struct [struct_field ''include_usage'' dec_bool id id]) False)
       po_stream_options po_stream_options_update,
     struct_field ''tool_choice'' dec_raw po_tool_choice po_tool_choice_update,
     struct_field ''tools'' (dec_list (dec_openai_tool ft) \<lparr>ot_type = [], ot_function = None\<rparr>) po_tools po_tools_update]"

definition zero_plugin_openai :: plugin_openai where
  "zero_plugin_openai = \<lparr>po_model = [], po_messages = [], po_stream = False, po_stream_options = None, po_tool_choice = [],
     po_tools = []\<rparr>"

definition flatten_openai_content :: "string \<Rightarrow> string" where
  "flatten_openai_content raw =
     (if raw = [] then []
      else case as_plain_string raw of
        Some s \<Rightarrow> s
      | None \<Rightarrow>
          (case dec_list (dec_struct [struct_field ''type'' dec_string fst apfst, struct_field ''text'' dec_string snd apsnd]) ([], []) raw [] of
             None \<Rightarrow> []
           | Some bs \<Rightarrow> join_texts (map snd (filter (\<lambda>b. fst b = [] \<or> fst b = ''text'') bs))))"

definition flatten_openai_call :: "(string \<Rightarrow> string option) \<Rightarrow> plugin_call \<Rightarrow> string" where
  "flatten_openai_call ft c =
     (let name = (case pc_function c of Some f \<Rightarrow> fst f | None \<Rightarrow> []);
          args = (case pc_function c of Some f \<Rightarrow> if trim_space (snd f) \<noteq> [] then snd f else ''{}'' | None \<Rightarrow> ''{}'');
          input = (case unmarshal_any ft args of Some v \<Rightarrow> v | None \<Rightarrow> JObj [(''raw'', JStr args)]);
          i = trim_space (pc_id c)
      in print_json (JObj ((if i \<noteq> [] then [(''id'', JStr i)] else []) @
           [(''input'', input), (''name'', JStr name), (''type'', JStr ''tool_use'')])))"

definition flatten_openai_tool_calls :: "(string \<Rightarrow> string option) \<Rightarrow> plugin_call list \<Rightarrow> string" where
  "flatten_openai_tool_calls ft cs = join_str ''\<newline>'' (map (flatten_openai_call ft) cs)"

definition flatten_openai_tool_result :: "string \<Rightarrow> string \<Rightarrow> string" where
  "flatten_openai_tool_result tid content = print_json (JObj [(''content'', JStr (flatten_openai_content content)),
     (''tool_use_id'', JStr tid), (''type'', JStr ''tool_result'')])"

definition openai_turn :: "(string \<Rightarrow> string option) \<Rightarrow> plugin_message \<Rightarrow> string \<times> string" where
  "openai_turn ft m =
     (let t = flatten_openai_content (pm_content m) in
      if pm_role m = ''tool'' then (''user'', flatten_openai_tool_result (pm_tool_call_id m) (pm_content m))
      else if pm_role m = ''assistant'' then (''assistant'', join_non_empty [t, flatten_openai_tool_calls ft (pm_tool_calls m)])
      else (pm_role m, t))"

definition plugin_openai_tools :: "openai_tool list \<Rightarrow> tool_definition list" where
  "plugin_openai_tools ts = concat (map (\<lambda>t.
     if ot_type t \<noteq> [] \<and> ot_type t \<noteq> ''function'' then []
     else case ot_function t of
       None \<Rightarrow> []
     | Some f \<Rightarrow> if trim_space (of_name f) = [] then []
         else [\<lparr>td_name = of_name f, td_description = of_description f, td_input_schema = tool_schema (of_parameters f)\<rparr>]) ts)"

datatype parse_error = Bad_Payload | No_User_Message

definition shape_of_openai :: "(string \<Rightarrow> string option) \<Rightarrow> (nat \<Rightarrow> string) \<Rightarrow> plugin_openai \<Rightarrow> parse_error + chat_shape" where
  "shape_of_openai ft fresh req =
     (let system = fold (\<lambda>m s. if pm_role m = ''system'' then add_line s (flatten_openai_content (pm_content m)) else s) (po_messages req) [];
          turns = map (openai_turn ft) (filter (\<lambda>m. pm_role m \<noteq> ''system'') (po_messages req)) in
      case last_index (\<lambda>t. fst t = ''user'') turns of
        None \<Rightarrow> Inl No_User_Message
      | Some i \<Rightarrow> Inr (pair_empty_tool_use_ids ft fresh 0 (snd (turns ! i))
          (zero_shape\<lparr>sh_model := po_model req, sh_system_prompt := system, sh_user_message := snd (turns ! i),
             sh_stream := po_stream req, sh_include_usage := (po_stream_options req = Some True),
             sh_history := map (\<lambda>(r, t). turn r t) (filter (\<lambda>t. known_role (fst t)) (take i turns)),
             sh_tools := plugin_openai_tools (po_tools req), sh_force_tool := parse_tool_choice (po_tool_choice req)\<rparr>)))"

definition parse_openai_payload :: "(string \<Rightarrow> string option) \<Rightarrow> (nat \<Rightarrow> string) \<Rightarrow> string \<Rightarrow> parse_error + chat_shape" where
  "parse_openai_payload ft fresh body =
     (case dec_plugin_openai ft body zero_plugin_openai of
        None \<Rightarrow> Inl Bad_Payload | Some req \<Rightarrow> shape_of_openai ft fresh req)"

subsection \<open>Claude payloads\<close>

record plugin_claude =
  pq_model :: string
  pq_system :: string
  pq_messages :: "(string \<times> string) list"
  pq_stream :: bool
  pq_max_tokens :: int
  pq_stop_sequences :: "string list"
  pq_thinking :: "string option"
  pq_output_config :: "(string \<times> string) option"
  pq_response_format :: string
  pq_tool_choice :: string
  pq_tools :: "anthropic_tool list"

definition zero_plugin_claude :: plugin_claude where
  "zero_plugin_claude = \<lparr>pq_model = [], pq_system = [], pq_messages = [], pq_stream = False, pq_max_tokens = 0,
     pq_stop_sequences = [], pq_thinking = None, pq_output_config = None, pq_response_format = [], pq_tool_choice = [],
     pq_tools = []\<rparr>"

definition dec_plugin_claude :: "(string \<Rightarrow> string option) \<Rightarrow> plugin_claude decoder" where
  "dec_plugin_claude ft = dec_struct [struct_field ''model'' dec_string pq_model pq_model_update,
     struct_field ''system'' dec_raw pq_system pq_system_update,
     struct_field ''messages'' (dec_list (dec_struct [struct_field ''role'' dec_string fst apfst,
       struct_field ''content'' dec_raw snd apsnd]) ([], [])) pq_messages pq_messages_update,
     struct_field ''stream'' dec_bool pq_stream pq_stream_update,
     struct_field ''max_tokens'' dec_int pq_max_tokens pq_max_tokens_update,
     struct_field ''stop_sequences'' (dec_list dec_string []) pq_stop_sequences pq_stop_sequences_update,
     struct_field ''thinking'' (dec_ptr (dec_struct [struct_field ''type'' dec_string id id]) []) pq_thinking pq_thinking_update,
     struct_field ''output_config'' (dec_ptr (dec_struct [struct_field ''effort'' dec_string fst apfst,
       struct_field ''format'' dec_raw snd apsnd]) ([], [])) pq_output_config pq_output_config_update,
     struct_field ''response_format'' dec_raw pq_response_format pq_response_format_update,
     struct_field ''tool_choice'' dec_raw pq_tool_choice pq_tool_choice_update,
     struct_field ''tools'' (dec_list (dec_struct [struct_field ''type'' dec_string aq_type aq_type_update,
         struct_field ''name'' dec_string aq_name aq_name_update,
         struct_field ''description'' dec_string aq_description aq_description_update,
         struct_field ''input_schema'' (dec_map ft) aq_input_schema aq_input_schema_update])
       \<lparr>aq_type = [], aq_name = [], aq_description = [], aq_input_schema = None\<rparr>) pq_tools pq_tools_update]"

definition flatten_claude_system :: "(string \<Rightarrow> string option) \<Rightarrow> string \<Rightarrow> string" where
  "flatten_claude_system ft raw =
     (if raw = [] then []
      else case as_plain_string raw of
        Some s \<Rightarrow> s
      | None \<Rightarrow> (case dec_list (dec_map ft) None raw [] of
          None \<Rightarrow> [] | Some bs \<Rightarrow> join_texts (map (\<lambda>b. as_string (map_get b ''text'')) bs)))"

text \<open>One block of a content, and the number of ids drawn; None where the block is left out.\<close>

definition claude_block :: "(nat \<Rightarrow> string) \<Rightarrow> (string \<times> json) list option \<Rightarrow> nat \<Rightarrow> string option \<times> nat" where
  "claude_block fresh b n =
     (let k = as_string (map_get b ''type'') in
      if k = [] \<or> k = ''text'' then (Some (as_string (map_get b ''text'')), n)
      else if k = ''tool_use'' then
        (if trim_space (as_string (map_get b ''id'')) = []
         then (Some (print_json (JObj (put_member ''id'' (JStr (fresh n)) (the b)))), Suc n)
         else (Some (print_json (JObj (the b))), n))
      else if k = ''tool_result'' then (Some (print_json (JObj (the b))), n)
      else (None, n))"

fun claude_blocks :: "(nat \<Rightarrow> string) \<Rightarrow> (string \<times> json) list option list \<Rightarrow> nat \<Rightarrow> string \<Rightarrow> string \<times> nat" where
  "claude_blocks fresh [] n out = (out, n)"
| "claude_blocks fresh (b # bs) n out =
     (case claude_block fresh b n of
        (Some c, n) \<Rightarrow> claude_blocks fresh bs n (if c = [] then out else add_line out c)
      | (None, n) \<Rightarrow> claude_blocks fresh bs n out)"

definition flatten_claude_content :: "(string \<Rightarrow> string option) \<Rightarrow> (nat \<Rightarrow> string) \<Rightarrow> string \<Rightarrow> nat \<Rightarrow> string \<times> nat" where
  "flatten_claude_content ft fresh raw n =
     (if raw = [] then ([], n)
      else case as_plain_string raw of
        Some s \<Rightarrow> (s, n)
      | None \<Rightarrow> (case dec_list (dec_map ft) None raw [] of None \<Rightarrow> ([], n) | Some bs \<Rightarrow> claude_blocks fresh bs n []))"

definition continue_from_tool_results :: "(string \<Rightarrow> string option) \<Rightarrow> string \<Rightarrow> string" where
  "continue_from_tool_results ft content =
     (let fs = parse_content_fragments ft content in
      if fs = [] \<or> \<not> list_all (\<lambda>f. fr_kind f = ''tool_result'') fs then content
      else ''Continue from these tool results. Do not call the same tool again unless the result is insufficient.'' @ ''\<newline>'' @
        concat (map (\<lambda>f. ''\<newline>'' @ transcript f @ ''\<newline>'') fs))"

definition attachment_extension :: "string \<Rightarrow> string \<Rightarrow> string" where
  "attachment_extension mime k =
     (let m = to_lower (trim_space mime) in
      if m = ''image/png'' then ''.png'' else if m = ''image/jpeg'' then ''.jpg'' else if m = ''image/gif'' then ''.gif''
      else if m = ''image/webp'' then ''.webp'' else if m = ''application/pdf'' then ''.pdf'' else if m = ''text/plain'' then ''.txt''
      else if k = ''image'' then ''.img'' else ''.bin'')"

record claude_source =
  cl_kind :: string
  cl_source_type :: string
  cl_media_type :: string
  cl_data :: string
  cl_title :: string

definition dec_claude_source :: "claude_source decoder" where
  "dec_claude_source = dec_struct [struct_field ''type'' dec_string cl_kind cl_kind_update,
     (''source'', dec_struct [struct_field ''type'' dec_string cl_source_type cl_source_type_update,
       struct_field ''media_type'' dec_string cl_media_type cl_media_type_update,
       struct_field ''data'' dec_string cl_data cl_data_update]),
     struct_field ''title'' dec_string cl_title cl_title_update]"

definition claude_attachment :: "nat \<Rightarrow> claude_source \<Rightarrow> attachment option" where
  "claude_attachment i b =
     (if cl_kind b \<noteq> ''image'' \<and> cl_kind b \<noteq> ''document'' then None
      else if cl_source_type b \<noteq> ''base64'' \<or> cl_data b = [] then None
      else case (case b64_decode False True (cl_data b) of Some d \<Rightarrow> Some d | None \<Rightarrow> b64_decode False False (cl_data b)) of
        None \<Rightarrow> None
      | Some data \<Rightarrow>
          if data = [] then None
          else Some \<lparr>at_kind = cl_kind b,
            at_filename = (if trim_space (cl_title b) \<noteq> [] then trim_space (cl_title b)
              else cl_kind b @ ''-'' @ fmt_int (int i + 1) @ attachment_extension (cl_media_type b) (cl_kind b)),
            at_mime_type = cl_media_type b, at_data = data\<rparr>)"

definition extract_claude_attachments :: "string \<Rightarrow> attachment list" where
  "extract_claude_attachments raw =
     (if raw = [] then []
      else case dec_list dec_claude_source \<lparr>cl_kind = [], cl_source_type = [], cl_media_type = [], cl_data = [], cl_title = []\<rparr> raw [] of
        None \<Rightarrow> []
      | Some bs \<Rightarrow> List.map_filter (\<lambda>(i, b). claude_attachment i b) (enumerate 0 bs))"

definition tool_type :: "anthropic_tool \<Rightarrow> string" where
  "tool_type t = to_lower (trim_space (aq_type t))"

definition is_server_tool_type :: "anthropic_tool \<Rightarrow> bool" where
  "is_server_tool_type t \<longleftrightarrow> has_prefix (tool_type t) ''web_search_'' \<or> has_prefix (tool_type t) ''web_fetch_''"

definition plugin_claude_tools :: "anthropic_tool list \<Rightarrow> tool_definition list" where
  "plugin_claude_tools ts = map (\<lambda>t. \<lparr>td_name = aq_name t, td_description = aq_description t,
       td_input_schema = tool_schema (aq_input_schema t)\<rparr>)
     (filter (\<lambda>t. \<not> is_server_tool_type t \<and> trim_space (aq_name t) \<noteq> []) ts)"

fun claude_history :: "(string \<Rightarrow> string option) \<Rightarrow> (nat \<Rightarrow> string) \<Rightarrow> (string \<times> string) list \<Rightarrow> nat \<Rightarrow> history_turn list" where
  "claude_history ft fresh [] n = []"
| "claude_history ft fresh ((role, content) # ms) n =
     (if known_role role
      then let (c, n) = flatten_claude_content ft fresh content n in turn role c # claude_history ft fresh ms n
      else claude_history ft fresh ms n)"

text \<open>The ids of the flattening are \<open>fresh 1\<close>, those of the pairing \<open>fresh 2\<close>.\<close>

definition shape_of_claude :: "(string \<Rightarrow> string option) \<Rightarrow> (nat \<Rightarrow> nat \<Rightarrow> string) \<Rightarrow> plugin_claude \<Rightarrow> parse_error + chat_shape" where
  "shape_of_claude ft fresh req =
     (case last_index (\<lambda>m. fst m = ''user'') (pq_messages req) of
        None \<Rightarrow> Inl No_User_Message
      | Some i \<Rightarrow>
          let (flat, n) = flatten_claude_content ft (fresh 1) (snd (pq_messages req ! i)) 0;
              schema = (case pq_output_config req of Some c \<Rightarrow> extract_json_schema (snd c) | None \<Rightarrow> [])
          in Inr (pair_empty_tool_use_ids ft (fresh 2) 0 flat
            (zero_shape\<lparr>sh_model := pq_model req, sh_system_prompt := flatten_claude_system ft (pq_system req),
               sh_user_message := continue_from_tool_results ft flat, sh_stream := pq_stream req,
               sh_attachments := extract_claude_attachments (snd (pq_messages req ! i)),
               sh_max_tokens := pq_max_tokens req, sh_stop_sequences := pq_stop_sequences req,
               sh_thinking := (case pq_thinking req of Some t \<Rightarrow> equal_fold (trim_space t) ''adaptive'' \<or> equal_fold (trim_space t) ''enabled'' | None \<Rightarrow> False),
               sh_effort := (case pq_output_config req of Some c \<Rightarrow> to_lower (trim_space (fst c)) | None \<Rightarrow> []),
               sh_json_schema := (if schema = [] \<and> pq_response_format req \<noteq> [] then extract_json_schema (pq_response_format req) else schema),
               sh_history := claude_history ft (fresh 1) (take i (pq_messages req)) n,
               sh_web_search := list_ex (\<lambda>t. has_prefix (tool_type t) ''web_search_'') (pq_tools req),
               sh_web_fetch := list_ex (\<lambda>t. has_prefix (tool_type t) ''web_fetch_'') (pq_tools req),
               sh_tools := plugin_claude_tools (pq_tools req), sh_force_tool := parse_tool_choice (pq_tool_choice req)\<rparr>)))"

definition parse_claude_payload :: "(string \<Rightarrow> string option) \<Rightarrow> (nat \<Rightarrow> nat \<Rightarrow> string) \<Rightarrow> string \<Rightarrow> parse_error + chat_shape" where
  "parse_claude_payload ft fresh body =
     (case dec_plugin_claude ft (repair_claude_messages_json ft (fresh 0) body) zero_plugin_claude of
        None \<Rightarrow> Inl Bad_Payload | Some req \<Rightarrow> shape_of_claude ft fresh req)"

definition normalise_format :: "string \<Rightarrow> string \<Rightarrow> string" where
  "normalise_format format source =
     (let f = to_lower (trim_space format); sf = to_lower (trim_space source) in
      if f = ''openai'' \<or> f = ''openai-response'' then ''openai''
      else if f = ''claude'' \<or> f = ''anthropic'' then ''claude''
      else if sf = ''openai'' \<or> sf = ''openai-response'' then ''openai''
      else if sf = ''claude'' \<or> sf = ''anthropic'' then ''claude'' else ''openai'')"

definition parse_by_format :: "(string \<Rightarrow> string option) \<Rightarrow> (nat \<Rightarrow> nat \<Rightarrow> string) \<Rightarrow> string \<Rightarrow> string \<Rightarrow> parse_error + chat_shape" where
  "parse_by_format ft fresh payload format =
     (if normalise_format format [] = ''claude'' then parse_claude_payload ft fresh payload
      else parse_openai_payload ft (fresh 0) payload)"

subsection \<open>The chat request\<close>

definition normalize_cursor_effort :: "string \<Rightarrow> string" where
  "normalize_cursor_effort effort =
     (let e = to_lower (trim_space effort) in
      if e \<in> {''low'', ''medium'', ''high'', ''xhigh'', ''max''} then e else [])"

definition chat_model_parameters :: "bool \<Rightarrow> string \<Rightarrow> (string \<times> string) list" where
  "chat_model_parameters thinking effort =
     (if thinking then [(''thinking'', ''true'')] else []) @
     (if normalize_cursor_effort effort \<noteq> [] then [(''effort'', normalize_cursor_effort effort)] else [])"

text \<open>The name without a tier, whether it was a thinking one, and the tier.\<close>

fun split_tier :: "string \<Rightarrow> string list \<Rightarrow> string \<times> bool \<times> string" where
  "split_tier core [] = (core, False, [])"
| "split_tier core (t # ts) =
     (if has_suffix core (''-thinking-'' @ t) then (trim_suffix core (''-thinking-'' @ t), True, t)
      else if has_suffix core (''-'' @ t) then (trim_suffix core (''-'' @ t), False, t)
      else split_tier core ts)"

definition cursor_tiers :: "string list" where
  "cursor_tiers = [''low'', ''medium'', ''high'', ''xhigh'', ''max'']"

definition resolve_cursor_server_tool_variant :: "string \<Rightarrow> bool \<Rightarrow> string" where
  "resolve_cursor_server_tool_variant model server_tools =
     (if \<not> server_tools then model
      else let fast = has_suffix model ''-fast''; (base, thinking, _) = split_tier (trim_suffix model ''-fast'') cursor_tiers in
        if base \<noteq> ''claude-opus-4-8'' then model
        else base @ (if thinking then ''-thinking-'' else ''-'') @ ''low'' @ (if fast then ''-fast'' else []))"

definition resolve_cursor_model_variant :: "string \<Rightarrow> string \<Rightarrow> bool \<Rightarrow> string" where
  "resolve_cursor_model_variant model effort thinking =
     (let model = trim_space model in
      if model = [] then model
      else let fast = has_suffix model ''-fast''; (base, _, current) = split_tier (trim_suffix model ''-fast'') cursor_tiers;
          asked = normalize_cursor_effort effort;
          tier = (if asked \<noteq> [] then asked else if current \<noteq> [] then current else ''medium'') in
        if \<not> thinking \<and> asked = [] then model
        else base @ (if thinking then ''-thinking-'' else ''-'') @ tier @ (if fast then ''-fast'' else []))"

text \<open>
  A header whose name differs only in case from the wanted one; of several the first in the order of
  the map, which is the order of the list.
\<close>

definition first_header :: "(string \<times> string list) list \<Rightarrow> string \<Rightarrow> string" where
  "first_header hs name =
     (case List.find (\<lambda>(k, vs). to_lower k = to_lower name \<and> vs \<noteq> []) hs of
        Some (k, v # vs) \<Rightarrow> v | _ \<Rightarrow> [])"

definition api_conversation_mode :: "bool \<Rightarrow> nat" where
  "api_conversation_mode has_tools = (if has_tools then 1 else 2)"

definition shape_system :: "chat_shape \<Rightarrow> string" where
  "shape_system shape =
     (if sh_json_schema shape = [] then sh_system_prompt shape
      else sh_system_prompt shape @ (if sh_system_prompt shape \<noteq> [] then ''\<newline>\<newline>'' else []) @
        (if trim_space (sh_json_schema shape) = ''{}''
         then ''Return only valid JSON. Do not use Markdown fences or add explanatory text.''
         else ''Return only valid JSON matching this JSON Schema. Do not use Markdown fences or add explanatory text:'' @ ''\<newline>'' @
           sh_json_schema shape))"

definition build_chat_request :: "chat_shape \<Rightarrow> (string \<times> string list) list \<Rightarrow> chat_request" where
  "build_chat_request shape headers =
     (let server = sh_web_search shape \<or> sh_web_fetch shape;
          effort = (if sh_thinking shape \<and> normalize_cursor_effort (sh_effort shape) = [] then ''high'' else sh_effort shape);
          instr = forced_tool_instruction (sh_force_tool shape);
          user = sh_user_message shape @ (if instr \<noteq> [] then (if sh_user_message shape \<noteq> [] then ''\<newline>\<newline>'' else []) @ instr else [])
      in empty_chat_request\<lparr>cr_model := resolve_cursor_server_tool_variant (sh_model shape) server,
           cr_model_parameters := chat_model_parameters (sh_thinking shape) effort, cr_user_message := user,
           cr_system_prompt := shape_system shape, cr_history := sh_history shape,
           cr_mode := api_conversation_mode (sh_tools shape \<noteq> [] \<or> server), cr_pure_mode := \<not> server,
           cr_auto_stop_on_turn_end := True, cr_auto_stop_on_tool_call := True, cr_tools := sh_tools shape,
           cr_attachments := sh_attachments shape, cr_web_search := sh_web_search shape, cr_web_fetch := sh_web_fetch shape,
           cr_conversation_id := first_header headers ''X-Conversation-Id''\<rparr>)"

end
