(* ===== verification/ModelPatterns.thy ===== *)
theory ModelPatterns
  imports PluginRequest
begin

text \<open>
  \<^verbatim>\<open>wildcardModelMatch\<close> of \<^verbatim>\<open>plugin/cursor/kernel/executor.go\<close> against a definition of matching: the
  search from the left that the code does finds a match whenever there is one.
\<close>

text \<open>A star matches any string, every other byte itself.\<close>

primrec glob :: "string \<Rightarrow> string \<Rightarrow> bool" where
  "glob [] s \<longleftrightarrow> s = []"
| "glob (c # p) s \<longleftrightarrow>
     (if c = CHR ''*'' then \<exists>k \<le> length s. glob p (drop k s)
      else case s of [] \<Rightarrow> False | d # s \<Rightarrow> c = d \<and> glob p s)"

fun parts_match :: "string list \<Rightarrow> string \<Rightarrow> bool" where
  "parts_match [] s \<longleftrightarrow> s = []"
| "parts_match [a] s \<longleftrightarrow> s = a"
| "parts_match (a # b # ps) s \<longleftrightarrow> (\<exists>s1 s2. s = a @ s1 @ s2 \<and> parts_match (b # ps) s2)"

fun mids :: "string list \<Rightarrow> string \<Rightarrow> bool" where
  "mids [] m \<longleftrightarrow> True"
| "mids (x # xs) m \<longleftrightarrow> (\<exists>u v. m = u @ x @ v \<and> mids xs v)"

lemma parts_match_Cons: "parts_match ((c # a) # ps) s \<longleftrightarrow> (\<exists>t. s = c # t \<and> parts_match (a # ps) t)"
  by (cases ps) auto

lemma parts_match_star: "parts_match ([] # p # ps) s \<longleftrightarrow> (\<exists>k \<le> length s. parts_match (p # ps) (drop k s))"
proof
  assume "parts_match ([] # p # ps) s"
  then obtain s1 s2 where s: "s = s1 @ s2" "parts_match (p # ps) s2" by auto
  then have "length s1 \<le> length s" "parts_match (p # ps) (drop (length s1) s)" by simp_all
  then show "\<exists>k \<le> length s. parts_match (p # ps) (drop k s)" by blast
next
  assume "\<exists>k \<le> length s. parts_match (p # ps) (drop k s)"
  then show "parts_match ([] # p # ps) s" by (auto intro: append_take_drop_id [symmetric])
qed

lemma glob_parts: "glob p s \<longleftrightarrow> parts_match (split_on CHR ''*'' p) s"
proof (induction p arbitrary: s)
  case (Cons c p)
  obtain q qs where q: "split_on CHR ''*'' p = q # qs" by (cases "split_on CHR ''*'' p") simp_all
  show ?case
  proof (cases "c = CHR ''*''")
    case True
    then show ?thesis using Cons.IH q by (simp only: glob.simps split_on.simps if_True simp_thms parts_match_star)
  next
    case False
    then show ?thesis using Cons.IH q by (cases s) (auto simp: parts_match_Cons)
  qed
qed simp

lemma parts_match_ends: "parts_match (a # mid @ [z]) s \<longleftrightarrow> (\<exists>m. s = a @ m @ z \<and> mids mid m)"
proof (induction mid arbitrary: a s)
  case (Cons x xs)
  have "parts_match (a # (x # xs) @ [z]) s \<longleftrightarrow> (\<exists>s1 s2. s = a @ s1 @ s2 \<and> parts_match (x # xs @ [z]) s2)" by simp
  also have "\<dots> \<longleftrightarrow> (\<exists>s1 m. s = a @ s1 @ (x @ m @ z) \<and> mids xs m)" unfolding Cons.IH by blast
  also have "\<dots> \<longleftrightarrow> (\<exists>m. s = a @ m @ z \<and> mids (x # xs) m)" by auto (metis append.assoc)+
  finally show ?case .
qed auto

lemma mids_longer: "mids xs v \<Longrightarrow> mids xs (u @ v)"
  by (cases xs) (auto, metis append.assoc)

lemma index_str_found: "index_str m x = Some i \<Longrightarrow> m = take i m @ x @ drop (i + length x) m"
proof -
  assume "index_str m x = Some i"
  then have "has_prefix (drop i m) x" using index_str_Some by blast
  then obtain r where r: "drop i m = x @ r" by (auto simp: has_prefix_iff)
  then have "drop (length x) (drop i m) = r" by simp
  then have "drop (i + length x) m = r" by (simp add: add.commute)
  then show ?thesis using r by (metis append_take_drop_id)
qed

lemma index_str_first: "index_str (u @ x @ v) x = Some i \<Longrightarrow> i \<le> length u"
  using index_str_least [of "u @ x @ v" x i "length u"] by (auto simp: has_prefix_iff intro: ccontr)

lemma match_parts_mids: "match_parts ps m \<longleftrightarrow> mids ps m"
proof (induction ps m rule: match_parts.induct)
  case (2 x xs m)
  show ?case
  proof (cases "x = []")
    case True
    then have "match_parts (x # xs) m \<longleftrightarrow> mids xs m" using 2 by simp
    also have "\<dots> \<longleftrightarrow> mids (x # xs) m"
    proof
      assume "mids xs m"
      then have "m = [] @ x @ m \<and> mids xs m" using True by simp
      then show "mids (x # xs) m" unfolding mids.simps by blast
    next
      assume "mids (x # xs) m"
      then show "mids xs m" using True by (auto intro: mids_longer)
    qed
    finally show ?thesis .
  next
    case False
    show ?thesis
    proof (cases "index_str m x")
      case None
      then have "\<not> contains_str m x" by (simp add: contains_str_def)
      then show ?thesis using None False by (auto simp: contains_str_iff)
    next
      case (Some i)
      have "match_parts (x # xs) m \<longleftrightarrow> mids xs (drop (i + length x) m)"
        using 2 False Some by simp
      also have "\<dots> \<longleftrightarrow> mids (x # xs) m"
      proof
        assume "mids xs (drop (i + length x) m)"
        moreover have "m = take i m @ x @ drop (i + length x) m" using Some by (rule index_str_found)
        ultimately show "mids (x # xs) m" unfolding mids.simps by blast
      next
        assume "mids (x # xs) m"
        then obtain u v where m: "m = u @ x @ v" "mids xs v" by auto
        then have i: "i \<le> length u" using Some index_str_first by simp
        have "drop (i + length x) m = drop (length x) (drop i m)" by (simp add: add.commute)
        also have "drop i m = drop i u @ x @ v" using i m(1) by simp
        also have "drop (length x) (drop i u @ x @ v) = drop (length x) (drop i u @ x) @ v" by simp
        finally have "drop (i + length x) m = drop (length x) (drop i u @ x) @ v" .
        then show "mids xs (drop (i + length x) m)" using m(2) mids_longer by metis
      qed
      finally show ?thesis .
    qed
  qed
qed simp

text \<open>
  C11: A model is excluded exactly if a pattern covers it. With the star for any string, the pieces of the
  pattern between the stars, searched from the left between the fixed beginning and end, decide what the
  definition of matching says. Only the empty pattern covers nothing, not even the empty name.
\<close>

theorem wildcard_model_match_spec: "wildcard_model_match pattern model \<longleftrightarrow> pattern \<noteq> [] \<and> glob pattern model"
proof (cases "pattern = [] \<or> pattern = ''*''")
  case True
  then show ?thesis by (auto simp: wildcard_model_match_def intro: exI [of _ "length model"])
next
  case False
  let ?parts = "split_on CHR ''*'' pattern"
  show ?thesis
  proof (cases "length ?parts = 1")
    case True
    then obtain a where a: "?parts = [a]" by (auto simp: length_Suc_conv)
    then have "pattern = a" using join_split [of "CHR ''*''" pattern] by simp
    then show ?thesis using False a by (auto simp: wildcard_model_match_def glob_parts)
  next
    case several: False
    then obtain a mid z where p: "?parts = a # mid @ [z]"
      using split_on_nonempty [of "CHR ''*''" pattern]
      by (metis append_butlast_last_id length_Cons list.exhaust list.size(3) One_nat_def)
    have "wildcard_model_match pattern model \<longleftrightarrow> has_prefix model a \<and>
        (let m = drop (length a) model in has_suffix m z \<and> match_parts mid (take (length m - length z) m))"
      using False several by (auto simp: wildcard_model_match_def p Let_def has_prefix_def has_suffix_def)
    also have "\<dots> \<longleftrightarrow> (\<exists>m. model = a @ m @ z \<and> mids mid m)"
      by (auto simp: Let_def match_parts_mids has_prefix_iff has_suffix_iff)
    also have "\<dots> \<longleftrightarrow> glob pattern model" by (simp only: glob_parts p parts_match_ends)
    finally show ?thesis using False by simp
  qed
qed

end
