(* ===== verification/PluginEvents.thy ===== *)
theory PluginEvents
  imports PluginRequest Anthropic ServerMessages AssistantText
begin

text \<open>
  The events the plugin passes on, and its text tracker and token estimate: the last part of
  \<^verbatim>\<open>plugin/cursor/kernel/executor.go\<close>. Cursor's own searches and fetches become calls of the client's tool
  where the client declared one, server tool events where the caller asked for them, and are dropped
  otherwise.
\<close>

subsection \<open>Events\<close>

definition declared_tool_names :: "tool_definition list \<Rightarrow> string list" where
  "declared_tool_names tools = filter (\<lambda>n. n \<noteq> []) (map (\<lambda>t. trim_space (td_name t)) tools)"

definition is_fetch_tool_name :: "string \<Rightarrow> bool" where
  "is_fetch_tool_name name \<longleftrightarrow> to_lower (trim_space name) \<in>
     {''web_fetch'', ''webfetch'', ''fetch'', ''web_fetch_tool_call'', ''webfetchtoolcall'', ''fetchtoolcall''}"

definition declared_client_tool_name :: "string list \<Rightarrow> string list \<Rightarrow> string" where
  "declared_client_tool_name names aliases =
     (case List.find (\<lambda>n. to_lower n \<in> set (map to_lower aliases)) (map trim_space names) of
        Some n \<Rightarrow> n | None \<Rightarrow> [])"

definition is_client_tool_event :: "event_kind \<Rightarrow> bool" where
  "is_client_tool_event k \<longleftrightarrow> k \<in> {EventToolCallStarted, EventToolCallDelta, EventToolCallCompleted}"

definition rename_tool :: "event_kind \<Rightarrow> string \<Rightarrow> event \<Rightarrow> event" where
  "rename_tool k name ev = ev\<lparr>ev_kind := k, ev_tool_name := name\<rparr>"

definition rewrite_fetch_event :: "event \<Rightarrow> string \<Rightarrow> bool \<Rightarrow> event option" where
  "rewrite_fetch_event ev fetch_name server_fetch =
     (if fetch_name \<noteq> [] then
        Some (rename_tool (if ev_kind ev \<in> {EventServerToolStarted, EventServerToolPermission}
          then EventToolCallStarted else ev_kind ev) fetch_name ev)
      else if \<not> server_fetch then None
      else if ev_kind ev \<in> {EventToolCallStarted, EventServerToolStarted, EventServerToolPermission}
        then Some (rename_tool EventServerToolStarted ''web_fetch'' ev)
      else if ev_kind ev = EventToolCallCompleted then Some (rename_tool EventWebSearchResult ''web_fetch'' ev)
      else if ev_kind ev = EventToolCallDelta then None
      else Some (ev\<lparr>ev_tool_name := ''web_fetch''\<rparr>))"

text \<open>The flag for server searches is an argument that no branch looks at.\<close>

definition rewrite_native_web_search :: "event \<Rightarrow> string list \<Rightarrow> bool \<Rightarrow> bool \<Rightarrow> event option" where
  "rewrite_native_web_search ev names server_search server_fetch =
     (let search_name = declared_client_tool_name names [''websearch'', ''web_search''];
          fetch_name = declared_client_tool_name names [''webfetch'', ''web_fetch''];
          fetch = is_fetch_tool_name (ev_tool_name ev) in
      case ev_kind ev of
        EventServerToolPermission \<Rightarrow>
          (if to_lower (ev_tool_name ev) = ''web_search'' then
             (if search_name = [] then Some (rename_tool EventServerToolStarted ''web_search'' ev)
              else Some (rename_tool EventToolCallStarted search_name ev))
           else if to_lower (ev_tool_name ev) = ''web_fetch'' then
             (if fetch_name \<noteq> [] then Some (rename_tool EventToolCallStarted fetch_name ev)
              else if server_fetch then Some (rename_tool EventServerToolStarted ''web_fetch'' ev) else None)
           else None)
      | EventServerToolStarted \<Rightarrow>
          (if fetch then rewrite_fetch_event ev fetch_name server_fetch
           else if search_name \<noteq> [] \<and> equal_fold (ev_tool_name ev) ''web_search''
             then Some (rename_tool EventToolCallStarted search_name ev)
           else Some ev)
      | EventWebSearchResult \<Rightarrow>
          (if fetch then (if fetch_name \<noteq> [] \<or> \<not> server_fetch then None else Some ev)
           else if search_name \<noteq> [] then None else Some ev)
      | _ \<Rightarrow>
          (if is_client_tool_event (ev_kind ev)
           then (if fetch then rewrite_fetch_event ev fetch_name server_fetch else Some ev)
           else if fetch_name = [] \<and> fetch \<and> \<not> server_fetch then None else Some ev))"

definition translate_plugin_event :: "(string \<Rightarrow> string option) \<Rightarrow> tool_definition list \<Rightarrow> server_message \<Rightarrow>
    event option" where
  "translate_plugin_event pb_value tools m =
     (let names = declared_tool_names tools in
      case from_server_message pb_value m of
        None \<Rightarrow> None
      | Some ev \<Rightarrow>
          (case rewrite_native_web_search ev names False False of
             None \<Rightarrow> None
           | Some ev \<Rightarrow>
               if names = [] then (if is_client_tool_event (ev_kind ev) then None else Some ev)
               else if is_client_tool_event (ev_kind ev) then Some (apply_client_tool_alias names ev) else Some ev))"

definition canonicalize_tool_event :: "event \<Rightarrow> event" where
  "canonicalize_tool_event ev =
     (if ev_tool_call_id ev = [] then ev
      else ev\<lparr>ev_tool_call_id := canonical_anthropic_tool_id (ev_tool_call_id ev)
        (ev_kind ev \<in> {EventServerToolStarted, EventWebSearchResult, EventServerToolPermission})\<rparr>)"

definition translate_claude_event :: "(string \<Rightarrow> string option) \<Rightarrow> tool_definition list \<Rightarrow> tool_name_dialect \<Rightarrow> bool \<Rightarrow> bool \<Rightarrow>
    server_message \<Rightarrow> event option" where
  "translate_claude_event pb_value tools dialect server_search server_fetch m =
     (let names = declared_tool_names tools in
      case from_server_message pb_value m of
        None \<Rightarrow> None
      | Some ev \<Rightarrow>
          (case rewrite_native_web_search ev names server_search server_fetch of
             None \<Rightarrow> None
           | Some ev \<Rightarrow>
               let ev = canonicalize_tool_event ev in
               if names = [] \<and> is_client_tool_event (ev_kind ev) then None
               else if is_client_tool_event (ev_kind ev) then Some (apply_client_tool_contract dialect names ev) else Some ev))"

definition translate_claude_execute_event :: "(string \<Rightarrow> string option) \<Rightarrow> chat_shape \<Rightarrow> server_message \<Rightarrow> event option" where
  "translate_claude_execute_event pb_value shape =
     translate_claude_event pb_value (sh_tools shape) Claude_Code (sh_web_search shape) (sh_web_fetch shape)"

subsection \<open>The text tracker\<close>

text \<open>The longest beginning of \<open>full\<close>, of at most \<open>n\<close> bytes, with which \<open>sent\<close> ends, is left out.\<close>

fun diff_overlap :: "string \<Rightarrow> string \<Rightarrow> nat \<Rightarrow> string" where
  "diff_overlap sent full 0 = full"
| "diff_overlap sent full (Suc n) =
     (if has_suffix sent (take (Suc n) full) then drop (Suc n) full else diff_overlap sent full n)"

definition diff_suffix :: "string \<Rightarrow> string \<Rightarrow> string" where
  "diff_suffix sent full =
     (if sent = [] then full
      else if full = sent \<or> has_prefix sent full then []
      else if has_prefix full sent then drop (length sent) full
      else diff_overlap sent full (min (length sent) (length full)))"

record assistant_stream =
  as_emitted :: string
  as_saw_snapshot :: bool

definition consume_delta :: "string \<Rightarrow> assistant_stream \<Rightarrow> string \<times> assistant_stream" where
  "consume_delta delta s =
     (if delta = [] \<or> as_saw_snapshot s then ([], s) else (delta, s\<lparr>as_emitted := as_emitted s @ delta\<rparr>))"

definition consume_snapshot :: "string \<Rightarrow> assistant_stream \<Rightarrow> string \<times> assistant_stream" where
  "consume_snapshot full s =
     (if full = [] then ([], s)
      else let delta = diff_suffix (as_emitted s) full in
        (delta, s\<lparr>as_saw_snapshot := True, as_emitted := as_emitted s @ delta\<rparr>))"

definition new_assistant_stream :: assistant_stream where
  "new_assistant_stream = \<lparr>as_emitted = [], as_saw_snapshot = False\<rparr>"

subsection \<open>Tokens\<close>

text \<open>The rune at the head of a string, whose width is \<open>rune_width\<close>; a byte that starts none is \<open>0xFFFD\<close>.\<close>

fun rune_value :: "string \<Rightarrow> nat" where
  "rune_value [] = 0xFFFD"
| "rune_value (c # s) =
     (let b = byte_of c; x = (\<lambda>i. byte_of (s ! i) mod 64); w = rune_width (c # s) in
      if w = 2 then (b mod 32) * 64 + x 0
      else if w = 3 then ((b mod 16) * 64 + x 0) * 64 + x 1
      else if w = 4 then (((b mod 8) * 64 + x 0) * 64 + x 1) * 64 + x 2
      else if b < 0x80 then b else 0xFFFD)"

definition is_cjk :: "nat \<Rightarrow> bool" where
  "is_cjk r \<longleftrightarrow> 0x3400 \<le> r \<and> r \<le> 0x4DBF \<or> 0x4E00 \<le> r \<and> r \<le> 0x9FFF \<or> 0xF900 \<le> r \<and> r \<le> 0xFAFF \<or>
     0x20000 \<le> r \<and> r \<le> 0x2A6DF \<or> 0x3040 \<le> r \<and> r \<le> 0x30FF \<or> 0xAC00 \<le> r \<and> r \<le> 0xD7AF"

text \<open>
  A quarter for a rune, two thirds for a CJK one. The first division of doubles is exact; the second is
  if the number is a multiple of 3, and otherwise the sum is at least 1/12 away from an integer,
  so that rounding changes nothing below \<open>2 ^ 40\<close> runes.
\<close>

definition plugin_count_tokens :: "string \<Rightarrow> int" where
  "plugin_count_tokens s =
     (let rs = map (\<lambda>i. rune_value (drop i s)) (rune_starts s);
          cjk = length (filter is_cjk rs); other = length (filter (\<lambda>r. \<not> is_cjk r) rs)
      in int ((3 * other + 8 * cjk) div 12))"

subsection \<open>What a caller is sent\<close>

text \<open>The caller declared a tool of one of these names, in whatever case.\<close>

definition offers :: "tool_definition list \<Rightarrow> string list \<Rightarrow> bool" where
  "offers tools names \<longleftrightarrow> (\<exists>n \<in> set (declared_tool_names tools). to_lower n \<in> set names)"

lemma declared_names_trimmed: "n \<in> set (declared_tool_names tools) \<Longrightarrow> trim_space n = n \<and> n \<noteq> []"
  by (auto simp: declared_tool_names_def)

lemma declared_client_tool:
  assumes "\<forall>a \<in> set aliases. to_lower a = a"
  shows "declared_client_tool_name (declared_tool_names tools) aliases = [] \<longleftrightarrow> \<not> offers tools aliases"
    and "declared_client_tool_name (declared_tool_names tools) aliases \<noteq> [] \<Longrightarrow>
      to_lower (declared_client_tool_name (declared_tool_names tools) aliases) \<in> set aliases"
    and "trim_space (declared_client_tool_name (declared_tool_names tools) aliases) =
      declared_client_tool_name (declared_tool_names tools) aliases"
proof -
  let ?p = "\<lambda>n. to_lower n \<in> set aliases"
  have a: "set (map to_lower aliases) = set aliases" using assms by force
  have t: "map trim_space (declared_tool_names tools) = declared_tool_names tools"
    by (rule map_idI) (simp add: declared_names_trimmed)
  have d: "declared_client_tool_name (declared_tool_names tools) aliases =
      (case List.find ?p (declared_tool_names tools) of Some n \<Rightarrow> n | None \<Rightarrow> [])"
    unfolding declared_client_tool_name_def a t ..
  have found: "List.find ?p (declared_tool_names tools) = Some n \<Longrightarrow> ?p n \<and> n \<in> set (declared_tool_names tools)" for n
    by (auto simp: find_Some_iff)
  show "declared_client_tool_name (declared_tool_names tools) aliases = [] \<longleftrightarrow> \<not> offers tools aliases"
  proof (cases "List.find ?p (declared_tool_names tools)")
    case None
    then have "\<not> offers tools aliases" unfolding find_None_iff offers_def by blast
    then show ?thesis unfolding d None by simp
  next
    case (Some n)
    then have "n \<in> set (declared_tool_names tools)" "?p n" by (auto simp: find_Some_iff)
    moreover have "n \<noteq> []" using \<open>n \<in> _\<close> by (simp add: declared_names_trimmed)
    ultimately show ?thesis unfolding d offers_def Some by auto
  qed
  show "declared_client_tool_name (declared_tool_names tools) aliases \<noteq> [] \<Longrightarrow>
      to_lower (declared_client_tool_name (declared_tool_names tools) aliases) \<in> set aliases"
    unfolding d by (cases "List.find ?p (declared_tool_names tools)") (auto dest: found)
  show "trim_space (declared_client_tool_name (declared_tool_names tools) aliases) =
      declared_client_tool_name (declared_tool_names tools) aliases"
    unfolding d by (cases "List.find ?p (declared_tool_names tools)") (auto dest: found simp: declared_names_trimmed)
qed

lemmas search_tool = declared_client_tool [where aliases = "[''websearch'', ''web_search'']"]
lemmas fetch_tool = declared_client_tool [where aliases = "[''webfetch'', ''web_fetch'']"]

lemma fetch_name_shape: "trim_space f = f \<Longrightarrow> is_fetch_tool_name f \<longleftrightarrow> to_lower f \<in>
     {''web_fetch'', ''webfetch'', ''fetch'', ''web_fetch_tool_call'', ''webfetchtoolcall'', ''fetchtoolcall''}"
  by (simp add: is_fetch_tool_name_def)

text \<open>What the rewriting leaves, with the names of the client's two tools as parameters.\<close>

definition served :: "bool \<Rightarrow> bool \<Rightarrow> bool \<Rightarrow> event \<Rightarrow> bool" where
  "served search fetch server_fetch ev \<longleftrightarrow>
     ev_kind ev \<noteq> EventServerToolPermission \<and>
     (ev_kind ev \<in> {EventServerToolStarted, EventWebSearchResult} \<longrightarrow>
        (if is_fetch_tool_name (ev_tool_name ev) then server_fetch \<and> \<not> fetch
         else ev_kind ev = EventServerToolStarted \<and> \<not> equal_fold (ev_tool_name ev) ''web_search'' \<or> \<not> search)) \<and>
     (is_client_tool_event (ev_kind ev) \<and> is_fetch_tool_name (ev_tool_name ev) \<longrightarrow> fetch)"

lemma web_names [simp]: "is_fetch_tool_name ''web_fetch''" "\<not> is_fetch_tool_name ''web_search''"
    "equal_fold ''web_search'' ''web_search''"
  by code_simp+

lemma rewrite_fetch_served:
  assumes "rewrite_fetch_event ev f sf = Some ev'" "ev_kind ev = EventServerToolStarted \<or> is_client_tool_event (ev_kind ev)"
    and "f \<noteq> [] \<longrightarrow> is_fetch_tool_name f"
  shows "served q (f \<noteq> []) sf ev'"
  using assms
  by (auto simp: rewrite_fetch_event_def served_def rename_tool_def is_client_tool_event_def split: if_splits)

lemma rewrite_served:
  assumes "rewrite_native_web_search ev (declared_tool_names tools) ss sf = Some ev'"
  shows "served (offers tools [''websearch'', ''web_search'']) (offers tools [''webfetch'', ''web_fetch'']) sf ev'"
proof -
  define s f where "s = declared_client_tool_name (declared_tool_names tools) [''websearch'', ''web_search'']"
    and "f = declared_client_tool_name (declared_tool_names tools) [''webfetch'', ''web_fetch'']"
  have lower: "\<forall>a \<in> set [''websearch'', ''web_search'']. to_lower a = a" "\<forall>a \<in> set [''webfetch'', ''web_fetch'']. to_lower a = a"
    by code_simp+
  have o: "offers tools [''websearch'', ''web_search''] \<longleftrightarrow> s \<noteq> []" "offers tools [''webfetch'', ''web_fetch''] \<longleftrightarrow> f \<noteq> []"
    using search_tool(1) [OF lower(1)] fetch_tool(1) [OF lower(2)] by (simp_all add: s_def f_def)
  have sn: "s \<noteq> [] \<longrightarrow> \<not> is_fetch_tool_name s"
    using search_tool(2,3) [OF lower(1), of tools] by (auto simp: s_def fetch_name_shape)
  have fn: "f \<noteq> [] \<longrightarrow> is_fetch_tool_name f"
    using fetch_tool(2,3) [OF lower(2), of tools] by (auto simp: f_def fetch_name_shape)
  note r = assms [unfolded rewrite_native_web_search_def Let_def s_def [symmetric] f_def [symmetric]]
  show ?thesis unfolding o
  proof (cases "ev_kind ev = EventServerToolStarted \<or> is_client_tool_event (ev_kind ev)")
    case True
    show "served (s \<noteq> []) (f \<noteq> []) sf ev'"
    proof (cases "is_fetch_tool_name (ev_tool_name ev)")
      case fetch: True
      then have "rewrite_fetch_event ev f sf = Some ev'"
        using r True by (auto simp: is_client_tool_event_def)
      then show ?thesis using True fn by (rule rewrite_fetch_served)
    next
      case False
      then show ?thesis using r True sn
        by (auto simp: is_client_tool_event_def served_def rename_tool_def split: if_splits)
    qed
  next
    case False
    then show "served (s \<noteq> []) (f \<noteq> []) sf ev'"
    proof (cases "ev_kind ev = EventServerToolPermission \<or> ev_kind ev = EventWebSearchResult")
      case True
      then show ?thesis using r sn fn
        by (elim disjE) (auto simp: served_def rename_tool_def is_client_tool_event_def split: if_splits)
    next
      case other: False
      then have "ev' = ev"
        using r False by (cases "ev_kind ev") (simp_all add: is_client_tool_event_def split: if_splits)
      then show ?thesis using False other by (simp add: served_def is_client_tool_event_def)
    qed
  qed
qed

text \<open>The ids a Claude client is sent.\<close>

definition proper_id :: "bool \<Rightarrow> string \<Rightarrow> bool" where
  "proper_id server i \<longleftrightarrow> i = [] \<or> has_prefix i (if server then ''srvtoolu_'' else ''toolu_'')"

lemma prefix_append [simp]: "has_prefix (p @ s) p"
  by (simp add: has_prefix_iff)

lemma canonical_proper: "proper_id server (canonical_anthropic_tool_id i server)"
  using prefix_append [of "''srvtoolu_''"] prefix_append [of "''toolu_''"]
  by (auto simp: proper_id_def canonical_anthropic_tool_id_def Let_def)

lemma canonicalize_fields [simp]:
  "ev_kind (canonicalize_tool_event ev) = ev_kind ev" "ev_tool_name (canonicalize_tool_event ev) = ev_tool_name ev"
  by (simp_all add: canonicalize_tool_event_def)

lemma canonicalize_proper:
  "proper_id (ev_kind ev \<in> {EventServerToolStarted, EventWebSearchResult, EventServerToolPermission})
     (ev_tool_call_id (canonicalize_tool_event ev))"
  using canonical_proper [of "ev_kind ev \<in> {EventServerToolStarted, EventWebSearchResult, EventServerToolPermission}" "ev_tool_call_id ev"]
  by (cases "ev_tool_call_id ev = []") (simp_all add: canonicalize_tool_event_def proper_id_def)



text \<open>The flag that says whether the caller asked for searches on the server changes nothing.\<close>

lemma server_search_ignored:
  "translate_claude_event pb_value tools dialect True sf m = translate_claude_event pb_value tools dialect False sf m"
proof -
  have "rewrite_native_web_search ev names True sf = rewrite_native_web_search ev names False sf" for ev names
    by (simp add: rewrite_native_web_search_def)
  then show ?thesis by (simp only: translate_claude_event_def)
qed

subsection \<open>What the tracker sends\<close>

fun tracked :: "text_input list \<Rightarrow> assistant_stream \<Rightarrow> string \<times> assistant_stream" where
  "tracked [] s = ([], s)"
| "tracked (x # xs) s =
     (let (d, s) = (case x of Text_Input t \<Rightarrow> consume_delta t s | Snapshot_Input f \<Rightarrow> consume_snapshot f s);
          (ds, s) = tracked xs s in (d @ ds, s))"

lemma tracked_append: "tracked (xs @ ys) s = (let (d, s) = tracked xs s; (e, s) = tracked ys s in (d @ e, s))"
  by (induction xs arbitrary: s) (simp_all add: Let_def split: prod.splits)

lemma tracked_emitted: "as_emitted (snd (tracked xs s)) = as_emitted s @ fst (tracked xs s)"
proof (induction xs arbitrary: s)
  case (Cons x xs)
  obtain d s1 where d: "(case x of Text_Input t \<Rightarrow> consume_delta t s | Snapshot_Input f \<Rightarrow> consume_snapshot f s) = (d, s1)"
    by (cases "case x of Text_Input t \<Rightarrow> consume_delta t s | Snapshot_Input f \<Rightarrow> consume_snapshot f s")
  then have "as_emitted s1 = as_emitted s @ d"
    by (auto simp: consume_delta_def consume_snapshot_def Let_def split: text_input.splits if_splits)
  then show ?case using Cons.IH [of s1] d by (cases "tracked xs s1") simp
qed simp

text \<open>Every snapshot repeats what was sent before and goes on.\<close>

fun extending :: "text_input list \<Rightarrow> assistant_stream \<Rightarrow> bool" where
  "extending [] s \<longleftrightarrow> True"
| "extending (Text_Input t # xs) s \<longleftrightarrow> extending xs (snd (consume_delta t s))"
| "extending (Snapshot_Input f # xs) s \<longleftrightarrow> has_prefix f (as_emitted s) \<and> extending xs (snd (consume_snapshot f s))"

lemma extends_diff: "has_prefix full sent \<Longrightarrow> sent @ diff_suffix sent full = full"
  by (auto simp: diff_suffix_def has_prefix_iff)

text \<open>What a reader keeps that takes the last snapshot, or the deltas if there is none.\<close>

fun last_snapshot :: "text_input list \<Rightarrow> string option \<Rightarrow> string option" where
  "last_snapshot [] f = f"
| "last_snapshot (Text_Input _ # xs) f = last_snapshot xs f"
| "last_snapshot (Snapshot_Input g # xs) f = last_snapshot xs (if g = [] then f else Some g)"

fun all_deltas :: "text_input list \<Rightarrow> string" where
  "all_deltas [] = []"
| "all_deltas (Text_Input t # xs) = t @ all_deltas xs"
| "all_deltas (Snapshot_Input _ # xs) = all_deltas xs"

definition kept_text :: "text_input list \<Rightarrow> string" where
  "kept_text xs = (case last_snapshot xs None of Some f \<Rightarrow> f | None \<Rightarrow> all_deltas xs)"

lemma last_snapshot_kept: "last_snapshot xs (Some f) \<noteq> None"
  by (induction xs "Some f" arbitrary: f rule: last_snapshot.induct) auto

lemma tracked_kept:
  assumes "extending xs s"
  shows "as_emitted (snd (tracked xs s)) = (case last_snapshot xs (if as_saw_snapshot s then Some (as_emitted s) else None) of
     Some f \<Rightarrow> f | None \<Rightarrow> as_emitted s @ all_deltas xs)"
  using assms
proof (induction xs arbitrary: s)
  case (Cons x xs)
  show ?case
  proof (cases x)
    case (Text_Input t)
    then show ?thesis using Cons.IH [of "snd (consume_delta t s)"] Cons.prems
      by (cases "consume_delta t s") (auto simp: consume_delta_def Let_def last_snapshot_kept split: option.splits prod.splits if_splits)
  next
    case (Snapshot_Input f)
    then have "f \<noteq> [] \<Longrightarrow> as_emitted (snd (consume_snapshot f s)) = f" "f \<noteq> [] \<Longrightarrow> as_saw_snapshot (snd (consume_snapshot f s))"
      using Cons.prems extends_diff by (simp_all add: consume_snapshot_def Let_def)
    then show ?thesis using Cons.IH [of "snd (consume_snapshot f s)"] Cons.prems Snapshot_Input
      by (cases "f = []"; cases "consume_snapshot f s") (auto simp: consume_snapshot_def last_snapshot_kept split: prod.splits option.splits)
  qed
qed (simp split: option.splits)

text \<open>The text sent for growing snapshots is the text that such a reader keeps.\<close>

lemma tracked_text: "extending xs new_assistant_stream \<Longrightarrow> fst (tracked xs new_assistant_stream) = kept_text xs"
  using tracked_emitted [of xs new_assistant_stream] tracked_kept [of xs new_assistant_stream]
  by (simp add: kept_text_def new_assistant_stream_def split: option.splits)

text \<open>A snapshot that corrects the text is cut where its beginning happens to repeat the end of what was sent.\<close>

lemma correction_garbled:
  "fst (tracked [Text_Input ''about 4'', Snapshot_Input ''42 in all''] new_assistant_stream) = ''about 42 in all''"
  by code_simp

end
