(* ===== verification/PluginAnswer.thy ===== *)
theory PluginAnswer
  imports PluginEvents ChatDelivery AnthropicLoop OutputLimiter
begin

text \<open>
  The single answers of the plugin: \<^verbatim>\<open>buildOpenAINonStreaming\<close> and \<^verbatim>\<open>buildClaudeNonStreaming\<close> of
  \<^verbatim>\<open>plugin/cursor/kernel/execute.go\<close> and the functions they use. The upstream events are a list; the
  Claude answer also listens to timers, which are inputs beside the events.
\<close>

subsection \<open>Usage\<close>

definition estimate_claude_input_tokens :: "chat_shape \<Rightarrow> int" where
  "estimate_claude_input_tokens shape =
     (let n = plugin_count_tokens (sh_system_prompt shape @ sh_user_message shape @ concat (map ht_content (sh_history shape)) @
        concat (map (\<lambda>t. td_name t @ td_description t) (sh_tools shape)))
      in if n < 1 then 1 else n)"

definition no_usage :: usage where
  "no_usage = \<lparr>u_input = 0, u_output = 0, u_cache_read = 0, u_cache_write = 0, u_reasoning = 0, u_observed = 0, u_truncated = 0\<rparr>"

definition usage_with_observed_output :: "usage option \<Rightarrow> string \<Rightarrow> usage option" where
  "usage_with_observed_output u s =
     (if s = [] then u
      else Some ((case u of None \<Rightarrow> no_usage | Some v \<Rightarrow> v)
        \<lparr>u_observed := (if plugin_count_tokens s = 0 then 1 else plugin_count_tokens s)\<rparr>))"

definition usage_after_limit :: "usage option \<Rightarrow> limiter \<Rightarrow> usage option" where
  "usage_after_limit u l =
     (case u of
        None \<Rightarrow> None
      | Some v \<Rightarrow> if stop_reason_of l = None then u
          else Some (v\<lparr>u_truncated := (if emitted_tokens l = 0 then 1 else emitted_tokens l)\<rparr>))"

definition cursor_trailer_error :: "chat_event \<Rightarrow> string option" where
  "cursor_trailer_error ce = (case ce of Trailer_Event s \<Rightarrow> trailer_err s | _ \<Rightarrow> None)"

subsection \<open>Chat Completions\<close>

record openai_collect =
  oc_answer :: accumulator
  oc_saw_blob :: bool
  oc_delta :: string

definition collect_openai_event :: "(server_message \<Rightarrow> event option) \<Rightarrow> chat_event \<Rightarrow> openai_collect \<Rightarrow> openai_collect" where
  "collect_openai_event tr ce c =
     (case ce of
        Server_Event (Some m) \<Rightarrow>
          (case snapshot_of m of
             Some full \<Rightarrow> c\<lparr>oc_answer := (oc_answer c)\<lparr>na_text := full\<rparr>, oc_saw_blob := True\<rparr>
           | None \<Rightarrow>
               (case tr m of
                  None \<Rightarrow> c
                | Some ev \<Rightarrow>
                    if ev_kind ev = EventTextDelta then c\<lparr>oc_delta := oc_delta c @ ev_text ev\<rparr>
                    else if ev_kind ev = EventToolCallStarted then c\<lparr>oc_answer := consume ev (oc_answer c)\<rparr>
                    else if ev_kind ev = EventTurnEnded
                      then c\<lparr>oc_answer := (oc_answer c)\<lparr>na_usage := ev_usage ev, na_finish_stop := True\<rparr>\<rparr>
                    else c))
      | _ \<Rightarrow> c)"

fun collect_openai :: "(server_message \<Rightarrow> event option) \<Rightarrow> chat_event list \<Rightarrow> openai_collect \<Rightarrow> string + openai_collect" where
  "collect_openai tr [] c = Inr c"
| "collect_openai tr (ce # ces) c =
     (case cursor_trailer_error ce of
        Some e \<Rightarrow> Inl e
      | None \<Rightarrow> collect_openai tr ces (collect_openai_event tr ce c))"

definition finish_openai_answer :: "openai_collect \<Rightarrow> string + accumulator" where
  "finish_openai_answer c =
     (let a = oc_answer c;
          a = (if \<not> oc_saw_blob c \<and> oc_delta c \<noteq> [] then a\<lparr>na_text := oc_delta c\<rparr> else a);
          a = a\<lparr>na_usage := usage_with_observed_output (na_usage a) (na_text a)\<rparr>
      in if is_empty_upstream_response (na_text a \<noteq> [] \<or> na_tool_calls a \<noteq> []) (na_usage a) then Inl empty_upstream_message
         else Inr a)"

definition build_openai_non_streaming :: "(server_message \<Rightarrow> event option) \<Rightarrow> string \<Rightarrow> string \<Rightarrow> int \<Rightarrow> chat_event list \<Rightarrow>
    string + json" where
  "build_openai_non_streaming tr model uuid now ces =
     (case collect_openai tr ces \<lparr>oc_answer = new_accumulator model, oc_saw_blob = False, oc_delta = []\<rparr> of
        Inl e \<Rightarrow> Inl e
      | Inr c \<Rightarrow> (case finish_openai_answer c of
          Inl e \<Rightarrow> Inl e | Inr a \<Rightarrow> Inr (accumulator_response (''chatcmpl-'' @ uuid) now a)))"

subsection \<open>JSON in an answer\<close>

fun last_index_str :: "string \<Rightarrow> string \<Rightarrow> nat option" where
  "last_index_str [] p = (if p = [] then Some 0 else None)"
| "last_index_str (c # s) p =
     (case last_index_str s p of Some i \<Rightarrow> Some (Suc i) | None \<Rightarrow> if has_prefix (c # s) p then Some 0 else None)"

definition fence :: string where "fence = ''```''"

definition fenced_body :: "string \<Rightarrow> string" where
  "fenced_body trimmed =
     (let body = trim_prefix trimmed fence;
          body = (case index_byte body CHR 0x0A of Some i \<Rightarrow> drop (Suc i) body | None \<Rightarrow> body);
          body = (case last_index_str body fence of Some i \<Rightarrow> take i body | None \<Rightarrow> body)
      in trim_space body)"

text \<open>From the first opening bracket of the two kinds to the last closing one of the same kind.\<close>

definition json_part :: "string \<Rightarrow> string option" where
  "json_part t =
     (case (case (index_byte t CHR ''{'', index_byte t CHR ''['') of
          (None, None) \<Rightarrow> None
        | (None, Some j) \<Rightarrow> Some (j, CHR '']'')
        | (Some i, None) \<Rightarrow> Some (i, CHR ''}'')
        | (Some i, Some j) \<Rightarrow> Some (if i < j then (i, CHR ''}'') else (j, CHR '']''))) of
        None \<Rightarrow> None
      | Some (start, closer) \<Rightarrow>
          (case last_index_byte t closer of
             None \<Rightarrow> None
           | Some e \<Rightarrow> if e \<le> start then None else Some (drop start (take (Suc e) t))))"

definition strip_json_markdown_fences :: "string \<Rightarrow> string" where
  "strip_json_markdown_fences s =
     (let t = trim_space s in
      if t = [] then s
      else if has_prefix t fence \<and> json_valid (fenced_body t) then fenced_body t
      else case json_part t of
        Some candidate \<Rightarrow> if json_valid candidate then candidate else s
      | None \<Rightarrow> s)"

subsection \<open>Blocks of server tools\<close>

definition append_unique_server_tool_block :: "json \<Rightarrow> json list \<Rightarrow> json list" where
  "append_unique_server_tool_block b bs =
     (let field = (\<lambda>b k. map_get (as_map (Some b)) k); i = as_string (field b ''id'') in
      if field b ''type'' = Some (JStr ''server_tool_use'') \<and> i \<noteq> [] \<and>
         list_ex (\<lambda>e. field e ''type'' = Some (JStr ''server_tool_use'') \<and> as_string (field e ''id'') = i) bs
      then bs else bs @ [b])"

definition server_tool_block :: "string \<Rightarrow> string \<Rightarrow> json \<Rightarrow> json" where
  "server_tool_block i name input = JObj [(''id'', JStr i), (''input'', input), (''name'', JStr name),
     (''type'', JStr ''server_tool_use'')]"

definition tool_error_json :: "string \<Rightarrow> string \<Rightarrow> json" where
  "tool_error_json k code = JObj [(''error_code'', JStr code), (''type'', JStr k)]"

definition result_block_json :: "string \<Rightarrow> string \<Rightarrow> json \<Rightarrow> json" where
  "result_block_json k i content = JObj [(''content'', content), (''tool_use_id'', JStr i), (''type'', JStr k)]"

definition unavailable_block :: "string \<Rightarrow> string \<Rightarrow> json" where
  "unavailable_block i name =
     (if equal_fold name ''web_fetch''
      then result_block_json ''web_fetch_tool_result'' i (tool_error_json ''web_fetch_tool_result_error'' ''unavailable'')
      else result_block_json ''web_search_tool_result'' i (tool_error_json ''web_search_tool_result_error'' ''unavailable''))"

definition web_fetch_result_block :: "event \<Rightarrow> json" where
  "web_fetch_result_block ev =
     (let url = (case ev_web_results ev of [] \<Rightarrow> [] | r # _ \<Rightarrow> wr_url r);
          body = (case ev_web_results ev of [] \<Rightarrow> [] | r # _ \<Rightarrow> wr_chunk r);
          title = (case ev_web_results ev of [] \<Rightarrow> [] | r # _ \<Rightarrow> wr_title r);
          title = (if title = [] then url else title)
      in result_block_json ''web_fetch_tool_result'' (ev_tool_call_id ev)
           (if ev_tool_error ev \<noteq> [] then tool_error_json ''web_fetch_tool_result_error'' ''unavailable''
            else JObj [(''content'', JObj [(''citations'', JObj [(''enabled'', JBool True)]),
                (''source'', JObj [(''data'', JStr body), (''media_type'', JStr ''text/plain''), (''type'', JStr ''text'')]),
                (''title'', JStr title), (''type'', JStr ''document'')]),
              (''type'', JStr ''web_fetch_result''), (''url'', JStr url)]))"

definition web_search_result_block :: "event \<Rightarrow> json" where
  "web_search_result_block ev =
     result_block_json ''web_search_tool_result'' (ev_tool_call_id ev)
       (if ev_tool_error ev \<noteq> [] then tool_error_json ''web_search_tool_result_error'' (ev_tool_error ev)
        else JArr (map search_item_json (ev_web_results ev)))"

definition item_citation :: "string \<Rightarrow> nat \<times> json \<Rightarrow> json option" where
  "item_citation i = (\<lambda>(n, item).
     let field = map_get (as_map (Some item)); url = as_string (field ''url''); title = as_string (field ''title'') in
     if field ''type'' \<noteq> Some (JStr ''web_search_result'') then None
     else Some (citation_json i n \<lparr>wr_title = title, wr_url = url, wr_chunk = []\<rparr>))"

definition citations_from_server_tool_uses :: "json list \<Rightarrow> json list" where
  "citations_from_server_tool_uses bs =
     concat (map (\<lambda>b. let field = map_get (as_map (Some b)) in
       if field ''type'' \<noteq> Some (JStr ''web_search_tool_result'') then []
       else case field ''content'' of
         Some (JArr items) \<Rightarrow> List.map_filter (item_citation (as_string (field ''tool_use_id''))) (enumerate 0 items)
       | _ \<Rightarrow> []) bs)"

subsection \<open>Messages\<close>

text \<open>
  An upstream event with the milliseconds since the start, or the timer that fires. The single answer has no
  timer for the first output, and a timer that is not set does not fire.
\<close>

datatype plugin_input =
    Upstream nat chat_event | No_Output_Timer | Deadline_Timer | First_Output_Timer | Server_Tool_Timer

definition request_deadline_message :: string where
  "request_deadline_message = ''upstream did not complete the turn before the request deadline''"

definition no_output_deadline_message :: string where
  "no_output_deadline_message = ''upstream produced only heartbeats before the no-output deadline''"

record claude_collect =
  cc_text :: string
  cc_saw_blob :: bool
  cc_delta :: string
  cc_thinking :: string
  cc_signature :: string
  cc_usage :: "usage option"
  cc_tool_uses :: "json list"
  cc_server_tools :: "json list"
  cc_web_requests :: nat
  cc_pending_id :: string
  cc_pending_name :: string
  cc_saw_semantic :: bool

definition new_claude_collect :: claude_collect where
  "new_claude_collect = \<lparr>cc_text = [], cc_saw_blob = False, cc_delta = [], cc_thinking = [], cc_signature = [],
     cc_usage = None, cc_tool_uses = [], cc_server_tools = [], cc_web_requests = 0, cc_pending_id = [],
     cc_pending_name = [], cc_saw_semantic = False\<rparr>"

text \<open>The block that stands for the result that did not come.\<close>

definition give_up_on_server_tool :: "claude_collect \<Rightarrow> claude_collect" where
  "give_up_on_server_tool c =
     (if cc_pending_id c = [] then c
      else c\<lparr>cc_server_tools := append_unique_server_tool_block (unavailable_block (cc_pending_id c) (cc_pending_name c)) (cc_server_tools c),
             cc_web_requests := cc_web_requests c + 1, cc_pending_id := [], cc_pending_name := []\<rparr>)"

definition collect_claude_blob :: "blob_event \<Rightarrow> claude_collect \<Rightarrow> claude_collect" where
  "collect_claude_blob b c =
     c\<lparr>cc_text := (if be_assistant_text b \<noteq> [] then be_assistant_text b else cc_text c),
       cc_thinking := (if be_thought_text b \<noteq> [] then be_thought_text b else cc_thinking c),
       cc_signature := (if be_signature b \<noteq> [] then be_signature b else cc_signature c),
       cc_saw_blob := True, cc_saw_semantic := True\<rparr>"

definition collect_web_result :: "event \<Rightarrow> claude_collect \<Rightarrow> claude_collect" where
  "collect_web_result ev c =
     (let c = (if cc_pending_id c \<noteq> [] \<and> (ev_tool_call_id ev = [] \<or> ev_tool_call_id ev = cc_pending_id c)
               then c\<lparr>cc_pending_id := [], cc_pending_name := []\<rparr> else c) in
      if equal_fold (ev_tool_name ev) ''web_fetch''
      then c\<lparr>cc_server_tools := append_unique_server_tool_block (web_fetch_result_block ev) (cc_server_tools c)\<rparr>
      else c\<lparr>cc_server_tools := append_unique_server_tool_block (web_search_result_block ev) (cc_server_tools c),
             cc_web_requests := cc_web_requests c + 1\<rparr>)"

text \<open>\<open>rnd n\<close> are the random numbers for the id of the \<open>n\<close>-th call.\<close>

definition collect_claude_event :: "(string \<Rightarrow> string option) \<Rightarrow> (nat \<Rightarrow> nat list option) \<Rightarrow> event \<Rightarrow> claude_collect \<Rightarrow>
    claude_collect" where
  "collect_claude_event ft rnd ev c =
     (case ev_kind ev of
        EventTextDelta \<Rightarrow> c\<lparr>cc_delta := cc_delta c @ ev_text ev, cc_saw_semantic := True\<rparr>
      | EventThinkingDelta \<Rightarrow> c\<lparr>cc_thinking := cc_thinking c @ ev_text ev, cc_saw_semantic := True\<rparr>
      | EventSignatureDelta \<Rightarrow> c\<lparr>cc_signature := ev_text ev\<rparr>
      | EventToolCallStarted \<Rightarrow>
          (let i = canonical_anthropic_tool_id (ev_tool_call_id ev) False;
               i = (if i = [] then new_anthropic_tool_use_id (rnd (length (cc_tool_uses c))) else i)
           in c\<lparr>cc_saw_semantic := True, cc_tool_uses := cc_tool_uses c @ [JObj [(''id'', JStr i),
               (''input'', tool_input ft (ev_tool_args_delta ev)), (''name'', JStr (ev_tool_name ev)), (''type'', JStr ''tool_use'')]]\<rparr>)
      | EventServerToolStarted \<Rightarrow>
          (let c = c\<lparr>cc_saw_semantic := True, cc_server_tools := append_unique_server_tool_block
               (server_tool_block (ev_tool_call_id ev) (ev_tool_name ev) (tool_input ft (ev_tool_args_delta ev))) (cc_server_tools c)\<rparr>
           in if ev_tool_call_id ev \<noteq> [] then c\<lparr>cc_pending_id := ev_tool_call_id ev, cc_pending_name := ev_tool_name ev\<rparr> else c)
      | EventWebSearchResult \<Rightarrow> collect_web_result ev c
      | EventTurnEnded \<Rightarrow> c\<lparr>cc_usage := ev_usage ev\<rparr>
      | _ \<Rightarrow> c)"

definition collect_claude_message :: "(string \<Rightarrow> string option) \<Rightarrow> (nat \<Rightarrow> nat list option) \<Rightarrow> (server_message \<Rightarrow> event option) \<Rightarrow>
    server_message \<Rightarrow> claude_collect \<Rightarrow> claude_collect" where
  "collect_claude_message ft rnd tr m c =
     (case from_kv_blob m of
        Some b \<Rightarrow>
          if be_assistant_text b \<noteq> [] \<or> be_thought_text b \<noteq> [] \<or> be_signature b \<noteq> [] then collect_claude_blob b c
          else (case tr m of None \<Rightarrow> c | Some ev \<Rightarrow> collect_claude_event ft rnd ev c)
      | None \<Rightarrow> (case tr m of None \<Rightarrow> c | Some ev \<Rightarrow> collect_claude_event ft rnd ev c))"

fun collect_claude :: "(string \<Rightarrow> string option) \<Rightarrow> (nat \<Rightarrow> nat list option) \<Rightarrow> (server_message \<Rightarrow> event option) \<Rightarrow>
    plugin_input list \<Rightarrow> claude_collect \<Rightarrow> string + claude_collect" where
  "collect_claude ft rnd tr [] c = Inr (give_up_on_server_tool c)"
| "collect_claude ft rnd tr (Deadline_Timer # is) c = Inl request_deadline_message"
| "collect_claude ft rnd tr (No_Output_Timer # is) c =
     (if cc_saw_semantic c then collect_claude ft rnd tr is c else Inl no_output_deadline_message)"
| "collect_claude ft rnd tr (First_Output_Timer # is) c = collect_claude ft rnd tr is c"
| "collect_claude ft rnd tr (Server_Tool_Timer # is) c =
     (if cc_pending_id c = [] then collect_claude ft rnd tr is c else Inr (give_up_on_server_tool c))"
| "collect_claude ft rnd tr (Upstream t ce # is) c =
     (case cursor_trailer_error ce of
        Some e \<Rightarrow> Inl e
      | None \<Rightarrow> collect_claude ft rnd tr is
          (case ce of Server_Event (Some m) \<Rightarrow> collect_claude_message ft rnd tr m c | _ \<Rightarrow> c))"

text \<open>The text of the answer, cut by the limiter and freed of fences, and the limiter after it.\<close>

definition claude_text :: "chat_shape \<Rightarrow> limiter \<Rightarrow> claude_collect \<Rightarrow> string \<times> limiter" where
  "claude_text shape l c =
     (let s = (if \<not> cc_saw_blob c \<and> cc_delta c \<noteq> [] then cc_delta c else cc_text c);
          (s, l) = truncate_text l s
      in (if sh_json_schema shape \<noteq> [] then strip_json_markdown_fences s else s, l))"

definition claude_has_output :: "claude_collect \<Rightarrow> bool" where
  "claude_has_output c \<longleftrightarrow> (if \<not> cc_saw_blob c \<and> cc_delta c \<noteq> [] then cc_delta c else cc_text c) \<noteq> [] \<or>
     cc_thinking c \<noteq> [] \<or> cc_signature c \<noteq> [] \<or> cc_tool_uses c \<noteq> [] \<or> cc_server_tools c \<noteq> []"

definition claude_usage :: "int \<Rightarrow> limiter \<Rightarrow> string \<Rightarrow> claude_collect \<Rightarrow> usage option" where
  "claude_usage estimated l s c =
     (case usage_after_limit (usage_with_observed_output (cc_usage c)
         (s @ concat (map print_json (cc_tool_uses c)) @ concat (map print_json (cc_server_tools c)))) l of
        None \<Rightarrow> None
      | Some u \<Rightarrow> Some (if u_input u \<le> 0 \<and> estimated > 0 then u\<lparr>u_input := estimated\<rparr> else u))"

definition claude_content :: "string \<Rightarrow> claude_collect \<Rightarrow> json list" where
  "claude_content s c =
     (if cc_thinking c \<noteq> [] \<or> cc_signature c \<noteq> []
      then [JObj ((if cc_signature c \<noteq> [] then [(''signature'', JStr (cc_signature c))] else []) @
        [(''thinking'', JStr (cc_thinking c)), (''type'', JStr ''thinking'')])] else []) @
     cc_server_tools c @
     (if s \<noteq> []
      then [JObj ((if citations_from_server_tool_uses (cc_server_tools c) \<noteq> []
          then [(''citations'', JArr (citations_from_server_tool_uses (cc_server_tools c)))] else []) @
        [(''text'', JStr s), (''type'', JStr ''text'')])] else []) @
     cc_tool_uses c"

definition claude_stop :: "limiter \<Rightarrow> string \<Rightarrow> claude_collect \<Rightarrow> string \<times> json" where
  "claude_stop l s c =
     (case stop_reason_of l of
        Some (reason, sq) \<Rightarrow> (reason, if sq \<noteq> [] then JStr sq else JNull)
      | None \<Rightarrow> (anthropic_stop_reason s (cc_tool_uses c \<noteq> []), JNull))"

definition claude_response :: "string \<Rightarrow> nat list option \<Rightarrow> limiter \<Rightarrow> string \<Rightarrow> usage option \<Rightarrow> claude_collect \<Rightarrow> json" where
  "claude_response model rnd l s u c =
     JObj [(''content'', JArr (claude_content s c)), (''id'', JStr (new_anthropic_message_id rnd)), (''model'', JStr model),
       (''role'', JStr ''assistant''), (''stop_reason'', JStr (fst (claude_stop l s c))), (''stop_sequence'', snd (claude_stop l s c)),
       (''type'', JStr ''message''),
       (''usage'', JObj (map (\<lambda>(k, v). (k, json_int v)) (build_anthropic_usage u) @
         (if cc_web_requests c > 0
          then [(''server_tool_use'', JObj [(''web_search_requests'', json_int (int (cc_web_requests c)))])] else [])))]"

definition build_claude_non_streaming :: "(string \<Rightarrow> string option) \<Rightarrow> (nat \<Rightarrow> nat list option) \<Rightarrow> nat list option \<Rightarrow>
    (server_message \<Rightarrow> event option) \<Rightarrow> string \<Rightarrow> chat_shape \<Rightarrow> limiter \<Rightarrow> int \<Rightarrow> plugin_input list \<Rightarrow> string + json" where
  "build_claude_non_streaming ft rnd mid tr model shape l estimated is =
     (case collect_claude ft rnd tr is new_claude_collect of
        Inl e \<Rightarrow> Inl e
      | Inr c \<Rightarrow>
          let (s, l) = claude_text shape l c; u = claude_usage estimated l s c in
          if is_empty_upstream_response (claude_has_output c) u then Inl empty_upstream_message
          else Inr (claude_response model mid l s u c))"

definition upstream_events :: "plugin_input list \<Rightarrow> chat_event list" where
  "upstream_events is = List.map_filter (\<lambda>i. case i of Upstream _ ce \<Rightarrow> Some ce | _ \<Rightarrow> None) is"

text \<open>The plugin's two formats; the answer in the OpenAI format has no timers and no limiter.\<close>

definition collect_non_streaming :: "(string \<Rightarrow> string option) \<Rightarrow> (nat \<Rightarrow> nat list option) \<Rightarrow> nat list option \<Rightarrow>
    (string \<Rightarrow> string option) \<Rightarrow> string \<Rightarrow> int \<Rightarrow> string \<Rightarrow> chat_shape \<Rightarrow> limiter \<Rightarrow> int \<Rightarrow> plugin_input list \<Rightarrow> string + json" where
  "collect_non_streaming ft rnd mid pb_value uuid now format shape l estimated is =
     (if format = ''claude''
      then build_claude_non_streaming ft rnd mid (translate_claude_execute_event pb_value shape) (sh_model shape) shape l estimated is
      else build_openai_non_streaming (translate_plugin_event pb_value (sh_tools shape)) (sh_model shape) uuid now (upstream_events is))"

end
