(* ===== verification/JsonLines.thy ===== *)
theory JsonLines
  imports OpenAI JsonRoundtrip
begin

text \<open>Printed JSON has no line breaks, so a line of an event stream carries it whole.\<close>

definition one_line :: "string \<Rightarrow> bool" where
  "one_line s \<longleftrightarrow> CHR 0x0A \<notin> set s"

lemma one_line_simps [simp]:
  "one_line []" "one_line (c # s) \<longleftrightarrow> c \<noteq> CHR 0x0A \<and> one_line s" "one_line (s @ t) \<longleftrightarrow> one_line s \<and> one_line t"
  by (auto simp: one_line_def)

lemma rune_bytes_high: "0x80 \<le> byte_of c \<Longrightarrow> x \<in> set (take (rune_width (c # s)) (c # s)) \<Longrightarrow> 0x80 \<le> byte_of x"
proof -
  assume c: "0x80 \<le> byte_of c" and x: "x \<in> set (take (rune_width (c # s)) (c # s))"
  define b n where "b = byte_of c" and "n = rune_need b"
  obtain lo hi where sr: "second_range b = (lo, hi)" by (cases "second_range b")
  have lo: "0x80 \<le> lo" using sr by (auto simp: second_range_def split: if_splits)
  show ?thesis
  proof (cases "n \<le> 1 \<or> length s < n - 1 \<or> \<not> (in_range lo hi (s ! 0) \<and> (\<forall>i \<in> set [1 ..< n - 1]. in_range 0x80 0xBF (s ! i)))")
    case True
    then have "rune_width (c # s) = 1" by (auto simp: Let_def sr b_def [symmetric] n_def [symmetric])
    with x c show ?thesis by simp
  next
    case False
    then have w: "rune_width (c # s) = n" and hs: "in_range lo hi (s ! 0)" "\<forall>i. 1 \<le> i \<and> i < n - 1 \<longrightarrow> in_range 0x80 0xBF (s ! i)"
      and n: "1 < n" "n - 1 \<le> length s" by (auto simp: Let_def sr b_def [symmetric] n_def [symmetric])
    have "take n (c # s) = c # take (n - 1) s" using n by (cases n) auto
    then have "x = c \<or> x \<in> set (take (n - 1) s)" using x unfolding w by simp
    then consider "x = c" | i where "i < n - 1" "x = s ! i" using n(2) unfolding in_set_conv_nth by force
    then show ?thesis
    proof cases
      case (2 i)
      then show ?thesis using hs lo by (cases "i = 0") (auto simp: in_range_def Suc_le_eq)
    qed (use c in simp)
  qed
qed

lemma newline_low: "0x80 \<le> byte_of c \<Longrightarrow> c \<noteq> CHR 0x0A"
  by (auto simp: byte_of_def)

lemma escape_one_line: "one_line (escape_string s)"
proof (induction s rule: escape_string.induct)
  case (2 c s)
  have none: "hex_value CHR 0x0A = None" by (simp add: hex_value_def byte_of_def is_digit_def)
  have "hex_digit n \<noteq> CHR 0x0A" if "n < 16" for n
  proof
    assume e: "hex_digit n = CHR 0x0A"
    show False using hex_value_digit [OF that] unfolding e none by simp
  qed
  moreover have "byte_of c div 16 < 16" "byte_of c mod 16 < 16" using byte_of_less [of c] by (simp_all add: less_mult_imp_div_less del: byte_of_less)
  ultimately have "one_line (escape_char c)"
    by (simp add: escape_char_def)
  show ?case
  proof (cases "byte_of c < 0x80")
    case True
    then show ?thesis using 2(1) \<open>one_line (escape_char c)\<close> by simp
  next
    case False
    define w where "w = rune_width (c # s)"
    have "one_line (take w (c # s))"
      using rune_bytes_high [of c _ s] newline_low False unfolding one_line_def w_def by (metis not_le)
    moreover have "one_line (escape_string (drop w (c # s)))" using 2(2) False by (simp add: w_def del: rune_width.simps)
    ultimately show ?thesis using False
      by (simp add: Let_def flip: w_def del: rune_width.simps drop_Suc_Cons take_Suc_Cons)
  qed
qed simp

text \<open>Numbers that are written by the program.\<close>

fun plain_numbers :: "json \<Rightarrow> bool" where
  "plain_numbers (JNum n) \<longleftrightarrow> one_line n"
| "plain_numbers (JArr vs) \<longleftrightarrow> (\<forall>v \<in> set vs. plain_numbers v)"
| "plain_numbers (JObj ms) \<longleftrightarrow> (\<forall>m \<in> set ms. plain_numbers (snd m))"
| "plain_numbers _ \<longleftrightarrow> True"

lemma print_one_line:
  "plain_numbers v \<Longrightarrow> one_line (print_json v)"
  "\<forall>v \<in> set vs. plain_numbers v \<Longrightarrow> one_line (print_elems vs)"
  "\<forall>m \<in> set ms. plain_numbers (snd m) \<Longrightarrow> one_line (print_members ms)"
  by (induction v and vs and ms rule: print_json_print_elems_print_members.induct)
    (simp_all add: print_string_def escape_one_line)

lemma plain_int: "plain_numbers (json_int i)"
proof -
  have "one_line (nat_digits n)" for n
    using nat_digits_value [of n] unfolding one_line_def list_all_iff by (auto simp: is_digit_def byte_of_def)
  then show ?thesis by (simp add: json_int_def fmt_int_def)
qed

lemma plain_usage: "plain_numbers (build_openai_usage u)"
  by (cases u) (simp_all add: build_openai_usage_def Let_def plain_int)

lemma plain_chunk: "plain_numbers (chunk_json w c)"
  by (cases c) (simp_all add: chunk_json_def choice_json_def plain_int plain_usage)

end
