(* ===== verification/PluginStream.thy ===== *)
theory PluginStream
  imports PluginAnswer JsonLines
begin

text \<open>
  The streams of the plugin, \<^verbatim>\<open>streamOpenAI\<close> and \<^verbatim>\<open>streamClaude\<close> of \<^verbatim>\<open>plugin/cursor/kernel/execute.go\<close>.
  What is emitted goes to the host; \<open>host n\<close> is the error of the \<open>n\<close>-th emission, if any. A run ends with
  an error text for the host, or with none.
\<close>

subsection \<open>Chat Completions\<close>

text \<open>The host adds the framing itself, so the lines are unpacked again.\<close>

definition openai_payloads :: "string \<Rightarrow> string list" where
  "openai_payloads encoded =
     concat (map (\<lambda>line. let line = trim_space line; payload = trim_space (trim_prefix line ''data:'') in
       if has_prefix line ''data:'' \<and> payload \<noteq> [] then [payload] else []) (split_on CHR 0x0A encoded))"

record openai_run =
  or_writer :: openai_writer
  or_text :: assistant_stream
  or_saw_turn_end :: bool
  or_saw_output :: bool
  or_last_usage :: "usage option"
  or_sent :: "string list"
  or_error :: string
  or_returned :: bool

definition new_openai_run :: "bool \<Rightarrow> openai_writer \<Rightarrow> openai_run" where
  "new_openai_run include_usage w = \<lparr>or_writer = w\<lparr>ow_include_usage := include_usage\<rparr>, or_text = new_assistant_stream,
     or_saw_turn_end = False, or_saw_output = False, or_last_usage = None, or_sent = [], or_error = [], or_returned = False\<rparr>"

definition put_payload :: "(nat \<Rightarrow> string option) \<Rightarrow> string \<Rightarrow> openai_run \<Rightarrow> openai_run" where
  "put_payload host p r =
     (if or_returned r then r
      else case host (length (or_sent r)) of
        Some e \<Rightarrow> r\<lparr>or_error := e, or_returned := True\<rparr>
      | None \<Rightarrow> r\<lparr>or_sent := or_sent r @ [p]\<rparr>)"

definition emit_openai :: "(nat \<Rightarrow> string option) \<Rightarrow> chunk list \<Rightarrow> openai_run \<Rightarrow> openai_run" where
  "emit_openai host cs r = fold (put_payload host) (openai_payloads (concat (map (chunk_bytes (or_writer r)) cs))) r"

definition openai_write :: "(nat \<Rightarrow> string option) \<Rightarrow> event \<Rightarrow> openai_run \<Rightarrow> openai_run" where
  "openai_write host ev r = (case encode_openai ev (or_writer r) of (cs, w) \<Rightarrow> emit_openai host cs (r\<lparr>or_writer := w\<rparr>))"

definition openai_say :: "(nat \<Rightarrow> string option) \<Rightarrow> string \<times> assistant_stream \<Rightarrow> openai_run \<Rightarrow> openai_run" where
  "openai_say host = (\<lambda>(delta, s) r.
     if delta = [] then r\<lparr>or_text := s\<rparr>
     else openai_write host (text_delta delta) (r\<lparr>or_text := s, or_saw_output := True\<rparr>))"

definition openai_run_event :: "(nat \<Rightarrow> string option) \<Rightarrow> event \<Rightarrow> openai_run \<Rightarrow> openai_run" where
  "openai_run_event host ev r =
     (if ev_kind ev = EventTextDelta then openai_say host (consume_delta (ev_text ev) (or_text r)) r
      else if ev_kind ev = EventToolCallStarted \<or> ev_kind ev = EventToolCallDelta
        then openai_write host ev (r\<lparr>or_saw_output := True\<rparr>)
      else if ev_kind ev = EventTurnEnded then
        (let u = usage_with_observed_output (ev_usage ev) (as_emitted (or_text r)) in
         openai_write host (ev\<lparr>ev_usage := u\<rparr>) (r\<lparr>or_saw_turn_end := True, or_last_usage := u\<rparr>))
      else r)"

definition openai_run_step :: "(nat \<Rightarrow> string option) \<Rightarrow> (server_message \<Rightarrow> event option) \<Rightarrow> chat_event \<Rightarrow> openai_run \<Rightarrow>
    openai_run" where
  "openai_run_step host tr ce r =
     (if or_returned r then r
      else case cursor_trailer_error ce of
        Some e \<Rightarrow> r\<lparr>or_error := e, or_returned := True\<rparr>
      | None \<Rightarrow>
          (case ce of
             Server_Event (Some m) \<Rightarrow>
               (case snapshot_of m of
                  Some full \<Rightarrow> openai_say host (consume_snapshot full (or_text r)) r
                | None \<Rightarrow> (case tr m of None \<Rightarrow> r | Some ev \<Rightarrow> openai_run_event host ev r))
           | _ \<Rightarrow> r))"

definition finish_openai_run :: "(nat \<Rightarrow> string option) \<Rightarrow> openai_run \<Rightarrow> openai_run" where
  "finish_openai_run host r =
     (if or_returned r then r
      else if is_empty_upstream_response (or_saw_output r) (or_last_usage r)
        then r\<lparr>or_error := empty_upstream_message, or_returned := True\<rparr>
      else let r = (if \<not> or_saw_turn_end r \<and> ow_saw_tool_call (or_writer r) then openai_write host (turn_end None) r else r);
               r = emit_openai host (final_usage_frame (or_writer r)) r
           in emit_openai host final_done r)"

definition stream_openai_plugin :: "(nat \<Rightarrow> string option) \<Rightarrow> (server_message \<Rightarrow> event option) \<Rightarrow> bool \<Rightarrow> openai_writer \<Rightarrow>
    chat_event list \<Rightarrow> openai_run" where
  "stream_openai_plugin host tr include_usage w ces =
     finish_openai_run host (fold (openai_run_step host tr) ces (new_openai_run include_usage w))"

subsection \<open>Messages\<close>

definition first_output_timeout_message :: string where
  "first_output_timeout_message = ''upstream produced no content before first-output timeout''"

text \<open>The writer's encoding, whether a signature is expected, and the delay of the first heartbeat in milliseconds.\<close>

record claude_options =
  co_host :: "nat \<Rightarrow> string option"
  co_encode :: "event \<Rightarrow> anthropic_writer \<Rightarrow> sse_frame list \<times> anthropic_writer"
  co_translate :: "server_message \<Rightarrow> event option"
  co_expect :: bool
  co_preamble :: nat

record claude_run =
  cn_writer :: anthropic_writer
  cn_text :: assistant_stream
  cn_observed :: string
  cn_saw_output :: bool
  cn_signature_sent :: bool
  cn_started :: bool
  cn_ping_sent :: bool
  cn_pending :: string
  cn_last_usage :: "usage option"
  cn_limiter :: limiter
  cn_limited :: bool
  cn_first_timer :: bool
  cn_tool_id :: string
  cn_tool_name :: string
  cn_sent :: "sse_frame list"
  cn_emits :: nat
  cn_error :: string
  cn_returned :: bool

definition new_claude_run :: "anthropic_writer \<Rightarrow> int \<Rightarrow> limiter \<Rightarrow> claude_run" where
  "new_claude_run w estimated l = \<lparr>cn_writer = w\<lparr>aw_input_tokens := estimated\<rparr>, cn_text = new_assistant_stream, cn_observed = [],
     cn_saw_output = False, cn_signature_sent = False, cn_started = False, cn_ping_sent = False, cn_pending = [],
     cn_last_usage = None, cn_limiter = l, cn_limited = False, cn_first_timer = True, cn_tool_id = [], cn_tool_name = [],
     cn_sent = [], cn_emits = 0, cn_error = [], cn_returned = False\<rparr>"

definition claude_emit :: "claude_options \<Rightarrow> sse_frame list \<Rightarrow> claude_run \<Rightarrow> claude_run" where
  "claude_emit o' fs r =
     (case co_host o' (cn_emits r) of
        Some e \<Rightarrow> r\<lparr>cn_error := e, cn_returned := True\<rparr>
      | None \<Rightarrow> r\<lparr>cn_sent := cn_sent r @ fs, cn_emits := Suc (cn_emits r), cn_started := True\<rparr>)"

text \<open>Encode an event and emit it, unless there is nothing to emit.\<close>

definition claude_write :: "claude_options \<Rightarrow> event \<Rightarrow> claude_run \<Rightarrow> claude_run" where
  "claude_write o' ev r =
     (if cn_returned r then r
      else case co_encode o' ev (cn_writer r) of (fs, w) \<Rightarrow>
        if fs = [] then r\<lparr>cn_writer := w\<rparr> else claude_emit o' fs (r\<lparr>cn_writer := w\<rparr>))"

definition claude_fail :: "claude_options \<Rightarrow> string \<Rightarrow> claude_run \<Rightarrow> claude_run" where
  "claude_fail o' msg r =
     (if cn_started r then (claude_emit o' (encode_error ''api_error'' msg) r)\<lparr>cn_returned := True\<rparr>
      else r\<lparr>cn_error := msg, cn_returned := True\<rparr>)"

definition mark_output :: "claude_run \<Rightarrow> claude_run" where
  "mark_output r = (if cn_saw_output r then r else r\<lparr>cn_saw_output := True, cn_first_timer := False\<rparr>)"

definition admit_delta :: "string \<Rightarrow> claude_run \<Rightarrow> string \<times> claude_run" where
  "admit_delta delta r =
     (if cn_limited r then ([], r)
      else if \<not> active (cn_limiter r) then (delta, r)
      else case feed (cn_limiter r) delta of ((allowed, fin), l) \<Rightarrow>
        (allowed, r\<lparr>cn_limiter := l, cn_limited := fin\<rparr>))"

definition claude_say :: "claude_options \<Rightarrow> string \<times> assistant_stream \<Rightarrow> claude_run \<Rightarrow> claude_run" where
  "claude_say o' = (\<lambda>(delta, s) r.
     case admit_delta delta (r\<lparr>cn_text := s\<rparr>) of (allowed, r) \<Rightarrow>
       if allowed = [] then r
       else if co_expect o' \<and> \<not> cn_signature_sent r then (mark_output r)\<lparr>cn_pending := cn_pending r @ allowed\<rparr>
       else claude_write o' (text_delta allowed) (mark_output r))"

definition flush_pending_text :: "claude_options \<Rightarrow> claude_run \<Rightarrow> claude_run" where
  "flush_pending_text o' r =
     (if cn_returned r \<or> cn_pending r = [] then r
      else claude_write o' (text_delta (cn_pending r)) (r\<lparr>cn_pending := []\<rparr>))"

definition claude_run_blob :: "claude_options \<Rightarrow> blob_event \<Rightarrow> claude_run \<Rightarrow> claude_run" where
  "claude_run_blob o' b r =
     (let r = (if be_assistant_text b \<noteq> [] then claude_say o' (consume_snapshot (be_assistant_text b) (cn_text r)) r else r) in
      if \<not> cn_returned r \<and> co_expect o' \<and> \<not> cn_signature_sent r \<and> be_signature b \<noteq> []
      then flush_pending_text o' (claude_write o' (text_like EventSignatureDelta (be_signature b)) (r\<lparr>cn_signature_sent := True\<rparr>))
      else r)"

definition claude_heartbeat :: "claude_options \<Rightarrow> nat \<Rightarrow> event \<Rightarrow> claude_run \<Rightarrow> claude_run" where
  "claude_heartbeat o' t ev r =
     (let r = (if cn_saw_output r then r else r\<lparr>cn_first_timer := True\<rparr>) in
      if \<not> cn_started r then
        (if t < co_preamble o' then r
         else let r = claude_write o' ev r in if cn_started r then r\<lparr>cn_ping_sent := True\<rparr> else r)
      else let r = claude_emit o' [Ping] r in if cn_returned r then r else r\<lparr>cn_ping_sent := True\<rparr>)"

definition track_server_tool :: "event \<Rightarrow> claude_run \<Rightarrow> claude_run" where
  "track_server_tool ev r =
     (if ev_kind ev = EventServerToolStarted then
        (if ev_tool_call_id ev \<noteq> [] then r\<lparr>cn_tool_id := ev_tool_call_id ev, cn_tool_name := ev_tool_name ev\<rparr> else r)
      else if ev_kind ev = EventWebSearchResult then
        (if cn_tool_id r \<noteq> [] \<and> (ev_tool_call_id ev = [] \<or> ev_tool_call_id ev = cn_tool_id r)
         then r\<lparr>cn_tool_id := [], cn_tool_name := []\<rparr> else r)
      else r)"

definition claude_run_event :: "claude_options \<Rightarrow> nat \<Rightarrow> event \<Rightarrow> claude_run \<Rightarrow> claude_run" where
  "claude_run_event o' t ev r =
     (case ev_kind ev of
        EventTextDelta \<Rightarrow> claude_say o' (consume_delta (ev_text ev) (cn_text r)) r
      | EventThinkingDelta \<Rightarrow> claude_write o' ev (mark_output r)
      | EventHeartbeat \<Rightarrow> claude_heartbeat o' t ev r
      | EventTurnEnded \<Rightarrow> r\<lparr>cn_first_timer := False, cn_tool_id := [], cn_tool_name := [], cn_last_usage := ev_usage ev\<rparr>
      | k \<Rightarrow>
          (if k \<in> {EventToolCallStarted, EventToolCallDelta, EventToolCallCompleted, EventServerToolStarted, EventWebSearchResult}
           then claude_write o' ev (track_server_tool ev
             (mark_output (r\<lparr>cn_observed := cn_observed r @ ev_tool_args_delta ev\<rparr>)))
           else r))"

text \<open>The timer of a server tool runs while the tool is pending; it ends the turn.\<close>

definition server_tool_timeout :: "claude_options \<Rightarrow> claude_run \<Rightarrow> claude_run" where
  "server_tool_timeout o' r =
     (let result = (event_of EventWebSearchResult)\<lparr>ev_tool_call_id := cn_tool_id r, ev_tool_name := cn_tool_name r,
            ev_tool_error := ''unavailable''\<rparr>;
          r = claude_write o' result (r\<lparr>cn_tool_id := [], cn_tool_name := []\<rparr>)
      in (claude_write o' ((event_of EventTurnEnded)\<lparr>ev_stop_reason := ''end_turn''\<rparr>) r)\<lparr>cn_returned := True\<rparr>)"

definition claude_run_step :: "claude_options \<Rightarrow> plugin_input \<Rightarrow> claude_run \<Rightarrow> claude_run" where
  "claude_run_step o' i r =
     (if cn_returned r then r
      else case i of
        No_Output_Timer \<Rightarrow> if cn_saw_output r then r else claude_fail o' no_output_deadline_message r
      | Deadline_Timer \<Rightarrow> claude_fail o' request_deadline_message r
      | First_Output_Timer \<Rightarrow> if cn_first_timer r then claude_fail o' first_output_timeout_message r else r
      | Server_Tool_Timer \<Rightarrow> if cn_tool_id r = [] then r else server_tool_timeout o' r
      | Upstream t ce \<Rightarrow>
          (case cursor_trailer_error ce of
             Some e \<Rightarrow> claude_fail o' e r
           | None \<Rightarrow>
               (case ce of
                  Server_Event (Some m) \<Rightarrow>
                    (case from_kv_blob m of
                       Some b \<Rightarrow> claude_run_blob o' b r
                     | None \<Rightarrow> (case co_translate o' m of None \<Rightarrow> r | Some ev \<Rightarrow> claude_run_event o' t ev r))
                | _ \<Rightarrow> r)))"

definition claude_end_event :: "claude_run \<Rightarrow> event" where
  "claude_end_event r =
     (let u = usage_after_limit (usage_with_observed_output (cn_last_usage r) (as_emitted (cn_text r) @ cn_observed r)) (cn_limiter r)
      in case stop_reason_of (cn_limiter r) of
        Some (reason, sq) \<Rightarrow> (turn_end u)\<lparr>ev_stop_reason := reason, ev_stop_sequence := sq\<rparr>
      | None \<Rightarrow> turn_end u)"

definition finish_claude_run :: "claude_options \<Rightarrow> claude_run \<Rightarrow> claude_run" where
  "finish_claude_run o' r =
     (if cn_returned r then r
      else if is_empty_upstream_response (cn_saw_output r) (cn_last_usage r) then claude_fail o' empty_upstream_message r
      else let (rest, l) = flush (cn_limiter r);
               r = flush_pending_text o' (r\<lparr>cn_limiter := l, cn_pending := cn_pending r @ rest\<rparr>);
               r = (if cn_started r \<and> \<not> cn_ping_sent r
                    then (claude_write o' (event_of EventHeartbeat) r)\<lparr>cn_ping_sent := True\<rparr> else r)
           in (claude_write o' (claude_end_event r) r)\<lparr>cn_returned := True\<rparr>)"

definition stream_claude :: "claude_options \<Rightarrow> anthropic_writer \<Rightarrow> int \<Rightarrow> limiter \<Rightarrow> plugin_input list \<Rightarrow> claude_run" where
  "stream_claude o' w estimated l is = finish_claude_run o' (fold (claude_run_step o') is (new_claude_run w estimated l))"

end
