(* ===== verification/PluginDelivery.thy ===== *)
theory PluginDelivery
  imports PluginStream AnthropicDelivery
begin

text \<open>What the streams of the plugin deliver, on top of the writers' theorems.\<close>

subsection \<open>Frames that end a stream\<close>

definition terminal :: "sse_frame \<Rightarrow> bool" where
  "terminal f \<longleftrightarrow> (case f of Message_Stop \<Rightarrow> True | Error_Event _ _ \<Rightarrow> True | _ \<Rightarrow> False)"

lemma terminal_simps [simp]:
  "\<not> terminal (Message_Start i m j)" "\<not> terminal (Block_Start k b)" "\<not> terminal (Block_Delta k d)" "\<not> terminal (Block_Stop k)"
  "\<not> terminal Ping" "\<not> terminal (Message_Delta r s u n)" "terminal Message_Stop" "terminal (Error_Event t e)"
  by (simp_all add: terminal_def)

definition open_ended :: "sse_frame list \<Rightarrow> bool" where
  "open_ended fs \<longleftrightarrow> list_all (\<lambda>f. \<not> terminal f) fs"

lemma open_ended_simps [simp]:
  "open_ended []" "open_ended (f # fs) \<longleftrightarrow> \<not> terminal f \<and> open_ended fs" "open_ended (fs @ gs) \<longleftrightarrow> open_ended fs \<and> open_ended gs"
  by (simp_all add: open_ended_def)

lemma open_ended_map [simp]:
  "open_ended (map (\<lambda>c. Block_Delta i (Citations_Delta c)) cs)" "open_ended (map (\<lambda>(_, i). Block_Stop i) bs)"
  "open_ended (args_delta i ev)"
  by (auto simp: open_ended_def list_all_iff args_delta_def)

lemma open_parts:
  "open_ended (fst (start_frame w))" "open_ended (fst (close_current_block w))" "open_ended (fst (enter_block ty b w))"
  "open_ended (fst (stop_server_tool tid w))" "open_ended (fst (result_block b w))"
  by (auto simp: start_frame_def close_current_block_def enter_block_def stop_server_tool_def result_block_def Let_def
      split: option.splits)

lemma open_close_and_advance: "open_ended (fst (close_and_advance w))"
  using open_parts(2) [of w] by (auto simp: close_and_advance_def split: prod.splits)

lemma open_leave: "open_ended (fst (leave_other_block ty w))"
  using open_close_and_advance by (simp add: leave_other_block_def)

lemma openE: "f = (fs, w') \<Longrightarrow> open_ended (fst f) \<Longrightarrow> open_ended fs"
  by simp

lemmas open_frames = openE [OF _ open_parts(1)] openE [OF _ open_parts(2)] openE [OF _ open_parts(3)] openE [OF _ open_parts(4)]
  openE [OF _ open_parts(5)] openE [OF _ open_close_and_advance] openE [OF _ open_leave]

lemma open_fetch: "open_ended (fst (encode_web_fetch_result ev w))"
  by (auto simp: encode_web_fetch_result_def Let_def split: prod.splits dest: open_frames)

lemma open_search: "open_ended (fst (encode_web_search_result ev w))"
  using open_fetch by (auto simp: encode_web_search_result_def Let_def split: prod.splits dest: open_frames)

lemma open_orphan: "open_ended (fst (close_one_orphan tid w))"
  using open_fetch
  by (auto simp: close_one_orphan_def encode_web_search_error_result_def split: prod.splits dest: open_frames)

lemma open_orphans: "open_ended (fst (close_orphans ids w))"
proof (induction ids arbitrary: w)
  case (Cons tid ids)
  obtain f w1 where 1: "close_one_orphan tid w = (f, w1)" by (cases "close_one_orphan tid w")
  show ?case using Cons [of w1] openE [OF 1 open_orphan] by (auto simp: 1 split: prod.splits)
qed simp

lemma encode_open_ended:
  assumes "ev_kind ev \<noteq> EventTurnEnded"
  shows "open_ended (fst (encode rnd ord ev w))"
  using assms open_search
  by (cases "ev_kind ev")
    (auto simp: encode_def encode_text_delta_def encode_thinking_delta_def encode_signature_delta_def encode_heartbeat_def
      encode_tool_call_started_def encode_tool_call_delta_def encode_tool_call_completed_def encode_server_tool_started_def
      Let_def split: prod.splits option.splits dest: open_frames)

lemma encode_turn_end_frames:
  assumes "ev_kind ev = EventTurnEnded"
  shows "\<exists>fs. fst (encode rnd ord ev w) = fs @ [Message_Stop] \<and> open_ended fs"
proof -
  obtain f1 w1 where 1: "(if aw_block_open w
      then let (fs, w) = close_current_block w in (fs, w\<lparr>aw_block_open := False\<rparr>) else ([], w)) = (f1, w1)"
    by (meson surj_pair)
  let ?w2 = "w1\<lparr>aw_tool_blocks := None\<rparr>"
  obtain f3 w3 where 3: "close_orphan_server_tools ord ?w2 = (f3, w3)"
    by (cases "close_orphan_server_tools ord ?w2")
  have "open_ended f1" using 1 by (auto split: if_splits prod.splits dest: open_frames)
  moreover have "open_ended f3" using 3 open_orphans by (metis close_orphan_server_tools_def fst_conv)
  ultimately show ?thesis
    using assms unfolding encode_def encode_turn_ended_def Let_def 1 [unfolded Let_def] by (simp add: 3)
qed

subsection \<open>The end of a Messages stream\<close>

text \<open>A run is well so far: nothing was sent that ends the stream, and it started with the first frames sent.\<close>

definition run_open :: "claude_run \<Rightarrow> bool" where
  "run_open r \<longleftrightarrow> \<not> cn_returned r \<and> cn_error r = [] \<and> (cn_started r \<longleftrightarrow> cn_sent r \<noteq> []) \<and> open_ended (cn_sent r)"

text \<open>A run ended: with an error and nothing sent, or with one frame that ends the stream, the last.\<close>

definition run_ended :: "claude_run \<Rightarrow> bool" where
  "run_ended r \<longleftrightarrow> cn_returned r \<and>
     (cn_sent r = [] \<and> cn_error r \<noteq> [] \<or>
      cn_error r = [] \<and> (\<exists>fs f. cn_sent r = fs @ [f] \<and> terminal f \<and> open_ended fs))"

definition sound_options :: "claude_options \<Rightarrow> bool" where
  "sound_options o' \<longleftrightarrow> (\<forall>n. co_host o' n = None) \<and> (\<exists>rnd ord. co_encode o' = encode rnd ord)"

lemma write_open:
  assumes "sound_options o'" "ev_kind ev \<noteq> EventTurnEnded" "run_open r"
  shows "run_open (claude_write o' ev r)"
proof -
  obtain rnd ord where e: "co_encode o' = encode rnd ord" and h: "co_host o' n = None" for n
    using assms(1) by (auto simp: sound_options_def)
  obtain fs w where f: "encode rnd ord ev (cn_writer r) = (fs, w)" by (cases "encode rnd ord ev (cn_writer r)")
  have "open_ended fs" using encode_open_ended [OF assms(2)] f by (metis fst_conv)
  then show ?thesis using assms(3) by (auto simp: claude_write_def e f claude_emit_def h run_open_def)
qed

lemma fail_ended: "sound_options o' \<Longrightarrow> msg \<noteq> [] \<Longrightarrow> run_open r \<Longrightarrow> run_ended (claude_fail o' msg r)"
  by (auto simp: claude_fail_def claude_emit_def encode_error_def run_open_def run_ended_def sound_options_def)

lemma turn_end_ended:
  assumes "sound_options o'" "ev_kind ev = EventTurnEnded" "run_open r"
  shows "run_ended ((claude_write o' ev r)\<lparr>cn_returned := True\<rparr>)"
proof -
  obtain rnd ord where e: "co_encode o' = encode rnd ord" and h: "co_host o' n = None" for n
    using assms(1) by (auto simp: sound_options_def)
  obtain fs w where f: "encode rnd ord ev (cn_writer r) = (fs, w)" by (cases "encode rnd ord ev (cn_writer r)")
  obtain pre where "fs = pre @ [Message_Stop]" "open_ended pre"
    using encode_turn_end_frames [OF assms(2), of rnd ord "cn_writer r"] f by auto
  then show ?thesis using assms(3) by (auto simp: claude_write_def e f claude_emit_def h run_open_def run_ended_def)
qed

lemma open_updates [simp]:
  "run_open (r\<lparr>cn_writer := w\<rparr>) = run_open r" "run_open (r\<lparr>cn_text := s\<rparr>) = run_open r" "run_open (r\<lparr>cn_observed := x\<rparr>) = run_open r"
  "run_open (r\<lparr>cn_signature_sent := b\<rparr>) = run_open r" "run_open (r\<lparr>cn_ping_sent := b\<rparr>) = run_open r"
  "run_open (r\<lparr>cn_pending := x\<rparr>) = run_open r" "run_open (r\<lparr>cn_last_usage := u\<rparr>) = run_open r"
  "run_open (r\<lparr>cn_limiter := l\<rparr>) = run_open r" "run_open (r\<lparr>cn_limited := b\<rparr>) = run_open r"
  "run_open (r\<lparr>cn_first_timer := b\<rparr>) = run_open r" "run_open (r\<lparr>cn_tool_id := x\<rparr>) = run_open r"
  "run_open (r\<lparr>cn_tool_name := x\<rparr>) = run_open r" "run_open (r\<lparr>cn_saw_output := b\<rparr>) = run_open r"
  by (simp_all add: run_open_def)

lemma mark_open [simp]: "run_open (mark_output r) = run_open r"
  by (simp add: mark_output_def)

lemma track_open [simp]: "run_open (track_server_tool ev r) = run_open r"
  by (simp add: track_server_tool_def)

lemma admit_open: "admit_delta delta r = (a, r') \<Longrightarrow> run_open r' = run_open r"
  by (auto simp: admit_delta_def split: if_splits prod.splits)

lemma say_open:
  assumes "sound_options o'" "run_open r"
  shows "run_open (claude_say o' ds r)"
proof -
  obtain delta s where ds: "ds = (delta, s)" by (cases ds)
  obtain a r1 where a: "admit_delta delta (r\<lparr>cn_text := s\<rparr>) = (a, r1)" by (cases "admit_delta delta (r\<lparr>cn_text := s\<rparr>)")
  then have "run_open r1" using admit_open assms(2) by fastforce
  then show ?thesis using write_open [OF assms(1), of "text_delta a" "mark_output r1"]
    by (simp add: ds claude_say_def a)
qed

lemma flush_open: "sound_options o' \<Longrightarrow> run_open r \<Longrightarrow> run_open (flush_pending_text o' r)"
  using write_open [of o' "text_delta (cn_pending r)" "r\<lparr>cn_pending := []\<rparr>"] by (simp add: flush_pending_text_def)

lemma blob_open:
  assumes "sound_options o'" "run_open r"
  shows "run_open (claude_run_blob o' b r)"
proof -
  define r1 where "r1 = (if be_assistant_text b \<noteq> [] then claude_say o' (consume_snapshot (be_assistant_text b) (cn_text r)) r else r)"
  have "run_open r1" using assms say_open by (simp add: r1_def)
  then have "run_open (flush_pending_text o' (claude_write o' (text_like EventSignatureDelta (be_signature b)) (r1\<lparr>cn_signature_sent := True\<rparr>)))"
    by (intro flush_open write_open assms(1)) (simp_all add: text_like_def event_of_def)
  with \<open>run_open r1\<close> show ?thesis by (simp add: claude_run_blob_def Let_def flip: r1_def)
qed

lemma ping_open: "sound_options o' \<Longrightarrow> run_open r \<Longrightarrow> run_open (claude_emit o' [Ping] r)"
  by (auto simp: claude_emit_def sound_options_def run_open_def)

lemma heartbeat_open:
  assumes "sound_options o'" "ev_kind ev = EventHeartbeat" "run_open r"
  shows "run_open (claude_heartbeat o' t ev r)"
  using write_open [OF assms(1), of ev] ping_open [OF assms(1)] assms(2,3)
  by (auto simp: claude_heartbeat_def Let_def)

lemma event_open:
  assumes "sound_options o'" "run_open r"
  shows "run_open (claude_run_event o' t ev r)"
  using say_open [OF assms] write_open [OF assms(1), of ev] heartbeat_open [OF assms(1) _ assms(2), of ev t] assms(2)
  by (cases "ev_kind ev") (simp_all add: claude_run_event_def)

lemma tool_timeout_ended:
  assumes "sound_options o'" "run_open r"
  shows "run_ended (server_tool_timeout o' r)"
  unfolding server_tool_timeout_def Let_def
  by (intro turn_end_ended write_open assms(1)) (simp_all add: assms(2) event_of_def)

lemma trailer_message: "cursor_trailer_error ce = Some e \<Longrightarrow> e \<noteq> []"
  by (auto simp: cursor_trailer_error_def trailer_err_def Let_def split: chat_event.splits option.splits if_splits)

lemma step_kept:
  assumes "sound_options o'" "run_open r \<or> run_ended r"
  shows "run_open (claude_run_step o' i r) \<or> run_ended (claude_run_step o' i r)"
proof (cases "cn_returned r")
  case True
  then show ?thesis using assms(2) by (simp add: claude_run_step_def)
next
  case False
  then have o: "run_open r" using assms(2) by (simp add: run_ended_def)
  note f = fail_ended [OF assms(1) _ o]
  show ?thesis
    using False o f trailer_message tool_timeout_ended [OF assms(1) o] blob_open [OF assms(1) o] event_open [OF assms(1) o]
    by (auto simp: claude_run_step_def no_output_deadline_message_def request_deadline_message_def
        first_output_timeout_message_def split: plugin_input.splits chat_event.splits option.splits)
qed

lemma steps_kept:
  "sound_options o' \<Longrightarrow> run_open r \<or> run_ended r \<Longrightarrow>
     run_open (fold (claude_run_step o') is r) \<or> run_ended (fold (claude_run_step o') is r)"
proof (induction "is" arbitrary: r)
  case (Cons i ms)
  from Cons.IH [OF Cons.prems(1) step_kept [OF Cons.prems]] show ?case by simp
qed simp

lemma end_event_kind [simp]: "ev_kind (claude_end_event r) = EventTurnEnded"
  by (simp add: claude_end_event_def Let_def split: option.splits prod.splits)

lemma finish_ended:
  assumes "sound_options o'" "run_open r \<or> run_ended r"
  shows "run_ended (finish_claude_run o' r)"
proof (cases "cn_returned r")
  case True
  then show ?thesis using assms(2) by (auto simp: finish_claude_run_def run_open_def)
next
  case False
  then have o: "run_open r" using assms(2) by (simp add: run_ended_def)
  show ?thesis
  proof (cases "is_empty_upstream_response (cn_saw_output r) (cn_last_usage r)")
    case True
    then show ?thesis using False fail_ended [OF assms(1) _ o, of empty_upstream_message]
      by (simp add: finish_claude_run_def empty_upstream_message_def)
  next
    case nonempty: False
    obtain rest l where l: "flush (cn_limiter r) = (rest, l)" by (cases "flush (cn_limiter r)")
    define r1 where "r1 = flush_pending_text o' (r\<lparr>cn_limiter := l, cn_pending := cn_pending r @ rest\<rparr>)"
    define r2 where "r2 = (if cn_started r1 \<and> \<not> cn_ping_sent r1
      then (claude_write o' (event_of EventHeartbeat) r1)\<lparr>cn_ping_sent := True\<rparr> else r1)"
    have "run_open r1" using flush_open [OF assms(1)] o by (simp add: r1_def)
    then have "run_open r2" using write_open [OF assms(1), of "event_of EventHeartbeat" r1] by (simp add: r2_def event_of_def)
    then have "run_ended ((claude_write o' (claude_end_event r2) r2)\<lparr>cn_returned := True\<rparr>)"
      by (intro turn_end_ended assms(1)) simp_all
    then show ?thesis using False nonempty
      by (simp only: finish_claude_run_def l Let_def prod.case if_False r1_def [symmetric] r2_def [symmetric])
  qed
qed

lemma new_run_open: "run_open (new_claude_run w estimated l)"
  by (simp add: run_open_def new_claude_run_def)

text \<open>
  C9: Every Messages stream of the plugin comes to one end. Whatever the upstream sends and whichever timers
  fire, if the host takes what it is given, then either nothing was sent and the host gets an error,
  so that it may try elsewhere, or no error is returned and exactly the last frame sent ends the stream:
  the end of the message or an error event.
\<close>

theorem plugin_claude_stream_ends:
  "let r = stream_claude (o'\<lparr>co_host := \<lambda>_. None, co_encode := encode rnd ord\<rparr>) w estimated l is in
    cn_returned r \<and>
    (cn_sent r = [] \<and> cn_error r \<noteq> [] \<or>
     cn_error r = [] \<and> (\<exists>fs f. cn_sent r = fs @ [f] \<and> terminal f \<and> open_ended fs))"
proof -
  have o: "sound_options (o'\<lparr>co_host := \<lambda>_. None, co_encode := encode rnd ord\<rparr>)" by (auto simp: sound_options_def)
  have "run_ended (stream_claude (o'\<lparr>co_host := \<lambda>_. None, co_encode := encode rnd ord\<rparr>) w estimated l is)"
    unfolding stream_claude_def by (intro finish_ended steps_kept o disjI1 new_run_open)
  then show ?thesis by (simp add: run_ended_def Let_def)
qed

end
