(* ===== verification/PluginText.thy ===== *)
theory PluginText
  imports PluginDelivery
begin

text \<open>The text of a Messages stream of the plugin and of its single answer.\<close>

subsection \<open>The limiter\<close>

lemma feed_frame:
  assumes "feed l d = ((out, dn), l')"
  shows "active l' = active l" "active l \<Longrightarrow> dn = l_stopped l'" "\<not> active l \<Longrightarrow> out = d \<and> \<not> dn \<and> l' = l"
proof -
  have a: "active l' = active l" and b: "active l \<longrightarrow> dn = l_stopped l'"
    using assms admit_frame admit_outcome
    by (auto simp: feed_def Let_def active_def split: if_splits option.splits prod.splits; (fastforce dest: admit_frame admit_outcome)?)+
  show "active l' = active l" by (rule a)
  show "active l \<Longrightarrow> dn = l_stopped l'" using b by simp
  show "\<not> active l \<Longrightarrow> out = d \<and> \<not> dn \<and> l' = l" using assms by (simp add: feed_def)
qed

lemma feed_stopped: "active l \<Longrightarrow> l_stopped l \<Longrightarrow> feed l d = (([], True), l)"
  by (simp add: feed_def)

lemma feed_all_snoc: "feed_all l (ds @ [d]) = (let (out, l) = feed_all l ds; ((o', dn), l) = feed l d in (out @ o', l))"
  by (induction ds arbitrary: l) (auto simp: Let_def split: prod.splits)

subsection \<open>The stream\<close>

lemma write_keeps [simp]:
  "cn_pending (claude_write o' ev r) = cn_pending r" "cn_limiter (claude_write o' ev r) = cn_limiter r"
  "cn_limited (claude_write o' ev r) = cn_limited r" "cn_text (claude_write o' ev r) = cn_text r"
  "cn_signature_sent (claude_write o' ev r) = cn_signature_sent r" "cn_saw_output (claude_write o' ev r) = cn_saw_output r"
  by (simp_all add: claude_write_def claude_emit_def split: prod.splits option.splits)

lemma write_says:
  assumes "sound_options o'" "run_open r"
  shows "text_of (cn_sent (claude_write o' ev r)) = text_of (cn_sent r) @ step_text ev"
proof -
  obtain rnd ord where e: "co_encode o' = encode rnd ord" and h: "co_host o' n = None" for n
    using assms(1) by (auto simp: sound_options_def)
  obtain fs w where f: "encode rnd ord ev (cn_writer r) = (fs, w)" by (cases "encode rnd ord ev (cn_writer r)")
  have "text_of fs = step_text ev" using anthropic_text.enc_step [OF TrueI f] by simp
  then show ?thesis using assms(2) by (auto simp: claude_write_def e f claude_emit_def h run_open_def)
qed

text \<open>
  \<open>says o' l0 d r\<close>: the deltas of the tracker add up to \<open>d\<close>, and what the limiter let through was sent or
  waits for the signature.
\<close>

definition says :: "claude_options \<Rightarrow> limiter \<Rightarrow> string \<Rightarrow> claude_run \<Rightarrow> bool" where
  "says o' l0 d r \<longleftrightarrow> run_open r \<and>
     (\<exists>ds. concat ds = d \<and> feed_all l0 ds = (text_of (cn_sent r) @ cn_pending r, cn_limiter r)) \<and>
     active (cn_limiter r) = active l0 \<and> (cn_limited r \<longrightarrow> active l0 \<and> l_stopped (cn_limiter r)) \<and>
     (cn_pending r \<noteq> [] \<longrightarrow> co_expect o' \<and> \<not> cn_signature_sent r)"

lemma says_updates [simp]:
  "says o' l0 d (r\<lparr>cn_text := s\<rparr>) = says o' l0 d r" "says o' l0 d (r\<lparr>cn_observed := x\<rparr>) = says o' l0 d r"
  "says o' l0 d (r\<lparr>cn_ping_sent := b\<rparr>) = says o' l0 d r" "says o' l0 d (r\<lparr>cn_last_usage := u\<rparr>) = says o' l0 d r"
  "says o' l0 d (r\<lparr>cn_first_timer := b\<rparr>) = says o' l0 d r" "says o' l0 d (r\<lparr>cn_tool_id := x\<rparr>) = says o' l0 d r"
  "says o' l0 d (r\<lparr>cn_tool_name := x\<rparr>) = says o' l0 d r" "says o' l0 d (r\<lparr>cn_saw_output := b\<rparr>) = says o' l0 d r"
  by (simp_all add: says_def)

lemma says_marks [simp]: "says o' l0 d (mark_output r) = says o' l0 d r"
    "says o' l0 d (track_server_tool ev r) = says o' l0 d r"
  by (simp_all add: mark_output_def track_server_tool_def)

lemma says_silent:
  assumes "sound_options o'" "ev_kind ev \<noteq> EventTurnEnded" "ev_kind ev \<noteq> EventTextDelta" "says o' l0 d r"
  shows "says o' l0 d (claude_write o' ev r)"
proof -
  have "run_open r" using assms(4) by (simp add: says_def)
  with write_open [OF assms(1,2)] write_says [OF assms(1), of r ev] assms(3,4) show ?thesis
    by (simp add: says_def step_text_def)
qed

lemma admit_says:
  assumes "says o' l0 d r" "admit_delta delta r = (a, r')"
  shows "run_open r' \<and> (\<exists>ds. concat ds = d @ delta \<and> feed_all l0 ds = (text_of (cn_sent r') @ cn_pending r' @ a, cn_limiter r')) \<and>
    active (cn_limiter r') = active l0 \<and> (cn_limited r' \<longrightarrow> active l0 \<and> l_stopped (cn_limiter r')) \<and>
    (cn_pending r' \<noteq> [] \<longrightarrow> co_expect o' \<and> \<not> cn_signature_sent r')"
proof -
  obtain ds where ds: "concat ds = d" "feed_all l0 ds = (text_of (cn_sent r) @ cn_pending r, cn_limiter r)"
    and s: "run_open r" "active (cn_limiter r) = active l0" "cn_limited r \<longrightarrow> active l0 \<and> l_stopped (cn_limiter r)"
      "cn_pending r \<noteq> [] \<longrightarrow> co_expect o' \<and> \<not> cn_signature_sent r"
    using assms(1) by (auto simp: says_def)
  obtain b dn l where f: "feed (cn_limiter r) delta = ((b, dn), l)" by (metis prod.exhaust)
  have snoc: "concat (ds @ [delta]) = d @ delta" "feed_all l0 (ds @ [delta]) = (text_of (cn_sent r) @ cn_pending r @ b, l)"
    using ds by (simp_all add: feed_all_snoc f)
  consider "cn_limited r" | "\<not> cn_limited r" "\<not> active l0" | "\<not> cn_limited r" "active l0" by blast
  then show ?thesis
  proof cases
    case 1
    then have "a = []" "r' = r" using assms(2) by (simp_all add: admit_delta_def)
    moreover have "b = []" "l = cn_limiter r" using f feed_stopped s 1 by simp_all
    ultimately show ?thesis using snoc s by (intro conjI exI [of _ "ds @ [delta]"]) simp_all
  next
    case 2
    then have "a = delta" "r' = r" using assms(2) s by (simp_all add: admit_delta_def)
    moreover have "b = delta" "l = cn_limiter r" using feed_frame(3) [OF f] 2 s by simp_all
    ultimately show ?thesis using snoc s by (intro conjI exI [of _ "ds @ [delta]"]) simp_all
  next
    case 3
    then have "a = b" "r' = r\<lparr>cn_limiter := l, cn_limited := dn\<rparr>" using assms(2) s f by (simp_all add: admit_delta_def)
    then show ?thesis using snoc s feed_frame [OF f] 3 by (intro conjI exI [of _ "ds @ [delta]"]) simp_all
  qed
qed

lemma say_says:
  assumes "sound_options o'" "says o' l0 d r"
  shows "says o' l0 (d @ fst ds) (claude_say o' ds r) \<and> cn_text (claude_say o' ds r) = snd ds"
proof -
  obtain delta s where ds: "ds = (delta, s)" by (cases ds)
  obtain a r1 where a: "admit_delta delta (r\<lparr>cn_text := s\<rparr>) = (a, r1)" by (cases "admit_delta delta (r\<lparr>cn_text := s\<rparr>)")
  have t: "cn_text r1 = s" using a by (auto simp: admit_delta_def split: if_splits prod.splits)
  have "says o' l0 d (r\<lparr>cn_text := s\<rparr>)" using assms(2) by simp
  note i = admit_says [OF this a]
  show ?thesis
  proof (cases "a = [] \<or> co_expect o' \<and> \<not> cn_signature_sent r1")
    case True
    then show ?thesis using i t by (auto simp: ds claude_say_def a says_def mark_output_def)
  next
    case False
    define r2 where "r2 = mark_output r1"
    from False i t have r2: "run_open r2" "cn_pending r2 = []" "cn_pending r1 = []" "cn_sent r2 = cn_sent r1"
        "cn_limiter r2 = cn_limiter r1" "cn_limited r2 = cn_limited r1" "cn_text r2 = s"
      by (auto simp: mark_output_def r2_def)
    have r: "claude_say o' ds r = claude_write o' (text_delta a) r2" using False by (auto simp: ds claude_say_def a r2_def)
    have "run_open (claude_write o' (text_delta a) r2)" "text_of (cn_sent (claude_write o' (text_delta a) r2)) = text_of (cn_sent r1) @ a"
      using write_open [OF assms(1) _ r2(1), of "text_delta a"] write_says [OF assms(1) r2(1), of "text_delta a"] r2(4)
      by (simp_all add: step_text_def)
    with i r2 show ?thesis unfolding r by (simp add: says_def ds)
  qed
qed

lemma flush_says:
  assumes "sound_options o'" "says o' l0 d (r\<lparr>cn_signature_sent := False\<rparr>)" "co_expect o'"
  shows "says o' l0 d (flush_pending_text o' r)"
proof (cases "cn_pending r = []")
  case True
  then show ?thesis using assms(2) by (auto simp: flush_pending_text_def says_def)
next
  case False
  have o: "run_open (r\<lparr>cn_pending := []\<rparr>)" using assms(2) by (simp add: says_def)
  have r: "flush_pending_text o' r = claude_write o' (text_delta (cn_pending r)) (r\<lparr>cn_pending := []\<rparr>)"
    using False assms(2) by (auto simp: flush_pending_text_def says_def run_open_def)
  show ?thesis
    using write_open [OF assms(1) _ o, of "text_delta (cn_pending r)"] write_says [OF assms(1) o, of "text_delta (cn_pending r)"] assms(2)
    by (auto simp: r says_def step_text_def)
qed

lemma blob_says:
  assumes "sound_options o'" "says o' l0 d r" "be_assistant_text b \<noteq> []"
  shows "says o' l0 (d @ fst (consume_snapshot (be_assistant_text b) (cn_text r))) (claude_run_blob o' b r) \<and>
    cn_text (claude_run_blob o' b r) = snd (consume_snapshot (be_assistant_text b) (cn_text r))"
proof -
  define r1 where "r1 = claude_say o' (consume_snapshot (be_assistant_text b) (cn_text r)) r"
  let ?d = "d @ fst (consume_snapshot (be_assistant_text b) (cn_text r))"
  have s: "says o' l0 ?d r1" "cn_text r1 = snd (consume_snapshot (be_assistant_text b) (cn_text r))"
    using say_says [OF assms(1,2)] by (simp_all add: r1_def)
  let ?c = "\<not> cn_returned r1 \<and> co_expect o' \<and> \<not> cn_signature_sent r1 \<and> be_signature b \<noteq> []"
  have b: "claude_run_blob o' b r = (if ?c then flush_pending_text o'
      (claude_write o' (text_like EventSignatureDelta (be_signature b)) (r1\<lparr>cn_signature_sent := True\<rparr>)) else r1)"
    using assms(3) by (simp add: claude_run_blob_def Let_def r1_def)
  show ?thesis
  proof (cases ?c)
    case True
    define r2 where "r2 = claude_write o' (text_like EventSignatureDelta (be_signature b)) (r1\<lparr>cn_signature_sent := True\<rparr>)"
    have o: "run_open (r1\<lparr>cn_signature_sent := True\<rparr>)" using s by (simp add: says_def)
    have "run_open r2" "text_of (cn_sent r2) = text_of (cn_sent r1)"
      using write_open [OF assms(1) _ o, of "text_like EventSignatureDelta (be_signature b)"]
        write_says [OF assms(1) o, of "text_like EventSignatureDelta (be_signature b)"]
      by (simp_all add: r2_def text_like_def event_of_def step_text_def)
    then have "says o' l0 ?d (r2\<lparr>cn_signature_sent := False\<rparr>)"
      using s True by (simp add: says_def) (simp add: r2_def)
    then have "says o' l0 ?d (flush_pending_text o' r2)" by (rule flush_says [OF assms(1)]) (use True in simp)
    moreover have "cn_text (flush_pending_text o' r2) = cn_text r1" by (simp add: flush_pending_text_def r2_def)
    ultimately show ?thesis using True s by (simp add: b flip: r2_def)
  next
    case False
    then show ?thesis using s by (simp only: b if_False)
  qed
qed

lemma heartbeat_says:
  assumes "sound_options o'" "ev_kind ev = EventHeartbeat" "says o' l0 d r"
  shows "says o' l0 d (claude_heartbeat o' t ev r) \<and> cn_text (claude_heartbeat o' t ev r) = cn_text r"
proof -
  have p: "says o' l0 d (claude_emit o' [Ping] r)" if "says o' l0 d r" for r
    using that ping_open [OF assms(1), of r] assms(1)
    by (auto simp: says_def claude_emit_def sound_options_def)
  have w: "says o' l0 d (claude_write o' ev r)" if "says o' l0 d r" for r
    using says_silent [OF assms(1) _ _ that] assms(2) by simp
  show ?thesis using p w assms(3) by (auto simp: claude_heartbeat_def Let_def claude_emit_def split: option.splits)
qed

lemma event_says:
  assumes "sound_options o'" "says o' l0 d r" "ev_kind ev \<noteq> EventTextDelta"
  shows "says o' l0 d (claude_run_event o' t ev r) \<and> cn_text (claude_run_event o' t ev r) = cn_text r"
  using says_silent [OF assms(1), of ev] heartbeat_says [OF assms(1) _ assms(2), of ev t] assms
  by (cases "ev_kind ev") (simp_all add: claude_run_event_def track_server_tool_def mark_output_def)

definition good_input :: "plugin_input \<Rightarrow> bool" where
  "good_input i \<longleftrightarrow> (\<exists>t ce. i = Upstream t ce \<and> cursor_trailer_error ce = None)"

text \<open>A thought or a signature comes with the text it belongs to.\<close>

definition whole_blob :: "chat_event \<Rightarrow> bool" where
  "whole_blob ce \<longleftrightarrow> (\<forall>m b. ce = Server_Event (Some m) \<longrightarrow> from_kv_blob m = Some b \<longrightarrow>
     be_thought_text b \<noteq> [] \<or> be_signature b \<noteq> [] \<longrightarrow> be_assistant_text b \<noteq> [])"

lemma step_says:
  assumes "sound_options o'" "says o' l0 d r" "cursor_trailer_error ce = None" "whole_blob ce"
    and kv: "\<forall>m b. from_kv_blob m = Some b \<longrightarrow> co_translate o' m = None"
    and tr: "tracked (chat_input (co_translate o') ce) (cn_text r) = (e, s)"
  shows "says o' l0 (d @ e) (claude_run_step o' (Upstream t ce) r) \<and> cn_text (claude_run_step o' (Upstream t ce) r) = s"
proof (cases "\<exists>m. ce = Server_Event (Some m)")
  case False
  then show ?thesis using assms(2,3) tr
    by (auto simp: claude_run_step_def chat_input_def split: chat_event.splits option.splits)
next
  case True
  then obtain m where m: "ce = Server_Event (Some m)" by blast
  have n: "\<not> cn_returned r" using assms(2) by (simp add: says_def run_open_def)
  show ?thesis
  proof (cases "from_kv_blob m")
    case (Some b)
    then have step: "claude_run_step o' (Upstream t ce) r = claude_run_blob o' b r"
      using m n assms(3) by (simp add: claude_run_step_def)
    show ?thesis
    proof (cases "be_assistant_text b = []")
      case True
      then have "be_signature b = []" using assms(4) m Some by (auto simp: whole_blob_def)
      then show ?thesis using True assms(2) tr m Some kv [rule_format, OF Some] unfolding step
        by (auto simp: claude_run_blob_def chat_input_def snapshot_of_def)
    next
      case False
      then show ?thesis using blob_says [OF assms(1,2) False] tr m Some
        unfolding step by (auto simp: chat_input_def snapshot_of_def Let_def split: prod.splits)
    qed
  next
    case None
    show ?thesis
    proof (cases "co_translate o' m")
      case None
      then show ?thesis using \<open>from_kv_blob m = None\<close> m n assms(2,3) tr
        by (simp add: claude_run_step_def chat_input_def snapshot_of_def)
    next
      case (Some ev)
      then have step: "claude_run_step o' (Upstream t ce) r = claude_run_event o' t ev r"
        using None m n assms(3) by (simp add: claude_run_step_def)
      show ?thesis
      proof (cases "ev_kind ev = EventTextDelta")
        case True
        then show ?thesis using say_says [OF assms(1,2), of "consume_delta (ev_text ev) (cn_text r)"] tr m None Some
          unfolding step by (auto simp: claude_run_event_def chat_input_def snapshot_of_def Let_def split: prod.splits)
      next
        case False
        then show ?thesis using event_says [OF assms(1,2) False] tr m None Some
          unfolding step by (simp add: chat_input_def snapshot_of_def)
      qed
    qed
  qed
qed

lemma steps_say:
  assumes "sound_options o'" and kv: "\<forall>m b. from_kv_blob m = Some b \<longrightarrow> co_translate o' m = None"
    and "says o' l0 d r" "list_all good_input is" "list_all whole_blob (upstream_events is)"
  shows "says o' l0 (d @ fst (tracked (chat_inputs (co_translate o') (upstream_events is)) (cn_text r)))
    (fold (claude_run_step o') is r)"
  using assms(3-)
proof (induction "is" arbitrary: d r)
  case (Cons i ms)
  then obtain t ce where i: "i = Upstream t ce" "cursor_trailer_error ce = None" by (auto simp: good_input_def)
  then have u: "upstream_events (i # ms) = ce # upstream_events ms" by (simp add: upstream_events_def map_filter_simps)
  obtain e s where e: "tracked (chat_input (co_translate o') ce) (cn_text r) = (e, s)"
    by (cases "tracked (chat_input (co_translate o') ce) (cn_text r)")
  have w: "whole_blob ce" "list_all whole_blob (upstream_events ms)" using Cons.prems(3) by (simp_all add: u)
  note st = step_says [OF assms(1) Cons.prems(1) i(2) w(1) kv e, where t = t]
  then have "says o' l0 (d @ e) (claude_run_step o' i r)" "cn_text (claude_run_step o' i r) = s" by (simp_all add: i)
  from Cons.IH [OF this(1) _ w(2)] Cons.prems(2) this(2) e show ?case
    by (auto simp: u chat_inputs_def tracked_append split: prod.splits)
qed (simp add: upstream_events_def map_filter_simps chat_inputs_def)

subsection \<open>The single answer\<close>

text \<open>The text the answer keeps.\<close>

definition collected :: "claude_collect \<Rightarrow> string" where
  "collected c = (if \<not> cc_saw_blob c \<and> cc_delta c \<noteq> [] then cc_delta c else cc_text c)"

definition blob_text :: "claude_collect \<Rightarrow> string option" where
  "blob_text c = (if cc_saw_blob c then Some (cc_text c) else None)"

definition text_apart :: "claude_collect \<Rightarrow> bool" where
  "text_apart c \<longleftrightarrow> (cc_saw_blob c \<longleftrightarrow> cc_text c \<noteq> [])"

lemma collected_apart: "text_apart c \<Longrightarrow> collected c = (case blob_text c of Some f \<Rightarrow> f | None \<Rightarrow> cc_delta c)"
  by (auto simp: collected_def blob_text_def text_apart_def)

lemma give_up_keeps [simp]: "collected (give_up_on_server_tool c) = collected c"
  by (simp add: give_up_on_server_tool_def collected_def)

lemma event_collects:
  "text_apart (collect_claude_event ft rnd ev c) = text_apart c \<and> blob_text (collect_claude_event ft rnd ev c) = blob_text c \<and>
   cc_delta (collect_claude_event ft rnd ev c) = cc_delta c @ step_text ev"
  by (cases "ev_kind ev") (simp_all add: collect_claude_event_def collect_web_result_def Let_def blob_text_def text_apart_def step_text_def)

lemma message_collects:
  assumes "whole_blob (Server_Event (Some m))" "text_apart c" and kv: "\<forall>m b. from_kv_blob m = Some b \<longrightarrow> tr m = None"
  shows "text_apart (collect_claude_message ft rnd tr m c) \<and>
    blob_text (collect_claude_message ft rnd tr m c) = last_snapshot (chat_input tr (Server_Event (Some m))) (blob_text c) \<and>
    cc_delta (collect_claude_message ft rnd tr m c) = cc_delta c @ all_deltas (chat_input tr (Server_Event (Some m)))"
proof (cases "from_kv_blob m")
  case (Some b)
  with assms(1) have w: "be_thought_text b \<noteq> [] \<or> be_signature b \<noteq> [] \<longrightarrow> be_assistant_text b \<noteq> []" by (auto simp: whole_blob_def)
  show ?thesis
  proof (cases "be_assistant_text b = []")
    case True
    then show ?thesis using w Some kv [rule_format, OF Some] assms(2) by (simp add: collect_claude_message_def chat_input_def snapshot_of_def)
  next
    case False
    then show ?thesis using Some
      by (simp add: collect_claude_message_def collect_claude_blob_def chat_input_def snapshot_of_def blob_text_def text_apart_def)
  qed
next
  case None
  show ?thesis
  proof (cases "tr m")
    case None
    then show ?thesis using \<open>from_kv_blob m = None\<close> assms(2) by (simp add: collect_claude_message_def chat_input_def snapshot_of_def)
  next
    case (Some ev)
    then show ?thesis using event_collects [of ft rnd ev c] None assms(2)
      by (simp add: collect_claude_message_def chat_input_def snapshot_of_def step_text_def)
  qed
qed

lemma last_snapshot_append: "last_snapshot (xs @ ys) f = last_snapshot ys (last_snapshot xs f)"
  by (induction xs f rule: last_snapshot.induct) simp_all

lemma all_deltas_append: "all_deltas (xs @ ys) = all_deltas xs @ all_deltas ys"
  by (induction xs rule: all_deltas.induct) simp_all

lemma collect_text:
  assumes "list_all good_input is" "list_all whole_blob (upstream_events is)" "text_apart c"
    and kv: "\<forall>m b. from_kv_blob m = Some b \<longrightarrow> tr m = None"
  shows "\<exists>c'. collect_claude ft rnd tr is c = Inr c' \<and>
    collected c' = (case last_snapshot (chat_inputs tr (upstream_events is)) (blob_text c) of
      Some f \<Rightarrow> f | None \<Rightarrow> cc_delta c @ all_deltas (chat_inputs tr (upstream_events is)))"
  using assms(1-3)
proof (induction "is" arbitrary: c)
  case (Cons i ms)
  then obtain t ce where i: "i = Upstream t ce" "cursor_trailer_error ce = None" by (auto simp: good_input_def)
  then have u: "upstream_events (i # ms) = ce # upstream_events ms" by (simp add: upstream_events_def map_filter_simps)
  define c1 where "c1 = (case ce of Server_Event (Some m) \<Rightarrow> collect_claude_message ft rnd tr m c | _ \<Rightarrow> c)"
  have w: "whole_blob ce" "list_all whole_blob (upstream_events ms)" using Cons.prems(2) by (simp_all add: u)
  have "text_apart c1 \<and> blob_text c1 = last_snapshot (chat_input tr ce) (blob_text c) \<and>
      cc_delta c1 = cc_delta c @ all_deltas (chat_input tr ce)"
    using message_collects [OF _ Cons.prems(3) kv] w(1) Cons.prems(3)
    by (auto simp: c1_def chat_input_def split: chat_event.splits option.splits)
  moreover have "collect_claude ft rnd tr (i # ms) c = collect_claude ft rnd tr ms c1" using i by (simp add: c1_def)
  moreover have "list_all good_input ms" using Cons.prems(1) by simp
  ultimately show ?case using Cons.IH [of c1] w(2)
    by (simp add: u chat_inputs_def last_snapshot_append all_deltas_append cong: option.case_cong)
qed (simp add: upstream_events_def map_filter_simps chat_inputs_def collected_apart cong: option.case_cong)

subsection \<open>Both say the same\<close>

lemma feed_all_inactive: "\<not> active l \<Longrightarrow> feed_all l ds = (concat ds, l)"
  by (induction ds) (simp_all add: feed_def)

lemma new_says: "says o' l0 [] (new_claude_run w estimated l0)"
  unfolding says_def by (intro conjI exI [of _ "[]"] new_run_open) (simp_all add: new_claude_run_def text_of_def)

text \<open>A finished run that ends its message has sent what the limiter let through, the rest of it included.\<close>

lemma stop_nonempty:
  assumes "sound_options o'" "run_open r" "cn_sent (finish_claude_run o' r) = fs @ [Message_Stop]"
  shows "\<not> is_empty_upstream_response (cn_saw_output r) (cn_last_usage r)"
proof
  assume "is_empty_upstream_response (cn_saw_output r) (cn_last_usage r)"
  then have "cn_sent (claude_fail o' empty_upstream_message r) = fs @ [Message_Stop]"
    using assms(2,3) by (simp add: finish_claude_run_def run_open_def)
  then show False using assms(1,2)
    by (auto simp: claude_fail_def claude_emit_def encode_error_def run_open_def sound_options_def split: if_splits)
qed

lemma finish_says:
  assumes o: "sound_options o'" and s: "says o' l0 d r" and f: "\<not> is_empty_upstream_response (cn_saw_output r) (cn_last_usage r)"
  obtains ds out l rest l' pre reason sq usage n where
    "concat ds = d" "feed_all l0 ds = (out, l)" "flush l = (rest, l')" "text_of (cn_sent (finish_claude_run o' r)) = out @ rest"
    "cn_sent (finish_claude_run o' r) = pre @ [Message_Delta reason sq usage n, Message_Stop]"
    "\<forall>rs q. stop_reason_of l' = Some (rs, q) \<longrightarrow> reason = rs \<and> sq = (if q = [] then None else Some q)"
proof -
  have r: "run_open r" using s by (simp add: says_def)
  obtain ds where ds: "concat ds = d" "feed_all l0 ds = (text_of (cn_sent r) @ cn_pending r, cn_limiter r)"
    using s by (auto simp: says_def)
  obtain rest l where l: "flush (cn_limiter r) = (rest, l)" by (cases "flush (cn_limiter r)")
  define r0 where "r0 = r\<lparr>cn_limiter := l, cn_pending := cn_pending r @ rest\<rparr>"
  define r1 where "r1 = flush_pending_text o' r0"
  define r2 where "r2 = (if cn_started r1 \<and> \<not> cn_ping_sent r1
    then (claude_write o' (event_of EventHeartbeat) r1)\<lparr>cn_ping_sent := True\<rparr> else r1)"
  have r0: "run_open r0" using r by (simp add: r0_def)
  have r1: "run_open r1" "text_of (cn_sent r1) = text_of (cn_sent r) @ cn_pending r @ rest" "cn_limiter r1 = l"
    using flush_open [OF o r0] write_says [OF o, of "r0\<lparr>cn_pending := []\<rparr>" "text_delta (cn_pending r0)"] r0
    by (auto simp: r1_def flush_pending_text_def step_text_def) (auto simp: r0_def run_open_def)
  have r2: "run_open r2" "text_of (cn_sent r2) = text_of (cn_sent r) @ cn_pending r @ rest" "cn_limiter r2 = l"
    using write_open [OF o _ r1(1), of "event_of EventHeartbeat"] write_says [OF o r1(1), of "event_of EventHeartbeat"] r1
    by (auto simp: r2_def event_of_def step_text_def)
  have fin: "finish_claude_run o' r = (claude_write o' (claude_end_event r2) r2)\<lparr>cn_returned := True\<rparr>"
    using f r by (simp only: finish_claude_run_def l Let_def prod.case if_False r0_def [symmetric] r1_def [symmetric]
        r2_def [symmetric] run_open_def)
  have t: "text_of (cn_sent (finish_claude_run o' r)) = (text_of (cn_sent r) @ cn_pending r) @ rest"
    using write_says [OF o r2(1), of "claude_end_event r2"] r2(2) by (simp add: fin step_text_def)
  obtain rnd ord where e: "co_encode o' = encode rnd ord" and h: "co_host o' k = None" for k
    using o by (auto simp: sound_options_def)
  obtain gs w where g: "encode_turn_ended ord (claude_end_event r2) (cn_writer r2) = (gs, w)"
    by (cases "encode_turn_ended ord (claude_end_event r2) (cn_writer r2)")
  obtain pre n where gs: "gs = pre @ [Message_Delta
      (if ev_stop_reason (claude_end_event r2) \<noteq> [] then ev_stop_reason (claude_end_event r2)
       else anthropic_stop_reason (aw_text (cn_writer r2)) (aw_saw_tool_call (cn_writer r2)))
      (if ev_stop_sequence (claude_end_event r2) \<noteq> [] then Some (ev_stop_sequence (claude_end_event r2)) else None)
      (build_anthropic_usage (ev_usage (claude_end_event r2))) n, Message_Stop]"
    using turn_ended_summary [OF g] by blast
  have "claude_write o' (claude_end_event r2) r2 = claude_emit o' gs (r2\<lparr>cn_writer := w\<rparr>)"
    using r2(1) gs by (simp add: claude_write_def e encode_def g run_open_def)
  then have sent: "cn_sent (finish_claude_run o' r) = (cn_sent r2 @ pre) @ [Message_Delta
      (if ev_stop_reason (claude_end_event r2) \<noteq> [] then ev_stop_reason (claude_end_event r2)
       else anthropic_stop_reason (aw_text (cn_writer r2)) (aw_saw_tool_call (cn_writer r2)))
      (if ev_stop_sequence (claude_end_event r2) \<noteq> [] then Some (ev_stop_sequence (claude_end_event r2)) else None)
      (build_anthropic_usage (ev_usage (claude_end_event r2))) n, Message_Stop]"
    by (simp add: fin claude_emit_def h gs)
  have "rs \<noteq> [] \<and> ev_stop_reason (claude_end_event r2) = rs \<and> ev_stop_sequence (claude_end_event r2) = q"
    if "stop_reason_of l = Some (rs, q)" for rs q
    using that r2(3) by (auto simp: claude_end_event_def Let_def stop_reason_of_def split: if_splits)
  then show thesis using that [OF ds l t sent] by auto
qed

lemma execute_blob: "from_kv_blob m = Some b \<Longrightarrow> translate_claude_execute_event pb_value shape m = None"
  by (cases m) (simp_all add: from_kv_blob_def translate_claude_execute_event_def translate_claude_event_def from_server_message_def)

lemma truncate_chunks:
  assumes "m \<le> 0" "seqs = [] \<or> (\<exists>s. seqs = [s] \<and> s \<noteq> [])"
    and "feed_all (new_limiter m seqs) ds = (out, l)" "flush l = (rest, l')"
    and "truncate_text (new_limiter m seqs) (concat ds) = (whole, l'')"
  shows "out @ rest = whole \<and> stop_reason_of l' = stop_reason_of l''"
proof (cases "seqs = []")
  case True
  then have "\<not> active (new_limiter m seqs)" using assms(1) by (simp add: active_def)
  then show ?thesis using assms(3-) by (auto simp: feed_all_inactive flush_def truncate_text_def)
next
  case False
  then obtain s where "seqs = [s]" "s \<noteq> []" using assms(2) by auto
  then show ?thesis using limiter_chunking_independent assms(1,3-) by blast
qed


definition hi_options :: claude_options where
  "hi_options = \<lparr>co_host = \<lambda>_. None, co_encode = encode None (\<lambda>x. x), co_translate = translate_claude_execute_event (\<lambda>_. None) zero_shape,
     co_expect = False, co_preamble = 0\<rparr>"

definition hi_inputs :: "plugin_input list" where
  "hi_inputs = [Upstream 0 (Server_Event (Some (Msg_Update (Upd_Text ''abE'')))), Upstream 1 (Server_Event (Some (Msg_Update (Upd_Text ''ND!'')))),
     Upstream 2 (Server_Event (Some (Msg_Update (Upd_Turn_Ended 5 2 0 0 0))))]"

lemma hi_events:
  "from_kv_blob (Msg_Update u) = None"
  "co_translate hi_options (Msg_Update (Upd_Text s)) = Some (text_delta s)"
  "co_translate hi_options (Msg_Update (Upd_Turn_Ended 5 2 0 0 0)) = Some (turn_end (Some \<lparr>u_input = 5, u_output = 2,
     u_cache_read = 0, u_cache_write = 0, u_reasoning = 0, u_observed = 0, u_truncated = 0\<rparr>))"
  by (simp_all add: from_kv_blob_def hi_options_def translate_claude_execute_event_def translate_claude_event_def zero_shape_def
      from_server_message_def event_of_update_def rewrite_native_web_search_def declared_tool_names_def declared_client_tool_name_def
      is_client_tool_event_def text_delta_def turn_end_def event_of_def canonicalize_tool_event_def is_fetch_tool_name_def to_lower_def)

lemma hi_sound: "sound_options hi_options" "fst (encode_text_delta ev w) \<noteq> []"
  by (auto simp: sound_options_def hi_options_def) (simp add: encode_text_delta_def Let_def split: prod.splits)

lemma emit_saw [simp]: "cn_saw_output (claude_emit o' fs r) = cn_saw_output r" "cn_saw_output (claude_fail o' e r) = cn_saw_output r"
  by (simp_all add: claude_emit_def claude_fail_def split: option.splits)

lemma mark_saw [simp]: "cn_saw_output (mark_output r)" "cn_saw_output (track_server_tool ev r) = cn_saw_output r"
    "cn_saw_output (flush_pending_text o' r) = cn_saw_output r"
  by (simp_all add: mark_output_def track_server_tool_def flush_pending_text_def)

lemma say_saw: "cn_saw_output r \<Longrightarrow> cn_saw_output (claude_say o' ds r)"
  by (auto simp: claude_say_def admit_delta_def split: prod.splits)

lemma step_saw: "cn_saw_output r \<Longrightarrow> cn_saw_output (claude_run_step o' i r)"
  using say_saw
  by (auto simp: claude_run_step_def claude_run_event_def claude_run_blob_def claude_heartbeat_def server_tool_timeout_def Let_def
      split: plugin_input.splits option.splits chat_event.splits event_kind.splits)

lemma steps_saw: "cn_saw_output r \<Longrightarrow> cn_saw_output (fold (claude_run_step o') is r)"
  by (induction "is" arbitrary: r) (simp_all add: step_saw)

lemma hi_stream: "\<exists>fs. cn_sent (stream_claude hi_options (fresh_anthropic ''m'' None) 0 (new_limiter 0 [''END'']) hi_inputs) = fs @ [Message_Stop]"
proof -
  let ?l = "new_limiter 0 [''END'']" and ?w = "fresh_anthropic ''m'' None"
  let ?r = "fold (claude_run_step hi_options) hi_inputs (new_claude_run ?w 0 ?l)"
  have "feed ?l ''abE'' = ((''ab'', False), ?l\<lparr>l_emitted := ''ab'', l_pending := ''E''\<rparr>)" by code_simp
  then have "cn_saw_output (claude_run_step hi_options (hd hi_inputs) (new_claude_run ?w 0 ?l))"
    by (simp add: hi_inputs_def claude_run_step_def hi_events cursor_trailer_error_def claude_run_event_def claude_say_def
        admit_delta_def new_claude_run_def consume_delta_def new_assistant_stream_def active_def)
  then have saw: "cn_saw_output ?r" by (simp add: hi_inputs_def step_saw)
  have "says hi_options ?l (fst (tracked (chat_inputs (co_translate hi_options) (upstream_events hi_inputs)) (cn_text (new_claude_run ?w 0 ?l)))) ?r"
    by (rule steps_say [OF hi_sound(1) _ new_says, unfolded append_Nil])
     (auto simp: hi_options_def execute_blob good_input_def hi_inputs_def cursor_trailer_error_def upstream_events_def
        map_filter_simps whole_blob_def hi_events)
  from finish_says [OF hi_sound(1) this] saw show ?thesis
    unfolding stream_claude_def by (simp add: is_empty_upstream_response_def) (metis append.assoc append_Cons append_Nil)
qed

lemma hi_answer: "\<exists>body. build_claude_non_streaming ft ids mid (co_translate hi_options) ''m'' zero_shape (new_limiter 0 [''END'']) 0 hi_inputs = Inr body"
  by (simp add: build_claude_non_streaming_def hi_inputs_def cursor_trailer_error_def collect_claude_message_def hi_events
      collect_claude_event_def new_claude_collect_def give_up_on_server_tool_def claude_has_output_def is_empty_upstream_response_def
      split: prod.splits)


text \<open>Without the hypothesis on blobs: a saved thought makes the single answer forget the text that came in deltas.\<close>

lemma thought_drops_text:
  "collected (collect_claude_blob \<lparr>be_assistant_text = [], be_thought_text = ''hm'', be_signature = ''s''\<rparr>
     (collect_claude_event ft rnd (text_delta ''Hi'') new_claude_collect)) = []"
  by (simp add: collected_def collect_claude_blob_def collect_claude_event_def new_claude_collect_def)

text \<open>
  A text that is cut to nothing: the single answer is an empty message with its stop reason, while the
  stream judges what was sent and reports an upstream failure.
\<close>

definition cut_inputs :: "plugin_input list" where
  "cut_inputs = [Upstream 0 (Server_Event (Some (Msg_Update (Upd_Text ''END''))))]"

lemma cut_to_nothing:
  "cn_error (stream_claude hi_options w 0 (new_limiter 0 [''END'']) cut_inputs) = empty_upstream_message"
  "\<exists>body. build_claude_non_streaming ft ids mid (co_translate hi_options) model zero_shape (new_limiter 0 [''END'']) 0 cut_inputs = Inr body"
proof -
  have "feed (new_limiter 0 [''END'']) ''END'' = (([], True), (new_limiter 0 [''END''])\<lparr>l_stopped := True,
      l_stop_reason := ''stop_sequence'', l_stop_sequence := ''END''\<rparr>)" by code_simp
  then show "cn_error (stream_claude hi_options w 0 (new_limiter 0 [''END'']) cut_inputs) = empty_upstream_message"
    by (simp add: stream_claude_def cut_inputs_def claude_run_step_def hi_events cursor_trailer_error_def claude_run_event_def
        claude_say_def admit_delta_def new_claude_run_def consume_delta_def new_assistant_stream_def active_def
        finish_claude_run_def claude_fail_def is_empty_upstream_response_def)
  show "\<exists>body. build_claude_non_streaming ft ids mid (co_translate hi_options) model zero_shape (new_limiter 0 [''END'']) 0 cut_inputs = Inr body"
    by (simp add: build_claude_non_streaming_def cut_inputs_def cursor_trailer_error_def collect_claude_message_def hi_events
        collect_claude_event_def new_claude_collect_def give_up_on_server_tool_def claude_has_output_def is_empty_upstream_response_def
        split: prod.splits)
qed

text \<open>Of two pending server tools the single answer gives up on the later one only; the earlier gets no result block.\<close>

lemma earlier_tool_forgotten:
  "cc_server_tools (give_up_on_server_tool (collect_claude_event ft rnd ((event_of EventServerToolStarted)\<lparr>ev_tool_call_id := ''b'', ev_tool_name := ''web_search''\<rparr>)
     (collect_claude_event ft rnd ((event_of EventServerToolStarted)\<lparr>ev_tool_call_id := ''a'', ev_tool_name := ''web_search''\<rparr>) new_claude_collect))) =
   [server_tool_block ''a'' ''web_search'' (tool_input ft []), server_tool_block ''b'' ''web_search'' (tool_input ft []),
    unavailable_block ''b'' ''web_search'']"
proof -
  have n: "\<not> equal_fold ''web_search'' ''web_fetch''" by code_simp
  show ?thesis
    by (simp add: give_up_on_server_tool_def collect_claude_event_def new_claude_collect_def event_of_def append_unique_server_tool_block_def
        server_tool_block_def unavailable_block_def n result_block_json_def as_map_def map_get_def as_string_def Let_def)
qed

end
