(* ===== verification/Spec2Isabelle.thy ===== *)
theory Spec2Isabelle
  imports JsonRoundtrip OutputLimiter SimCacheWiring QuotaRoute ModelCatalog ProxyAuth AnthropicDelivery ResponsesHandler GeminiHandler CompletionsHandler Conversations SystemPrompt Attachments AccountPool ChatStream Introspection ModelPatterns PluginText
begin

text \<open>
  Verification library for cursor-proto, a proxy that speaks the OpenAI, Anthropic and Gemini
  protocols to its clients and Cursor's private protocol to the service.

  \<^bold>\<open>The program.\<close> A request enters through a handler of \<^verbatim>\<open>cmd/cursor-proxy\<close> (or the plugin in
  \<^verbatim>\<open>plugin/cursor/kernel\<close>), is turned into a call of \<^verbatim>\<open>executor\<close>, and the messages that stream back
  become provider-neutral events of \<^verbatim>\<open>translator\<close>. The handler passes the text of the events
  through the output limiter, feeds the events to the stream writer of the client's protocol (or
  to an accumulator when the client wants one answer), and turns an upstream failure, read from
  the trailer, into an HTTP error. The model catalog decides which model and variant a request
  means; the quota gate decides which account and lane may serve it; the simulated prefix cache
  supplies cache counters where upstream reports none.

  \<^bold>\<open>Theories.\<close>
  \<^item> Prelude: bytes, the \<^verbatim>\<open>strings\<close> and \<^verbatim>\<open>utf8\<close> functions, 64-bit arithmetic, the seen-map idiom.
  \<^item> OutputLimiter: \<^verbatim>\<open>translator/output_limit.go\<close>. Stop sequences, hold-back, token ceiling.
  \<^item> Base64, Json, JsonRoundtrip: the parts of \<^verbatim>\<open>encoding/base64\<close> and \<^verbatim>\<open>encoding/json\<close> that the
    sources use, and that printed JSON is read back. JsonAny: decoding into an untyped value, with the
    printing of floats as an argument.
  \<^item> Trailer: \<^verbatim>\<open>executor/trailer.go\<close>. Trailers and end-of-stream frames.
  \<^item> Upstream: the \<^verbatim>\<open>Usage\<close> struct with \<^verbatim>\<open>NormalizedOutputTokens\<close> of \<^verbatim>\<open>translator/events.go\<close> and
    \<^verbatim>\<open>cmd/cursor-proxy/upstream_error.go\<close>.
  \<^item> SimCache, SimCacheWiring: \<^verbatim>\<open>executor/simcache/store.go\<close> and its use in
    \<^verbatim>\<open>cmd/cursor-proxy/simcache_wiring.go\<close>. The store keeps a heap of entries, a map and a list of
    addresses, as the code does; the locale \<open>prefix_cache\<close> is what the wiring needs of it.
  \<^item> Events: the event struct and web results of \<^verbatim>\<open>translator/events.go\<close>; Refusal:
    \<^verbatim>\<open>translator/refusal.go\<close> with a matcher for its expressions.
  \<^item> StreamWriter: runs of a writer over events, and the locale \<open>text_writer\<close>, the contract that the
    four writers share. It is interpreted in AnthropicProtocol, OpenAI, ResponsesProtocol, Gemini.
  \<^item> Anthropic, AnthropicProtocol: \<^verbatim>\<open>translator/anthropic.go\<close>; the writer, and the protocol it speaks
    as an acceptor with the invariant that links both.
  \<^item> OpenAI: \<^verbatim>\<open>translator/openai.go\<close>; the writer, the accumulator, and the client that folds chunks.
  \<^item> Responses, ResponsesProtocol: \<^verbatim>\<open>translator/openai_responses.go\<close>; writer and accumulator, and the
    acceptor of its items.
  \<^item> Gemini: \<^verbatim>\<open>translator/gemini.go\<close>.
  \<^item> ModelCatalog: \<^verbatim>\<open>executor/models_catalog.go\<close> and the catalog cache of \<^verbatim>\<open>executor/models.go\<close>.
  \<^item> QuotaRoute: \<^verbatim>\<open>plugin/cursor/kernel/quota_route.go\<close>.
  \<^item> ProxyAuth: \<^verbatim>\<open>cmd/cursor-proxy/auth_middleware.go\<close>, the key gate in front of all handlers.
  \<^item> ClientTools: \<^verbatim>\<open>executor/tools.go\<close> and the tool names of \<^verbatim>\<open>translator/native_tool_adapter.go\<close>;
    NativeTools, NativeArgs: the arguments of native tool calls and what a client reads from them.
  \<^item> ServerMessages: \<^verbatim>\<open>FromServerMessage\<close> of \<^verbatim>\<open>translator/events.go\<close> with the client's tool contract of
    \<^verbatim>\<open>cmd/cursor-proxy/tool_alias.go\<close>, from decoded messages to events.
  \<^item> AssistantText: \<^verbatim>\<open>translator/kv.go\<close> and the tracker of \<^verbatim>\<open>main.go\<close> that merges text deltas and
    snapshots.
  \<^item> ChatLoop: the loop that the streaming handlers share, over any writer, with the Chat Completions
    handlers of \<^verbatim>\<open>main.go\<close>. ChatDelivery: the loop is a run of the writer over the events it hands
    over, so that what is proved of writers holds of responses.
  \<^item> AnthropicLoop, AnthropicDelivery: the Messages handlers of \<^verbatim>\<open>main.go\<close> and what their client
    receives. ResponsesHandler, GeminiHandler, CompletionsHandler: \<^verbatim>\<open>responses_handler.go\<close>,
    \<^verbatim>\<open>gemini_handler.go\<close> and \<^verbatim>\<open>completions_handler.go\<close>.
  \<^item> JsonStruct: decoding of JSON into Go structs and \<^verbatim>\<open>request_body.go\<close>. RequestCommon: the request that
    every handler gives to \<^verbatim>\<open>RunChat\<close>, \<^verbatim>\<open>structured_output.go\<close>.
  \<^item> ProxyRequests, ResponsesRequest, GeminiRequest, CompletionsHandler: from the decoded body of a request
    to the call of \<^verbatim>\<open>RunChat\<close> or the refusal, for each protocol, and \<^verbatim>\<open>count_tokens_handler.go\<close>.
    Conversations compares what they make of a conversation.
  \<^item> SystemPrompt, Attachments: \<^verbatim>\<open>systemprompt.go\<close>, \<^verbatim>\<open>documents.go\<close> and \<^verbatim>\<open>images.go\<close> of \<^verbatim>\<open>executor\<close>, the
    rewriting of the user text before it is sent.
  \<^item> Checksum: \<^verbatim>\<open>auth/checksum.go\<close> and \<^verbatim>\<open>auth/jwt.go\<close>. Platform: the account of \<^verbatim>\<open>auth/account.go\<close> and the
    client platform and headers of \<^verbatim>\<open>executor/platform.go\<close> and \<^verbatim>\<open>executor/headers.go\<close>.
  \<^item> AuthFiles: \<^verbatim>\<open>sdk/cpaformat\<close>, accounts and their files. AccountPool: \<^verbatim>\<open>sdk/batch\<close>, imports and the pool.

  \<^bold>\<open>How the code is modelled.\<close> A struct is a record with the code's fields, a string is its list of
  bytes, an \<^verbatim>\<open>int\<close> or \<^verbatim>\<open>int64\<close> that can grow is an integer wrapped by \<open>i64\<close>, a \<^verbatim>\<open>float64\<close> percentage is
  a rational. A method returns its result and the updated record. A Go map is a list of pairs with
  distinct keys; where the code iterates over one, the order is an argument and the theorems hold
  for every permutation. Random bytes, unique ids, clocks, and the results of network calls are
  arguments. Frames are values of a datatype with functions that give their JSON and bytes. A
  nil event, which the writers ignore, has no counterpart: runs are over real events. Case
  mapping is that of ASCII.

  \<^bold>\<open>What is proved.\<close> Every stream is well formed for its protocol: the Anthropic blocks, the
  Responses items and sequence numbers, the Chat Completions indexes and roles. All four streams
  carry the same text, and the streams agree with the single answers on text and tool calls,
  under the conditions stated. Server messages become well-formed events; tool names come out in the
  client's own spelling, arguments as JSON it reads back. Whole requests, from upstream messages to
  the bytes of a stream or a single answer, deliver the merged text and the calls of the upstream,
  in every protocol. The limiter sends a prefix of the text, up to the first stop
  sequence, within the token ceiling, independent of chunking. The cache is an LRU list with a
  time to live. Trailers round-trip and failures map to consistent statuses. Advertised models
  are the servable ones, resolution never mixes variants, cached quotas and catalogs are fresh
  and belong to the account. The same conversation becomes the same upstream request in every
  protocol; which turns each protocol sends is characterised exactly. The checksum header can be
  read back, an account survives its file, the client surface is consistent, and imports only
  make usable accounts. Theorems about single concrete event orders mark the places where
  the code departs from these rules.

  \<^bold>\<open>Fuel and termination.\<close> The JSON parser spends one unit of fuel per step; \<open>json_fuel\<close> gives twice the
  length of the input plus two, and two steps never pass without consuming a byte. All other
  definitions terminate, by structural recursion or by a measure: the string trimming, the suffix
  stripping, the link search, the JSON string scanner, and the varint and rune loops.

  \<^bold>\<open>Not modelled.\<close> Network, process and file operations, logging, HTML and login flows, and generated
  protobuf code. Of the program's own logic these parts are still open: the building of the
  protobuf request, the compact model listing, and the plugin's execute path. Concurrency is
  modelled only where a mutex makes each call atomic.
\<close>

text \<open>
  C2: Every protocol delivers the same text. For the same events, the text deltas of the Anthropic,
  Chat Completions, Responses and Gemini streams add up to the same string, the text of the
  turn's text events, whatever the ids, the map orders and the state before.
\<close>

theorem writers_say_the_same_text:
  "text_of (fst (run_writer (encode rnd ord1) evs aw)) = events_text evs \<and>
   chunk_text (fst (run_writer encode_openai evs ow)) = events_text evs \<and>
   delta_text (fst (run_writer (encode_responses uuid ord2) evs rw)) = events_text evs \<and>
   gemini_text (fst (run_writer (encode_gemini ord3) evs gw)) = events_text evs"
  using anthropic_text.run_text [of rnd ord1 evs aw] openai_text.run_text [of evs ow]
    responses_text.run_text [of uuid ord2 evs rw] gemini_text.run_text [of ord3 evs gw]
  by (metis TrueI prod.collapse)

end
